(* ===== verification/Prelude.thy ===== *)
theory Prelude
  imports Main "HOL-Library.Word"
begin

text \<open>
  Shared vocabulary of the development: Python bytes as lists of 8-bit words, Python
  exceptions as the left summand of a result, sequencing of fallible steps, slices and
  searches on byte strings, and the big-endian conversions of
  \<^verbatim>\<open>int.to_bytes\<close>, \<^verbatim>\<open>int.from_bytes\<close> and \<^verbatim>\<open>struct\<close>.  Every other theory builds on
  this one.
\<close>

unbundle bit_operations_syntax

named_theorems py_eval \<open>equations that evaluate the models on concrete inputs\<close>
named_theorems wire_len \<open>lengths of encoded byte strings\<close>

section \<open>Bytes, exceptions and results\<close>

type_synonym byte = "8 word"
type_synonym bytes = "byte list"

text \<open>
  The exceptions the modelled modules raise, one constructor per class, plus the built-in
  ones their standard-library calls raise.  \<open>OutOfModel\<close> marks an input form the model does
  not follow (each use says which).
\<close>

datatype exn =
    HdlcError string | IncompleteFrame string | AxdrError string | AcseError string
  | WrapperError string | SecurityError string | XdlmsError string | CosemAccessError int
  | SessionError string | PortError string | CoordinatorUnavailable string
  | RtuFramingError string | AccessConfigError string | PackageError string string
  | ValueError string | OverflowError | TypeError | AttributeError | IndexError | KeyError
  | StructError | UnicodeEncodeError | PermissionError string | BlockingIOError
  | RecursionError | TimeoutError string | OSError string | OutOfModel string
  | IncompleteReadError | ConnectionResetError | RuntimeError string | CancelledError

type_synonym 'a result = "exn + 'a"

text \<open>Sequencing: the first exception wins, as in the source.\<close>

fun bindE :: "'e + 'a \<Rightarrow> ('a \<Rightarrow> 'e + 'b) \<Rightarrow> 'e + 'b" where
  "bindE (Inl e) f = Inl e"
| "bindE (Inr x) f = f x"

lemma bindE_cong [fundef_cong]:
  "m = m' \<Longrightarrow> (\<And>x. m' = Inr x \<Longrightarrow> f x = f' x) \<Longrightarrow> bindE m f = bindE m' f'"
  by (cases m') auto

lemma bindE_Inr_conv: "bindE m f = Inr y \<longleftrightarrow> (\<exists>x. m = Inr x \<and> f x = Inr y)"
  by (cases m) auto

lemma bindE_Inl_conv: "bindE m f = Inl e \<longleftrightarrow> m = Inl e \<or> (\<exists>x. m = Inr x \<and> f x = Inl e)"
  by (cases m) auto

lemma bindE_InrE:
  assumes "bindE m f = Inr y"
  obtains x where "m = Inr x" and "f x = Inr y"
  using assms by (auto simp: bindE_Inr_conv)

definition is_ok :: "'e + 'a \<Rightarrow> bool" where
  "is_ok r = (case r of Inl _ \<Rightarrow> False | Inr _ \<Rightarrow> True)"

lemma is_ok_simps [simp]: "is_ok (Inr x)" "\<not> is_ok (Inl e)"
  by (simp_all add: is_ok_def)

lemma not_is_ok: "\<not> is_ok r \<longleftrightarrow> (\<exists>e. r = Inl e)"
  by (cases r) auto

section \<open>Slices and searches\<close>

text \<open>\<^verbatim>\<open>xs[a:b]\<close> for \<open>0 \<le> a\<close>: Python clips a slice to the sequence, as \<open>take\<close> and \<open>drop\<close> do.\<close>

definition slice :: "nat \<Rightarrow> nat \<Rightarrow> 'a list \<Rightarrow> 'a list" where
  "slice a b xs = take (b - a) (drop a xs)"

lemma length_slice [wire_len]: "length (slice a b xs) = min (b - a) (length xs - a)"
  by (simp add: slice_def)

lemma slice_full: "slice 0 (length xs) xs = xs"
  by (simp add: slice_def)

lemma slice_append_mid: "slice (length xs) (length xs + length ys) (xs @ ys @ zs) = ys"
  by (simp add: slice_def)

text \<open>\<^verbatim>\<open>xs.find(bytes((b,)), k)\<close>: the first index at or after \<open>k\<close>, \<open>None\<close> for \<open>-1\<close>.\<close>

fun find_byte :: "'a \<Rightarrow> 'a list \<Rightarrow> nat option" where
  "find_byte b [] = None"
| "find_byte b (x # xs) = (if x = b then Some 0 else map_option Suc (find_byte b xs))"

definition find_from :: "'a \<Rightarrow> 'a list \<Rightarrow> nat \<Rightarrow> nat option" where
  "find_from b xs k = map_option (\<lambda>i. i + k) (find_byte b (drop k xs))"

lemma find_byte_None: "find_byte b xs = None \<longleftrightarrow> b \<notin> set xs"
  by (induction xs) auto

lemma find_byte_SomeD: "find_byte b xs = Some i \<Longrightarrow> i < length xs \<and> xs ! i = b"
  by (induction xs arbitrary: i) (auto split: if_splits)

lemma find_byte_append:
  "b \<notin> set xs \<Longrightarrow> find_byte b (xs @ b # ys) = Some (length xs)"
  by (induction xs) auto

lemma find_from_SomeD: "find_from b xs k = Some i \<Longrightarrow> k \<le> i \<and> i < length xs \<and> xs ! i = b"
  by (auto simp: find_from_def add.commute dest!: find_byte_SomeD)

section \<open>Big-endian numbers\<close>

text \<open>The low \<open>k\<close> bytes of \<open>n\<close>, most significant first.\<close>

primrec be_bytes :: "nat \<Rightarrow> int \<Rightarrow> bytes" where
  "be_bytes 0 n = []"
| "be_bytes (Suc k) n = be_bytes k (n div 256) @ [word_of_int n]"

text \<open>\<^verbatim>\<open>int.from_bytes(bs, "big")\<close>.\<close>

definition from_be :: "bytes \<Rightarrow> int" where
  "from_be bs = foldl (\<lambda>a b. a * 256 + uint b) 0 bs"

lemma from_be_Nil [simp]: "from_be [] = 0"
  by (simp add: from_be_def)

lemma from_be_snoc [simp]: "from_be (bs @ [b]) = from_be bs * 256 + uint b"
  by (simp add: from_be_def)

lemma length_be_bytes [simp, wire_len]: "length (be_bytes k n) = k"
  by (induction k arbitrary: n) auto

lemma from_be_nonneg [simp]: "0 \<le> from_be bs"
  by (induction bs rule: rev_induct) auto

lemma from_be_lt: "from_be bs < 256 ^ length bs"
proof (induction bs rule: rev_induct)
  case Nil
  then show ?case by simp
next
  case (snoc b bs)
  have "uint b < 256" using uint_lt2p [of b] by simp
  with snoc show ?case by simp
qed

lemma uint_word_of_int_byte: "uint (word_of_int n :: byte) = n mod 256"
  by (simp add: uint_word_of_int)

lemma be_bytes_2 [py_eval]: "be_bytes 2 n = [word_of_int (n div 256), word_of_int n]"
  by (simp add: numeral_2_eq_2)

lemma from_be_be_bytes: "from_be (be_bytes k n) = n mod 256 ^ k"
proof (induction k arbitrary: n)
  case 0
  then show ?case by simp
next
  case (Suc k)
  have "n mod (256 * 256 ^ k) = 256 * (n div 256 mod 256 ^ k) + n mod 256"
    by (rule zmod_zmult2_eq) simp
  with Suc show ?case by (simp add: uint_word_of_int_byte)
qed

lemma be_bytes_from_be: "be_bytes (length bs) (from_be bs) = bs"
proof (induction bs rule: rev_induct)
  case Nil
  then show ?case by simp
next
  case (snoc b bs)
  have b: "0 \<le> uint b" "uint b < 256" using uint_lt2p [of b] by simp_all
  then have "(from_be bs * 256 + uint b) div 256 = from_be bs" by simp
  moreover have "(word_of_int (from_be bs * 256 + uint b) :: byte) = b"
  proof (rule word_uint_eqI)
    have "(from_be bs * 256 + uint b) mod 256 = uint b" using b by simp
    then show "uint (word_of_int (from_be bs * 256 + uint b) :: byte) = uint b"
      by (simp only: uint_word_of_int_byte)
  qed
  ultimately show ?case using snoc by simp
qed

text \<open>\<^verbatim>\<open>int.to_bytes(k, "big")\<close> and its signed form; out of range raises \<open>OverflowError\<close>.\<close>

definition to_bytes :: "nat \<Rightarrow> int \<Rightarrow> bytes result" where
  "to_bytes k n = (if 0 \<le> n \<and> n < 256 ^ k then Inr (be_bytes k n) else Inl OverflowError)"

definition to_bytes_signed :: "nat \<Rightarrow> int \<Rightarrow> bytes result" where
  "to_bytes_signed k n =
     (if - (256 ^ k) \<le> 2 * n \<and> 2 * n < 256 ^ k then Inr (be_bytes k n) else Inl OverflowError)"

definition from_be_signed :: "bytes \<Rightarrow> int" where
  "from_be_signed bs =
     (let n = from_be bs in if 256 ^ length bs \<le> 2 * n then n - 256 ^ length bs else n)"

lemma to_bytes_Inr: "to_bytes k n = Inr bs \<longleftrightarrow> 0 \<le> n \<and> n < 256 ^ k \<and> bs = be_bytes k n"
  by (auto simp: to_bytes_def)

lemma to_bytes_signed_Inr:
  "to_bytes_signed k n = Inr bs \<longleftrightarrow>
     - (256 ^ k) \<le> 2 * n \<and> 2 * n < 256 ^ k \<and> bs = be_bytes k n"
  by (auto simp: to_bytes_signed_def)

lemma length_to_bytes: "to_bytes k n = Inr bs \<Longrightarrow> length bs = k"
  by (auto simp: to_bytes_Inr)

lemma from_be_to_bytes: "to_bytes k n = Inr bs \<Longrightarrow> from_be bs = n"
  by (auto simp: to_bytes_Inr from_be_be_bytes)

lemma to_bytes_from_be: "to_bytes (length bs) (from_be bs) = Inr bs"
  by (simp add: to_bytes_def from_be_lt be_bytes_from_be)

lemma from_be_signed_to_bytes_signed:
  assumes "to_bytes_signed k n = Inr bs"
  shows "from_be_signed bs = n"
proof -
  from assms have n: "- (256 ^ k) \<le> 2 * n" "2 * n < 256 ^ k" and bs: "bs = be_bytes k n"
    by (auto simp: to_bytes_signed_Inr)
  show ?thesis
  proof (cases "0 \<le> n")
    case True
    with n have "n mod 256 ^ k = n" by simp
    with True n bs show ?thesis by (simp add: from_be_signed_def from_be_be_bytes)
  next
    case False
    with n have "(n + 256 ^ k) mod 256 ^ k = n + 256 ^ k"
      by (intro mod_pos_pos_trivial) auto
    then have "n mod 256 ^ k = n + 256 ^ k" by simp
    with False n bs show ?thesis by (simp add: from_be_signed_def from_be_be_bytes)
  qed
qed

section \<open>Integers bit by bit\<close>
lemma int_and_1: "(n::int) AND 1 = n mod 2" by (rule and_one_eq)

lemma int_and_7: "(n::int) AND 7 = n mod 8"
  using take_bit_eq_mask [of 3 n] by (simp add: take_bit_eq_mod mask_numeral)

lemma int_and_127: "(n::int) AND 127 = n mod 128"
  using take_bit_eq_mask [of 7 n] by (simp add: take_bit_eq_mod mask_numeral)

lemma int_and_255: "(n::int) AND 255 = n mod 256"
  using take_bit_eq_mask [of 8 n] by (simp add: take_bit_eq_mod mask_numeral)

lemma int_or_shift: "0 \<le> y \<Longrightarrow> y < 2 ^ n \<Longrightarrow> push_bit n x OR y = 2 ^ n * x + (y::int)"
proof -
  assume "0 \<le> y" "y < 2 ^ n"
  then have y: "take_bit n y = y" by (simp add: take_bit_int_eq_self)
  have "push_bit n x AND y = 0"
    by (rule bit_eqI) (metis y bit_and_iff bit_push_bit_iff_int bit_take_bit_iff bit_0_eq bot_apply bot_bool_def linorder_not_le)
  then have "push_bit n x + y = push_bit n x OR y" by (rule disjunctive_add_eq_or)
  then show ?thesis by (simp add: push_bit_eq_mult mult.commute)
qed

lemma word_and_1: "(w::'a::len word) AND 1 \<noteq> 0 \<longleftrightarrow> odd w"
  by (simp add: and_one_eq odd_iff_mod_2_eq_one)

lemma word_of_int_and_255: "(word_of_int (n AND 255) :: byte) = word_of_int n"
proof (rule word_uint_eqI)
  show "uint (word_of_int (n AND 255) :: byte) = uint (word_of_int n :: byte)"
    by (simp only: uint_word_of_int_byte int_and_255 mod_mod_trivial)
qed

lemma bit_nat_small: "n < 2 ^ k \<Longrightarrow> bit (n :: nat) j \<Longrightarrow> j < k"
  using take_bit_nat_eq_self [of n k] by (metis bit_take_bit_iff)

lemma bit_of_nat_small: "n < 2 ^ k \<Longrightarrow> bit (of_nat n :: 'a::len word) j \<Longrightarrow> j < k"
  by (auto simp: bit_of_nat_iff dest: bit_nat_small)

section \<open>Sixteen-bit fields\<close>

text \<open>\<^verbatim>\<open>struct.pack(">H", w)\<close>, \<^verbatim>\<open>struct.pack("<H", w)\<close> and the readings of two bytes.\<close>

definition be16 :: "16 word \<Rightarrow> bytes" where
  "be16 w = [ucast (drop_bit 8 w), ucast w]"

definition le16 :: "16 word \<Rightarrow> bytes" where
  "le16 w = [ucast w, ucast (drop_bit 8 w)]"

definition word16 :: "byte \<Rightarrow> byte \<Rightarrow> 16 word" where
  "word16 hi lo = push_bit 8 (ucast hi) OR ucast lo"

lemma length_be16 [simp, wire_len]: "length (be16 w) = 2"
  by (simp add: be16_def)

lemma length_le16 [simp, wire_len]: "length (le16 w) = 2"
  by (simp add: le16_def)

lemma word16_split: "word16 (ucast (drop_bit 8 w)) (ucast w) = w"
  by (rule bit_word_eqI) (auto simp: word16_def bit_simps)

lemma word16_be16: "word16 ((be16 w @ xs) ! 0) ((be16 w @ xs) ! 1) = w"
  by (simp add: be16_def word16_split)

lemma word16_le16: "word16 ((le16 w @ xs) ! 1) ((le16 w @ xs) ! 0) = w"
  by (simp add: le16_def word16_split)

lemma word16_inj: "word16 a b = word16 c d \<longleftrightarrow> a = c \<and> b = d"
proof
  assume eq: "word16 a b = word16 c d"
  have lo: "b = d"
  proof (rule bit_word_eqI)
    fix n assume "n < LENGTH(8)"
    moreover from eq have "bit (word16 a b) n = bit (word16 c d) n" by simp
    ultimately show "bit b n = bit d n" by (auto simp: word16_def bit_simps)
  qed
  have hi: "a = c"
  proof (rule bit_word_eqI)
    fix n assume n: "n < LENGTH(8)"
    moreover from eq have "bit (word16 a b) (n + 8) = bit (word16 c d) (n + 8)" by simp
    ultimately show "bit a n = bit c n"
      by (auto simp: word16_def bit_simps dest: bit_imp_le_length)
  qed
  from lo hi show "a = c \<and> b = d" by simp
qed simp

lemma le16_eq: "le16 w = [a, b] \<longleftrightarrow> w = word16 b a"
proof
  assume "le16 w = [a, b]"
  then show "w = word16 b a" by (auto simp: le16_def word16_split)
next
  assume "w = word16 b a"
  then have "word16 (ucast (drop_bit 8 w)) (ucast w) = word16 b a" by (simp add: word16_split)
  then show "le16 w = [a, b]" by (simp only: word16_inj le16_def)
qed

lemma le16_inj: "le16 v = le16 w \<longleftrightarrow> v = w"
proof
  assume "le16 v = le16 w"
  then show "v = w" using le16_eq [of v] by (simp add: le16_def [of w] word16_split)
qed simp

section \<open>Decimal text\<close>

text \<open>\<^verbatim>\<open>str(n)\<close> of an integer.\<close>

fun dec_digits :: "nat \<Rightarrow> string" where
  "dec_digits n =
     (if n < 10 then [char_of (48 + n)] else dec_digits (n div 10) @ [char_of (48 + n mod 10)])"

declare dec_digits.simps [simp del]

definition dec_of_int :: "int \<Rightarrow> string" where
  "dec_of_int n = (if n < 0 then ''-'' @ dec_digits (nat (- n)) else dec_digits (nat n))"

section \<open>Hexadecimal text\<close>

text \<open>\<^verbatim>\<open>bs.hex()\<close>.\<close>

definition hex_digit :: "nat \<Rightarrow> char" where
  "hex_digit n = (if n < 10 then char_of (48 + n) else char_of (87 + n))"

definition hex_of :: "bytes \<Rightarrow> string" where
  "hex_of bs = concat (map (\<lambda>b. [hex_digit (unat b div 16), hex_digit (unat b mod 16)]) bs)"

text \<open>\<^verbatim>\<open>"%02X" % n\<close> of a byte.\<close>

definition hex_upper :: "int \<Rightarrow> string" where
  "hex_upper n =
     (let d = (\<lambda>k. if k < 10 then char_of (48 + k) else char_of (55 + k) :: char)
      in [d (nat n div 16), d (nat n mod 16)])"

section \<open>Text\<close>

text \<open>\<^verbatim>\<open>s.strip()\<close>, and case conversion of the ASCII letters.\<close>

definition is_space :: "char \<Rightarrow> bool" where
  "is_space c \<longleftrightarrow> (let n = of_char c :: nat in (9 \<le> n \<and> n \<le> 13) \<or> (28 \<le> n \<and> n \<le> 32) \<or> n = 0x85 \<or> n = 0xA0)"

definition py_strip :: "string \<Rightarrow> string" where
  "py_strip s = rev (dropWhile is_space (rev (dropWhile is_space s)))"

definition lower_char :: "char \<Rightarrow> char" where
  "lower_char c = (let n = of_char c :: nat in if 65 \<le> n \<and> n \<le> 90 then char_of (n + 32) else c)"

definition upper_char :: "char \<Rightarrow> char" where
  "upper_char c = (let n = of_char c :: nat in if 97 \<le> n \<and> n \<le> 122 then char_of (n - 32) else c)"

end
