(* ===== verification/Codec.thy ===== *)
theory Codec
  imports Prelude
begin

text \<open>
  The interface of the wire formats: an encoder and a decoder that returns the value and
  the bytes after it.  Parsers promise that they consume a non-empty prefix of the buffer;
  codecs promise the round trip in front of any trailing bytes.  The client lemmas are what
  the layers above rely on: a stream of encodings is read back item by item, and two
  encodings that share a buffer are equal.
\<close>

section \<open>Reading several items\<close>

text \<open>The loop \<^verbatim>\<open>for _ in range(n): item, rest = dec(rest)\<close>.\<close>

fun dec_times :: "(bytes \<Rightarrow> ('b \<times> bytes) result) \<Rightarrow> nat \<Rightarrow> bytes \<Rightarrow> ('b list \<times> bytes) result" where
  "dec_times dec 0 buf = Inr ([], buf)"
| "dec_times dec (Suc n) buf =
     bindE (dec buf) (\<lambda>(x, rest). bindE (dec_times dec n rest) (\<lambda>(xs, rest'). Inr (x # xs, rest')))"

text \<open>The join \<^verbatim>\<open>b"".join(enc(x) for x in xs)\<close>.\<close>

fun enc_join :: "('a \<Rightarrow> bytes result) \<Rightarrow> 'a list \<Rightarrow> bytes result" where
  "enc_join enc [] = Inr []"
| "enc_join enc (x # xs) = bindE (enc x) (\<lambda>b. bindE (enc_join enc xs) (\<lambda>bs. Inr (b @ bs)))"

section \<open>Parsers\<close>

locale stream_parser =
  fixes dec :: "bytes \<Rightarrow> ('b \<times> bytes) result"
  assumes consumes: "dec buf = Inr (x, rest) \<Longrightarrow> \<exists>pre. buf = pre @ rest \<and> pre \<noteq> []"
begin

lemma shorter: "dec buf = Inr (x, rest) \<Longrightarrow> length rest < length buf"
  by (auto dest!: consumes)

lemma times_suffix:
  "dec_times dec n buf = Inr (xs, rest) \<Longrightarrow>
     (\<exists>pre. buf = pre @ rest \<and> n \<le> length pre) \<and> length xs = n"
proof (induction n arbitrary: buf xs rest)
  case 0
  then show ?case by auto
next
  case (Suc n)
  then obtain x r ys where x: "dec buf = Inr (x, r)"
    and ys: "dec_times dec n r = Inr (ys, rest)" and xs: "xs = x # ys"
    by (auto simp: bindE_Inr_conv)
  from consumes [OF x] obtain p where p: "buf = p @ r" "p \<noteq> []" by auto
  from Suc.IH [OF ys] obtain q where q: "r = q @ rest" "n \<le> length q" "length ys = n" by auto
  have "Suc n \<le> length (p @ q)" using p q by (cases p) auto
  then show ?case using p q xs by (intro conjI exI [of _ "p @ q"]) auto
qed

text \<open>A buffer cannot hold more items than it has bytes.\<close>

lemma times_bound: "dec_times dec n buf = Inr (xs, rest) \<Longrightarrow> n + length rest \<le> length buf"
  by (drule times_suffix) auto

end

text \<open>A parser that looks only at what it consumes.\<close>

locale prefix_parser = stream_parser +
  assumes determined: "dec (pre @ rest) = Inr (x, rest) \<Longrightarrow> dec (pre @ rest') = Inr (x, rest')"
begin

text \<open>Cutting the buffer after the item does not change the item.\<close>

lemma cut: "dec buf = Inr (x, rest) \<Longrightarrow> dec (take (length buf - length rest) buf) = Inr (x, [])"
  using consumes [of buf x rest] determined [of "take (length buf - length rest) buf" rest x "[]"]
  by auto

lemma later_bytes: "dec buf = Inr (x, rest) \<Longrightarrow> dec (buf @ more) = Inr (x, rest @ more)"
  using consumes [of buf x rest] determined [of "take (length buf - length rest) buf" rest x "rest @ more"]
  by auto

end

section \<open>Codecs\<close>

locale codec =
  fixes enc :: "'a \<Rightarrow> bytes result"
    and dec :: "bytes \<Rightarrow> ('b \<times> bytes) result"
    and view :: "'a \<Rightarrow> 'b"
    and wf :: "'a \<Rightarrow> bool"
  assumes roundtrip: "wf x \<Longrightarrow> enc x = Inr bs \<Longrightarrow> dec (bs @ rest) = Inr (view x, rest)"
begin

lemma roundtrip_all: "wf x \<Longrightarrow> enc x = Inr bs \<Longrightarrow> dec bs = Inr (view x, [])"
  using roundtrip [of x bs "[]"] by simp

text \<open>Encodings are prefix-free up to \<open>view\<close>.\<close>

lemma unique:
  assumes "wf x" and "wf y" and "enc x = Inr bs" and "enc y = Inr cs" and "bs @ r = cs @ q"
  shows "view x = view y \<and> r = q"
  using roundtrip [OF assms(1,3), of r] roundtrip [OF assms(2,4), of q] assms(5) by simp

lemma stream:
  assumes "\<And>x. x \<in> set xs \<Longrightarrow> wf x" and "enc_join enc xs = Inr bs"
  shows "dec_times dec (length xs) (bs @ rest) = Inr (map view xs, rest)"
  using assms
proof (induction xs arbitrary: bs)
  case Nil
  then show ?case by simp
next
  case (Cons x xs)
  from Cons.prems(2) obtain b cs where b: "enc x = Inr b" and cs: "enc_join enc xs = Inr cs"
    and bs: "bs = b @ cs"
    by (auto simp: bindE_Inr_conv)
  from Cons.prems(1) have "wf x" by simp
  from roundtrip [OF this b] have "dec (bs @ rest) = Inr (view x, cs @ rest)" by (simp add: bs)
  with Cons.IH [OF Cons.prems(1) cs] show ?case by simp
qed

end

end
