(* ===== verification/Axdr.thy ===== *)
theory Axdr
  imports Codec
begin

text \<open>
  A-XDR encoding of COSEM values, \<^verbatim>\<open>opt/sa02m-spodes/sa02m_spodes/axdr.py\<close>.  A value
  is a tag with a Python object; the object forms are those \<^verbatim>\<open>decode\<close> returns and
  \<^verbatim>\<open>encode\<close> documents (None, bool, int, bytes, str, list of \<^verbatim>\<open>Data\<close>).  Strings are
  Latin-1.  Two conversions of the source that its callers never reach are cut off as
  \<open>OutOfModel\<close>: \<^verbatim>\<open>int()\<close> of a text and \<^verbatim>\<open>str()\<close> of a list.
  \<^verbatim>\<open>decode\<close> recurses per nested array; the model carries the recursion depth, as the
  interpreter does, and shows that a depth above the buffer length is never exhausted.
\<close>

section \<open>Tags and values\<close>

definition TAG_NULL :: int where "TAG_NULL = 0x00"
definition TAG_ARRAY :: int where "TAG_ARRAY = 0x01"
definition TAG_STRUCTURE :: int where "TAG_STRUCTURE = 0x02"
definition TAG_BOOLEAN :: int where "TAG_BOOLEAN = 0x03"
definition TAG_DOUBLE_LONG :: int where "TAG_DOUBLE_LONG = 0x05"
definition TAG_DOUBLE_LONG_UNSIGNED :: int where "TAG_DOUBLE_LONG_UNSIGNED = 0x06"
definition TAG_OCTET_STRING :: int where "TAG_OCTET_STRING = 0x09"
definition TAG_VISIBLE_STRING :: int where "TAG_VISIBLE_STRING = 0x0A"
definition TAG_UTF8_STRING :: int where "TAG_UTF8_STRING = 0x0C"
definition TAG_INTEGER :: int where "TAG_INTEGER = 0x0F"
definition TAG_LONG :: int where "TAG_LONG = 0x10"
definition TAG_UNSIGNED :: int where "TAG_UNSIGNED = 0x11"
definition TAG_LONG_UNSIGNED :: int where "TAG_LONG_UNSIGNED = 0x12"
definition TAG_LONG64 :: int where "TAG_LONG64 = 0x14"
definition TAG_LONG64_UNSIGNED :: int where "TAG_LONG64_UNSIGNED = 0x15"
definition TAG_ENUM :: int where "TAG_ENUM = 0x16"
definition TAG_DATETIME :: int where "TAG_DATETIME = 0x19"
definition TAG_DATE :: int where "TAG_DATE = 0x1A"
definition TAG_TIME :: int where "TAG_TIME = 0x1B"

lemmas tag_defs [py_eval] =
  TAG_NULL_def TAG_ARRAY_def TAG_STRUCTURE_def TAG_BOOLEAN_def TAG_DOUBLE_LONG_def
  TAG_DOUBLE_LONG_UNSIGNED_def TAG_OCTET_STRING_def TAG_VISIBLE_STRING_def TAG_UTF8_STRING_def
  TAG_INTEGER_def TAG_LONG_def TAG_UNSIGNED_def TAG_LONG_UNSIGNED_def TAG_LONG64_def
  TAG_LONG64_UNSIGNED_def TAG_ENUM_def TAG_DATETIME_def TAG_DATE_def TAG_TIME_def

datatype pyval =
    VNone | VBool bool | VInt int | VBytes bytes | VStr string | VList "cosem list"
and cosem = Data (tag: int) (val: pyval)

section \<open>Python conversions the encoder uses\<close>

text \<open>\<^verbatim>\<open>int(val)\<close>, \<^verbatim>\<open>bytes(val)\<close>, truth value, and \<^verbatim>\<open>str(val).encode("utf-8")\<close>.\<close>

fun py_int :: "pyval \<Rightarrow> int result" where
  "py_int VNone = Inl TypeError"
| "py_int (VBool b) = Inr (if b then 1 else 0)"
| "py_int (VInt n) = Inr n"
| "py_int (VBytes _) = Inl (OutOfModel ''int() of a text'')"
| "py_int (VStr _) = Inl (OutOfModel ''int() of a text'')"
| "py_int (VList _) = Inl TypeError"

fun py_bytes :: "pyval \<Rightarrow> bytes result" where
  "py_bytes VNone = Inl TypeError"
| "py_bytes (VBool b) = Inr (replicate (if b then 1 else 0) 0)"
| "py_bytes (VInt n) = (if n < 0 then Inl (ValueError ''negative count'') else Inr (replicate (nat n) 0))"
| "py_bytes (VBytes b) = Inr b"
| "py_bytes (VStr _) = Inl TypeError"
| "py_bytes (VList l) = (if l = [] then Inr [] else Inl TypeError)"

fun py_true :: "pyval \<Rightarrow> bool" where
  "py_true VNone = False"
| "py_true (VBool b) = b"
| "py_true (VInt n) = (n \<noteq> 0)"
| "py_true (VBytes b) = (b \<noteq> [])"
| "py_true (VStr s) = (s \<noteq> [])"
| "py_true (VList l) = (l \<noteq> [])"

definition utf8_char :: "char \<Rightarrow> bytes" where
  "utf8_char c = (let n = of_char c :: int in
     if n < 128 then [word_of_int n] else [word_of_int (192 + n div 64), word_of_int (128 + n mod 64)])"

definition utf8 :: "string \<Rightarrow> bytes" where
  "utf8 s = concat (map utf8_char s)"

fun py_octets :: "pyval \<Rightarrow> bytes result" where
  "py_octets (VBytes b) = Inr b"
| "py_octets (VStr s) = Inr (utf8 s)"
| "py_octets (VInt n) = Inr (utf8 (dec_of_int n))"
| "py_octets (VBool b) = Inr (utf8 (if b then ''True'' else ''False''))"
| "py_octets VNone = Inr (utf8 ''None'')"
| "py_octets (VList _) = Inl (OutOfModel ''str() of a list'')"

section \<open>Lengths\<close>

definition enc_len :: "int \<Rightarrow> bytes result" where
  "enc_len n =
     (if n < 0 then Inl (AxdrError ''length'')
      else if n < 0x80 then Inr [word_of_int n]
      else if n < 0x100 then Inr [0x81, word_of_int n]
      else if n < 0x10000 then Inr [0x82, word_of_int (drop_bit 8 n AND 0xFF), word_of_int (n AND 0xFF)]
      else Inl (AxdrError ''length''))"

definition dec_len :: "bytes \<Rightarrow> (int \<times> bytes) result" where
  "dec_len buf =
     (case buf of
        [] \<Rightarrow> Inl (AxdrError ''length'')
      | b # rest \<Rightarrow>
          let n = uint b in
          if n < 0x80 then Inr (n, rest)
          else let width = nat (n AND 0x7F) in
            if width = 0 \<or> width > 2 \<or> length buf < 1 + width then Inl (AxdrError ''length'')
            else Inr (from_be (slice 1 (1 + width) buf), drop (1 + width) buf))"

section \<open>Encoding\<close>

text \<open>One of the fixed-width octet branches: \<^verbatim>\<open>bytes(val)\<close> of exactly \<open>k\<close> bytes.\<close>

definition enc_fixed :: "nat \<Rightarrow> string \<Rightarrow> int \<Rightarrow> pyval \<Rightarrow> bytes result" where
  "enc_fixed k err tg v =
     bindE (py_bytes v) (\<lambda>raw.
       if length raw \<noteq> k then Inl (AxdrError err) else Inr (word_of_int tg # raw))"

fun encode :: "cosem \<Rightarrow> bytes result" and encode_items :: "cosem list \<Rightarrow> bytes result" where
  "encode (Data tg v) =
     (if tg = TAG_NULL then Inr [word_of_int TAG_NULL]
      else if tg = TAG_BOOLEAN then Inr [word_of_int TAG_BOOLEAN, if py_true v then 1 else 0]
      else if tg = TAG_INTEGER then
        bindE (py_int v) (\<lambda>n. Inr [word_of_int TAG_INTEGER, word_of_int (n AND 0xFF)])
      else if tg = TAG_UNSIGNED \<or> tg = TAG_ENUM then
        bindE (py_int v) (\<lambda>n. Inr [word_of_int tg, word_of_int (n AND 0xFF)])
      else if tg = TAG_LONG then
        bindE (py_int v) (\<lambda>n. bindE (to_bytes_signed 2 n) (\<lambda>b. Inr (word_of_int TAG_LONG # b)))
      else if tg = TAG_LONG_UNSIGNED then
        bindE (py_int v) (\<lambda>n. bindE (to_bytes 2 n) (\<lambda>b. Inr (word_of_int TAG_LONG_UNSIGNED # b)))
      else if tg = TAG_DOUBLE_LONG then
        bindE (py_int v) (\<lambda>n. bindE (to_bytes_signed 4 n) (\<lambda>b. Inr (word_of_int TAG_DOUBLE_LONG # b)))
      else if tg = TAG_DOUBLE_LONG_UNSIGNED then
        bindE (py_int v) (\<lambda>n. bindE (to_bytes 4 n) (\<lambda>b. Inr (word_of_int TAG_DOUBLE_LONG_UNSIGNED # b)))
      else if tg = TAG_LONG64 then
        bindE (py_int v) (\<lambda>n. bindE (to_bytes_signed 8 n) (\<lambda>b. Inr (word_of_int TAG_LONG64 # b)))
      else if tg = TAG_LONG64_UNSIGNED then
        bindE (py_int v) (\<lambda>n. bindE (to_bytes 8 n) (\<lambda>b. Inr (word_of_int TAG_LONG64_UNSIGNED # b)))
      else if tg = TAG_DATETIME then enc_fixed 12 ''datetime'' TAG_DATETIME v
      else if tg = TAG_DATE then enc_fixed 5 ''date'' TAG_DATE v
      else if tg = TAG_TIME then enc_fixed 4 ''time'' TAG_TIME v
      else if tg \<in> {TAG_OCTET_STRING, TAG_VISIBLE_STRING, TAG_UTF8_STRING} then
        bindE (py_octets v) (\<lambda>raw.
        bindE (enc_len (int (length raw))) (\<lambda>ln. Inr (word_of_int tg # ln @ raw)))
      else if tg \<in> {TAG_ARRAY, TAG_STRUCTURE} then
        (case v of
           VList items \<Rightarrow>
             bindE (encode_items items) (\<lambda>body.
             bindE (enc_len (int (length items))) (\<lambda>ln. Inr (word_of_int tg # ln @ body)))
         | VBytes b \<Rightarrow> (if b = [] then Inr [word_of_int tg, 0] else Inl AttributeError)
         | VStr s \<Rightarrow> (if s = [] then Inr [word_of_int tg, 0] else Inl AttributeError)
         | _ \<Rightarrow> Inl TypeError)
      else Inl (AxdrError (''tag '' @ dec_of_int tg)))"
| "encode_items [] = Inr []"
| "encode_items (d # ds) =
     bindE (encode d) (\<lambda>b. bindE (encode_items ds) (\<lambda>bs. Inr (b @ bs)))"

lemma encode_items_join: "encode_items ds = enc_join encode ds"
  by (induction ds) simp_all

section \<open>Decoding\<close>

text \<open>A fixed-width branch: \<open>k\<close> bytes or the error.\<close>

definition dec_fixed :: "nat \<Rightarrow> string \<Rightarrow> (bytes \<Rightarrow> pyval) \<Rightarrow> int \<Rightarrow> bytes \<Rightarrow> (cosem \<times> bytes) result" where
  "dec_fixed k err f tg rest =
     (if length rest < k then Inl (AxdrError err)
      else Inr (Data tg (f (take k rest)), drop k rest))"

primrec decode_depth :: "nat \<Rightarrow> bytes \<Rightarrow> (cosem \<times> bytes) result" where
  "decode_depth 0 buf = Inl RecursionError"
| "decode_depth (Suc d) buf =
     (case buf of
        [] \<Rightarrow> Inl (AxdrError ''empty'')
      | b # rest \<Rightarrow>
        let tg = uint b in
        if tg = TAG_NULL then Inr (Data TAG_NULL VNone, rest)
        else if tg = TAG_BOOLEAN then
          dec_fixed 1 ''boolean'' (\<lambda>r. VBool (hd r \<noteq> 0)) TAG_BOOLEAN rest
        else if tg = TAG_INTEGER then
          dec_fixed 1 ''integer''
            (\<lambda>r. VInt (if uint (hd r) \<ge> 0x80 then uint (hd r) - 0x100 else uint (hd r))) tg rest
        else if tg = TAG_UNSIGNED \<or> tg = TAG_ENUM then
          dec_fixed 1 ''unsigned'' (\<lambda>r. VInt (uint (hd r))) tg rest
        else if tg = TAG_LONG then dec_fixed 2 ''long'' (\<lambda>r. VInt (from_be_signed r)) tg rest
        else if tg = TAG_LONG_UNSIGNED then
          dec_fixed 2 ''long-unsigned'' (\<lambda>r. VInt (from_be r)) tg rest
        else if tg = TAG_DOUBLE_LONG then
          dec_fixed 4 ''double-long'' (\<lambda>r. VInt (from_be_signed r)) tg rest
        else if tg = TAG_DOUBLE_LONG_UNSIGNED then
          dec_fixed 4 ''double-long-unsigned'' (\<lambda>r. VInt (from_be r)) tg rest
        else if tg = TAG_LONG64 then dec_fixed 8 ''long64'' (\<lambda>r. VInt (from_be_signed r)) tg rest
        else if tg = TAG_LONG64_UNSIGNED then
          dec_fixed 8 ''long64-unsigned'' (\<lambda>r. VInt (from_be r)) tg rest
        else if tg = TAG_DATETIME then dec_fixed 12 ''datetime'' VBytes tg rest
        else if tg = TAG_DATE then dec_fixed 5 ''date'' VBytes tg rest
        else if tg = TAG_TIME then dec_fixed 4 ''time'' VBytes tg rest
        else if tg \<in> {TAG_OCTET_STRING, TAG_VISIBLE_STRING, TAG_UTF8_STRING} then
          bindE (dec_len rest) (\<lambda>(ln, r). dec_fixed (nat ln) ''octet'' VBytes tg r)
        else if tg \<in> {TAG_ARRAY, TAG_STRUCTURE} then
          bindE (dec_len rest) (\<lambda>(count, r).
          bindE (dec_times (decode_depth d) (nat count) r) (\<lambda>(items, r').
            Inr (Data tg (VList items), r')))
        else Inl (AxdrError (''tag '' @ dec_of_int tg)))"

declare decode_depth.simps(2) [simp del]

definition decode :: "bytes \<Rightarrow> (cosem \<times> bytes) result" where
  "decode buf = decode_depth (Suc (length buf)) buf"

section \<open>Constructors and the integer reading\<close>

definition ax_u8 :: "int \<Rightarrow> cosem" where "ax_u8 n = Data TAG_UNSIGNED (VInt n)"
definition ax_u16 :: "int \<Rightarrow> cosem" where "ax_u16 n = Data TAG_LONG_UNSIGNED (VInt n)"
definition ax_u32 :: "int \<Rightarrow> cosem" where "ax_u32 n = Data TAG_DOUBLE_LONG_UNSIGNED (VInt n)"
definition ax_i8 :: "int \<Rightarrow> cosem" where "ax_i8 n = Data TAG_INTEGER (VInt n)"
definition ax_octet :: "bytes \<Rightarrow> cosem" where "ax_octet raw = Data TAG_OCTET_STRING (VBytes raw)"
definition ax_structure :: "cosem list \<Rightarrow> cosem" where "ax_structure items = Data TAG_STRUCTURE (VList items)"
definition ax_array :: "cosem list \<Rightarrow> cosem" where "ax_array items = Data TAG_ARRAY (VList items)"
definition ax_null :: cosem where "ax_null = Data TAG_NULL VNone"

definition as_int :: "cosem \<Rightarrow> int result" where
  "as_int d =
     (if tag d \<in> {TAG_INTEGER, TAG_UNSIGNED, TAG_ENUM, TAG_LONG, TAG_LONG_UNSIGNED, TAG_DOUBLE_LONG,
                  TAG_DOUBLE_LONG_UNSIGNED, TAG_LONG64, TAG_LONG64_UNSIGNED}
      then py_int (val d) else Inl (AxdrError ''not an integer''))"

section \<open>Lengths round trip\<close>

lemma uint_byte_lt: "uint (b :: byte) < 256" "0 \<le> uint (b :: byte)"
  using uint_lt2p [of b] by simp_all

lemma dec_len_enc_len: "enc_len n = Inr bs \<Longrightarrow> dec_len (bs @ rest) = Inr (n, rest)"
  by (auto simp: enc_len_def dec_len_def slice_def uint_word_of_int_byte word_of_int_and_255
      drop_bit_eq_div from_be_def mod_div_mult_eq split: if_splits)

lemma dec_len_Inr:
  assumes "dec_len buf = Inr (n, rest)"
  shows "(\<exists>pre. buf = pre @ rest \<and> pre \<noteq> []) \<and> 0 \<le> n \<and> n < 0x10000"
proof (cases buf)
  case Nil
  with assms show ?thesis by (simp add: dec_len_def)
next
  case (Cons b r)
  show ?thesis
  proof (cases "uint b < 0x80")
    case True
    with Cons assms show ?thesis
      by (auto simp: dec_len_def intro: exI [of _ "[b]"])
  next
    case False
    define w where "w = nat (uint b AND 0x7F)"
    from assms Cons False have w: "w \<noteq> 0" "w \<le> 2"
      and n: "n = from_be (slice 1 (1 + w) buf)" and rest: "rest = drop (1 + w) buf"
      by (auto simp: dec_len_def w_def Let_def split: if_splits)
    have "length (slice 1 (1 + w) buf) \<le> 2" using w by (simp add: length_slice)
    then have "(256::int) ^ length (slice 1 (1 + w) buf) \<le> 256 ^ 2" by (intro power_increasing) auto
    with from_be_lt [of "slice 1 (1 + w) buf"] have "n < 0x10000" by (simp add: n)
    moreover have "buf = take (1 + w) buf @ rest" "take (1 + w) buf \<noteq> []"
      using Cons by (simp_all add: rest)
    ultimately show ?thesis by (auto simp: n)
  qed
qed

interpretation axdr_len: stream_parser dec_len
  by unfold_locales (drule dec_len_Inr, simp)

section \<open>Decoding consumes input, and depth is enough\<close>

lemma dec_fixed_Inr:
  "dec_fixed k err f tg rest = Inr (d, r) \<longleftrightarrow>
     k \<le> length rest \<and> d = Data tg (f (take k rest)) \<and> r = drop k rest"
  by (auto simp: dec_fixed_def)

lemma dec_fixed_append:
  "length raw = k \<Longrightarrow> dec_fixed k err f tg (raw @ rest) = Inr (Data tg (f raw), rest)"
  by (simp add: dec_fixed_def)

lemma suffix_tail:
  "rest = drop k buf \<Longrightarrow> \<exists>pre. b # buf = pre @ rest \<and> pre \<noteq> []"
  by (intro exI [of _ "b # take k buf"]) simp

lemma decode_depth_consumes:
  "decode_depth n buf = Inr (d, rest) \<Longrightarrow> \<exists>pre. buf = pre @ rest \<and> pre \<noteq> []"
proof (induction n arbitrary: buf d rest)
  case 0
  then show ?case by simp
next
  case (Suc n)
  then obtain b r where buf: "buf = b # r"
    by (cases buf) (auto simp: decode_depth.simps(2))
  have p: "stream_parser (decode_depth n)" by unfold_locales (rule Suc.IH)
  consider (fixed) k where "rest = drop k r"
    | (octet) ln r' k where "dec_len r = Inr (ln, r')" "rest = drop k r'"
    | (items) ln r' xs where "dec_len r = Inr (ln, r')"
        "dec_times (decode_depth n) (nat ln) r' = Inr (xs, rest)"
    using Suc.prems
    by (auto simp: buf decode_depth.simps(2) dec_fixed_Inr bindE_Inr_conv Let_def
        split: if_splits intro: that(1) [of 0])
  then show ?case
  proof cases
    case fixed
    then show ?thesis unfolding buf by (rule suffix_tail)
  next
    case octet
    from axdr_len.consumes [OF octet(1)] obtain q where "r = q @ r'" by auto
    then show ?thesis using octet(2)
      by (intro exI [of _ "b # q @ take k r'"]) (simp add: buf)
  next
    case items
    from axdr_len.consumes [OF items(1)] obtain q where q: "r = q @ r'" by auto
    from stream_parser.times_suffix [OF p items(2)] obtain q' where "r' = q' @ rest" by auto
    then show ?thesis using q by (intro exI [of _ "b # q @ q'"]) (simp add: buf)
  qed
qed

text \<open>A list loop over two parsers that agree on the suffixes it can reach.\<close>

lemma dec_times_cong:
  assumes p: "stream_parser f" and eq: "\<And>b. length b \<le> length buf \<Longrightarrow> f b = g b"
  shows "dec_times f n buf = dec_times g n buf"
  using eq
proof (induction n arbitrary: buf)
  case 0
  then show ?case by simp
next
  case (Suc n)
  show ?case
  proof (cases "f buf")
    case (Inl e)
    then have "g buf = Inl e" using Suc.prems [of buf] by simp
    with Inl show ?thesis by simp
  next
    case (Inr a)
    then have g: "g buf = Inr a" using Suc.prems [of buf] by simp
    obtain x r where a: "a = (x, r)" by force
    from stream_parser.shorter [OF p] Inr a have r: "length r < length buf" by simp
    have "dec_times f n r = dec_times g n r"
      by (rule Suc.IH) (use r Suc.prems in auto)
    with Inr a g show ?thesis by simp
  qed
qed

lemma decode_depth_stream: "stream_parser (decode_depth n)"
  by unfold_locales (rule decode_depth_consumes)

lemma decode_depth_enough:
  "length buf < m \<Longrightarrow> length buf < n \<Longrightarrow> decode_depth m buf = decode_depth n buf"
proof (induction m arbitrary: n buf)
  case 0
  then show ?case by simp
next
  case (Suc m)
  then obtain n' where n: "n = Suc n'" by (cases n) auto
  show ?case
  proof (cases buf)
    case Nil
    then show ?thesis by (simp add: n decode_depth.simps(2))
  next
    case (Cons b r)
    have "dec_times (decode_depth m) k r' = dec_times (decode_depth n') k r'"
      if "dec_len r = Inr (ln, r')" for ln r' k
      using axdr_len.shorter [OF that] Suc.prems Cons n
      by (intro dec_times_cong decode_depth_stream Suc.IH) auto
    then show ?thesis
      by (cases "dec_len r") (auto simp: n Cons decode_depth.simps(2) Let_def)
  qed
qed

lemma decode_eq_depth: "length buf < n \<Longrightarrow> decode buf = decode_depth n buf"
  unfolding decode_def by (rule decode_depth_enough) auto

lemma decode_consumes: "decode buf = Inr (d, rest) \<Longrightarrow> \<exists>pre. buf = pre @ rest \<and> pre \<noteq> []"
  unfolding decode_def by (rule decode_depth_consumes)

interpretation axdr_stream: stream_parser decode
  by unfold_locales (rule decode_consumes)

text \<open>The equation of the source: the recursive calls are to \<^verbatim>\<open>decode\<close> itself.\<close>

lemma decode_Nil: "decode [] = Inl (AxdrError ''empty'')"
  by (simp add: decode_def decode_depth.simps(2))

lemma decode_items:
  assumes "dec_len r = Inr (ln, r')" and "length r \<le> n"
  shows "dec_times (decode_depth n) k r' = dec_times decode k r'"
proof (rule dec_times_cong [OF decode_depth_stream])
  fix b :: bytes assume "length b \<le> length r'"
  with axdr_len.shorter [OF assms(1)] assms(2) have "length b < n" by simp
  then show "decode_depth n b = decode b" by (rule decode_eq_depth [symmetric])
qed

lemma decode_list:
  assumes "uint b = TAG_ARRAY \<or> uint b = TAG_STRUCTURE"
  shows "decode (b # r) =
    bindE (dec_len r) (\<lambda>(count, r').
    bindE (dec_times decode (nat count) r') (\<lambda>(items, r'').
      Inr (Data (uint b) (VList items), r'')))"
proof (cases "dec_len r")
  case (Inl e)
  with assms show ?thesis
    by (auto simp: decode_def decode_depth.simps(2) Let_def tag_defs)
next
  case (Inr a)
  obtain ln r' where a: "a = (ln, r')" by force
  with Inr have "dec_times (decode_depth (Suc (length r))) (nat ln) r' = dec_times decode (nat ln) r'"
    by (intro decode_items) auto
  with assms Inr a show ?thesis
    by (auto simp: decode_def decode_depth.simps(2) Let_def tag_defs)
qed

lemma decode_leaf:
  assumes "uint b \<noteq> TAG_ARRAY" and "uint b \<noteq> TAG_STRUCTURE"
  shows "decode (b # r) = decode_depth (Suc n) (b # r)"
  using assms by (simp add: decode_def decode_depth.simps(2) Let_def del: decode_depth.simps(1))

section \<open>Errors\<close>

lemma dec_len_Inl: "dec_len buf = Inl e \<Longrightarrow> e = AxdrError ''length''"
  by (auto simp: dec_len_def Let_def split: list.splits if_splits)

lemma dec_fixed_Inl: "dec_fixed k err f tg rest = Inl e \<Longrightarrow> e = AxdrError err"
  by (auto simp: dec_fixed_def split: if_splits)

lemma dec_times_Inl:
  assumes "dec_times dec n buf = Inl e"
    and "\<And>b e. length b \<le> length buf \<Longrightarrow> dec b = Inl e \<Longrightarrow> P e"
    and "stream_parser dec"
  shows "P e"
  using assms(1,2)
proof (induction n arbitrary: buf)
  case 0
  then show ?case by simp
next
  case (Suc n)
  from Suc.prems(1) consider "dec buf = Inl e" | x r where "dec buf = Inr (x, r)" "dec_times dec n r = Inl e"
    by (auto simp: bindE_Inl_conv)
  then show ?case
  proof cases
    case 1
    then show ?thesis using Suc.prems(2) [of buf] by simp
  next
    case 2
    from stream_parser.shorter [OF assms(3) 2(1)] have r: "length r < length buf" .
    show ?thesis
    proof (rule Suc.IH [OF 2(2)])
      fix b e' assume "length b \<le> length r" "dec b = Inl e'"
      with r show "P e'" by (intro Suc.prems(2) [of b]) auto
    qed
  qed
qed

lemma decode_depth_error:
  "decode_depth n buf = Inl e \<Longrightarrow> length buf < n \<Longrightarrow> \<exists>s. e = AxdrError s"
proof (induction n arbitrary: buf e)
  case 0
  then show ?case by simp
next
  case (Suc n)
  show ?case
  proof (cases buf)
    case Nil
    with Suc.prems show ?thesis by (auto simp: decode_depth.simps(2))
  next
    case (Cons b r)
    have items: "\<exists>s. e' = AxdrError s"
      if "dec_len r = Inr (ln, r')" "dec_times (decode_depth n) k r' = Inl e'" for ln r' k e'
    proof (rule dec_times_Inl [OF that(2) _ decode_depth_stream])
      fix b' :: bytes and e'' assume "length b' \<le> length r'" "decode_depth n b' = Inl e''"
      then show "\<exists>s. e'' = AxdrError s"
        using axdr_len.shorter [OF that(1)] Suc.prems(2) Cons by (intro Suc.IH [of b']) auto
    qed
    show ?thesis
      using Suc.prems(1) Cons items
      by (auto simp: decode_depth.simps(2) Let_def bindE_Inl_conv split: if_splits
          dest!: dec_fixed_Inl dec_len_Inl)
  qed
qed

lemma decode_error: "decode buf = Inl e \<Longrightarrow> \<exists>s. e = AxdrError s"
  unfolding decode_def by (rule decode_depth_error) auto

section \<open>Well-formed values and the round trip\<close>

text \<open>
  The values whose tag agrees with the Python form \<^verbatim>\<open>decode\<close> returns for it.  The one-byte
  integers carry their range: \<^verbatim>\<open>encode\<close> masks them with \<^verbatim>\<open>0xFF\<close> and does not check it; the
  wider ones need none, \<^verbatim>\<open>to_bytes\<close> raises.
\<close>

definition is_VInt :: "pyval \<Rightarrow> bool" where "is_VInt v = (case v of VInt _ \<Rightarrow> True | _ \<Rightarrow> False)"
definition is_VBytes :: "pyval \<Rightarrow> bool" where "is_VBytes v = (case v of VBytes _ \<Rightarrow> True | _ \<Rightarrow> False)"
definition VInt_in :: "int \<Rightarrow> int \<Rightarrow> pyval \<Rightarrow> bool" where
  "VInt_in a b v = (case v of VInt n \<Rightarrow> a \<le> n \<and> n < b | _ \<Rightarrow> False)"

fun wf_cosem :: "cosem \<Rightarrow> bool" where
  "wf_cosem (Data tg v) =
     (if tg = TAG_NULL then v = VNone
      else if tg = TAG_BOOLEAN then (case v of VBool _ \<Rightarrow> True | _ \<Rightarrow> False)
      else if tg = TAG_INTEGER then VInt_in (-128) 128 v
      else if tg = TAG_UNSIGNED \<or> tg = TAG_ENUM then VInt_in 0 256 v
      else if tg \<in> {TAG_LONG, TAG_LONG_UNSIGNED, TAG_DOUBLE_LONG, TAG_DOUBLE_LONG_UNSIGNED,
                     TAG_LONG64, TAG_LONG64_UNSIGNED} then is_VInt v
      else if tg \<in> {TAG_DATETIME, TAG_DATE, TAG_TIME, TAG_OCTET_STRING, TAG_VISIBLE_STRING,
                     TAG_UTF8_STRING} then is_VBytes v
      else if tg \<in> {TAG_ARRAY, TAG_STRUCTURE} then
        (case v of VList items \<Rightarrow> list_all wf_cosem items | _ \<Rightarrow> False)
      else False)"

declare wf_cosem.simps [simp del]

lemmas wf_forms = is_VInt_def is_VBytes_def VInt_in_def

definition known_tags :: "int list" where
  "known_tags = [TAG_NULL, TAG_ARRAY, TAG_STRUCTURE, TAG_BOOLEAN, TAG_DOUBLE_LONG,
     TAG_DOUBLE_LONG_UNSIGNED, TAG_OCTET_STRING, TAG_VISIBLE_STRING, TAG_UTF8_STRING, TAG_INTEGER,
     TAG_LONG, TAG_UNSIGNED, TAG_LONG_UNSIGNED, TAG_LONG64, TAG_LONG64_UNSIGNED, TAG_ENUM,
     TAG_DATETIME, TAG_DATE, TAG_TIME]"

lemma tag_byte: "tg \<in> set known_tags \<Longrightarrow> uint (word_of_int tg :: byte) = tg"
  by (auto simp: known_tags_def tag_defs)

lemma signed_byte:
  assumes "-128 \<le> n" and "n < 128"
  shows "(if uint (word_of_int (n AND 0xFF) :: byte) \<ge> 0x80
          then uint (word_of_int (n AND 0xFF) :: byte) - 0x100
          else uint (word_of_int (n AND 0xFF) :: byte)) = n"
proof (cases "n < 0")
  case True
  then have "n mod 256 = n + 256" using assms mod_pos_pos_trivial [of "n + 256" 256] by simp
  with True assms show ?thesis by (simp add: word_of_int_and_255 uint_word_of_int_byte)
next
  case False
  then have "n mod 256 = n" using assms by simp
  with False assms show ?thesis by (simp add: word_of_int_and_255 uint_word_of_int_byte)
qed


lemma dec_fixed_signed:
  "to_bytes_signed k n = Inr b \<Longrightarrow>
     dec_fixed k err (\<lambda>r. VInt (from_be_signed r)) tg (b @ rest) = Inr (Data tg (VInt n), rest)"
  by (subst dec_fixed_append) (auto simp: to_bytes_signed_Inr
    from_be_signed_to_bytes_signed [of k n "be_bytes k n"])

lemma dec_fixed_unsigned:
  "to_bytes k n = Inr b \<Longrightarrow>
     dec_fixed k err (\<lambda>r. VInt (from_be r)) tg (b @ rest) = Inr (Data tg (VInt n), rest)"
  by (subst dec_fixed_append) (auto simp: to_bytes_Inr from_be_to_bytes [of k n "be_bytes k n"])

lemma dec_fixed_octets:
  "length raw = k \<Longrightarrow> dec_fixed k err VBytes tg (raw @ rest) = Inr (Data tg (VBytes raw), rest)"
  by (rule dec_fixed_append)

text \<open>The branches of \<^verbatim>\<open>encode\<close> that end without recursion.\<close>

lemma wf_known: "wf_cosem (Data tg v) \<Longrightarrow> tg \<in> set known_tags"
  by (auto simp: wf_cosem.simps known_tags_def split: if_splits)

lemma encode_decode_leaf:
  assumes "wf_cosem (Data tg v)" and "tg \<noteq> TAG_ARRAY" and "tg \<noteq> TAG_STRUCTURE"
    and "encode (Data tg v) = Inr bs"
  shows "decode_depth (Suc n) (bs @ rest) = Inr (Data tg v, rest)"
proof -
  have tg: "tg \<in> set known_tags" using assms(1) by (rule wf_known)
  have wide: ?thesis if "tg \<in> {TAG_LONG, TAG_LONG_UNSIGNED, TAG_DOUBLE_LONG,
      TAG_DOUBLE_LONG_UNSIGNED, TAG_LONG64, TAG_LONG64_UNSIGNED}"
    using that assms(1,4)
    by (elim insertE; cases v)
      (auto simp: tag_defs wf_cosem.simps wf_forms decode_depth.simps(2) bindE_Inr_conv
       dec_fixed_signed dec_fixed_unsigned)
  have octets: ?thesis if "tg \<in> {TAG_DATETIME, TAG_DATE, TAG_TIME, TAG_OCTET_STRING,
      TAG_VISIBLE_STRING, TAG_UTF8_STRING}"
    using that assms(1,4)
    by (elim insertE; cases v)
      (auto simp: tag_defs wf_cosem.simps wf_forms decode_depth.simps(2) bindE_Inr_conv enc_fixed_def
       dec_fixed_octets dec_len_enc_len split: if_splits)
  have small: ?thesis if "tg \<in> {TAG_NULL, TAG_BOOLEAN, TAG_UNSIGNED, TAG_ENUM}"
    using that assms(1,4)
    by (elim insertE; cases v)
      (auto simp: tag_defs wf_cosem.simps wf_forms decode_depth.simps(2) dec_fixed_def
        word_of_int_and_255 uint_word_of_int_byte)
  have int8: ?thesis if "tg = TAG_INTEGER"
  proof -
    from assms(1) that obtain n where n: "v = VInt n" "-128 \<le> n" "n < 128"
      by (cases v) (auto simp: wf_cosem.simps wf_forms tag_defs)
    with assms(4) that have "bs = [0x0F, word_of_int (n AND 0xFF)]"
      by (simp add: tag_defs)
    then show ?thesis
      using signed_byte [OF n(2,3)] n(1) that
      by (simp only: append.simps decode_depth.simps(2) list.case Let_def dec_fixed_def)
        (simp add: tag_defs split: if_splits)
  qed
  show ?thesis using tg assms(2,3) wide octets small int8
    by (auto simp: known_tags_def)
qed

lemma encode_decode:
  shows "wf_cosem d \<Longrightarrow> encode d = Inr bs \<Longrightarrow> decode (bs @ rest) = Inr (d, rest)"
    and "list_all wf_cosem ds \<Longrightarrow> encode_items ds = Inr cs \<Longrightarrow>
      dec_times decode (length ds) (cs @ rest) = Inr (ds, rest)"
proof (induction d and ds arbitrary: bs rest and cs rest rule: encode_encode_items.induct)
  case (1 tg v)
  show ?case
  proof (cases "tg = TAG_ARRAY \<or> tg = TAG_STRUCTURE")
    case True
    with "1.prems"(1) obtain items where v: "v = VList items" and wf: "list_all wf_cosem items"
      by (cases v) (auto simp: wf_cosem.simps tag_defs)
    from True "1.prems"(2) obtain body ln where body: "encode_items items = Inr body"
      and ln: "enc_len (int (length items)) = Inr ln" and bs: "bs = word_of_int tg # ln @ body"
      by (auto simp: v tag_defs bindE_Inr_conv)
    have IH: "dec_times decode (length items) (body @ rest) = Inr (items, rest)"
      using True wf body by (intro "1.IH") (auto simp: v tag_defs)
    have "uint (word_of_int tg :: byte) = tg" using True by (auto simp: tag_defs)
    then show ?thesis using True IH dec_len_enc_len [OF ln]
      by (simp add: bs decode_list v)
  next
    case False
    then show ?thesis unfolding decode_def
      by (intro encode_decode_leaf "1.prems") auto
  qed
next
  case 2
  then show ?case by simp
next
  case (3 d ds)
  then obtain b bs where b: "encode d = Inr b" and bs: "encode_items ds = Inr bs" "cs = b @ bs"
    by (auto simp: bindE_Inr_conv)
  with 3 have "decode (b @ bs @ rest) = Inr (d, bs @ rest)"
    and "dec_times decode (length ds) (bs @ rest) = Inr (ds, rest)" by auto
  then show ?case by (simp add: bs(2))
qed

interpretation axdr_codec: codec encode decode "\<lambda>d. d" wf_cosem
  by unfold_locales (rule encode_decode(1))

section \<open>What decode returns\<close>

text \<open>Every decoded value is well-formed and can be sent again.\<close>

definition sendable :: "cosem \<Rightarrow> bool" where
  "sendable d \<longleftrightarrow> wf_cosem d \<and> is_ok (encode d)"

lemma enc_len_ok: "0 \<le> n \<Longrightarrow> n < 0x10000 \<Longrightarrow> is_ok (enc_len n)"
  by (simp add: enc_len_def)

lemma dec_times_all:
  assumes "dec_times dec n buf = Inr (xs, rest)"
    and "\<And>b x r. dec b = Inr (x, r) \<Longrightarrow> P x"
  shows "list_all P xs"
  using assms(1)
  by (induction n arbitrary: buf xs rest) (auto simp: bindE_Inr_conv dest: assms(2))

lemma encode_items_ok: "list_all (\<lambda>d. is_ok (encode d)) ds \<Longrightarrow> is_ok (encode_items ds)"
proof (induction ds)
  case (Cons d ds)
  then show ?case by (cases "encode d"; cases "encode_items ds") auto
qed simp

lemma from_be_range: "length bs = k \<Longrightarrow> 0 \<le> from_be bs \<and> from_be bs < 256 ^ k"
  using from_be_lt [of bs] by simp

lemma from_be_signed_range:
  assumes "length bs = k"
  shows "- (256 ^ k) \<le> 2 * from_be_signed bs \<and> 2 * from_be_signed bs < 256 ^ k"
proof -
  have "from_be bs < 256 ^ k" "0 \<le> from_be bs" "(0::int) \<le> 256 ^ k"
    using from_be_lt [of bs] assms by simp_all
  moreover define m :: int where "m = 256 ^ k"
  ultimately have "from_be bs < m" "0 \<le> from_be bs" "0 \<le> m" by simp_all
  then show ?thesis unfolding from_be_signed_def Let_def assms m_def [symmetric] by (auto intro: order_trans [of _ 0])
qed

lemma is_ok_to_bytes: "is_ok (to_bytes k n) \<longleftrightarrow> 0 \<le> n \<and> n < 256 ^ k"
  by (simp add: to_bytes_def)

lemma is_ok_to_bytes_signed: "is_ok (to_bytes_signed k n) \<longleftrightarrow> - (256 ^ k) \<le> 2 * n \<and> 2 * n < 256 ^ k"
  by (simp add: to_bytes_signed_def)

lemma is_ok_bindE: "is_ok (bindE m f) \<longleftrightarrow> (\<exists>x. m = Inr x \<and> is_ok (f x))"
  by (cases m) auto

lemma is_ok_ex: "is_ok r \<longleftrightarrow> (\<exists>x. r = Inr x)"
  by (cases r) auto

lemma sendable_list:
  assumes "tg = TAG_ARRAY \<or> tg = TAG_STRUCTURE" and "list_all sendable items"
    and "length items < 0x10000"
  shows "sendable (Data tg (VList items))"
proof -
  have "list_all wf_cosem items" "list_all (\<lambda>d. is_ok (encode d)) items"
    using assms(2) by (auto simp: sendable_def list_all_iff)
  then show ?thesis
    using assms(1) encode_items_ok [of items] enc_len_ok [of "int (length items)"] assms(3)
    by (auto simp: sendable_def wf_cosem.simps tag_defs is_ok_bindE is_ok_ex)
qed



lemma sendable_wide:
  "length raw = 2 \<Longrightarrow> sendable (Data TAG_LONG (VInt (from_be_signed raw)))"
  "length raw = 4 \<Longrightarrow> sendable (Data TAG_DOUBLE_LONG (VInt (from_be_signed raw)))"
  "length raw = 8 \<Longrightarrow> sendable (Data TAG_LONG64 (VInt (from_be_signed raw)))"
  "length raw = 2 \<Longrightarrow> sendable (Data TAG_LONG_UNSIGNED (VInt (from_be raw)))"
  "length raw = 4 \<Longrightarrow> sendable (Data TAG_DOUBLE_LONG_UNSIGNED (VInt (from_be raw)))"
  "length raw = 8 \<Longrightarrow> sendable (Data TAG_LONG64_UNSIGNED (VInt (from_be raw)))"
  using from_be_signed_range [of raw] from_be_range [of raw]
  by (auto simp: sendable_def wf_cosem.simps wf_forms tag_defs to_bytes_signed_def to_bytes_def)

lemma sendable_fixed:
  "length raw = 12 \<Longrightarrow> sendable (Data TAG_DATETIME (VBytes raw))"
  "length raw = 5 \<Longrightarrow> sendable (Data TAG_DATE (VBytes raw))"
  "length raw = 4 \<Longrightarrow> sendable (Data TAG_TIME (VBytes raw))"
  by (auto simp: sendable_def wf_cosem.simps wf_forms tag_defs enc_fixed_def)

lemma sendable_small:
  "sendable (Data TAG_NULL VNone)" "sendable (Data TAG_BOOLEAN (VBool b))"
  "sendable (Data TAG_UNSIGNED (VInt (uint w)))" "sendable (Data TAG_ENUM (VInt (uint w)))"
  "128 \<le> uint w \<Longrightarrow> sendable (Data TAG_INTEGER (VInt (uint w - 256)))"
  "\<not> 128 \<le> uint w \<Longrightarrow> sendable (Data TAG_INTEGER (VInt (uint w)))" for w :: byte
  using uint_byte_lt [of w]
  by (auto simp: sendable_def wf_cosem.simps wf_forms tag_defs intro: order_trans [of _ "0::int"])

lemma sendable_octets:
  assumes "tg \<in> {TAG_OCTET_STRING, TAG_VISIBLE_STRING, TAG_UTF8_STRING}" and "length raw < 0x10000"
  shows "sendable (Data tg (VBytes raw))"
proof -
  have "is_ok (enc_len (int (length raw)))" using assms(2) by (intro enc_len_ok) auto
  then show ?thesis using assms(1)
    by (auto simp: sendable_def wf_cosem.simps wf_forms tag_defs is_ok_ex)
qed

lemma sendable_leaf:
  assumes "uint b \<noteq> TAG_ARRAY" and "uint b \<noteq> TAG_STRUCTURE"
    and "decode_depth (Suc n) (b # r) = Inr (d, rest)"
  shows "sendable d"
  using assms
  by (auto simp: decode_depth.simps(2) Let_def dec_fixed_Inr bindE_Inr_conv
      intro!: sendable_wide sendable_fixed sendable_small sendable_octets
      split: if_splits dest!: dec_len_Inr)

lemma decode_depth_sendable: "decode_depth n buf = Inr (d, rest) \<Longrightarrow> sendable d"
proof (induction n arbitrary: buf d rest)
  case 0
  then show ?case by simp
next
  case (Suc n)
  then obtain b r where buf: "buf = b # r"
    by (cases buf) (auto simp: decode_depth.simps(2))
  show ?case
  proof (cases "uint b = TAG_ARRAY \<or> uint b = TAG_STRUCTURE")
    case True
    with Suc.prems obtain ln r' items where len: "dec_len r = Inr (ln, r')"
      and items: "dec_times (decode_depth n) (nat ln) r' = Inr (items, rest)"
      and d: "d = Data (uint b) (VList items)"
      by (auto simp: buf decode_depth.simps(2) Let_def tag_defs bindE_Inr_conv)
    from items have "length items = nat ln"
      using stream_parser.times_suffix [OF decode_depth_stream] by blast
    with dec_len_Inr [OF len] have "length items < 0x10000" by auto
    moreover have "list_all sendable items"
      using items by (rule dec_times_all) (rule Suc.IH)
    ultimately show ?thesis using True unfolding d by (intro sendable_list)
  next
    case False
    with Suc.prems show ?thesis by (intro sendable_leaf) (auto simp: buf)
  qed
qed

lemma decode_sendable: "decode buf = Inr (d, rest) \<Longrightarrow> sendable d"
  unfolding decode_def by (rule decode_depth_sendable)

section \<open>Nesting depth\<close>

text \<open>\<open>k\<close> arrays of one element around a value need \<open>k + 1\<close> levels of recursion.\<close>

lemma decode_depth_nested:
  "n \<le> k \<Longrightarrow> decode_depth n (concat (replicate k [1, 1]) @ rest) = Inl RecursionError"
proof (induction n arbitrary: k)
  case 0
  then show ?case by simp
next
  case (Suc n)
  then obtain k' where k: "k = Suc k'" "n \<le> k'" by (cases k) auto
  then show ?case using Suc.IH [of k']
    by (simp add: decode_depth.simps(2) tag_defs dec_len_def)
qed

section \<open>Properties\<close>

text \<open>C19: \<^verbatim>\<open>decode\<close> inverts \<^verbatim>\<open>encode\<close>: a well-formed COSEM value that can be encoded is what
  is decoded from its octets, whatever octets follow, and those are left over.\<close>

theorem cosem_roundtrip:
  assumes "wf_cosem d" and "encode d = Inr bs"
  shows "decode (bs @ rest) = Inr (d, rest)"
  using assms by (rule encode_decode(1))

theorem cosem_roundtrip_witness:
  "\<exists>bs. encode (ax_structure [ax_u16 500, ax_octet [1, 2], ax_null]) = Inr bs \<and>
     decode (bs @ [0xFF]) = Inr (ax_structure [ax_u16 500, ax_octet [1, 2], ax_null], [0xFF])"
proof -
  let ?d = "ax_structure [ax_u16 500, ax_octet [1, 2], ax_null]"
  have wf: "wf_cosem ?d"
    by (simp add: ax_structure_def ax_u16_def ax_octet_def ax_null_def wf_cosem.simps tag_defs
        VInt_in_def is_VBytes_def is_VInt_def)
  obtain bs where bs: "encode ?d = Inr bs"
    by (simp add: ax_structure_def ax_u16_def ax_octet_def ax_null_def tag_defs enc_len_def
        enc_fixed_def to_bytes_def)
  show ?thesis using bs cosem_roundtrip [OF wf bs, of "[0xFF]"] by simp
qed


text \<open>an input of \<^verbatim>\<open>2 k\<close> octets that opens \<^verbatim>\<open>k\<close> nested arrays makes \<^verbatim>\<open>decode\<close> exceed any
  recursion limit of at most \<^verbatim>\<open>k\<close> frames: the interpreter's \<^verbatim>\<open>RecursionError\<close>, which no handler
  names, comes out instead of \<^verbatim>\<open>AxdrError\<close>.\<close>

lemma decode_recursion_limit:
  "decode_depth limit (concat (replicate (limit + k) [1, 1]) @ rest) = Inl RecursionError"
  by (rule decode_depth_nested) simp

end
