(* ===== verification/Obis.thy ===== *)
theory Obis
  imports Axdr
begin

text \<open>
  The live OBIS catalogue and the scaler-unit reading,
  \<^verbatim>\<open>opt/sa02m-spodes/sa02m_spodes/obis_spodes.py\<close>.  \<^verbatim>\<open>physical\<close> multiplies floats; the model keeps the
  exact pair of raw value and decimal scaler instead of the rounded product.
\<close>

type_synonym obis = "int \<times> int \<times> int \<times> int \<times> int \<times> int"

definition CLASS_REGISTER :: int where "CLASS_REGISTER = 3"
definition CLASS_PROFILE :: int where "CLASS_PROFILE = 7"

definition CLOCK_OBIS :: obis where "CLOCK_OBIS = (0, 0, 1, 0, 0, 255)"
definition LOAD_PROFILE_OBIS :: obis where "LOAD_PROFILE_OBIS = (1, 0, 99, 1, 0, 255)"
definition EVENT_LOG_OBIS :: obis where "EVENT_LOG_OBIS = (0, 0, 99, 98, 0, 255)"
definition SINGLE_PHASE_VOLTAGE :: obis where "SINGLE_PHASE_VOLTAGE = (1, 0, 12, 7, 0, 255)"

definition unit_symbol :: "int \<Rightarrow> string" where
  "unit_symbol u =
     (case map_of [(27, ''W''), (28, ''VA''), (29, ''var''), (30, ''Wh''), (31, ''VAh''), (32, ''varh''),
                   (33, ''A''), (35, ''V''), (44, ''Hz'')] u of
        None \<Rightarrow> '''' | Some s \<Rightarrow> s)"

definition POWER :: "(string \<times> obis) list" where
  "POWER =
     [(''voltage_a'', (1, 0, 32, 7, 0, 255)), (''voltage_b'', (1, 0, 52, 7, 0, 255)),
      (''voltage_c'', (1, 0, 72, 7, 0, 255)), (''voltage_ab'', (1, 0, 12, 7, 1, 255)),
      (''voltage_bc'', (1, 0, 12, 7, 2, 255)), (''voltage_ca'', (1, 0, 12, 7, 3, 255)),
      (''current_a'', (1, 0, 31, 7, 0, 255)), (''current_b'', (1, 0, 51, 7, 0, 255)),
      (''current_c'', (1, 0, 71, 7, 0, 255)), (''power_a'', (1, 0, 21, 7, 0, 255)),
      (''power_b'', (1, 0, 41, 7, 0, 255)), (''power_c'', (1, 0, 61, 7, 0, 255)),
      (''power_total'', (1, 0, 1, 7, 0, 255)), (''reactive_a'', (1, 0, 23, 7, 0, 255)),
      (''reactive_b'', (1, 0, 43, 7, 0, 255)), (''reactive_c'', (1, 0, 63, 7, 0, 255)),
      (''reactive_total'', (1, 0, 3, 7, 0, 255)), (''apparent_a'', (1, 0, 29, 7, 0, 255)),
      (''apparent_b'', (1, 0, 49, 7, 0, 255)), (''apparent_c'', (1, 0, 69, 7, 0, 255)),
      (''apparent_total'', (1, 0, 9, 7, 0, 255)), (''pf_a'', (1, 0, 33, 7, 0, 255)),
      (''pf_b'', (1, 0, 53, 7, 0, 255)), (''pf_c'', (1, 0, 73, 7, 0, 255)),
      (''pf_total'', (1, 0, 13, 7, 0, 255)), (''frequency'', (1, 0, 14, 7, 0, 255))]"

definition ENERGY :: "(string \<times> obis) list" where
  "ENERGY =
     [(''energy_active_import'', (1, 0, 1, 8, 0, 255)), (''energy_active_export'', (1, 0, 2, 8, 0, 255)),
      (''energy_reactive_import'', (1, 0, 3, 8, 0, 255)), (''energy_reactive_export'', (1, 0, 4, 8, 0, 255)),
      (''energy_apparent'', (1, 0, 9, 8, 0, 255))]"

definition LIVE :: "(string \<times> obis) list" where "LIVE = POWER @ ENERGY"

definition SAP :: "string \<Rightarrow> int option" where
  "SAP = map_of [(''public'', 16), (''reader'', 32), (''configurator'', 48)]"

definition obis_bytes :: "obis \<Rightarrow> bytes" where
  "obis_bytes code = (case code of (a, b, c, d, e, f) \<Rightarrow>
     map (\<lambda>x. word_of_int (x AND 0xFF)) [a, b, c, d, e, f])"

fun first_name :: "obis \<Rightarrow> (string \<times> obis) list \<Rightarrow> string option" where
  "first_name want [] = None"
| "first_name want ((name, obis) # rest) = (if obis = want then Some name else first_name want rest)"

definition live_name :: "obis \<Rightarrow> string option" where
  "live_name code = first_name code LIVE"

record reading =
  r_raw :: int
  r_scaler :: int
  r_unit :: string

definition physical :: "int \<Rightarrow> int \<Rightarrow> int \<Rightarrow> reading" where
  "physical n scaler unt = \<lparr>r_raw = n, r_scaler = scaler, r_unit = unit_symbol unt\<rparr>"

definition parse_scaler_unit :: "cosem \<Rightarrow> (int \<times> int) result" where
  "parse_scaler_unit d =
     (case val d of
        VList (s # u # _) \<Rightarrow>
          if tag d \<noteq> TAG_STRUCTURE then Inl (AxdrError ''scaler-unit'')
          else bindE (as_int s) (\<lambda>sc. bindE (as_int u) (\<lambda>un. Inr (sc, un)))
      | _ \<Rightarrow> Inl (AxdrError ''scaler-unit''))"

section \<open>The catalogue is one-to-one\<close>

lemma first_name_in: "first_name c l = Some n \<Longrightarrow> (n, c) \<in> set l"
  by (induction c l rule: first_name.induct) (auto split: if_splits)

lemma first_name_unique:
  "distinct (map snd l) \<Longrightarrow> (n, c) \<in> set l \<Longrightarrow> first_name c l = Some n"
  by (induction l) (auto simp: image_iff)

lemma LIVE_names: "distinct (map fst LIVE)"
  by code_simp

definition code_key :: "obis \<Rightarrow> int" where
  "code_key x = (case x of (a, b, c, d, e, f) \<Rightarrow> 100 * c + 10 * d + e)"

lemma LIVE_keys: "map code_key (map snd LIVE) =
    [3270, 5270, 7270, 1271, 1272, 1273, 3170, 5170, 7170, 2170, 4170, 6170, 170, 2370, 4370, 6370,
     370, 2970, 4970, 6970, 970, 3370, 5370, 7370, 1370, 1470, 180, 280, 380, 480, 980]"
  by (simp add: LIVE_def POWER_def ENERGY_def code_key_def)

lemma LIVE_codes: "distinct (map snd LIVE)"
proof -
  have "distinct (map code_key (map snd LIVE))" unfolding LIVE_keys by simp
  then show ?thesis unfolding distinct_map [of code_key] by (rule conjunct1)
qed

lemma live_name_iff: "live_name c = Some n \<longleftrightarrow> (n, c) \<in> set LIVE"
proof
  assume "live_name c = Some n"
  then show "(n, c) \<in> set LIVE" unfolding live_name_def by (rule first_name_in)
next
  assume "(n, c) \<in> set LIVE"
  then show "live_name c = Some n" unfolding live_name_def by (rule first_name_unique [OF LIVE_codes])
qed

lemma length_obis_bytes [simp]: "length (obis_bytes c) = 6"
  by (simp add: obis_bytes_def split: prod.splits)

end
