(* ===== verification/Security.thy ===== *)
theory Security
  imports Axdr
begin

text \<open>
  Suite-0 ciphering of one xDLMS APDU, \<^verbatim>\<open>opt/sa02m-spodes/sa02m_spodes/security.py\<close>.
  AES-GCM itself is the third-party package \<^verbatim>\<open>cryptography\<close>: the function the source calls
  \<^verbatim>\<open>gcm_seal\<close> is the parameter \<open>seal\<close> (key, nonce, additional data, plaintext to ciphertext
  and tag).  Where a lemma needs it, \<open>gcm_stream\<close> states what GCM documents: the ciphertext is
  the plaintext xor a keystream of the key and nonce, and the tag has 16 bytes.
\<close>

type_synonym sealer = "bytes \<Rightarrow> bytes \<Rightarrow> bytes \<Rightarrow> bytes \<Rightarrow> bytes \<times> bytes"

definition SC_AUTH :: byte where "SC_AUTH = 0x10"
definition SC_ENC :: byte where "SC_ENC = 0x20"
definition SC_BOTH :: byte where "SC_BOTH = 0x30"
definition TAG_LEN :: nat where "TAG_LEN = 12"

lemmas sc_defs [py_eval] = SC_AUTH_def SC_ENC_def SC_BOTH_def TAG_LEN_def

definition glo :: "byte \<Rightarrow> byte option" where
  "glo t = map_of [(0xC0, 0xC8), (0xC1, 0xC9), (0xC3, 0xCB), (0xC4, 0xCC), (0xC5, 0xCD), (0xC7, 0xCF)] t"

definition unglo :: "byte \<Rightarrow> byte option" where
  "unglo g = map_of [(0xC8, 0xC0), (0xC9, 0xC1), (0xCB, 0xC3), (0xCC, 0xC4), (0xCD, 0xC5), (0xCF, 0xC7)] g"

definition xor_bytes :: "bytes \<Rightarrow> bytes \<Rightarrow> bytes" where
  "xor_bytes a b = map2 (XOR) a b"

definition sc_aad :: "byte \<Rightarrow> bytes \<Rightarrow> bytes" where
  "sc_aad sc auth_key = (if sc AND SC_AUTH \<noteq> 0 then sc # auth_key else [])"

definition protect :: "sealer \<Rightarrow> bytes \<Rightarrow> bytes \<Rightarrow> bytes \<Rightarrow> bytes \<Rightarrow> int \<Rightarrow> byte \<Rightarrow> bytes result" where
  "protect seal apdu key auth_key system_title ic sc =
     (if length key \<noteq> 16 \<or> length system_title \<noteq> 8 then Inl (SecurityError ''key'')
      else bindE (to_bytes 4 ic) (\<lambda>icb.
        let nonce = system_title @ icb;
            aad = sc_aad sc auth_key;
            (ct, tag) = seal key nonce aad apdu;
            tag12 = take TAG_LEN tag;
            body = (if sc AND SC_ENC \<noteq> 0 \<and> sc AND SC_AUTH \<noteq> 0 then ct @ tag12
                    else if sc AND SC_AUTH \<noteq> 0 then apdu @ tag12
                    else if sc AND SC_ENC \<noteq> 0 then ct
                    else apdu)
        in Inr (sc # icb @ body)))"

definition unprotect :: "sealer \<Rightarrow> bytes \<Rightarrow> bytes \<Rightarrow> bytes \<Rightarrow> bytes \<Rightarrow> bytes result" where
  "unprotect seal frm key auth_key system_title =
     (if length frm < 5 \<or> length key \<noteq> 16 \<or> length system_title \<noteq> 8
      then Inl (SecurityError ''short'')
      else
        let sc = frm ! 0;
            rest = drop 5 frm;
            nonce = system_title @ slice 1 5 frm;
            aad = sc_aad sc auth_key in
        if sc AND SC_ENC \<noteq> 0 \<and> sc AND SC_AUTH \<noteq> 0 then
          if length rest < TAG_LEN then Inl (SecurityError ''tag'')
          else
            let ct = take (length rest - TAG_LEN) rest;
                tag12 = drop (length rest - TAG_LEN) rest;
                ks = fst (seal key nonce aad (replicate (length ct) 0));
                plain = xor_bytes ct ks;
                (ct2, tag) = seal key nonce aad plain in
            if ct2 \<noteq> ct \<or> take TAG_LEN tag \<noteq> tag12 then Inl (SecurityError ''tag'')
            else Inr plain
        else if sc AND SC_AUTH \<noteq> 0 then
          if length rest < TAG_LEN then Inl (SecurityError ''tag'')
          else
            let plain = take (length rest - TAG_LEN) rest;
                tag12 = drop (length rest - TAG_LEN) rest;
                tag = snd (seal key nonce aad plain) in
            if take TAG_LEN tag \<noteq> tag12 then Inl (SecurityError ''tag'') else Inr plain
        else if sc AND SC_ENC \<noteq> 0 then
          let ks = fst (seal key nonce [] (replicate (length rest) 0)) in Inr (xor_bytes rest ks)
        else Inl (SecurityError ''sc''))"

section \<open>The security context\<close>

record security =
  sec_ek :: bytes
  sec_ak :: bytes
  sec_title :: bytes
  sec_ic :: int

definition new_security :: "bytes \<Rightarrow> bytes \<Rightarrow> bytes \<Rightarrow> int \<Rightarrow> security result" where
  "new_security encryption_key authentication_key system_title invocation_counter =
     (if length encryption_key \<noteq> 16 \<or> length authentication_key \<noteq> 16 \<or> length system_title \<noteq> 8
      then Inl (SecurityError ''key'')
      else Inr \<lparr>sec_ek = encryption_key, sec_ak = authentication_key, sec_title = system_title,
                sec_ic = invocation_counter AND 0xFFFFFFFF\<rparr>)"

text \<open>The counter moves before the frame is built, also when building it fails.\<close>

definition protect_apdu :: "sealer \<Rightarrow> security \<Rightarrow> bytes \<Rightarrow> bytes result \<times> security" where
  "protect_apdu seal s apdu =
     (case glo (if apdu \<noteq> [] then apdu ! 0 else 0) of
        None \<Rightarrow> (Inl (SecurityError ''tag''), s)
      | Some g \<Rightarrow>
          let s' = s\<lparr>sec_ic := (sec_ic s + 1) AND 0xFFFFFFFF\<rparr> in
          (bindE (protect seal apdu (sec_ek s') (sec_ak s') (sec_title s') (sec_ic s') SC_BOTH) (\<lambda>inner.
             bindE (enc_len (int (length inner))) (\<lambda>ln. Inr (g # ln @ inner))), s'))"

definition unprotect_apdu :: "sealer \<Rightarrow> security \<Rightarrow> bytes \<Rightarrow> bytes result" where
  "unprotect_apdu seal s apdu =
     (if apdu = [] then Inl (SecurityError ''short'')
      else (case unglo (apdu ! 0) of
          None \<Rightarrow> Inl (SecurityError ''clear'')
        | Some plain_tag \<Rightarrow>
            bindE (dec_len (drop 1 apdu)) (\<lambda>(ln, rest).
            if int (length rest) < ln then Inl (SecurityError ''short'')
            else bindE (unprotect seal (take (nat ln) rest) (sec_ek s) (sec_ak s) (sec_title s)) (\<lambda>plain.
              if plain = [] \<or> plain ! 0 \<noteq> plain_tag then Inl (SecurityError ''tag'')
              else Inr plain))))"

section \<open>GCM as its documentation states it\<close>

definition gcm_stream :: "(bytes \<Rightarrow> bytes \<Rightarrow> nat \<Rightarrow> bytes) \<Rightarrow> sealer \<Rightarrow> bool" where
  "gcm_stream ks seal \<longleftrightarrow>
     (\<forall>key nonce aad p. fst (seal key nonce aad p) = xor_bytes p (ks key nonce (length p)) \<and>
        length (ks key nonce (length p)) = length p \<and> length (snd (seal key nonce aad p)) = 16)"

lemma gcm_streamD:
  assumes "gcm_stream ks seal"
  shows "fst (seal key nonce aad p) = xor_bytes p (ks key nonce (length p))"
    and "length (ks key nonce (length p)) = length p"
    and "length (snd (seal key nonce aad p)) = 16"
  using assms by (auto simp: gcm_stream_def)

lemma length_xor_bytes [simp, wire_len]: "length (xor_bytes a b) = min (length a) (length b)"
  by (simp add: xor_bytes_def)

lemma xor_bytes_zero: "length a = length b \<Longrightarrow> xor_bytes (replicate (length a) 0) b = b"
  by (induction a b rule: list_induct2) (auto simp: xor_bytes_def)

lemma xor_bytes_xor: "length a = length b \<Longrightarrow> xor_bytes (xor_bytes a b) b = a"
  by (induction a b rule: list_induct2) (auto simp: xor_bytes_def xor.assoc)

lemma gcm_keystream:
  assumes "gcm_stream ks seal"
  shows "fst (seal key nonce aad (replicate (length (p :: bytes)) 0)) = ks key nonce (length p)"
proof -
  have "length (ks key nonce (length p)) = length p" using gcm_streamD(2) [OF assms] .
  with gcm_streamD(1) [OF assms, of key nonce aad "replicate (length p) 0"]
    xor_bytes_zero [of p "ks key nonce (length p)"]
  show ?thesis by simp
qed

lemma gcm_recover:
  assumes "gcm_stream ks seal"
  shows "xor_bytes (fst (seal key nonce aad p))
    (fst (seal key nonce aad' (replicate (length (fst (seal key nonce aad p))) 0))) = p"
  using gcm_streamD [OF assms] gcm_keystream [OF assms, of key nonce aad' p]
  by (simp add: xor_bytes_xor)

section \<open>Round trips\<close>

lemma glo_unglo: "glo t = Some g \<Longrightarrow> unglo g = Some t"
  by (auto simp: glo_def unglo_def split: if_splits)

lemma unglo_glo: "unglo g = Some t \<Longrightarrow> glo t = Some g"
  by (auto simp: glo_def unglo_def split: if_splits)

lemma unprotect_protect:
  assumes gcm: "gcm_stream ks seal"
    and "protect seal apdu key auth_key system_title ic sc = Inr frm"
    and "sc AND SC_ENC \<noteq> 0 \<or> sc AND SC_AUTH \<noteq> 0"
  shows "unprotect seal frm key auth_key system_title = Inr apdu"
proof -
  define icb where "icb = be_bytes 4 ic"
  define nonce where "nonce = system_title @ icb"
  define aad where "aad = sc_aad sc auth_key"
  define ct where "ct = fst (seal key nonce aad apdu)"
  define tag where "tag = snd (seal key nonce aad apdu)"
  have sealed: "seal key nonce aad apdu = (ct, tag)" by (simp add: ct_def tag_def)
  have tag: "length (take TAG_LEN tag) = TAG_LEN"
    using gcm_streamD(3) [OF gcm] by (simp add: tag_def TAG_LEN_def)
  have rec: "xor_bytes ct (fst (seal key nonce a (replicate (length ct) 0))) = apdu" for a
    unfolding ct_def by (rule gcm_recover [OF gcm])
  from assms(2) have len: "length key = 16" "length system_title = 8"
    and frm: "frm = sc # icb @ (if sc AND SC_ENC \<noteq> 0 \<and> sc AND SC_AUTH \<noteq> 0 then ct @ take TAG_LEN tag
                    else if sc AND SC_AUTH \<noteq> 0 then apdu @ take TAG_LEN tag
                    else if sc AND SC_ENC \<noteq> 0 then ct else apdu)"
    by (auto simp: protect_def bindE_Inr_conv to_bytes_Inr Let_def sealed icb_def [symmetric]
        nonce_def [symmetric] aad_def [symmetric] split: if_splits)
  have head: "frm ! 0 = sc" "slice 1 5 frm = icb" "5 \<le> length frm"
    by (simp_all add: frm slice_def icb_def)
  have body: "drop 5 frm = (if sc AND SC_ENC \<noteq> 0 \<and> sc AND SC_AUTH \<noteq> 0 then ct @ take TAG_LEN tag
                    else if sc AND SC_AUTH \<noteq> 0 then apdu @ take TAG_LEN tag
                    else if sc AND SC_ENC \<noteq> 0 then ct else apdu)"
    by (simp add: frm icb_def)
  show ?thesis
    unfolding unprotect_def Let_def head body aad_def [symmetric] nonce_def [symmetric]
    using assms(3) len tag head(3) rec by (auto simp: sealed)
qed

section \<open>What an authenticated frame proves\<close>

lemma append_take_tail:
  "k \<le> length xs \<Longrightarrow> xs = take (length xs - k) xs @ drop (length xs - k) xs"
  by simp

lemma frame_parts:
  assumes "5 \<le> length frm"
  shows "frm = frm ! 0 # slice 1 5 frm @ drop 5 frm" and "length (slice 1 5 frm) = 4"
proof -
  obtain b q where "frm = b # q" using assms by (cases frm) auto
  moreover have "take 4 q @ drop 4 q = q" by simp
  ultimately show "frm = frm ! 0 # slice 1 5 frm @ drop 5 frm" by (simp add: slice_def)
  show "length (slice 1 5 frm) = 4" using assms by (simp add: length_slice)
qed

text \<open>
  Under an authenticated security control, what is accepted is what \<open>seal\<close> produced for that
  very plaintext, nonce and additional data.
\<close>

lemma unprotect_authentic:
  assumes "unprotect seal frm key auth_key system_title = Inr p" and "frm ! 0 AND SC_AUTH \<noteq> 0"
  shows "\<exists>icb ct tag. length icb = 4 \<and>
    seal key (system_title @ icb) (frm ! 0 # auth_key) p = (ct, tag) \<and>
    frm = frm ! 0 # icb @ (if frm ! 0 AND SC_ENC \<noteq> 0 then ct else p) @ take TAG_LEN tag"
proof -
  define icb where "icb = slice 1 5 frm"
  define rest where "rest = drop 5 frm"
  define ct where "ct = fst (seal key (system_title @ icb) (frm ! 0 # auth_key) p)"
  define tag where "tag = snd (seal key (system_title @ icb) (frm ! 0 # auth_key) p)"
  from assms have len: "5 \<le> length frm" by (auto simp: unprotect_def split: if_splits)
  have cut: "rest = take (length rest - TAG_LEN) rest @ drop (length rest - TAG_LEN) rest" by simp
  have "rest = (if frm ! 0 AND SC_ENC \<noteq> 0 then ct else p) @ take TAG_LEN tag"
    using assms
    by (subst cut)
      (auto simp: unprotect_def Let_def sc_aad_def ct_def tag_def icb_def rest_def
        split: if_splits prod.splits)
  with frame_parts [OF len] show ?thesis
    unfolding rest_def icb_def [symmetric]
    by (intro exI [of _ icb] exI [of _ ct] exI [of _ tag]) (simp add: ct_def tag_def)
qed

text \<open>A frame that only encrypts is accepted as it is: no tag is asked for.\<close>

lemma unprotect_unauthenticated:
  assumes "gcm_stream ks seal" and "length key = 16" and "length system_title = 8"
    and "length icb = 4"
  shows "unprotect seal (SC_ENC # icb @ body) key auth_key system_title =
    Inr (xor_bytes body (ks key (system_title @ icb) (length body)))"
  using assms gcm_keystream [OF assms(1), of key "system_title @ icb" "[]" body]
  by (simp add: unprotect_def sc_defs slice_def)

section \<open>The context\<close>

lemma int_and_ffffffff: "(n::int) AND 0xFFFFFFFF = n mod 2 ^ 32"
  using take_bit_eq_mask [of 32 n] by (simp add: take_bit_eq_mod mask_numeral)

definition security_wf :: "security \<Rightarrow> bool" where
  "security_wf s \<longleftrightarrow> length (sec_ek s) = 16 \<and> length (sec_ak s) = 16 \<and> length (sec_title s) = 8
     \<and> 0 \<le> sec_ic s \<and> sec_ic s < 2 ^ 32"

lemma new_security_wf: "new_security e a t n = Inr s \<Longrightarrow> security_wf s"
  by (auto simp: new_security_def security_wf_def int_and_ffffffff split: if_splits)

lemma protect_apdu_state:
  "protect_apdu seal s apdu = (r, s') \<Longrightarrow>
     s' = (if glo (if apdu \<noteq> [] then apdu ! 0 else 0) = None then s
           else s\<lparr>sec_ic := (sec_ic s + 1) mod 2 ^ 32\<rparr>)"
  by (auto simp: protect_apdu_def Let_def int_and_ffffffff split: option.splits)

lemma protect_apdu_wf: "security_wf s \<Longrightarrow> protect_apdu seal s apdu = (r, s') \<Longrightarrow> security_wf s'"
  by (auto dest!: protect_apdu_state simp: security_wf_def)

lemma protect_apdu_Inr:
  assumes "protect_apdu seal s apdu = (Inr w, s')"
  obtains g inner ln where "apdu \<noteq> []" and "glo (apdu ! 0) = Some g"
    and "s' = s\<lparr>sec_ic := (sec_ic s + 1) mod 2 ^ 32\<rparr>"
    and "protect seal apdu (sec_ek s) (sec_ak s) (sec_title s) (sec_ic s') SC_BOTH = Inr inner"
    and "enc_len (int (length inner)) = Inr ln" and "w = g # ln @ inner"
proof -
  have "glo 0 = None" by (simp add: glo_def)
  with assms that show ?thesis
    by (auto simp: protect_apdu_def Let_def int_and_ffffffff bindE_Inr_conv
        split: option.splits if_splits)
qed

lemma unprotect_protect_apdu:
  assumes "gcm_stream ks seal" and "protect_apdu seal s apdu = (Inr w, s')"
    and "sec_ek t = sec_ek s" and "sec_ak t = sec_ak s" and "sec_title t = sec_title s"
  shows "unprotect_apdu seal t w = Inr apdu"
  using assms(2)
proof (rule protect_apdu_Inr)
  fix g inner ln
  assume a: "apdu \<noteq> []" "glo (apdu ! 0) = Some g"
    and p: "protect seal apdu (sec_ek s) (sec_ak s) (sec_title s) (sec_ic s') SC_BOTH = Inr inner"
    and l: "enc_len (int (length inner)) = Inr ln" "w = g # ln @ inner"
  have "unprotect seal inner (sec_ek s) (sec_ak s) (sec_title s) = Inr apdu"
    by (rule unprotect_protect [OF assms(1) p]) (simp add: sc_defs)
  moreover have "dec_len (ln @ inner) = Inr (int (length inner), inner)"
    using dec_len_enc_len [OF l(1), of inner] by simp
  ultimately show ?thesis
    using a(1) glo_unglo [OF a(2)] assms(3-5) by (simp add: unprotect_apdu_def l(2))
qed

lemma unprotect_apdu_clear:
  "unglo (apdu ! 0) = None \<Longrightarrow> apdu \<noteq> [] \<Longrightarrow> unprotect_apdu seal s apdu = Inl (SecurityError ''clear'')"
  by (simp add: unprotect_apdu_def)

lemma unprotect_apdu_Inr:
  assumes "unprotect_apdu seal s apdu = Inr p"
  obtains g ln frm where "glo (p ! 0) = Some g" and "apdu ! 0 = g" and "p \<noteq> []"
    and "unprotect seal frm (sec_ek s) (sec_ak s) (sec_title s) = Inr p"
    and "dec_len (drop 1 apdu) = Inr ln" and "frm = take (nat (fst ln)) (snd ln)"
  using assms
  by (fastforce simp: unprotect_apdu_def bindE_Inr_conv dest: unglo_glo split: option.splits if_splits)

text \<open>
  Malleability: whoever sees a protected answer can clear the authentication bit of its security
  control, drop the tag and flip any bits after the first byte; the context accepts the result.
\<close>

lemma unprotect_apdu_malleable:
  assumes gcm: "gcm_stream ks seal"
    and prot: "protect seal p (sec_ek s) (sec_ak s) (sec_title s) n SC_BOTH = Inr frm"
    and p: "p \<noteq> []" "glo (p ! 0) = Some g"
    and delta: "length delta = length p" "delta ! 0 = 0"
    and forged: "forged = SC_ENC # slice 1 5 frm @ xor_bytes (slice 5 (5 + length p) frm) delta"
    and ln: "enc_len (int (length forged)) = Inr ln"
  shows "unprotect_apdu seal s (g # ln @ forged) = Inr (xor_bytes p delta)"
proof -
  define icb where "icb = be_bytes 4 n"
  define k where "k = ks (sec_ek s) (sec_title s @ icb) (length p)"
  have k: "length k = length p" using gcm_streamD(2) [OF gcm] by (simp add: k_def)
  from prot have len: "length (sec_ek s) = 16" "length (sec_title s) = 8"
    by (auto simp: protect_def split: if_splits)
  from prot obtain t where frm: "frm = SC_BOTH # icb @ xor_bytes p k @ t"
    using gcm_streamD(1) [OF gcm]
    by (auto simp: protect_def bindE_Inr_conv to_bytes_Inr Let_def sc_defs icb_def k_def
        split: if_splits prod.splits) (metis fst_conv)
  have "slice 1 5 frm = icb" "slice 5 (5 + length p) frm = xor_bytes p k"
    using k by (simp_all add: frm slice_def icb_def)
  then have forged': "forged = SC_ENC # icb @ xor_bytes (xor_bytes p k) delta" by (simp add: forged)
  have "xor_bytes (xor_bytes (xor_bytes p k) delta) k = xor_bytes p delta"
    by (rule nth_equalityI) (use k delta in \<open>simp_all add: xor_bytes_def xor.assoc xor.left_commute xor.commute\<close>)
  moreover have "unprotect seal forged (sec_ek s) (sec_ak s) (sec_title s) =
      Inr (xor_bytes (xor_bytes (xor_bytes p k) delta)
        (ks (sec_ek s) (sec_title s @ icb) (length (xor_bytes (xor_bytes p k) delta))))"
    unfolding forged' by (rule unprotect_unauthenticated [OF gcm len]) (simp add: icb_def)
  ultimately have u: "unprotect seal forged (sec_ek s) (sec_ak s) (sec_title s) = Inr (xor_bytes p delta)"
    using k delta by (simp add: k_def)
  have "xor_bytes p delta ! 0 = p ! 0" "xor_bytes p delta \<noteq> []"
    using p delta by (cases p; cases delta; simp add: xor_bytes_def)+
  with u dec_len_enc_len [OF ln, of forged] glo_unglo [OF p(2)] show ?thesis
    by (simp add: unprotect_apdu_def)
qed

section \<open>Nonces\<close>

text \<open>The counters of a run of protected requests, and when two of them share a nonce.\<close>

fun protect_run :: "sealer \<Rightarrow> security \<Rightarrow> bytes list \<Rightarrow> int list \<times> security" where
  "protect_run seal s [] = ([], s)"
| "protect_run seal s (a # as) =
     (let (r, s') = protect_apdu seal s a; (ns, s'') = protect_run seal s' as
      in (sec_ic s' # ns, s''))"

definition request_tag :: "bytes \<Rightarrow> bool" where
  "request_tag a \<longleftrightarrow> a \<noteq> [] \<and> glo (a ! 0) \<noteq> None"

lemma protect_run_counters:
  "list_all request_tag as \<Longrightarrow> security_wf s \<Longrightarrow>
     fst (protect_run seal s as) = map (\<lambda>i. (sec_ic s + 1 + int i) mod 2 ^ 32) [0..<length as]"
proof (induction as arbitrary: s)
  case Nil
  then show ?case by simp
next
  case (Cons a as)
  obtain r s' where p: "protect_apdu seal s a = (r, s')" by force
  from protect_apdu_state [OF p] Cons.prems(1)
  have ic: "sec_ic s' = (sec_ic s + 1) mod 2 ^ 32" by (auto simp: request_tag_def)
  from Cons.IH [of s'] Cons.prems protect_apdu_wf [OF Cons.prems(2) p]
  have "fst (protect_run seal s' as) = map (\<lambda>i. (sec_ic s' + 1 + int i) mod 2 ^ 32) [0..<length as]"
    by simp
  also have "\<dots> = map (\<lambda>i. (sec_ic s + 1 + int (Suc i)) mod 2 ^ 32) [0..<length as]"
  proof (rule map_cong [OF refl])
    fix i
    have "(sec_ic s' + 1 + int i) mod 2 ^ 32 = ((sec_ic s + 1) mod 2 ^ 32 + (1 + int i)) mod 2 ^ 32"
      by (simp only: ic add.assoc)
    then show "(sec_ic s' + 1 + int i) mod 2 ^ 32 = (sec_ic s + 1 + int (Suc i)) mod 2 ^ 32"
      by (simp only: mod_add_left_eq) (simp add: algebra_simps)
  qed
  finally show ?case
    by (simp add: p ic split_beta upt_conv_Cons del: upt_Suc flip: map_Suc_upt)
qed

lemma protect_run_distinct:
  assumes "list_all request_tag as" and "security_wf s" and "length as \<le> 2 ^ 32"
  shows "distinct (fst (protect_run seal s as))"
proof -
  have "inj_on (\<lambda>i. (sec_ic s + 1 + int i) mod 2 ^ 32) {0..<length as}"
  proof (rule inj_onI)
    fix i j assume ij: "i \<in> {0..<length as}" "j \<in> {0..<length as}"
      and "(sec_ic s + 1 + int i) mod 2 ^ 32 = (sec_ic s + 1 + int j) mod 2 ^ 32"
    then have "int i mod 2 ^ 32 = int j mod 2 ^ 32" by (metis add_diff_cancel_left' mod_diff_cong)
    moreover have "int i < 2 ^ 32" "int j < 2 ^ 32" using ij assms(3) by auto
    ultimately show "i = j" by simp
  qed
  then show ?thesis using protect_run_counters [OF assms(1,2)] by (simp add: distinct_map)
qed

section \<open>Properties\<close>

text \<open>C23: with a GCM that behaves as documented (a key stream and a tag), what
  \<^verbatim>\<open>protect_apdu\<close> sends is turned back into the request by any context with the same keys and
  system title, whatever its own counter is.\<close>

theorem protected_apdu_roundtrip:
  assumes "gcm_stream ks seal" and "protect_apdu seal s apdu = (Inr w, s')"
    and "sec_ek t = sec_ek s" and "sec_ak t = sec_ak s" and "sec_title t = sec_title s"
  shows "unprotect_apdu seal t w = Inr apdu"
  using assms by (rule unprotect_protect_apdu)

definition zero_seal :: sealer where
  "zero_seal = (\<lambda>key nonce aad p. (xor_bytes p (replicate (length p) 0), replicate 16 0))"

lemma zero_seal_stream: "gcm_stream (\<lambda>k n len. replicate len 0) zero_seal"
  by (simp add: gcm_stream_def zero_seal_def)

definition zero_security :: security where
  "zero_security = \<lparr>sec_ek = replicate 16 0, sec_ak = replicate 16 1, sec_title = replicate 8 2,
     sec_ic = 0\<rparr>"

lemma protect_zero_security:
  "\<exists>w s'. protect_apdu zero_seal zero_security [0xC0, 1] = (Inr w, s')"
  by (simp add: protect_apdu_def protect_def glo_def zero_security_def zero_seal_def Let_def
      to_bytes_def enc_len_def sc_defs split_beta)

theorem protected_apdu_roundtrip_witness:
  "\<exists>w s'. protect_apdu zero_seal zero_security [0xC0, 1] = (Inr w, s') \<and>
     unprotect_apdu zero_seal zero_security w = Inr [0xC0, 1]"
proof -
  obtain w s' where w: "protect_apdu zero_seal zero_security [0xC0, 1] = (Inr w, s')"
    using protect_zero_security by blast
  show ?thesis using w protected_apdu_roundtrip [OF zero_seal_stream w, of zero_security] by simp
qed

text \<open>an unprotected frame whose security control has the authentication bit really is the
  sealing of the returned plaintext: its tag is the first twelve octets of the GCM tag over the
  frame's own security control, the authentication key and that plaintext.\<close>

lemma authenticated_frame_is_sealed:
  assumes "unprotect seal frm key auth_key system_title = Inr p" and "frm ! 0 AND SC_AUTH \<noteq> 0"
  shows "\<exists>icb ct tg. length icb = 4 \<and>
    seal key (system_title @ icb) (frm ! 0 # auth_key) p = (ct, tg) \<and>
    frm = frm ! 0 # icb @ (if frm ! 0 AND SC_ENC \<noteq> 0 then ct else p) @ take TAG_LEN tg"
  using assms by (rule unprotect_authentic)

lemma authenticated_frame_is_sealed_witness:
  "unprotect zero_seal (SC_BOTH # [0, 0, 0, 1] @ [0xC4] @ replicate 12 0) (replicate 16 0)
     (replicate 16 1) (replicate 8 2) = Inr [0xC4] \<and>
   (\<exists>icb ct tg. length icb = 4 \<and>
    zero_seal (replicate 16 0) (replicate 8 2 @ icb) (SC_BOTH # replicate 16 1) [0xC4] = (ct, tg))"
proof -
  have u: "unprotect zero_seal (SC_BOTH # [0, 0, 0, 1] @ [0xC4] @ replicate 12 0) (replicate 16 0)
     (replicate 16 1) (replicate 8 2) = Inr [0xC4]"
    by (simp add: unprotect_def zero_seal_def sc_defs slice_def Let_def xor_bytes_def)
  have a: "(SC_BOTH # [0, 0, 0, 1] @ [0xC4] @ replicate 12 0) ! 0 AND SC_AUTH \<noteq> 0"
    by (simp add: sc_defs)
  show ?thesis using u authenticated_frame_is_sealed [OF u a] by (auto simp del: replicate.simps)
qed

text \<open>C22: the receiver does not insist on authentication. Whoever sees a protected answer can
  clear the authentication bit of its security control, drop the tag and flip any bits after the
  first octet of the plaintext, and \<^verbatim>\<open>unprotect_apdu\<close> returns the altered plaintext.\<close>

theorem downgraded_answer_accepted:
  assumes "gcm_stream ks seal"
    and "protect seal p (sec_ek s) (sec_ak s) (sec_title s) n SC_BOTH = Inr frm"
    and "p \<noteq> []" and "glo (p ! 0) = Some g" and "length delta = length p" and "delta ! 0 = 0"
    and "forged = SC_ENC # slice 1 5 frm @ xor_bytes (slice 5 (5 + length p) frm) delta"
    and "enc_len (int (length forged)) = Inr ln"
  shows "unprotect_apdu seal s (g # ln @ forged) = Inr (xor_bytes p delta)"
  using assms by (rule unprotect_apdu_malleable)

theorem downgraded_answer_accepted_witness:
  "\<exists>wire. unprotect_apdu zero_seal zero_security wire = Inr (xor_bytes [0xC4, 1] [0, 0x80])"
proof -
  obtain frm where f: "protect zero_seal [0xC4, 1] (sec_ek zero_security) (sec_ak zero_security)
      (sec_title zero_security) 1 SC_BOTH = Inr frm"
    by (simp add: protect_def zero_security_def zero_seal_def Let_def to_bytes_def sc_defs split_beta)
  have g: "glo ([0xC4, 1] ! 0) = Some 0xCC" by (simp add: glo_def)
  define forged where "forged = SC_ENC # slice 1 5 frm @ xor_bytes (slice 5 (5 + length [0xC4, 1 :: byte]) frm) [0, 0x80]"
  have "length forged < 128" by (simp add: forged_def slice_def)
  then have ln: "enc_len (int (length forged)) = Inr [of_nat (length forged)]"
    by (simp add: enc_len_def)
  show ?thesis
    using downgraded_answer_accepted [OF zero_seal_stream f _ g _ _ forged_def ln] by auto
qed



end
