(* ===== verification/Effect.thy ===== *)
theory Effect
  imports Prelude
begin

text \<open>
  Methods that read and write an object and may raise: functions from the state to a result
  and the state left behind, also when they raise.  \<open>keeps\<close> is the invariant judgement the
  session, meter and port-broker theories share, \<open>hoare\<close> the two-exit triple.
\<close>

type_synonym ('s, 'a) proc = "'s \<Rightarrow> 'a result \<times> 's"

definition retM :: "'a \<Rightarrow> ('s, 'a) proc" where "retM x = (\<lambda>s. (Inr x, s))"
definition raiseM :: "exn \<Rightarrow> ('s, 'a) proc" where "raiseM e = (\<lambda>s. (Inl e, s))"
definition liftM :: "'a result \<Rightarrow> ('s, 'a) proc" where "liftM r = (\<lambda>s. (r, s))"
definition getM :: "('s \<Rightarrow> 'a) \<Rightarrow> ('s, 'a) proc" where "getM f = (\<lambda>s. (Inr (f s), s))"
definition modM :: "('s \<Rightarrow> 's) \<Rightarrow> ('s, unit) proc" where "modM f = (\<lambda>s. (Inr (), f s))"

definition bindM :: "('s, 'a) proc \<Rightarrow> ('a \<Rightarrow> ('s, 'b) proc) \<Rightarrow> ('s, 'b) proc" where
  "bindM m f = (\<lambda>s. case m s of (Inl e, s') \<Rightarrow> (Inl e, s') | (Inr x, s') \<Rightarrow> f x s')"

text \<open>\<^verbatim>\<open>try: m except: h\<close>; the handler re-raises what it does not name.\<close>

definition catchM :: "('s, 'a) proc \<Rightarrow> (exn \<Rightarrow> ('s, 'a) proc) \<Rightarrow> ('s, 'a) proc" where
  "catchM m h = (\<lambda>s. case m s of (Inl e, s') \<Rightarrow> h e s' | (Inr x, s') \<Rightarrow> (Inr x, s'))"

definition convertM :: "(exn \<Rightarrow> bool) \<Rightarrow> exn \<Rightarrow> ('s, 'a) proc \<Rightarrow> ('s, 'a) proc" where
  "convertM p e m = catchM m (\<lambda>x. raiseM (if p x then e else x))"

lemmas effect_defs = retM_def raiseM_def liftM_def getM_def modM_def bindM_def catchM_def convertM_def

lemma bindM_Inr:
  "bindM m f s = (Inr y, s'') \<longleftrightarrow> (\<exists>x s'. m s = (Inr x, s') \<and> f x s' = (Inr y, s''))"
  by (auto simp: bindM_def split: prod.splits sum.splits)

lemma bindM_Inl:
  "bindM m f s = (Inl e, s'') \<longleftrightarrow>
     m s = (Inl e, s'') \<or> (\<exists>x s'. m s = (Inr x, s') \<and> f x s' = (Inl e, s''))"
  by (auto simp: bindM_def split: prod.splits sum.splits)

lemma bindM_run: "m s = (Inr x, s') \<Longrightarrow> bindM m f s = f x s'"
  by (simp add: bindM_def)

lemma bindM_run_error: "m s = (Inl e, s') \<Longrightarrow> bindM m f s = (Inl e, s')"
  by (simp add: bindM_def)

lemma effect_run [simp]:
  "retM x s = (Inr x, s)" "raiseM e s = (Inl e, s)" "liftM r s = (r, s)"
  "getM g s = (Inr (g s), s)" "modM h s = (Inr (), h s)"
  by (simp_all add: effect_defs)

lemma bindM_simps [simp]:
  "bindM (retM x) f = f x" "bindM (raiseM e) f = raiseM e"
  "bindM (getM g) f s = f (g s) s" "bindM (modM h) k s = k () (h s)"
  "bindM (liftM (Inr x)) f = f x" "bindM (liftM (Inl e)) f = raiseM e"
  by (simp_all add: effect_defs)

section \<open>Invariants\<close>

definition keeps :: "('s \<Rightarrow> bool) \<Rightarrow> ('s, 'a) proc \<Rightarrow> bool" where
  "keeps I m \<longleftrightarrow> (\<forall>s. I s \<longrightarrow> I (snd (m s)))"

lemma keepsI: "(\<And>s r s'. I s \<Longrightarrow> m s = (r, s') \<Longrightarrow> I s') \<Longrightarrow> keeps I m"
  unfolding keeps_def by (metis surjective_pairing)

lemma keepsD: "keeps I m \<Longrightarrow> m s = (r, s') \<Longrightarrow> I s \<Longrightarrow> I s'"
  unfolding keeps_def by (metis snd_conv)

lemma keeps_basic [simp, intro]: "keeps I (retM x)" "keeps I (raiseM e)" "keeps I (liftM r)" "keeps I (getM f)"
  by (simp_all add: keeps_def effect_defs)

lemma keeps_mod: "(\<And>s. I s \<Longrightarrow> I (f s)) \<Longrightarrow> keeps I (modM f)"
  by (simp add: keeps_def effect_defs)

lemma keeps_bind: "keeps I m \<Longrightarrow> (\<And>x. keeps I (f x)) \<Longrightarrow> keeps I (bindM m f)"
  by (auto simp: keeps_def bindM_def split: prod.splits sum.splits)

lemma keeps_catch: "keeps I m \<Longrightarrow> (\<And>e. keeps I (h e)) \<Longrightarrow> keeps I (catchM m h)"
  by (auto simp: keeps_def catchM_def split: prod.splits sum.splits)

lemma keeps_convert: "keeps I m \<Longrightarrow> keeps I (convertM p e m)"
  unfolding convertM_def by (intro keeps_catch) auto

lemma keeps_if: "(b \<Longrightarrow> keeps I m) \<Longrightarrow> (\<not> b \<Longrightarrow> keeps I n) \<Longrightarrow> keeps I (if b then m else n)"
  by simp

lemma keeps_case_prod: "(\<And>a b. keeps I (f a b)) \<Longrightarrow> keeps I (case p of (a, b) \<Rightarrow> f a b)"
  by (cases p) simp

lemma keeps_case_option:
  "keeps I m \<Longrightarrow> (\<And>x. keeps I (f x)) \<Longrightarrow> keeps I (case p of None \<Rightarrow> m | Some x \<Rightarrow> f x)"
  by (cases p) simp_all

lemmas keeps_rules = keeps_basic keeps_bind keeps_catch keeps_convert keeps_if keeps_case_prod
  keeps_case_option

section \<open>Two-exit triples\<close>

definition hoare :: "('s \<Rightarrow> bool) \<Rightarrow> ('s, 'a) proc \<Rightarrow> ('a \<Rightarrow> 's \<Rightarrow> bool) \<Rightarrow> (exn \<Rightarrow> 's \<Rightarrow> bool) \<Rightarrow> bool" where
  "hoare P m Q E \<longleftrightarrow> (\<forall>s. P s \<longrightarrow> (case m s of (Inr x, s') \<Rightarrow> Q x s' | (Inl e, s') \<Rightarrow> E e s'))"

lemma hoareD_ok: "hoare P m Q E \<Longrightarrow> P s \<Longrightarrow> m s = (Inr x, s') \<Longrightarrow> Q x s'"
  by (auto simp: hoare_def dest!: spec [of _ s])

lemma hoareD_error: "hoare P m Q E \<Longrightarrow> P s \<Longrightarrow> m s = (Inl e, s') \<Longrightarrow> E e s'"
  by (auto simp: hoare_def dest!: spec [of _ s])

lemma hoare_bind:
  "hoare P m R E \<Longrightarrow> (\<And>x. hoare (R x) (f x) Q E) \<Longrightarrow> hoare P (bindM m f) Q E"
  by (fastforce simp: hoare_def bindM_def split: prod.splits sum.splits)

lemma hoare_ret: "(\<And>s. P s \<Longrightarrow> Q x s) \<Longrightarrow> hoare P (retM x) Q E"
  by (simp add: hoare_def)

lemma hoare_raise: "(\<And>s. P s \<Longrightarrow> E e s) \<Longrightarrow> hoare P (raiseM e) Q E"
  by (simp add: hoare_def)

lemma hoare_get: "(\<And>s. P s \<Longrightarrow> Q (f s) s) \<Longrightarrow> hoare P (getM f) Q E"
  by (simp add: hoare_def)

lemma hoare_mod: "(\<And>s. P s \<Longrightarrow> Q () (f s)) \<Longrightarrow> hoare P (modM f) Q E"
  by (simp add: hoare_def)

lemma hoare_lift:
  "(\<And>s x. P s \<Longrightarrow> r = Inr x \<Longrightarrow> Q x s) \<Longrightarrow> (\<And>s e. P s \<Longrightarrow> r = Inl e \<Longrightarrow> E e s) \<Longrightarrow> hoare P (liftM r) Q E"
  by (cases r) (simp_all add: hoare_def)

lemma hoare_convert:
  "hoare P m Q (\<lambda>x s. E (if p x then e else x) s) \<Longrightarrow> hoare P (convertM p e m) Q E"
  by (fastforce simp: hoare_def convertM_def catchM_def split: prod.splits sum.splits)

lemma hoare_weaken:
  "hoare P' m Q' E' \<Longrightarrow> (\<And>s. P s \<Longrightarrow> P' s) \<Longrightarrow> (\<And>x s. Q' x s \<Longrightarrow> Q x s) \<Longrightarrow>
   (\<And>e s. E' e s \<Longrightarrow> E e s) \<Longrightarrow> hoare P m Q E"
  by (fastforce simp: hoare_def split: prod.splits sum.splits)

end
