(* ===== verification/Mercury.thy ===== *)
theory Mercury
  imports Obis Security Effect
begin

text \<open>
  Roles, keys and the live register read, \<^verbatim>\<open>opt/sa02m-spodes/sa02m_spodes/mercury.py\<close>.  A
  configuration is a finite map from keys to values; the session's \<^verbatim>\<open>get\<close> is an argument, and
  the float product of \<^verbatim>\<open>physical\<close> is kept exact (see \<open>Obis\<close>).  Text is Latin-1.
\<close>

section \<open>Configuration values\<close>

datatype cfgval = CNone | CBytes bytes | CText string | CSecret cfgval

type_synonym config = "string \<Rightarrow> cfgval option"

fun reveal :: "cfgval \<Rightarrow> cfgval" where
  "reveal (CSecret v) = v"
| "reveal v = v"

definition latin1 :: "string \<Rightarrow> bytes" where
  "latin1 s = map (\<lambda>c. word_of_int (of_char c)) s"

definition latin1_text :: "bytes \<Rightarrow> string" where
  "latin1_text b = map (\<lambda>w. char_of (unat w)) b"

fun get_cfg :: "config \<Rightarrow> string \<Rightarrow> cfgval" where
  "get_cfg cfg k = (case cfg k of None \<Rightarrow> CNone | Some v \<Rightarrow> v)"

definition REDACTED :: string where "REDACTED = ''<redacted>''"

definition cfg_text :: "cfgval \<Rightarrow> string" where
  "cfg_text v =
     (case reveal v of
        CBytes b \<Rightarrow> latin1_text b
      | CNone \<Rightarrow> ''''
      | CText s \<Rightarrow> py_strip s
      | CSecret _ \<Rightarrow> REDACTED)"

definition hex_value :: "char \<Rightarrow> int option" where
  "hex_value c =
     (let n = of_char c :: int in
      if 48 \<le> n \<and> n \<le> 57 then Some (n - 48)
      else if 97 \<le> n \<and> n \<le> 102 then Some (n - 87)
      else if 65 \<le> n \<and> n \<le> 70 then Some (n - 55)
      else None)"

fun from_hex :: "string \<Rightarrow> bytes" where
  "from_hex (a # b # cs) =
     word_of_int (16 * the (hex_value a) + the (hex_value b)) # from_hex cs"
| "from_hex _ = []"

text \<open>The reading \<^verbatim>\<open>parse_key\<close> and \<^verbatim>\<open>parse_system_title\<close> share, for \<open>n\<close> bytes.\<close>

definition fixed_octets :: "nat \<Rightarrow> cfgval \<Rightarrow> bytes" where
  "fixed_octets n value =
     (case reveal value of
        CBytes b \<Rightarrow> if length b = n then b else []
      | v \<Rightarrow>
          let text = cfg_text v in
          if text = [] then []
          else if length text = 2 * n \<and> list_all (\<lambda>c. hex_value c \<noteq> None) text then from_hex text
          else if length (latin1 text) = n then latin1 text else [])"

definition parse_key :: "cfgval \<Rightarrow> bytes" where "parse_key value = fixed_octets 16 value"

definition parse_system_title :: "cfgval \<Rightarrow> bytes" where "parse_system_title value = fixed_octets 8 value"

section \<open>Roles\<close>

text \<open>\<^verbatim>\<open>str(x or "public").strip().lower()\<close>; the text of bytes or of a secret is never a role.\<close>

definition named_role :: "config \<Rightarrow> string" where
  "named_role cfg =
     (let role = (case get_cfg cfg ''association'' of
            CNone \<Rightarrow> ''public''
          | CText s \<Rightarrow> if s = [] then ''public'' else map lower_char (py_strip s)
          | CBytes b \<Rightarrow> if b = [] then ''public'' else ''b''
          | CSecret _ \<Rightarrow> REDACTED)
      in if SAP role \<noteq> None then role else ''public'')"

definition keys_complete :: "config \<Rightarrow> bool" where
  "keys_complete cfg \<longleftrightarrow>
     parse_key (get_cfg cfg ''encryption_key'') \<noteq> [] \<and>
     parse_key (get_cfg cfg ''authentication_key'') \<noteq> [] \<and>
     parse_system_title (get_cfg cfg ''system_title'') \<noteq> []"

definition effective_role :: "config \<Rightarrow> string" where
  "effective_role cfg =
     (let role = named_role cfg in
      if role = ''public'' \<or> \<not> keys_complete cfg then ''public'' else role)"

definition client_sap_for :: "config \<Rightarrow> int result" where
  "client_sap_for cfg = (case SAP (effective_role cfg) of None \<Rightarrow> Inl KeyError | Some n \<Rightarrow> Inr n)"

definition security_for :: "config \<Rightarrow> security option" where
  "security_for cfg =
     (if effective_role cfg = ''public'' then None
      else case new_security (parse_key (get_cfg cfg ''encryption_key''))
             (parse_key (get_cfg cfg ''authentication_key''))
             (parse_system_title (get_cfg cfg ''system_title'')) 0 of
        Inl _ \<Rightarrow> None
      | Inr s \<Rightarrow> Some s)"

definition password_for :: "config \<Rightarrow> bytes option" where
  "password_for cfg =
     (if effective_role cfg = ''public'' then None
      else let b = cfg_text (get_cfg cfg ''password'') in if b = [] then None else Some (latin1 b))"

definition SECRET_KEYS :: "string list" where
  "SECRET_KEYS = [''password'', ''encryption_key'', ''authentication_key'']"

definition seal_cfg :: "config \<Rightarrow> config" where
  "seal_cfg cfg = (\<lambda>k.
     if k \<in> set SECRET_KEYS \<and> get_cfg cfg k \<noteq> CNone \<and> get_cfg cfg k \<noteq> CText ''''
     then Some (CSecret (get_cfg cfg k)) else cfg k)"

section \<open>The live read\<close>

type_synonym 's reg_get = "int \<Rightarrow> bytes \<Rightarrow> int \<Rightarrow> ('s, cosem) proc"

type_synonym scalers = "obis \<Rightarrow> (int \<times> int) option"

text \<open>One register.  The scaler cache is kept also when a later step raises.\<close>

definition read_one :: "'s reg_get \<Rightarrow> obis \<Rightarrow> ('s \<times> scalers, reading) proc" where
  "read_one get code = (\<lambda>(s, cache).
     case get CLASS_REGISTER (obis_bytes code) 2 s of
       (Inl e, s1) \<Rightarrow> (Inl e, s1, cache)
     | (Inr d, s1) \<Rightarrow>
         (case (case cache code of
                  Some su \<Rightarrow> (Inr su, s1, cache)
                | None \<Rightarrow>
                    (case get CLASS_REGISTER (obis_bytes code) 3 s1 of
                       (Inl e, s2) \<Rightarrow> (Inl e, s2, cache)
                     | (Inr sd, s2) \<Rightarrow>
                         (case parse_scaler_unit sd of
                            Inl e \<Rightarrow> (Inl e, s2, cache)
                          | Inr su \<Rightarrow> (Inr su, s2, cache(code \<mapsto> su)))))
          of (Inl e, s3, cache') \<Rightarrow> (Inl e, s3, cache')
           | (Inr (scaler, unt), s3, cache') \<Rightarrow>
               (bindE (as_int d) (\<lambda>n. Inr (physical n scaler unt)), s3, cache')))"

fun is_access_error :: "exn \<Rightarrow> bool" where
  "is_access_error (CosemAccessError _) = True" | "is_access_error _ = False"

text \<open>\<^verbatim>\<open>try: _one except CosemAccessError\<close>: \<open>None\<close> is a missing object.\<close>

definition try_one :: "'s reg_get \<Rightarrow> obis \<Rightarrow> ('s \<times> scalers, reading option) proc" where
  "try_one get code =
     catchM (bindM (read_one get code) (\<lambda>r. retM (Some r)))
       (\<lambda>e. if is_access_error e then retM None else raiseM e)"

fun read_named :: "'s reg_get \<Rightarrow> (string \<times> obis) list \<Rightarrow> (string \<times> reading) list
    \<Rightarrow> ('s \<times> scalers, (string \<times> reading) list) proc" where
  "read_named get [] out = retM out"
| "read_named get ((name, code) # rest) out =
     bindM (try_one get code) (\<lambda>r.
       read_named get rest (case r of None \<Rightarrow> out | Some x \<Rightarrow> out @ [(name, x)]))"

definition read_power :: "'s reg_get \<Rightarrow> ('s \<times> scalers, (string \<times> reading) list) proc" where
  "read_power get =
     bindM (read_named get POWER []) (\<lambda>out.
       if ''voltage_a'' \<in> fst ` set out then retM out
       else bindM (try_one get SINGLE_PHASE_VOLTAGE) (\<lambda>r.
         retM (case r of None \<Rightarrow> out | Some x \<Rightarrow> out @ [(''voltage_a'', x)])))"

definition read_energy :: "'s reg_get \<Rightarrow> ('s \<times> scalers, (string \<times> reading) list) proc" where
  "read_energy get = read_named get ENERGY []"

section \<open>Ciphering is all or nothing\<close>

lemma length_from_hex: "length (from_hex s) = length s div 2"
  by (induction s rule: from_hex.induct) auto

lemma fixed_octets_length: "fixed_octets n v \<noteq> [] \<Longrightarrow> length (fixed_octets n v) = n"
  by (auto simp: fixed_octets_def Let_def length_from_hex split: cfgval.splits if_splits)

lemma SAP_public: "SAP ''public'' = Some 16"
  by (simp add: SAP_def)

lemma effective_role_known: "\<exists>n. SAP (effective_role cfg) = Some n"
  by (auto simp: effective_role_def named_role_def Let_def SAP_public)

lemma security_for_iff: "security_for cfg \<noteq> None \<longleftrightarrow> effective_role cfg \<noteq> ''public''"
proof
  assume r: "effective_role cfg \<noteq> ''public''"
  then have "keys_complete cfg" by (auto simp: effective_role_def Let_def split: if_splits)
  then have "length (parse_key (get_cfg cfg ''encryption_key'')) = 16"
    "length (parse_key (get_cfg cfg ''authentication_key'')) = 16"
    "length (parse_system_title (get_cfg cfg ''system_title'')) = 8"
    unfolding keys_complete_def parse_key_def parse_system_title_def
    by (blast intro: fixed_octets_length)+
  with r show "security_for cfg \<noteq> None"
    by (simp add: security_for_def new_security_def del: get_cfg.simps)
qed (auto simp: security_for_def)

lemma role_public_iff:
  "effective_role cfg = ''public'' \<longleftrightarrow> named_role cfg = ''public'' \<or> \<not> keys_complete cfg"
  by (simp add: effective_role_def Let_def)

section \<open>Sealing the configuration changes no decision\<close>

text \<open>Values as they come from a configuration file: not sealed yet.\<close>

definition plain_cfg :: "config \<Rightarrow> bool" where
  "plain_cfg cfg \<longleftrightarrow> (\<forall>k v. cfg k \<noteq> Some (CSecret v))"

lemma reveal_plain: "plain_cfg cfg \<Longrightarrow> reveal (get_cfg cfg k) = get_cfg cfg k"
  by (cases "get_cfg cfg k") (auto simp: plain_cfg_def split: option.splits)

lemma seal_get: "plain_cfg cfg \<Longrightarrow> reveal (get_cfg (seal_cfg cfg) k) = reveal (get_cfg cfg k)"
  using reveal_plain [of cfg k] by (simp add: seal_cfg_def)

lemma seal_octets: "plain_cfg cfg \<Longrightarrow>
    fixed_octets n (get_cfg (seal_cfg cfg) k) = fixed_octets n (get_cfg cfg k)"
  unfolding fixed_octets_def by (simp only: seal_get)

lemma seal_text: "plain_cfg cfg \<Longrightarrow> cfg_text (get_cfg (seal_cfg cfg) k) = cfg_text (get_cfg cfg k)"
  unfolding cfg_text_def by (simp only: seal_get)

lemma seal_named: "named_role (seal_cfg cfg) = named_role cfg"
  by (simp add: named_role_def seal_cfg_def SECRET_KEYS_def)

lemma seal_role: "plain_cfg cfg \<Longrightarrow> effective_role (seal_cfg cfg) = effective_role cfg"
  by (simp only: effective_role_def keys_complete_def parse_key_def parse_system_title_def seal_named
      seal_octets)

lemma seal_security: "plain_cfg cfg \<Longrightarrow> security_for (seal_cfg cfg) = security_for cfg"
  by (simp only: security_for_def parse_key_def parse_system_title_def seal_role seal_octets)

lemma seal_password: "plain_cfg cfg \<Longrightarrow> password_for (seal_cfg cfg) = password_for cfg"
  by (simp only: password_for_def seal_role seal_text)

lemma seal_hides:
  assumes "k \<in> set SECRET_KEYS" and "cfg k = Some v" and "v \<noteq> CNone" and "v \<noteq> CText ''''"
  shows "seal_cfg cfg k = Some (CSecret v)"
  using assms by (simp add: seal_cfg_def)


section \<open>What a read reports\<close>

text \<open>
  Against a meter without memory of its own (\<open>obj\<close> gives the answer to each register read), the
  read returns exactly the objects that are there, in catalogue order, with the values of that
  meter.
\<close>

definition pure_get :: "(int \<Rightarrow> bytes \<Rightarrow> int \<Rightarrow> cosem result) \<Rightarrow> 's reg_get" where
  "pure_get obj = (\<lambda>c o' a s. (obj c o' a, s))"

definition one_of :: "(int \<Rightarrow> bytes \<Rightarrow> int \<Rightarrow> cosem result) \<Rightarrow> obis \<Rightarrow> reading result" where
  "one_of obj code =
     bindE (obj CLASS_REGISTER (obis_bytes code) 2) (\<lambda>d.
     bindE (bindE (obj CLASS_REGISTER (obis_bytes code) 3) parse_scaler_unit) (\<lambda>(scaler, unt).
     bindE (as_int d) (\<lambda>n. Inr (physical n scaler unt))))"

text \<open>The cache only holds what the meter answers.\<close>

definition cache_ok :: "(int \<Rightarrow> bytes \<Rightarrow> int \<Rightarrow> cosem result) \<Rightarrow> scalers \<Rightarrow> bool" where
  "cache_ok obj cache \<longleftrightarrow> (\<forall>code su. cache code = Some su \<longrightarrow>
     bindE (obj CLASS_REGISTER (obis_bytes code) 3) parse_scaler_unit = Inr su)"

lemma read_one_pure:
  assumes "cache_ok obj cache"
  shows "\<exists>cache'. read_one (pure_get obj) code (s, cache) = (one_of obj code, s, cache') \<and> cache_ok obj cache'"
proof (cases "cache code")
  case (Some su)
  with assms have "bindE (obj CLASS_REGISTER (obis_bytes code) 3) parse_scaler_unit = Inr su"
    unfolding cache_ok_def by blast
  with Some assms show ?thesis
    by (cases su; cases "obj CLASS_REGISTER (obis_bytes code) 2")
      (auto simp: read_one_def pure_get_def one_of_def)
next
  case None
  have "cache_ok obj (cache(code \<mapsto> su))"
    if "obj CLASS_REGISTER (obis_bytes code) 3 = Inr sd" "parse_scaler_unit sd = Inr su" for sd su
    using that assms by (auto simp: cache_ok_def)
  with None assms show ?thesis
    by (cases "obj CLASS_REGISTER (obis_bytes code) 2"; cases "obj CLASS_REGISTER (obis_bytes code) 3")
      (auto simp: read_one_def pure_get_def one_of_def split: sum.splits)
qed

fun named_spec :: "(int \<Rightarrow> bytes \<Rightarrow> int \<Rightarrow> cosem result) \<Rightarrow> (string \<times> obis) list \<Rightarrow> (string \<times> reading) list result" where
  "named_spec obj [] = Inr []"
| "named_spec obj ((name, code) # rest) =
     (case one_of obj code of
        Inr x \<Rightarrow> bindE (named_spec obj rest) (\<lambda>xs. Inr ((name, x) # xs))
      | Inl e \<Rightarrow> if is_access_error e then named_spec obj rest else Inl e)"

lemma read_named_pure:
  "cache_ok obj cache \<Longrightarrow> \<exists>cache'. read_named (pure_get obj) cat out (s, cache) =
     (bindE (named_spec obj cat) (\<lambda>xs. Inr (out @ xs)), s, cache') \<and> cache_ok obj cache'"
proof (induction cat arbitrary: out cache)
  case Nil
  then show ?case by simp
next
  case (Cons nc rest)
  obtain name code where nc: "nc = (name, code)" by (rule prod.exhaust)
  from read_one_pure [OF Cons.prems, of code s] obtain c1 where
    1: "read_one (pure_get obj) code (s, cache) = (one_of obj code, s, c1)" and c1: "cache_ok obj c1"
    by (elim exE conjE)
  show ?case
  proof (cases "one_of obj code")
    case (Inr x)
    with 1 have "try_one (pure_get obj) code (s, cache) = (Inr (Some x), s, c1)"
      by (simp add: try_one_def catchM_def bindM_def)
    with Cons.IH [OF c1, of "out @ [(name, x)]"] Inr show ?thesis
      by (cases "named_spec obj rest") (auto simp: nc bindM_run)
  next
    case (Inl e)
    with 1 have "try_one (pure_get obj) code (s, cache) =
        (if is_access_error e then Inr None else Inl e, s, c1)"
      by (simp add: try_one_def catchM_def bindM_def)
    with Cons.IH [OF c1, of out] Inl c1 show ?thesis
      by (auto simp: nc bindM_run bindM_run_error)
  qed
qed

lemma named_spec_Inr:
  "named_spec obj cat = Inr xs \<Longrightarrow>
     xs = concat (map (\<lambda>(name, code). case one_of obj code of Inr x \<Rightarrow> [(name, x)] | Inl _ \<Rightarrow> []) cat)"
  by (induction obj cat arbitrary: xs rule: named_spec.induct)
    (auto simp: bindE_Inr_conv split: sum.splits if_splits)

section \<open>Properties\<close>

text \<open>a meter is addressed in a named role exactly when the configuration names one other than
  \<^verbatim>\<open>public\<close> and all three secrets parse to the right number of octets; exactly then a security
  context is used, and the client SAP is that of the role, so a client never uses a privileged
  SAP without its keys.\<close>

lemma role_needs_keys:
  "(security_for cfg \<noteq> None \<longleftrightarrow> effective_role cfg \<noteq> ''public'') \<and>
   (effective_role cfg \<noteq> ''public'' \<longleftrightarrow> named_role cfg \<noteq> ''public'' \<and> keys_complete cfg) \<and>
   client_sap_for cfg = Inr (if security_for cfg = None then 16 else the (SAP (named_role cfg)))"
proof (intro conjI)
  show s: "security_for cfg \<noteq> None \<longleftrightarrow> effective_role cfg \<noteq> ''public''" by (rule security_for_iff)
  show "effective_role cfg \<noteq> ''public'' \<longleftrightarrow> named_role cfg \<noteq> ''public'' \<and> keys_complete cfg"
    by (simp add: role_public_iff)
  show "client_sap_for cfg = Inr (if security_for cfg = None then 16 else the (SAP (named_role cfg)))"
  proof (cases "effective_role cfg = ''public''")
    case True
    with s SAP_public show ?thesis by (simp add: client_sap_for_def)
  next
    case False
    then have "effective_role cfg = named_role cfg" by (simp add: effective_role_def Let_def split: if_splits)
    with False s effective_role_known [of cfg] show ?thesis by (auto simp: client_sap_for_def)
  qed
qed

text \<open>sealing a configuration hides every non-empty secret behind the redacting wrapper and
  changes nothing else: the sealed configuration gives the same role, the same security context
  and the same password.\<close>

lemma sealing_preserves_access:
  assumes "plain_cfg cfg"
  shows "effective_role (seal_cfg cfg) = effective_role cfg \<and> security_for (seal_cfg cfg) = security_for cfg \<and>
    password_for (seal_cfg cfg) = password_for cfg \<and>
    (k \<in> set SECRET_KEYS \<and> get_cfg cfg k \<notin> {CNone, CText ''''} \<longrightarrow>
      seal_cfg cfg k = Some (CSecret (get_cfg cfg k)))"
  using seal_role [OF assms] seal_security [OF assms] seal_password [OF assms]
  by (simp add: seal_cfg_def)

lemma sealing_preserves_access_witness:
  "seal_cfg [''password'' \<mapsto> CText ''abc''] ''password'' = Some (CSecret (CText ''abc''))"
  using sealing_preserves_access [of "[''password'' \<mapsto> CText ''abc'']" "''password''"]
  by (simp add: plain_cfg_def SECRET_KEYS_def)

end
