(* ===== verification/Profiles.thy ===== *)
theory Profiles
  imports Obis Effect
begin

text \<open>
  Load profile and event journal, \<^verbatim>\<open>opt/sa02m-spodes/sa02m_spodes/profiles.py\<close>: the COSEM
  date-time, the range selector, and the rows of a profile buffer.  \<^verbatim>\<open>datetime\<close> is the record of its
  six whole fields with the constructor's range check; microseconds and time zone, which the source
  never reads, are left out.  The session's \<^verbatim>\<open>get\<close> is an argument.
\<close>

section \<open>Date and time\<close>

record datetime =
  year :: int
  month :: int
  day :: int
  hour :: int
  minute :: int
  second :: int

definition leap_year :: "int \<Rightarrow> bool" where
  "leap_year y \<longleftrightarrow> y mod 4 = 0 \<and> (y mod 100 \<noteq> 0 \<or> y mod 400 = 0)"

definition days_in_month :: "int \<Rightarrow> int \<Rightarrow> int" where
  "days_in_month y m = (if m = 2 then if leap_year y then 29 else 28
                        else if m \<in> {4, 6, 9, 11} then 30 else 31)"

definition new_datetime :: "int \<Rightarrow> int \<Rightarrow> int \<Rightarrow> int \<Rightarrow> int \<Rightarrow> int \<Rightarrow> datetime result" where
  "new_datetime y m d h mi s =
     (if 1 \<le> y \<and> y \<le> 9999 \<and> 1 \<le> m \<and> m \<le> 12 \<and> 1 \<le> d \<and> d \<le> days_in_month y m \<and>
         0 \<le> h \<and> h \<le> 23 \<and> 0 \<le> mi \<and> mi \<le> 59 \<and> 0 \<le> s \<and> s \<le> 59
      then Inr \<lparr>year = y, month = m, day = d, hour = h, minute = mi, second = s\<rparr>
      else Inl (ValueError ''datetime''))"

definition valid_datetime :: "datetime \<Rightarrow> bool" where
  "valid_datetime t \<longleftrightarrow>
     new_datetime (year t) (month t) (day t) (hour t) (minute t) (second t) = Inr t"

definition pack_datetime :: "datetime \<Rightarrow> bytes result" where
  "pack_datetime dt =
     bindE (to_bytes 2 (year dt)) (\<lambda>y.
       Inr (y @ [word_of_int (month dt), word_of_int (day dt), 0xFF, word_of_int (hour dt),
                 word_of_int (minute dt), word_of_int (second dt), 0] @ be_bytes 2 0x8000 @ [0]))"

definition unpack_datetime :: "bytes \<Rightarrow> datetime option" where
  "unpack_datetime b =
     (if length b \<noteq> 12 \<or> slice 0 2 b = [0xFF, 0xFF] then None
      else
        let y = from_be (slice 0 2 b); mo = uint (b ! 2); d = uint (b ! 3);
            h = uint (b ! 5); mi = uint (b ! 6); s = uint (b ! 7) in
        if mo = 0 \<or> mo = 0xFF \<or> d = 0 \<or> d = 0xFF \<or> h = 0xFF then None
        else (case new_datetime y mo d h mi s of Inl _ \<Rightarrow> None | Inr t \<Rightarrow> Some t))"

lemma new_datetime_Inr:
  "new_datetime y m d h mi s = Inr t \<Longrightarrow>
     t = \<lparr>year = y, month = m, day = d, hour = h, minute = mi, second = s\<rparr> \<and>
     1 \<le> y \<and> y \<le> 9999 \<and> 1 \<le> m \<and> m \<le> 12 \<and> 1 \<le> d \<and> d \<le> 31 \<and>
     0 \<le> h \<and> h \<le> 23 \<and> 0 \<le> mi \<and> mi \<le> 59 \<and> 0 \<le> s \<and> s \<le> 59"
  by (auto simp: new_datetime_def days_in_month_def split: if_splits)

lemma unpack_pack:
  assumes "valid_datetime t"
  shows "\<exists>b. pack_datetime t = Inr b \<and> length b = 12 \<and> unpack_datetime b = Some t"
proof -
  note new = assms [unfolded valid_datetime_def]
  note r = new_datetime_Inr [OF new]
  define y where "y = be_bytes 2 (year t)"
  have y: "from_be y = year t" "length y = 2" using r by (simp_all add: y_def from_be_be_bytes)
  have "y \<noteq> [0xFF, 0xFF]"
  proof
    assume "y = [0xFF, 0xFF]"
    then have "from_be y = 65535" by (simp add: from_be_def)
    with y r show False by simp
  qed
  with y new r show ?thesis
    by (simp add: pack_datetime_def to_bytes_def unpack_datetime_def slice_def nth_append
        uint_word_of_int_byte flip: y_def)
qed

lemma new_datetime_valid: "new_datetime y m d h mi s = Inr t \<Longrightarrow> valid_datetime t"
  using new_datetime_Inr [of y m d h mi s t] by (simp add: valid_datetime_def)

lemma unpack_valid: "unpack_datetime b = Some t \<Longrightarrow> valid_datetime t"
  by (auto simp: unpack_datetime_def Let_def split: if_splits sum.splits dest: new_datetime_valid)

section \<open>The range selector\<close>

definition range_access :: "datetime \<Rightarrow> datetime \<Rightarrow> bytes result" where
  "range_access start fin =
     bindE (pack_datetime start) (\<lambda>a.
     bindE (pack_datetime fin) (\<lambda>b.
     let clock = ax_structure [ax_u16 8, ax_octet (obis_bytes CLOCK_OBIS), ax_u8 2, ax_u16 0];
         window = ax_structure [clock, Data TAG_DATETIME (VBytes a), Data TAG_DATETIME (VBytes b),
                                ax_array []]
     in bindE (encode window) (\<lambda>w. Inr (0x01 # w))))"

section \<open>Rows\<close>

datatype field = Stamp datetime | Number int | Other pyval

definition as_field :: "cosem \<Rightarrow> field result" where
  "as_field f =
     (case as_int f of
        Inl (AxdrError _) \<Rightarrow> Inr (Other (val f))
      | Inl e \<Rightarrow> Inl e
      | Inr n \<Rightarrow> Inr (Number n))"

fun py_len :: "pyval \<Rightarrow> nat result" where
  "py_len (VBytes b) = Inr (length b)"
| "py_len (VStr s) = Inr (length s)"
| "py_len (VList l) = Inr (length l)"
| "py_len _ = Inl TypeError"

definition field_value :: "cosem \<Rightarrow> field result" where
  "field_value f =
     (if tag f = TAG_DATETIME then
        bindE (py_bytes (val f)) (\<lambda>b.
          Inr (case unpack_datetime b of None \<Rightarrow> Other VNone | Some t \<Rightarrow> Stamp t))
      else if tag f = TAG_OCTET_STRING then
        bindE (py_len (val f)) (\<lambda>n.
          if n = 12 then
            bindE (py_bytes (val f)) (\<lambda>b.
              case unpack_datetime b of None \<Rightarrow> as_field f | Some t \<Rightarrow> Inr (Stamp t))
          else as_field f)
      else as_field f)"

record profile_row =
  timestamp :: "datetime option"
  row_values :: "field list"

fun row_fields :: "datetime option \<Rightarrow> field list \<Rightarrow> cosem list \<Rightarrow> profile_row result" where
  "row_fields stamp vs [] = Inr \<lparr>timestamp = stamp, row_values = vs\<rparr>"
| "row_fields stamp vs (f # fs) =
     bindE (field_value f) (\<lambda>got.
       case (stamp, got) of
         (None, Stamp t) \<Rightarrow> row_fields (Some t) vs fs
       | _ \<Rightarrow> row_fields stamp (vs @ [got]) fs)"

fun rows_of :: "cosem list \<Rightarrow> profile_row list result" where
  "rows_of [] = Inr []"
| "rows_of (it # its) =
     (case val it of
        VList fs \<Rightarrow>
          if tag it \<noteq> TAG_STRUCTURE then rows_of its
          else bindE (row_fields None [] fs) (\<lambda>r. bindE (rows_of its) (\<lambda>rs. Inr (r # rs)))
      | _ \<Rightarrow> rows_of its)"

definition rows_from_buffer :: "cosem \<Rightarrow> profile_row list result" where
  "rows_from_buffer d =
     (if tag d \<noteq> TAG_ARRAY \<or> \<not> py_true (val d) then Inr []
      else case val d of VList items \<Rightarrow> rows_of items
      | VBytes _ \<Rightarrow> Inl AttributeError | VStr _ \<Rightarrow> Inl AttributeError | _ \<Rightarrow> Inl TypeError)"

section \<open>Reading\<close>

text \<open>Times in milliseconds: \<^verbatim>\<open>PROFILE_BUDGET_S = 2.0\<close>.\<close>

definition PROFILE_BUDGET :: int where "PROFILE_BUDGET = 2000"

definition budget :: "int option \<Rightarrow> int" where
  "budget timeout = (case timeout of None \<Rightarrow> PROFILE_BUDGET
                     | Some t \<Rightarrow> if t > PROFILE_BUDGET then PROFILE_BUDGET else t)"

type_synonym 's getter = "int \<Rightarrow> bytes \<Rightarrow> int \<Rightarrow> bytes option \<Rightarrow> int option \<Rightarrow> ('s, cosem) proc"

definition read_profile :: "'s getter \<Rightarrow> obis \<Rightarrow> datetime \<Rightarrow> datetime \<Rightarrow> int option
    \<Rightarrow> ('s, profile_row list) proc" where
  "read_profile get obis start fin timeout =
     bindM (liftM (range_access start fin)) (\<lambda>acc.
     bindM (get CLASS_PROFILE (obis_bytes obis) 2 (Some acc) (Some (budget timeout))) (\<lambda>d.
     liftM (rows_from_buffer d)))"

definition read_load_profile where "read_load_profile get = read_profile get LOAD_PROFILE_OBIS"
definition read_event_log where "read_event_log get = read_profile get EVENT_LOG_OBIS"

lemma budget_le: "budget timeout \<le> PROFILE_BUDGET"
  by (simp add: budget_def split: option.splits)

text \<open>The selector is the range window the header describes.\<close>

lemma range_access_valid:
  assumes "valid_datetime s" and "valid_datetime e"
  shows "\<exists>w a b. range_access s e = Inr (0x01 # w) \<and> pack_datetime s = Inr a \<and> pack_datetime e = Inr b \<and>
    decode w = Inr (ax_structure
      [ax_structure [ax_u16 8, ax_octet (obis_bytes CLOCK_OBIS), ax_u8 2, ax_u16 0],
       Data TAG_DATETIME (VBytes a), Data TAG_DATETIME (VBytes b), ax_array []], [])"
proof -
  from unpack_pack [OF assms(1)] obtain a where a: "pack_datetime s = Inr a" "length a = 12" by blast
  from unpack_pack [OF assms(2)] obtain b where b: "pack_datetime e = Inr b" "length b = 12" by blast
  define d where "d = ax_structure
      [ax_structure [ax_u16 8, ax_octet (obis_bytes CLOCK_OBIS), ax_u8 2, ax_u16 0],
       Data TAG_DATETIME (VBytes a), Data TAG_DATETIME (VBytes b), ax_array []]"
  have wf: "wf_cosem d"
    by (simp add: d_def ax_structure_def ax_u16_def ax_octet_def ax_u8_def ax_array_def
        wf_cosem.simps wf_forms tag_defs)
  have "\<exists>w. encode d = Inr w"
    using a b
    by (simp add: d_def ax_structure_def ax_u16_def ax_octet_def ax_u8_def ax_array_def tag_defs
        to_bytes_def enc_fixed_def enc_len_def)
  then obtain w where w: "encode d = Inr w" ..
  with axdr_codec.roundtrip_all [OF wf w] a b show ?thesis
    by (simp add: range_access_def d_def)
qed

text \<open>A row keeps every field: the first time stamp as such, the others in order.\<close>

lemma row_fields_keep_stamp: "row_fields (Some t) vs fs = Inr r \<Longrightarrow> timestamp r = Some t"
  by (induction "Some t" vs fs rule: row_fields.induct) (auto simp: bindE_Inr_conv)

lemma row_fields_count:
  "row_fields stamp vs fs = Inr r \<Longrightarrow>
     length (row_values r) + (if stamp = None \<and> timestamp r \<noteq> None then 1 else 0) =
     length vs + length fs"
proof (induction stamp vs fs rule: row_fields.induct)
  case (2 stamp vs f fs)
  then obtain got where got: "field_value f = Inr got" by (auto simp: bindE_Inr_conv)
  show ?case
  proof (cases "\<exists>t. stamp = None \<and> got = Stamp t")
    case True
    then obtain t where t: "stamp = None" "got = Stamp t" by blast
    with "2.prems" got have r: "row_fields (Some t) vs fs = Inr r" by simp
    from "2.IH"(1) [OF got _ t] r row_fields_keep_stamp [OF r] t show ?thesis by auto
  next
    case False
    with "2.prems" got have r: "row_fields stamp (vs @ [got]) fs = Inr r"
      by (auto split: option.splits field.splits)
    with False "2.IH" got show ?thesis
      by (cases stamp; cases got) auto
  qed
qed auto

section \<open>Properties\<close>

text \<open>a valid calendar date and time is packed into twelve octets that unpack to the same date,
  and whatever octets are unpacked, a date that comes out is a valid one.\<close>

lemma datetime_roundtrip:
  "(valid_datetime t \<longrightarrow> (\<exists>b. pack_datetime t = Inr b \<and> length b = 12 \<and> unpack_datetime b = Some t)) \<and>
   (case unpack_datetime c of Some u \<Rightarrow> valid_datetime u | None \<Rightarrow> True)"
  using unpack_pack [of t] unpack_valid [of c] by (simp split: option.split)

lemma datetime_roundtrip_witness:
  "\<exists>b. pack_datetime \<lparr>year = 2024, month = 2, day = 29, hour = 23, minute = 59, second = 0\<rparr> = Inr b \<and>
     length b = 12 \<and> unpack_datetime b = Some \<lparr>year = 2024, month = 2, day = 29, hour = 23, minute = 59, second = 0\<rparr>"
  by (rule datetime_roundtrip [THEN conjunct1, rule_format])
    (simp add: valid_datetime_def new_datetime_def days_in_month_def leap_year_def)

end
