(* ===== verification/Crc.thy ===== *)
theory Crc
  imports Prelude
begin

text \<open>
  The cyclic redundancy checks of the serial protocols.  The bit loop of the reflected
  16-bit checks is shared by \<^verbatim>\<open>sa02m_spodes/hdlc.py\<close>, \<^verbatim>\<open>modbus_rtu.py\<close> and
  \<^verbatim>\<open>serial_gateway.py\<close>, which differ in the polynomial and the final exclusive or.
  The locale \<open>check_step\<close> is the interface every check relies on: the register update is
  injective in the register and in the byte.  Its client lemmas give the error detection
  of the frames that carry the check.
\<close>

section \<open>The interface of a check: injective register updates\<close>

locale check_step =
  fixes upd :: "'c \<Rightarrow> 'b \<Rightarrow> 'c"
  assumes inj_state: "upd c b = upd c' b \<Longrightarrow> c = c'"
    and inj_byte: "upd c b = upd c b' \<Longrightarrow> b = b'"
begin

lemma run_inj_state: "foldl upd c bs = foldl upd c' bs \<Longrightarrow> c = c'"
  by (induction bs arbitrary: c c') (auto dest: inj_state)

text \<open>A message and the same message with one byte replaced never have the same check.\<close>

lemma single_byte:
  assumes "foldl upd c (xs @ b # ys) = foldl upd c (xs @ b' # ys)"
  shows "b = b'"
proof -
  from assms have "upd (foldl upd c xs) b = upd (foldl upd c xs) b'"
    by (auto dest: run_inj_state)
  then show ?thesis by (rule inj_byte)
qed

lemma single_byte_update:
  assumes "i < length bs" and "b \<noteq> bs ! i"
  shows "foldl upd c (bs[i := b]) \<noteq> foldl upd c bs"
proof
  assume eq: "foldl upd c (bs[i := b]) = foldl upd c bs"
  from assms(1) have old: "bs = take i bs @ bs ! i # drop (Suc i) bs"
    by (rule id_take_nth_drop)
  from assms(1) have new: "bs[i := b] = take i bs @ b # drop (Suc i) bs"
    by (rule upd_conv_take_nth_drop)
  from eq have "foldl upd c (take i bs @ b # drop (Suc i) bs)
      = foldl upd c (take i bs @ bs ! i # drop (Suc i) bs)"
    by (simp only: new [symmetric] old [symmetric])
  then have "b = bs ! i" by (rule single_byte)
  with assms(2) show False by simp
qed

end

text \<open>A check whose register is two bytes wide also separates any two adjacent bytes.\<close>

locale check_burst = check_step +
  assumes inj_pair: "upd (upd c b1) b2 = upd (upd c d1) d2 \<Longrightarrow> b1 = d1 \<and> b2 = d2"
begin

lemma burst:
  assumes "foldl upd c (xs @ b1 # b2 # ys) = foldl upd c (xs @ d1 # d2 # ys)"
  shows "b1 = d1 \<and> b2 = d2"
proof -
  from assms have "foldl upd (upd (upd (foldl upd c xs) b1) b2) ys
      = foldl upd (upd (upd (foldl upd c xs) d1) d2) ys" by simp
  then have "upd (upd (foldl upd c xs) b1) b2 = upd (upd (foldl upd c xs) d1) d2"
    by (rule run_inj_state)
  then show ?thesis by (rule inj_pair)
qed

end

section \<open>The reflected 16-bit register\<close>

definition crc_bit :: "16 word \<Rightarrow> 16 word \<Rightarrow> 16 word" where
  "crc_bit poly crc = (if crc AND 1 \<noteq> 0 then drop_bit 1 crc XOR poly else drop_bit 1 crc)"

definition crc_byte :: "16 word \<Rightarrow> 16 word \<Rightarrow> byte \<Rightarrow> 16 word" where
  "crc_byte poly crc b = (crc_bit poly ^^ 8) (crc XOR ucast b)"

lemma crc_bit_eval [py_eval]:
  "crc_bit poly crc = (if odd crc then drop_bit 1 crc XOR poly else drop_bit 1 crc)"
  by (simp add: crc_bit_def and_one_eq odd_iff_mod_2_eq_one)

lemma crc_byte_eval [py_eval]:
  "crc_byte poly crc b =
     crc_bit poly (crc_bit poly (crc_bit poly (crc_bit poly
     (crc_bit poly (crc_bit poly (crc_bit poly (crc_bit poly (crc XOR ucast b))))))))"
  by (simp add: crc_byte_def numeral_eq_Suc)

lemma word_xor_cancel: "x XOR z = y XOR z \<longleftrightarrow> x = y" for x y z :: "'a::len word"
proof
  assume "x XOR z = y XOR z"
  then have "(x XOR z) XOR z = (y XOR z) XOR z" by simp
  then show "x = y" by (simp only: xor.assoc xor_self_eq xor.right_neutral)
qed simp

text \<open>One step is linear over exclusive or and, when the polynomial has its top bit, injective.\<close>

lemma crc_bit_xor: "crc_bit poly (x XOR y) = crc_bit poly x XOR crc_bit poly y"
  by (auto simp: crc_bit_eval even_xor_iff ac_simps intro!: bit_word_eqI simp: bit_simps)

lemma crc_bit_inj:
  assumes "bit poly 15" and eq: "crc_bit poly x = crc_bit poly y"
  shows "x = y"
proof -
  have top: "bit (crc_bit poly z) 15 = odd z" for z
    using assms(1) by (auto simp: crc_bit_eval bit_simps dest: bit_imp_le_length)
  from eq have par: "odd x = odd y" by (metis top)
  have "drop_bit 1 x = drop_bit 1 y"
  proof (cases "odd x")
    case True
    with eq par show ?thesis by (simp add: crc_bit_eval word_xor_cancel)
  next
    case False
    with eq par show ?thesis by (simp add: crc_bit_eval)
  qed
  then have "bit (drop_bit 1 x) n = bit (drop_bit 1 y) n" for n
    by simp
  then have bits: "bit x (Suc n) = bit y (Suc n)" for n
    by (simp add: bit_drop_bit_eq)
  show ?thesis
  proof (rule bit_word_eqI)
    fix n assume "n < LENGTH(16)"
    show "bit x n = bit y n"
      by (cases n) (use par bits in \<open>auto simp: bit_0\<close>)
  qed
qed

lemma crc_bits_xor:
  "(crc_bit poly ^^ n) (x XOR y) = (crc_bit poly ^^ n) x XOR (crc_bit poly ^^ n) y"
  by (induction n) (simp_all add: crc_bit_xor)

lemma crc_bits_inj:
  "bit poly 15 \<Longrightarrow> (crc_bit poly ^^ n) x = (crc_bit poly ^^ n) y \<Longrightarrow> x = y"
  by (induction n) (auto dest: crc_bit_inj)

lemma ucast_byte_inj: "(ucast b :: 16 word) = ucast b' \<longleftrightarrow> b = b'" for b b' :: byte
  using word16_inj [of 0 b 0 b'] by (simp add: word16_def)

lemma crc_bit_push:
  assumes "m \<le> 7"
  shows "crc_bit poly (push_bit (Suc m) (ucast (b :: byte))) = push_bit m (ucast b)"
proof -
  have "even (push_bit (Suc m) (ucast b :: 16 word))" by simp
  moreover have "drop_bit 1 (push_bit (Suc m) (ucast b :: 16 word)) = push_bit m (ucast b)"
  proof (rule bit_word_eqI)
    fix n assume "n < LENGTH(16)"
    moreover have "bit (ucast b :: 16 word) (n - m) \<Longrightarrow> n - m < 8"
      by (auto simp: bit_simps dest: bit_imp_le_length)
    ultimately show "bit (drop_bit 1 (push_bit (Suc m) (ucast b :: 16 word))) n
        = bit (push_bit m (ucast b :: 16 word)) n"
      using assms by (auto simp: bit_drop_bit_eq bit_push_bit_iff simp del: push_bit_Suc)
  qed
  ultimately show ?thesis by (simp add: crc_bit_eval)
qed

lemma crc_bits_shift:
  "n \<le> 8 \<Longrightarrow> (crc_bit poly ^^ n) (push_bit 8 (ucast b)) = push_bit (8 - n) (ucast (b :: byte))"
proof (induction n)
  case 0
  then show ?case by simp
next
  case (Suc n)
  then have "8 - n = Suc (8 - Suc n)" and "8 - Suc n \<le> 7" by simp_all
  moreover from Suc have "(crc_bit poly ^^ Suc n) (push_bit 8 (ucast b))
      = crc_bit poly (push_bit (8 - n) (ucast b))" by simp
  ultimately show ?case by (simp only: crc_bit_push)
qed

text \<open>
  Two bytes through the register are one 16-bit shift of the pair, so the check separates
  pairs.
\<close>

lemma crc_byte_pair:
  "crc_byte poly (crc_byte poly c b1) b2 = (crc_bit poly ^^ 16) (c XOR word16 b2 b1)"
proof -
  have "(crc_bit poly ^^ 8) (push_bit 8 (ucast b2)) = ucast b2"
    using crc_bits_shift [of 8 poly b2] by simp
  then have "crc_byte poly (crc_byte poly c b1) b2
      = (crc_bit poly ^^ 8) ((crc_bit poly ^^ 8) (c XOR ucast b1 XOR push_bit 8 (ucast b2)))"
    by (simp add: crc_byte_def crc_bits_xor ac_simps)
  also have "\<dots> = (crc_bit poly ^^ 16) (c XOR ucast b1 XOR push_bit 8 (ucast b2))"
    using funpow_add [of 8 8 "crc_bit poly"] by simp
  also have "c XOR ucast b1 XOR push_bit 8 (ucast b2) = c XOR word16 b2 b1"
    by (rule bit_word_eqI) (auto simp: word16_def bit_simps dest: bit_imp_le_length)
  finally show ?thesis .
qed

lemma word_xor_cancel_left: "z XOR x = z XOR y \<longleftrightarrow> x = y" for x y z :: "'a::len word"
  using word_xor_cancel [of x z y] by (simp only: xor.commute)

lemma check_burst_crc_byte:
  assumes top: "bit poly 15"
  shows "check_burst (crc_byte poly)"
proof
  fix c c' :: "16 word" and b b' b1 b2 d1 d2 :: byte
  {
    assume "crc_byte poly c b = crc_byte poly c' b"
    then have "c XOR ucast b = c' XOR ucast b"
      unfolding crc_byte_def by (rule crc_bits_inj [OF top])
    then show "c = c'" by (simp only: word_xor_cancel)
  next
    assume "crc_byte poly c b = crc_byte poly c b'"
    then have "c XOR ucast b = c XOR ucast b'"
      unfolding crc_byte_def by (rule crc_bits_inj [OF top])
    then show "b = b'" by (simp only: word_xor_cancel_left ucast_byte_inj)
  next
    assume "crc_byte poly (crc_byte poly c b1) b2 = crc_byte poly (crc_byte poly c d1) d2"
    then have "c XOR word16 b2 b1 = c XOR word16 d2 d1"
      unfolding crc_byte_pair by (rule crc_bits_inj [OF top])
    then show "b1 = d1 \<and> b2 = d2" by (simp only: word_xor_cancel_left word16_inj conj_commute)
  }
qed

section \<open>The residue of a message with its check\<close>

text \<open>
  Running the register over a message and its check field in little-endian order leaves a
  constant, whatever the message, exactly when the check field is right.
\<close>

lemma crc_residue:
  assumes "bit poly 15"
  shows "foldl (crc_byte poly) c (xs @ [lo, hi]) = (crc_bit poly ^^ 16) m
    \<longleftrightarrow> word16 hi lo = foldl (crc_byte poly) c xs XOR m"
proof -
  let ?r = "foldl (crc_byte poly) c xs"
  have "foldl (crc_byte poly) c (xs @ [lo, hi]) = (crc_bit poly ^^ 16) (?r XOR word16 hi lo)"
    by (simp add: crc_byte_pair)
  also have "\<dots> = (crc_bit poly ^^ 16) m \<longleftrightarrow> ?r XOR word16 hi lo = m"
    using crc_bits_inj [OF assms] by blast
  also have "\<dots> \<longleftrightarrow> ?r XOR word16 hi lo = ?r XOR (?r XOR m)"
    by (simp add: xor.assoc [symmetric])
  also have "\<dots> \<longleftrightarrow> word16 hi lo = ?r XOR m" by (rule word_xor_cancel_left)
  finally show ?thesis .
qed

text \<open>
  So two buffers with a right check that differ only in two adjacent bytes are equal: any
  error burst inside two bytes is detected, wherever it falls.
\<close>

lemma crc_burst_detected:
  assumes "bit poly 15"
    and ok: "foldl (crc_byte poly) c (xs @ b1 # b2 # ys) = (crc_bit poly ^^ 16) m"
    and neq: "(d1, d2) \<noteq> (b1, b2)"
  shows "foldl (crc_byte poly) c (xs @ d1 # d2 # ys) \<noteq> (crc_bit poly ^^ 16) m"
  using check_burst.burst [OF check_burst_crc_byte [OF assms(1)], of c xs b1 b2 ys d1 d2] ok neq
  by auto

end
