(* ===== verification/Hdlc.thy ===== *)
theory Hdlc
  imports Crc Codec
begin

text \<open>
  IEC 62056-46 HDLC type-3 frames, \<^verbatim>\<open>opt/sa02m-spodes/sa02m_spodes/hdlc.py\<close>: the frame
  check sequence, address fields, byte stuffing, \<^verbatim>\<open>build_frame\<close> and \<^verbatim>\<open>parse_frame\<close>.
  The lemmas give the round trip of every field and of the whole frame, what a parsed frame
  must look like, and the rejection of corrupted frames.
\<close>

section \<open>Constants and the frame record\<close>

definition FLAG :: byte where "FLAG = 0x7E"
definition ESC :: byte where "ESC = 0x7D"
definition ESC_BIT :: byte where "ESC_BIT = 0x20"

definition LLC_REQUEST :: bytes where "LLC_REQUEST = [0xE6, 0xE6, 0x00]"
definition LLC_RESPONSE :: bytes where "LLC_RESPONSE = [0xE6, 0xE7, 0x00]"

definition SNRM :: int where "SNRM = 0x93"
definition UA :: int where "UA = 0x73"
definition DISC :: int where "DISC = 0x53"

definition FORMAT_TYPE :: "16 word" where "FORMAT_TYPE = 0xA"
definition SEG_BIT :: "16 word" where "SEG_BIT = 0x0800"
definition LEN_MASK :: nat where "LEN_MASK = 0x07FF"

record frame =
  dest :: bytes
  src :: bytes
  control :: int
  information :: bytes
  segmented :: bool

text \<open>\<^verbatim>\<open>Frame.apdu\<close>: the information without its LLC header.\<close>

definition starts_with :: "bytes \<Rightarrow> bytes \<Rightarrow> bool" where
  "starts_with pre xs = (take (length pre) xs = pre)"

definition frame_apdu :: "frame \<Rightarrow> bytes" where
  "frame_apdu f =
     (let info = information f in
      if starts_with LLC_REQUEST info \<or> starts_with LLC_RESPONSE info then drop 3 info else info)"

section \<open>Check sequence and control octets\<close>

definition crc16 :: "bytes \<Rightarrow> 16 word" where
  "crc16 data = foldl (crc_byte 0x8408) 0xFFFF data XOR 0xFFFF"

definition i_control :: "int \<Rightarrow> int \<Rightarrow> int \<Rightarrow> int" where
  "i_control ns nr pf =
     push_bit 5 (nr AND 7) OR push_bit 4 (pf AND 1) OR push_bit 1 (ns AND 7)"

definition is_i_frame :: "int \<Rightarrow> bool" where
  "is_i_frame c = ((c AND 0x01) = 0)"

definition ns_of :: "int \<Rightarrow> int" where
  "ns_of c = (drop_bit 1 c AND 7)"

definition nr_of :: "int \<Rightarrow> int" where
  "nr_of c = (drop_bit 5 c AND 7)"

section \<open>Addresses\<close>

text \<open>
  The loop of \<^verbatim>\<open>encode_address\<close>: \<open>width\<close> groups of seven bits, least significant first, and
  what is left of the value.
\<close>

fun addr_groups :: "nat \<Rightarrow> int \<Rightarrow> int list \<times> int" where
  "addr_groups 0 rest = ([], rest)"
| "addr_groups (Suc k) rest =
     (let (gs, r) = addr_groups k (drop_bit 7 rest) in ((rest AND 0x7F) # gs, r))"

text \<open>The output loop: every group shifted left, the last one with the end flag.\<close>

fun addr_octets :: "int list \<Rightarrow> bytes" where
  "addr_octets [] = []"
| "addr_octets (g # gs) =
     word_of_int (push_bit 1 g OR (if gs = [] then 1 else 0)) # addr_octets gs"

definition encode_address :: "int \<Rightarrow> nat \<Rightarrow> bytes result" where
  "encode_address v width =
     (if width \<notin> {1, 2, 4} then Inl (HdlcError ''address width'')
      else if v < 0 then Inl (HdlcError ''address range'')
      else let (groups, rest) = addr_groups width v in
        if rest \<noteq> 0 then Inl (HdlcError ''address range'')
        else Inr (addr_octets (rev groups)))"

definition server_address :: "int \<Rightarrow> int \<Rightarrow> bytes result" where
  "server_address logical phys =
     (if logical < 0 \<or> phys < 0 then Inl (HdlcError ''address range'')
      else let wide = (logical > 0x7F \<or> phys > 0x7F); width = (if wide then 2 else 1) in
        bindE (encode_address logical width) (\<lambda>upper.
        bindE (encode_address phys width) (\<lambda>lower.
          Inr (upper[length upper - 1 := last upper AND 0xFE] @ lower))))"

definition client_address :: "int \<Rightarrow> bytes result" where
  "client_address sap = encode_address sap 1"

section \<open>Byte stuffing\<close>

fun escape :: "bytes \<Rightarrow> bytes" where
  "escape [] = []"
| "escape (b # bs) =
     (if b = FLAG \<or> b = ESC then ESC # (b XOR ESC_BIT) # escape bs else b # escape bs)"

fun unescape_loop :: "bool \<Rightarrow> bytes \<Rightarrow> bytes result" where
  "unescape_loop esc [] = (if esc then Inl (IncompleteFrame ''dangling escape'') else Inr [])"
| "unescape_loop esc (b # bs) =
     (if esc then bindE (unescape_loop False bs) (\<lambda>out. Inr ((b XOR ESC_BIT) # out))
      else if b = ESC then unescape_loop True bs
      else bindE (unescape_loop False bs) (\<lambda>out. Inr (b # out)))"

definition unescape :: "bytes \<Rightarrow> bytes result" where
  "unescape raw = unescape_loop False raw"

section \<open>Building a frame\<close>

definition build_frame :: "bytes \<Rightarrow> bytes \<Rightarrow> int \<Rightarrow> bytes \<Rightarrow> bytes result" where
  "build_frame dst sr ctl info =
     (if dst = [] \<or> sr = [] then Inl (HdlcError ''address'')
      else let addr = dst @ sr;
               has_info = (length info > 0);
               len = 2 + length addr + 1 + 2 + (if has_info then 2 else 0) + length info in
        if len > LEN_MASK then Inl (HdlcError ''frame too long'')
        else let header = be16 (push_bit 12 FORMAT_TYPE OR of_nat len) @ addr
                           @ [word_of_int (ctl AND 0xFF)];
                 body = (if has_info then header @ le16 (crc16 header) @ info else header);
                 raw = body @ le16 (crc16 body)
             in Inr ([FLAG] @ escape raw @ [FLAG]))"

section \<open>Parsing a frame\<close>

text \<open>The inner function \<^verbatim>\<open>one\<close> of \<^verbatim>\<open>_split_addresses\<close>, its loop index explicit.\<close>

function split_one :: "bytes \<Rightarrow> nat \<Rightarrow> nat \<Rightarrow> (bytes \<times> nat) result" where
  "split_one buf start i =
     (if i < length buf then
        (if buf ! i AND 0x01 \<noteq> 0 then Inr (slice start (Suc i) buf, Suc i)
         else if Suc i - start > 4 then Inl (HdlcError ''address'')
         else split_one buf start (Suc i))
      else Inl (IncompleteFrame ''address''))"
  by pat_completeness auto
termination
  by (relation "measure (\<lambda>(buf, start, i). length buf - i)") auto

declare split_one.simps [simp del]

definition split_addresses :: "bytes \<Rightarrow> nat \<Rightarrow> (bytes \<times> bytes \<times> nat) result" where
  "split_addresses buf index =
     bindE (split_one buf index index) (\<lambda>(dst, i).
     bindE (split_one buf i i) (\<lambda>(sr, j). Inr (dst, sr, j)))"

text \<open>The part of \<^verbatim>\<open>parse_frame\<close> after the byte stuffing is removed.\<close>

definition parse_raw :: "bytes \<Rightarrow> frame result" where
  "parse_raw raw =
     (if length raw < 2 + 1 + 1 + 1 + 2 then Inl (HdlcError ''short frame'')
      else let fmt = word16 (raw ! 0) (raw ! 1) in
        if drop_bit 12 fmt \<noteq> FORMAT_TYPE then Inl (HdlcError ''format'')
        else let seg = (fmt AND SEG_BIT \<noteq> 0);
                 declared = unat (fmt AND of_nat LEN_MASK) in
          if declared \<noteq> length raw then Inl (HdlcError ''length'')
          else let n = length raw;
                   fcs_got = word16 (raw ! (n - 1)) (raw ! (n - 2)) in
            if crc16 (take (n - 2) raw) \<noteq> fcs_got then Inl (HdlcError ''fcs'')
            else bindE (split_addresses raw 2) (\<lambda>(dst, sr, i).
              if i \<ge> n - 2 then Inl (HdlcError ''control'')
              else let ctl = uint (raw ! i);
                       rest_before_fcs = slice (Suc i) (n - 2) raw in
                if rest_before_fcs \<noteq> [] then
                  (if length rest_before_fcs < 2 then Inl (HdlcError ''hcs'')
                   else let hcs_got = word16 (rest_before_fcs ! 1) (rest_before_fcs ! 0) in
                     if crc16 (take (Suc i) raw) \<noteq> hcs_got then Inl (HdlcError ''hcs'')
                     else Inr \<lparr>dest = dst, src = sr, control = ctl,
                               information = drop 2 rest_before_fcs, segmented = seg\<rparr>)
                else Inr \<lparr>dest = dst, src = sr, control = ctl,
                          information = [], segmented = seg\<rparr>))"

function parse_frame :: "bytes \<Rightarrow> (frame \<times> bytes) result" where
  "parse_frame buf =
     (case find_from FLAG buf 0 of
        None \<Rightarrow> Inl (IncompleteFrame ''no flag'')
      | Some start \<Rightarrow>
          (case find_from FLAG buf (start + 1) of
             None \<Rightarrow> Inl (IncompleteFrame ''no closing flag'')
           | Some fin \<Rightarrow>
               (if fin = start + 1 then parse_frame (drop fin buf)
                else bindE (unescape (slice (start + 1) fin buf)) (\<lambda>raw.
                     bindE (parse_raw raw) (\<lambda>f. Inr (f, drop (fin + 1) buf))))))"
  by pat_completeness auto
termination
  by (relation "measure length") (auto dest: find_from_SomeD)

declare parse_frame.simps [simp del]

section \<open>Byte stuffing removes flags and is undone\<close>

lemma escape_no_flag: "FLAG \<notin> set (escape bs)"
  by (induction bs) (auto simp: FLAG_def ESC_def ESC_BIT_def)

lemma unescape_escape: "unescape (escape bs) = Inr bs"
proof -
  have "unescape_loop False (escape bs) = Inr bs"
    by (induction bs) (auto simp: FLAG_def ESC_def ESC_BIT_def xor.assoc)
  then show ?thesis by (simp add: unescape_def)
qed

section \<open>The format field\<close>

lemma fmt_type:
  assumes "n \<le> LEN_MASK"
  shows "drop_bit 12 (push_bit 12 FORMAT_TYPE OR of_nat n) = FORMAT_TYPE"
    and "(push_bit 12 FORMAT_TYPE OR of_nat n) AND SEG_BIT = 0"
    and "unat ((push_bit 12 FORMAT_TYPE OR of_nat n) AND of_nat LEN_MASK) = n"
proof -
  from assms have n: "n < 2 ^ 11" by (simp add: LEN_MASK_def)
  note small = bit_of_nat_small [where 'a = 16, OF n]
  have d: "drop_bit 12 (of_nat n :: 16 word) = 0"
    by (rule bit_word_eqI) (auto simp: bit_drop_bit_eq dest: small)
  then show "drop_bit 12 (push_bit 12 FORMAT_TYPE OR of_nat n) = FORMAT_TYPE"
    by (simp add: FORMAT_TYPE_def)
  have "of_nat n AND SEG_BIT = 0"
  proof (rule bit_word_eqI)
    fix k assume "k < LENGTH(16)"
    have "SEG_BIT = push_bit 11 1" by (simp add: SEG_BIT_def)
    then have "bit SEG_BIT k \<Longrightarrow> 11 \<le> k" by (metis bit_push_bit_iff)
    then show "bit (of_nat n AND SEG_BIT) k = bit 0 k"
      by (auto simp: bit_and_iff dest: small)
  qed
  then show "(push_bit 12 FORMAT_TYPE OR of_nat n) AND SEG_BIT = 0"
    by (simp add: FORMAT_TYPE_def SEG_BIT_def and.commute bit.conj_disj_distrib)
  have "(push_bit 12 FORMAT_TYPE OR of_nat n) AND of_nat LEN_MASK = (of_nat n :: 16 word)"
  proof (rule bit_word_eqI)
    fix k assume "k < LENGTH(16)"
    have "of_nat LEN_MASK = (mask 11 :: 16 word)" by (simp add: LEN_MASK_def mask_numeral)
    then show "bit ((push_bit 12 FORMAT_TYPE OR of_nat n) AND of_nat LEN_MASK) k = bit (of_nat n :: 16 word) k"
      by (auto simp: bit_simps dest: bit_nat_small [OF n])
  qed
  with n show "unat ((push_bit 12 FORMAT_TYPE OR of_nat n) AND of_nat LEN_MASK) = n"
    by (simp add: unat_of_nat)
qed

section \<open>Addresses\<close>

text \<open>The value an address field carries: the upper seven bits of each octet.\<close>

definition addr_value :: "bytes \<Rightarrow> int" where
  "addr_value bs = foldl (\<lambda>a b. a * 128 + uint b div 2) 0 bs"

text \<open>A field the splitter accepts: at most five octets, the end flag on the last only.\<close>

definition addr_field :: "bytes \<Rightarrow> bool" where
  "addr_field bs \<longleftrightarrow> bs \<noteq> [] \<and> length bs \<le> 5 \<and> odd (last bs) \<and> (\<forall>b \<in> set (butlast bs). even b)"

lemma addr_groups_spec:
  "addr_groups k v = (gs, r) \<Longrightarrow>
     length gs = k \<and> (\<forall>g \<in> set gs. 0 \<le> g \<and> g < 128)
     \<and> v = foldr (\<lambda>g a. g + 128 * a) gs 0 + 128 ^ k * r"
proof (induction k arbitrary: v gs r)
  case 0
  then show ?case by simp
next
  case (Suc k)
  from Suc.prems obtain hs where hs: "addr_groups k (drop_bit 7 v) = (hs, r)"
    and gs: "gs = (v mod 128) # hs"
    by (auto simp: int_and_127 split: prod.splits)
  have "v = v mod 128 + 128 * (v div 128)" by simp
  with Suc.IH [OF hs] gs show ?case
    by (auto simp: drop_bit_eq_div algebra_simps)
qed

lemma uint_octet:
  assumes "0 \<le> g" "g < 128"
  shows "uint (word_of_int (push_bit 1 g OR (if l then 1 else 0)) :: byte) = 2 * g + (if l then 1 else 0)"
  using assms by (auto simp: uint_word_of_int_byte push_bit_eq_mult or_one_eq)

lemma odd_octet: "odd (word_of_int (push_bit 1 g OR (if l then 1 else 0)) :: byte) \<longleftrightarrow> l"
proof -
  have "odd (word_of_int n :: byte) = odd n" for n
    by (metis bit_0 bit_word_of_int_iff len_gt_0)
  then show ?thesis by (simp add: even_or_iff)
qed

lemma addr_octets_spec:
  "\<forall>g \<in> set gs. 0 \<le> g \<and> g < 128 \<Longrightarrow>
     length (addr_octets gs) = length gs
     \<and> map (\<lambda>b. uint b div 2) (addr_octets gs) = gs
     \<and> (\<forall>b \<in> set (butlast (addr_octets gs)). even b)
     \<and> (gs \<noteq> [] \<longrightarrow> odd (last (addr_octets gs)))"
proof (induction gs)
  case Nil
  then show ?case by simp
next
  case (Cons g gs)
  from Cons.prems have g: "0 \<le> g" "g < 128" by auto
  have "gs \<noteq> [] \<Longrightarrow> addr_octets gs \<noteq> []" by (cases gs) auto
  with Cons uint_octet [OF g] odd_octet [of g] show ?case by (auto split: if_splits)
qed

lemma foldl_map_octets:
  "foldl (\<lambda>a b. a * 128 + f b) z bs = foldl (\<lambda>a g. a * 128 + g) z (map f bs)"
  by (induction bs arbitrary: z) auto

lemma encode_address_spec:
  assumes "encode_address v w = Inr bs"
  shows "length bs = w" and "addr_field bs" and "addr_value bs = v" and "0 \<le> v \<and> v < 128 ^ w"
proof -
  obtain gs r where gr: "addr_groups w v = (gs, r)" by fastforce
  with assms have w: "w \<in> {1, 2, 4}" and v: "0 \<le> v" and r: "r = 0"
    and bs: "bs = addr_octets (rev gs)"
    by (auto simp: encode_address_def split: if_splits)
  from addr_groups_spec [OF gr] r have len: "length gs = w"
    and rng: "\<forall>g \<in> set gs. 0 \<le> g \<and> g < 128" and val: "v = foldr (\<lambda>g a. g + 128 * a) gs 0" by auto
  from rng have "\<forall>g \<in> set (rev gs). 0 \<le> g \<and> g < 128" by simp
  note oct = addr_octets_spec [OF this]
  show "length bs = w" using oct len bs by simp
  moreover have "gs \<noteq> []" using len w by auto
  ultimately show "addr_field bs" using oct w bs by (auto simp: addr_field_def)
  have "addr_value bs = foldl (\<lambda>a g. a * 128 + g) 0 (rev gs)"
    unfolding addr_value_def foldl_map_octets [of "\<lambda>b. uint b div 2"] using oct bs by simp
  also have "\<dots> = v" by (simp add: val foldl_conv_foldr algebra_simps)
  finally show "addr_value bs = v" .
  have "foldr (\<lambda>g a. g + 128 * a) gs 0 < 128 ^ length gs"
    using rng by (induction gs) auto
  with v val len show "0 \<le> v \<and> v < 128 ^ w" by simp
qed

lemma encode_address_defined:
  assumes "w \<in> {1, 2, 4}" and "0 \<le> v" and "v < 128 ^ w"
  shows "\<exists>bs. encode_address v w = Inr bs"
proof -
  obtain gs r where gr: "addr_groups w v = (gs, r)" by fastforce
  from addr_groups_spec [OF gr] have v: "v = foldr (\<lambda>g a. g + 128 * a) gs 0 + 128 ^ w * r"
    and rng: "\<forall>g \<in> set gs. 0 \<le> g \<and> g < 128" and len: "length gs = w" by auto
  have "0 \<le> foldr (\<lambda>g a. g + 128 * a) gs 0 \<and> foldr (\<lambda>g a. g + 128 * a) gs 0 < 128 ^ length gs"
    using rng by (induction gs) auto
  then have "r = v div 128 ^ w" using v len by simp
  with assms(2,3) have "r = 0" by simp
  with gr assms show ?thesis by (auto simp: encode_address_def)
qed

lemma int_and_254: "0 \<le> n \<Longrightarrow> n < 256 \<Longrightarrow> (n::int) AND 254 = 2 * (n div 2)"
  by (subst and_rec) (simp add: int_and_127)

lemma uint_and_fe: "uint (b AND 0xFE) = 2 * (uint b div 2)" for b :: byte
  using uint_lt2p [of b] by (simp add: uint_and int_and_254)

lemma even_and_fe: "even (b AND 0xFE)" for b :: byte
  by (simp add: even_and_iff)

lemma butlast_list_update_last: "bs \<noteq> [] \<Longrightarrow> bs[length bs - 1 := x] = butlast bs @ [x]"
  by (metis append_butlast_last_id length_butlast list_update_length)

lemma foldl_addr_acc:
  "foldl (\<lambda>a b. a * 128 + f b) z bs = z * 128 ^ length bs + foldl (\<lambda>a b. a * 128 + f b) (0::int) bs"
proof (induction bs rule: rev_induct)
  case (snoc x xs)
  then show ?case by (simp add: algebra_simps)
qed simp

lemma addr_value_append: "addr_value (xs @ ys) = addr_value xs * 128 ^ length ys + addr_value ys"
  unfolding addr_value_def foldl_append
  by (subst foldl_addr_acc) simp

text \<open>
  The server address is one field that carries both device numbers, in one or two octets
  each.
\<close>

lemma server_address_spec:
  assumes "server_address l p = Inr bs"
  defines "w \<equiv> (if l > 127 \<or> p > 127 then 2 else 1)"
  shows "length bs = 2 * w" and "addr_field bs" and "addr_value bs = l * 128 ^ w + p"
proof -
  from assms(1) obtain u lo where u: "encode_address l w = Inr u" and lo: "encode_address p w = Inr lo"
    and bs: "bs = u[length u - 1 := last u AND 0xFE] @ lo"
    by (auto simp: server_address_def w_def Let_def bindE_Inr_conv split: if_splits)
  note us = encode_address_spec [OF u] and los = encode_address_spec [OF lo]
  have w: "w = 1 \<or> w = 2" by (simp add: w_def)
  then have une: "u \<noteq> []" using us(1) by auto
  have bs': "bs = butlast u @ [last u AND 0xFE] @ lo" unfolding bs butlast_list_update_last [OF une] by simp
  show "length bs = 2 * w" using us(1) los(1) by (simp add: bs)
  have "lo \<noteq> []" using los(1) w by auto
  then show "addr_field bs"
    using us(1,2) los(1,2) une w unfolding bs' addr_field_def
    by (auto simp: butlast_append even_and_fe)
  have "addr_value (butlast u @ [last u AND 0xFE]) = addr_value (butlast u @ [last u])"
    by (simp add: addr_value_append) (simp add: addr_value_def uint_and_fe)
  then show "addr_value bs = l * 128 ^ w + p"
    using us(3) los(1,3) une unfolding bs' append_assoc [symmetric] addr_value_append [of _ lo] by simp
qed

section \<open>Splitting address fields\<close>

lemma slice_Suc: "s \<le> i \<Longrightarrow> i < length xs \<Longrightarrow> slice s (Suc i) xs = slice s i xs @ [xs ! i]"
  by (simp add: slice_def Suc_diff_le take_Suc_conv_app_nth)

lemma split_one_field_aux:
  assumes "ys \<noteq> []" "length xs + length ys \<le> 5" "odd (last ys)" "\<forall>b \<in> set (butlast ys). even b"
  shows "split_one (pre @ xs @ ys @ rest) (length pre) (length pre + length xs)
    = Inr (xs @ ys, length pre + length xs + length ys)"
  using assms
proof (induction ys arbitrary: xs)
  case Nil
  then show ?case by simp
next
  case (Cons y ys)
  let ?buf = "pre @ xs @ (y # ys) @ rest" and ?i = "length pre + length xs"
  have nth: "?buf ! ?i = y" by (simp add: nth_append)
  show ?case
  proof (cases "ys = []")
    case True
    with Cons.prems have "odd y" by simp
    with True nth show ?thesis
      by (subst split_one.simps) (simp add: word_and_1 slice_def)
  next
    case False
    with Cons.prems have "even y" by simp
    with False Cons.prems have step: "split_one ?buf (length pre) ?i
        = split_one ?buf (length pre) (Suc ?i)"
      using nth by (subst split_one.simps) (cases ys, simp_all add: word_and_1)
    from False Cons.prems have "split_one (pre @ (xs @ [y]) @ ys @ rest) (length pre)
        (length pre + length (xs @ [y])) = Inr ((xs @ [y]) @ ys, length pre + length (xs @ [y]) + length ys)"
      by (intro Cons.IH) auto
    with step show ?thesis by simp
  qed
qed

lemma split_one_field:
  "addr_field a \<Longrightarrow> split_one (pre @ a @ rest) (length pre) (length pre) = Inr (a, length pre + length a)"
  using split_one_field_aux [of a "[]" pre rest] by (simp add: addr_field_def)

lemma split_addresses_fields:
  assumes "addr_field a" and "addr_field b"
  shows "split_addresses (pre @ a @ b @ rest) (length pre)
    = Inr (a, b, length pre + length a + length b)"
  using split_one_field [OF assms(1), of pre "b @ rest"] split_one_field [OF assms(2), of "pre @ a" rest]
  by (simp add: split_addresses_def)

lemma split_one_Inr:
  "split_one buf s i = Inr (a, j) \<Longrightarrow> s \<le> i \<Longrightarrow> i - s \<le> 4 \<Longrightarrow> \<forall>k. s \<le> k \<and> k < i \<longrightarrow> even (buf ! k) \<Longrightarrow>
     i < j \<and> j \<le> length buf \<and> a = slice s j buf \<and> addr_field a"
proof (induction buf s i rule: split_one.induct)
  case (1 buf s i)
  from "1.prems"(1) have i: "i < length buf"
    by (auto simp: split_one.simps [of buf s i] split: if_splits)
  show ?case
  proof (cases "odd (buf ! i)")
    case True
    with "1.prems"(1) i have aj: "a = slice s (Suc i) buf" "j = Suc i"
      by (auto simp: split_one.simps [of buf s i] word_and_1)
    have "\<forall>b \<in> set (slice s i buf). even b"
      using "1.prems"(2,4) i by (auto simp: slice_def set_conv_nth)
    moreover have "length (slice s i buf) \<le> 4" using "1.prems"(3) by (simp add: length_slice)
    ultimately have "addr_field a"
      using True "1.prems"(2) i by (simp add: aj slice_Suc addr_field_def)
    with aj i show ?thesis by simp
  next
    case False
    with "1.prems"(1) i have nlim: "\<not> Suc i - s > 4" and rec: "split_one buf s (Suc i) = Inr (a, j)"
      by (auto simp: split_one.simps [of buf s i] word_and_1 split: if_splits)
    from False "1.prems"(4) have "\<forall>k. s \<le> k \<and> k < Suc i \<longrightarrow> even (buf ! k)"
      by (auto simp: less_Suc_eq)
    with "1.IH" [OF i _ nlim rec] False nlim "1.prems"(2) show ?thesis
      by (auto simp: word_and_1)
  qed
qed

section \<open>Round trip of a frame\<close>

text \<open>What \<^verbatim>\<open>build_frame\<close> puts between the flags before stuffing.\<close>

definition frame_head :: "bytes \<Rightarrow> bytes \<Rightarrow> int \<Rightarrow> nat \<Rightarrow> bytes" where
  "frame_head dst sr ctl n =
     be16 (push_bit 12 FORMAT_TYPE OR of_nat n) @ dst @ sr @ [word_of_int ctl]"

definition frame_body :: "bytes \<Rightarrow> bytes \<Rightarrow> int \<Rightarrow> bytes \<Rightarrow> nat \<Rightarrow> bytes" where
  "frame_body dst sr ctl info n =
     frame_head dst sr ctl n @ (if info = [] then [] else le16 (crc16 (frame_head dst sr ctl n)) @ info)"

definition frame_len :: "bytes \<Rightarrow> bytes \<Rightarrow> bytes \<Rightarrow> nat" where
  "frame_len dst sr info =
     5 + length dst + length sr + (if info = [] then 0 else 2 + length info)"

definition raw_frame :: "bytes \<Rightarrow> bytes \<Rightarrow> int \<Rightarrow> bytes \<Rightarrow> bytes" where
  "raw_frame dst sr ctl info =
     (let body = frame_body dst sr ctl info (frame_len dst sr info) in body @ le16 (crc16 body))"

lemma build_frame_Inr:
  "build_frame dst sr ctl info = Inr bs \<longleftrightarrow>
     dst \<noteq> [] \<and> sr \<noteq> [] \<and> frame_len dst sr info \<le> LEN_MASK \<and>
     bs = [FLAG] @ escape (raw_frame dst sr ctl info) @ [FLAG]"
  by (auto simp: build_frame_def raw_frame_def frame_body_def frame_head_def frame_len_def
      Let_def word_of_int_and_255 add.commute add.left_commute)

lemma length_frame_head [wire_len]: "length (frame_head dst sr ctl n) = 3 + length dst + length sr"
  by (simp add: frame_head_def)

lemma length_raw_frame [wire_len]: "length (raw_frame dst sr ctl info) = frame_len dst sr info"
  by (simp add: raw_frame_def frame_body_def frame_len_def length_frame_head Let_def)

lemma parse_raw_frame:
  assumes a: "addr_field dst" "addr_field sr" and len: "frame_len dst sr info \<le> LEN_MASK"
  shows "parse_raw (raw_frame dst sr ctl info)
    = Inr \<lparr>dest = dst, src = sr, control = ctl mod 256, information = info, segmented = False\<rparr>"
proof -
  let ?n = "frame_len dst sr info" and ?h = "frame_head dst sr ctl (frame_len dst sr info)"
  let ?body = "frame_body dst sr ctl info ?n"
  let ?fmt = "push_bit 12 FORMAT_TYPE OR of_nat ?n :: 16 word"
  let ?raw = "raw_frame dst sr ctl info"
  let ?tail = "if info = [] then [] else le16 (crc16 ?h) @ info"
  have raw: "?raw = ?h @ ?tail @ le16 (crc16 ?body)"
    by (simp add: raw_frame_def frame_body_def Let_def)
  have nbody: "length ?body = ?n - 2"
    by (simp add: frame_body_def frame_len_def length_frame_head)
  have big: "7 \<le> ?n" using a by (cases dst; cases sr) (auto simp: frame_len_def addr_field_def)
  have fmt: "word16 (?raw ! 0) (?raw ! 1) = ?fmt"
    unfolding raw frame_head_def append_assoc by (rule word16_be16)
  have fcs: "word16 (?raw ! (?n - 1)) (?raw ! (?n - 2)) = crc16 ?body"
  proof -
    have "?raw = ?body @ le16 (crc16 ?body)" by (simp add: raw_frame_def Let_def)
    moreover have "?n - 1 = Suc (length ?body)" "?n - 2 = length ?body" using nbody big by auto
    ultimately show ?thesis by (simp add: nth_append le16_def word16_split)
  qed
  have body: "take (?n - 2) ?raw = ?body"
    using nbody by (simp add: raw_frame_def Let_def)
  have split: "split_addresses ?raw 2 = Inr (dst, sr, 2 + length dst + length sr)"
    using split_addresses_fields [OF a, of "be16 ?fmt" "[word_of_int ctl] @ ?tail @ le16 (crc16 ?body)"]
    by (simp add: raw frame_head_def)
  let ?i = "2 + length dst + length sr"
  have ctl: "?raw ! ?i = word_of_int ctl" by (simp add: raw frame_head_def nth_append)
  have i: "\<not> ?i \<ge> ?n - 2" by (simp add: frame_len_def)
  have head: "take (Suc ?i) ?raw = ?h" by (simp add: raw length_frame_head)
  have mid: "slice (Suc ?i) (?n - 2) ?raw = ?tail"
    by (simp add: raw slice_def length_frame_head frame_len_def)
  note facts = fmt_type [OF len]
  show ?thesis
    unfolding parse_raw_def Let_def length_raw_frame fmt facts fcs body split bindE.simps prod.case ctl head mid
    using big i by (simp add: le16_def word16_split uint_word_of_int_byte)
qed

section \<open>Frames in a byte stream\<close>

lemma find_from_0: "find_from b xs 0 = find_byte b xs"
  by (cases "find_byte b xs") (simp_all add: find_from_def)

text \<open>One frame behind line noise, with the bytes after its closing flag left over.\<close>

lemma parse_frame_wire:
  assumes "FLAG \<notin> set noise" and "FLAG \<notin> set body" and "body \<noteq> []"
  shows "parse_frame (noise @ [FLAG] @ body @ [FLAG] @ rest)
    = bindE (unescape body) (\<lambda>raw. bindE (parse_raw raw) (\<lambda>f. Inr (f, rest)))"
proof -
  let ?buf = "noise @ FLAG # body @ FLAG # rest"
  have s: "find_from FLAG ?buf 0 = Some (length noise)"
    using assms(1) by (simp add: find_from_0 find_byte_append)
  have "drop (length noise + 1) ?buf = body @ FLAG # rest" by simp
  then have e: "find_from FLAG ?buf (length noise + 1) = Some (length body + (length noise + 1))"
    using find_byte_append [OF assms(2), of rest] by (simp only: find_from_def option.map)
  have sl: "slice (length noise + 1) (length body + (length noise + 1)) ?buf = body"
    by (simp add: slice_def)
  have dr: "drop (length body + (length noise + 1) + 1) ?buf = rest" by simp
  have ne: "length body + (length noise + 1) \<noteq> length noise + 1" using assms(3) by simp
  have "parse_frame ?buf
    = bindE (unescape body) (\<lambda>raw. bindE (parse_raw raw) (\<lambda>f. Inr (f, rest)))"
    by (subst parse_frame.simps) (simp only: s e option.case ne if_False sl dr)
  then show ?thesis by simp
qed

text \<open>Empty flags are inter-frame fill.\<close>

lemma parse_frame_fill: "parse_frame (FLAG # FLAG # xs) = parse_frame (FLAG # xs)"
proof -
  have s: "find_from FLAG (FLAG # FLAG # xs) 0 = Some 0"
    and e: "find_from FLAG (FLAG # FLAG # xs) (0 + 1) = Some (0 + 1)"
    by (simp_all add: find_from_def)
  show ?thesis by (subst parse_frame.simps) (simp only: s e option.case if_True, simp)
qed

lemma parse_frame_build:
  assumes "addr_field dst" and "addr_field sr"
    and "build_frame dst sr ctl info = Inr bs" and "FLAG \<notin> set noise"
  shows "parse_frame (noise @ bs @ rest)
    = Inr (\<lparr>dest = dst, src = sr, control = ctl mod 256, information = info, segmented = False\<rparr>, rest)"
proof -
  from assms(3) have len: "frame_len dst sr info \<le> LEN_MASK"
    and bs: "bs = [FLAG] @ escape (raw_frame dst sr ctl info) @ [FLAG]"
    by (auto simp: build_frame_Inr)
  have "length (raw_frame dst sr ctl info) > 0" by (simp add: length_raw_frame frame_len_def)
  then have "raw_frame dst sr ctl info \<noteq> []" by auto
  then have ne: "escape (raw_frame dst sr ctl info) \<noteq> []"
    by (cases "raw_frame dst sr ctl info") auto
  show ?thesis
    using parse_frame_wire [OF assms(4) escape_no_flag ne, of rest]
    by (simp add: bs unescape_escape parse_raw_frame [OF assms(1,2) len])
qed

text \<open>What a delivered frame looked like on the wire: it ends at a flag before \<open>rest\<close>.\<close>

lemma parse_frame_Inr:
  "parse_frame buf = Inr (f, rest) \<Longrightarrow>
     \<exists>pre body raw. buf = pre @ [FLAG] @ body @ [FLAG] @ rest
       \<and> unescape body = Inr raw \<and> parse_raw raw = Inr f \<and> FLAG \<notin> set body \<and> body \<noteq> []"
proof (induction buf rule: parse_frame.induct)
  case (1 buf)
  from "1.prems" obtain s where s: "find_from FLAG buf 0 = Some s"
    by (auto simp: parse_frame.simps [of buf] split: option.splits)
  with "1.prems" obtain e where e: "find_from FLAG buf (s + 1) = Some e"
    by (auto simp: parse_frame.simps [of buf] split: option.splits)
  have se: "s < length buf" "buf ! s = FLAG" "e < length buf" "buf ! e = FLAG" "s < e"
    using find_from_SomeD [OF s] find_from_SomeD [OF e] by auto
  show ?case
  proof (cases "e = s + 1")
    case True
    with "1.prems" s e have "parse_frame (drop e buf) = Inr (f, rest)"
      by (simp add: parse_frame.simps [of buf])
    from "1.IH" [OF s e True this] obtain pre body raw
      where d: "drop e buf = pre @ [FLAG] @ body @ [FLAG] @ rest"
        and r: "unescape body = Inr raw" "parse_raw raw = Inr f" "FLAG \<notin> set body" "body \<noteq> []"
      by blast
    have "buf = (take e buf @ pre) @ [FLAG] @ body @ [FLAG] @ rest"
      using d by (metis append_assoc append_take_drop_id)
    with r show ?thesis by blast
  next
    case False
    let ?body = "slice (s + 1) e buf"
    from "1.prems" s e False obtain raw where raw: "unescape ?body = Inr raw" "parse_raw raw = Inr f"
      and rest: "rest = drop (e + 1) buf"
      by (auto simp: parse_frame.simps [of buf] bindE_Inr_conv)
    have "drop (s + 1) buf = ?body @ FLAG # rest"
    proof -
      have "drop (s + 1) buf = ?body @ drop e buf"
        using se(5) by (simp add: slice_def) (metis append_take_drop_id drop_drop le_add_diff_inverse2 Suc_leI)
      moreover have "drop e buf = FLAG # rest" using se rest by (metis Cons_nth_drop_Suc Suc_eq_plus1)
      ultimately show ?thesis by simp
    qed
    moreover have "buf = take s buf @ FLAG # drop (s + 1) buf"
      using se by (metis Suc_eq_plus1 id_take_nth_drop)
    ultimately have "buf = take s buf @ [FLAG] @ ?body @ [FLAG] @ rest" by simp
    moreover have "FLAG \<notin> set ?body"
    proof -
      from e obtain k where k: "find_byte FLAG (drop (s + 1) buf) = Some k" "e = k + (s + 1)"
        by (auto simp: find_from_def)
      have first: "find_byte b xs = Some k \<Longrightarrow> b \<notin> set (take k xs)" for b :: byte and xs
        by (induction xs arbitrary: k) (auto split: if_splits)
      from first [OF k(1)] k(2) show ?thesis by (simp add: slice_def)
    qed
    moreover have "?body \<noteq> []" using False se by (simp add: slice_def)
    ultimately show ?thesis using raw by blast
  qed
qed

section \<open>Corrupted frames are not delivered\<close>

interpretation hdlc_fcs: check_burst "crc_byte 0x8408"
  by (rule check_burst_crc_byte) simp

definition fcs_ok :: "bytes \<Rightarrow> bool" where
  "fcs_ok raw \<longleftrightarrow> foldl (crc_byte 0x8408) 0xFFFF raw = (crc_bit 0x8408 ^^ 16) 0xFFFF"

lemma parse_raw_fcs:
  assumes "parse_raw raw = Inr f"
  shows "fcs_ok raw"
proof -
  let ?n = "length raw"
  from assms have n: "7 \<le> ?n" and crc: "crc16 (take (?n - 2) raw) = word16 (raw ! (?n - 1)) (raw ! (?n - 2))"
    by (auto simp: parse_raw_def Let_def split: if_splits)
  have "drop (?n - 2) raw = [raw ! (?n - 2), raw ! (?n - 1)]"
    using n by (simp add: Cons_nth_drop_Suc [symmetric] Suc_diff_Suc numeral_2_eq_2)
  then have "raw = take (?n - 2) raw @ [raw ! (?n - 2), raw ! (?n - 1)]"
    by (metis append_take_drop_id)
  moreover have "word16 (raw ! (?n - 1)) (raw ! (?n - 2))
      = foldl (crc_byte 0x8408) 0xFFFF (take (?n - 2) raw) XOR 0xFFFF"
    using crc by (simp add: crc16_def)
  ultimately show ?thesis
    unfolding fcs_ok_def
    using crc_residue [of "0x8408" "0xFFFF" "take (?n - 2) raw" "raw ! (?n - 2)" "raw ! (?n - 1)" "0xFFFF"]
    by simp
qed

lemma fcs_burst:
  assumes "fcs_ok (xs @ b1 # b2 # ys)" and "(d1, d2) \<noteq> (b1, b2)"
  shows "\<not> fcs_ok (xs @ d1 # d2 # ys)"
  using crc_burst_detected [OF _ assms(1) [unfolded fcs_ok_def] assms(2)]
  by (simp add: fcs_ok_def)

lemma fcs_single: "fcs_ok raw \<Longrightarrow> i < length raw \<Longrightarrow> b \<noteq> raw ! i \<Longrightarrow> \<not> fcs_ok (raw[i := b])"
  unfolding fcs_ok_def by (metis hdlc_fcs.single_byte_update)

lemma parse_raw_corrupt: "\<not> fcs_ok raw \<Longrightarrow> \<exists>e. parse_raw raw = Inl e"
  using parse_raw_fcs by (metis sumE)

section \<open>The frame codec as an instance of the wire interfaces\<close>

interpretation hdlc_stream: stream_parser parse_frame
proof
  fix buf f rest
  assume "parse_frame buf = Inr (f, rest)"
  from parse_frame_Inr [OF this] show "\<exists>pre. buf = pre @ rest \<and> pre \<noteq> []"
    by (metis append_assoc append_is_Nil_conv not_Cons_self2)
qed

definition frame_view :: "bytes \<times> bytes \<times> int \<times> bytes \<Rightarrow> frame" where
  "frame_view = (\<lambda>(dst, sr, ctl, info).
     \<lparr>dest = dst, src = sr, control = ctl mod 256, information = info, segmented = False\<rparr>)"

interpretation hdlc_codec:
  codec "\<lambda>(dst, sr, ctl, info). build_frame dst sr ctl info" parse_frame frame_view
    "\<lambda>(dst, sr, ctl, info). addr_field dst \<and> addr_field sr"
  by unfold_locales (auto simp: frame_view_def dest: parse_frame_build [of _ _ _ _ _ "[]"])

section \<open>Control octets\<close>

lemma control_fields:
  "ns_of (i_control ns nr pf) = ns mod 8" "nr_of (i_control ns nr pf) = nr mod 8"
  "is_i_frame (i_control ns nr pf)" "0 \<le> i_control ns nr pf" "i_control ns nr pf < 256"
proof -
  define a b c where "a = nr mod 8" and "b = pf mod 2" and "c = ns mod 8"
  have r: "0 \<le> a" "a < 8" "0 \<le> b" "b < 2" "0 \<le> c" "c < 8" by (simp_all add: a_def b_def c_def)
  have eq: "i_control ns nr pf = 32 * a + 16 * b + 2 * c"
  proof -
    have "push_bit 4 b OR push_bit 1 c = 16 * b + 2 * c"
      using r int_or_shift [of "c * 2" 4 b] by (simp add: push_bit_eq_mult)
    moreover have "push_bit 5 a OR (16 * b + 2 * c) = 32 * a + (16 * b + 2 * c)"
      using r int_or_shift [of "16 * b + 2 * c" 5 a] by simp
    ultimately show ?thesis
      by (simp add: i_control_def int_and_7 int_and_1 or.assoc flip: a_def b_def c_def)
  qed
  have "ns_of (i_control ns nr pf) = c"
    unfolding eq ns_of_def int_and_7 drop_bit_eq_div using r by simp presburger
  then show "ns_of (i_control ns nr pf) = ns mod 8" by (simp add: c_def)
  have "nr_of (i_control ns nr pf) = a"
    unfolding eq nr_of_def int_and_7 drop_bit_eq_div using r by simp
  then show "nr_of (i_control ns nr pf) = nr mod 8" by (simp add: a_def)
  show "is_i_frame (i_control ns nr pf)"
    unfolding eq is_i_frame_def int_and_1 by simp
  show "0 \<le> i_control ns nr pf" "i_control ns nr pf < 256"
    using r by (simp_all add: eq)
qed

section \<open>Frames are delimited by what they consume\<close>

lemma find_byte_cut:
  "find_byte b (xs @ ys) = Some i \<Longrightarrow> i < length xs \<Longrightarrow> find_byte b (xs @ zs) = Some i"
  by (induction xs arbitrary: i) (auto split: if_splits)

lemma find_from_cut:
  "find_from b (xs @ ys) k = Some i \<Longrightarrow> i < length xs \<Longrightarrow> find_from b (xs @ zs) k = Some i"
  using find_from_SomeD [of b "xs @ ys" k i] find_byte_cut [of b "drop k xs" ys _ zs]
  by (fastforce simp: find_from_def)

lemma parse_frame_determined:
  "parse_frame (pre @ rest) = Inr (f, rest) \<Longrightarrow> parse_frame (pre @ rest') = Inr (f, rest')"
proof (induction "pre @ rest" arbitrary: pre rule: parse_frame.induct)
  case 1
  let ?buf = "pre @ rest"
  from "1.prems" obtain s where s: "find_from FLAG ?buf 0 = Some s"
    by (auto simp: parse_frame.simps [of ?buf] split: option.splits)
  with "1.prems" obtain e where e: "find_from FLAG ?buf (s + 1) = Some e"
    by (auto simp: parse_frame.simps [of ?buf] split: option.splits)
  have se: "s < e" "e < length ?buf" using find_from_SomeD [OF e] by auto
  show ?case
  proof (cases "e = s + 1")
    case True
    with "1.prems" s e have d: "parse_frame (drop e ?buf) = Inr (f, rest)"
      by (simp add: parse_frame.simps [of ?buf])
    from hdlc_stream.shorter [OF this] se have le: "e < length pre" by simp
    then have dr: "drop e ?buf = drop e pre @ rest" "drop e (pre @ rest') = drop e pre @ rest'" by simp_all
    from "1.hyps" [OF s e True dr(1)] d dr have "parse_frame (drop e (pre @ rest')) = Inr (f, rest')" by simp
    with True find_from_cut [OF s] find_from_cut [OF e] le show ?thesis
      by (simp add: parse_frame.simps [of "pre @ rest'"])
  next
    case False
    with "1.prems" s e obtain raw where raw: "unescape (slice (s + 1) e ?buf) = Inr raw" "parse_raw raw = Inr f"
      and rest: "rest = drop (e + 1) ?buf"
      by (auto simp: parse_frame.simps [of ?buf] bindE_Inr_conv)
    from arg_cong [OF rest, of length] se have le: "e < length pre" "length pre = e + 1" by auto
    then have "slice (s + 1) e (pre @ rest') = slice (s + 1) e ?buf"
      using se by (simp add: slice_def)
    with False find_from_cut [OF s] find_from_cut [OF e] le raw se show ?thesis
      by (simp add: parse_frame.simps [of "pre @ rest'"])
  qed
qed

interpretation hdlc_prefix: prefix_parser parse_frame
  by unfold_locales (rule parse_frame_determined)

section \<open>Properties\<close>

text \<open>C18: a frame built by \<^verbatim>\<open>build_frame\<close> from two well-formed address fields is what
  \<^verbatim>\<open>parse_frame\<close> returns, whatever noise without an opening flag precedes it and whatever octets
  follow it: destination, source, control octet and information come back, and the octets after the
  frame are left in the buffer.\<close>

theorem frame_roundtrip:
  assumes "addr_field dst" and "addr_field sr"
    and "build_frame dst sr ctl info = Inr bs" and "FLAG \<notin> set noise"
  shows "parse_frame (noise @ bs @ rest)
    = Inr (\<lparr>dest = dst, src = sr, control = ctl mod 256, information = info, segmented = False\<rparr>, rest)"
  using assms by (rule parse_frame_build)

theorem frame_roundtrip_witness:
  "\<exists>bs. build_frame [0x03] [0x21] 0x93 [0x7E] = Inr bs \<and>
     parse_frame ([0x00] @ bs @ [0xAA]) =
       Inr (\<lparr>dest = [0x03], src = [0x21], control = 0x93, information = [0x7E], segmented = False\<rparr>, [0xAA])"
proof -
  have a: "addr_field [0x03]" "addr_field [0x21]" by (simp_all add: addr_field_def)
  have n: "FLAG \<notin> set [0x00]" by (simp add: FLAG_def)
  obtain bs where b: "build_frame [0x03] [0x21] 0x93 [0x7E] = Inr bs"
    by (simp add: build_frame_def LEN_MASK_def Let_def)
  show ?thesis using b frame_roundtrip [OF a b n, of "[0xAA]"] by simp
qed

text \<open>C21: a frame body that \<^verbatim>\<open>parse_frame\<close> accepts after unstuffing is rejected once any two
  neighbouring octets of it are changed, in any way: the check sequence catches every such burst.\<close>

theorem corrupt_frame_rejected:
  assumes "parse_raw (xs @ b1 # b2 # ys) = Inr f" and "(d1, d2) \<noteq> (b1, b2)"
  shows "\<exists>e. parse_raw (xs @ d1 # d2 # ys) = Inl e"
proof -
  have "fcs_ok (xs @ b1 # b2 # ys)"
    using assms(1) by (rule parse_raw_fcs)
  from fcs_burst [OF this assms(2)] show ?thesis by (rule parse_raw_corrupt)
qed

theorem corrupt_frame_rejected_witness:
  "\<exists>xs b ys e. raw_frame [0x03] [0x21] 0x93 [] = xs @ 0x03 # b # ys \<and>
     is_ok (parse_raw (xs @ 0x03 # b # ys)) \<and> parse_raw (xs @ 0x05 # b # ys) = Inl e"
proof -
  have a: "addr_field [0x03]" "addr_field [0x21]" by (simp_all add: addr_field_def)
  obtain f where f: "parse_raw (raw_frame [0x03] [0x21] 0x93 []) = Inr f"
    using parse_raw_frame [OF a, of "[]" "0x93"] by (simp add: frame_len_def LEN_MASK_def)
  obtain x y ys where r: "raw_frame [0x03] [0x21] 0x93 [] = [x, y] @ 0x03 # 0x21 # ys"
    by (simp add: raw_frame_def frame_body_def frame_head_def be16_def Let_def)
  obtain e where "parse_raw ([x, y] @ 0x05 # 0x21 # ys) = Inl e"
    using corrupt_frame_rejected [OF f [unfolded r], of "0x05" "0x21"] by auto
  with f r show ?thesis by (intro exI [of _ "[x, y]"]) (auto simp: is_ok_def)
qed

text \<open>\<^verbatim>\<open>encode_address\<close> succeeds exactly when the width is 1, 2 or 4 octets and the value
  fits in seven bits per octet, and raises \<^verbatim>\<open>HdlcError\<close> otherwise; the octets it returns are a
  well-formed address field of that width (only the last octet has the end bit) whose value is the
  one encoded.\<close>

lemma encode_address_correct:
  "(\<exists>bs. encode_address v w = Inr bs \<and> length bs = w \<and> addr_field bs \<and> addr_value bs = v)
     = (w \<in> {1, 2, 4} \<and> 0 \<le> v \<and> v < 128 ^ w)
   \<and> (\<exists>m. encode_address v w = Inl (HdlcError m)) = (\<not> (w \<in> {1, 2, 4} \<and> 0 \<le> v \<and> v < 128 ^ w))"
proof -
  have w: "encode_address v w = Inr bs \<Longrightarrow> w \<in> {1, 2, 4}" for bs
    by (auto simp: encode_address_def split: if_splits)
  have e: "encode_address v w = Inl x \<Longrightarrow> \<exists>m. x = HdlcError m" for x
    by (auto simp: encode_address_def Let_def split: if_splits prod.splits)
  note facts = encode_address_spec [of v w] encode_address_defined [of w v]
  have "(\<exists>bs. encode_address v w = Inr bs \<and> length bs = w \<and> addr_field bs \<and> addr_value bs = v)
     = (w \<in> {1, 2, 4} \<and> 0 \<le> v \<and> v < 128 ^ w)"
    using facts w by blast
  moreover have "(\<exists>m. encode_address v w = Inl (HdlcError m)) = (\<not> (w \<in> {1, 2, 4} \<and> 0 \<le> v \<and> v < 128 ^ w))"
    using facts w e by (metis sumE sum.distinct(1))
  ultimately show ?thesis by (rule conjI)
qed

end
