(* ===== verification/Wrapper.thy ===== *)
theory Wrapper
  imports Codec
begin

text \<open>
  The IEC 62056-47 TCP wrapper, \<^verbatim>\<open>opt/sa02m-spodes/sa02m_spodes/wrapper.py\<close>: eight header
  bytes (version, source and destination port, length) and the APDU.
\<close>

definition WRAPPER_VERSION :: int where "WRAPPER_VERSION = 1"

definition build_wrapper :: "bytes \<Rightarrow> int \<Rightarrow> int \<Rightarrow> int \<Rightarrow> bytes result" where
  "build_wrapper apdu source destination version =
     (if length apdu > 0xFFFF then Inl (WrapperError ''length'')
      else
        bindE (to_bytes 2 version) (\<lambda>v.
        bindE (to_bytes 2 (source AND 0xFFFF)) (\<lambda>s.
        bindE (to_bytes 2 (destination AND 0xFFFF)) (\<lambda>d.
        bindE (to_bytes 2 (int (length apdu))) (\<lambda>ln.
        Inr (v @ s @ d @ ln @ apdu))))))"

definition parse_wrapper :: "bytes \<Rightarrow> (bytes \<times> bytes) result" where
  "parse_wrapper buf =
     (if length buf < 8 then Inl (WrapperError ''short'')
      else let ln = nat (from_be (slice 6 8 buf)) in
        if length buf < 8 + ln then Inl (WrapperError ''short'')
        else Inr (slice 8 (8 + ln) buf, drop (8 + ln) buf))"

section \<open>Round trip\<close>

lemma int_and_ffff: "(n::int) AND 0xFFFF = n mod 0x10000"
  using take_bit_eq_mask [of 16 n] by (simp add: take_bit_eq_mod mask_numeral)

lemma build_wrapper_Inr:
  "build_wrapper apdu src dst v = Inr bs \<longleftrightarrow>
     length apdu \<le> 0xFFFF \<and> 0 \<le> v \<and> v < 0x10000 \<and>
     bs = be_bytes 2 v @ be_bytes 2 (src mod 0x10000) @ be_bytes 2 (dst mod 0x10000)
       @ be_bytes 2 (int (length apdu)) @ apdu"
  by (auto simp: build_wrapper_def bindE_Inr_conv to_bytes_Inr int_and_ffff)

lemma parse_wrapper_frame:
  assumes "length hdr = 6" and "length apdu \<le> 0xFFFF"
  shows "parse_wrapper (hdr @ be_bytes 2 (int (length apdu)) @ apdu @ rest) = Inr (apdu, rest)"
proof -
  have "from_be (be_bytes 2 (int (length apdu))) = int (length apdu)"
    using assms(2) by (simp add: from_be_be_bytes)
  with assms(1) show ?thesis by (simp add: parse_wrapper_def slice_def)
qed

lemma parse_build_wrapper:
  "build_wrapper apdu src dst v = Inr bs \<Longrightarrow> parse_wrapper (bs @ rest) = Inr (apdu, rest)"
  using parse_wrapper_frame [of "be_bytes 2 v @ be_bytes 2 (src mod 65536) @ be_bytes 2 (dst mod 65536)"
      apdu rest]
  by (auto simp: build_wrapper_Inr)

lemma parse_wrapper_Inr:
  assumes "parse_wrapper buf = Inr (apdu, rest)"
  shows "\<exists>hdr. length hdr = 6 \<and> length apdu \<le> 0xFFFF \<and>
           buf = hdr @ be_bytes 2 (int (length apdu)) @ apdu @ rest"
proof -
  define ln where "ln = nat (from_be (slice 6 8 buf))"
  from assms have len: "8 + ln \<le> length buf" and apdu: "apdu = slice 8 (8 + ln) buf"
    and rest: "rest = drop (8 + ln) buf"
    by (auto simp: parse_wrapper_def ln_def Let_def split: if_splits)
  have l2: "length (slice 6 8 buf) = 2" and la: "length apdu = ln"
    using len by (simp_all add: length_slice apdu)
  then have "ln \<le> 0xFFFF" and "be_bytes 2 (int ln) = slice 6 8 buf"
    using from_be_lt [of "slice 6 8 buf"] be_bytes_from_be [of "slice 6 8 buf"]
    by (auto simp: ln_def)
  moreover have "buf = take 6 buf @ slice 6 8 buf @ apdu @ rest"
  proof -
    have "slice 6 8 buf @ drop 8 buf = drop 6 buf"
      using append_take_drop_id [of 2 "drop 6 buf"] by (simp add: slice_def)
    moreover have "apdu @ rest = drop 8 buf"
      using append_take_drop_id [of ln "drop 8 buf"]
      by (simp add: slice_def apdu rest add.commute)
    ultimately show ?thesis by simp
  qed
  ultimately show ?thesis using la len by (intro exI [of _ "take 6 buf"]) simp
qed

interpretation wrapper_stream: stream_parser parse_wrapper
  by unfold_locales (auto dest!: parse_wrapper_Inr)

interpretation wrapper_prefix: prefix_parser parse_wrapper
proof unfold_locales
  fix pre rest rest' apdu
  assume "parse_wrapper (pre @ rest) = Inr (apdu, rest)"
  then obtain hdr where hdr: "length hdr = 6" "length apdu \<le> 0xFFFF"
    "pre @ rest = (hdr @ be_bytes 2 (int (length apdu)) @ apdu) @ rest"
    by (auto dest!: parse_wrapper_Inr)
  from hdr(3) have "pre = hdr @ be_bytes 2 (int (length apdu)) @ apdu" by (simp only: append_same_eq)
  with parse_wrapper_frame [OF hdr(1,2), of rest'] show "parse_wrapper (pre @ rest') = Inr (apdu, rest')"
    by simp
qed

interpretation wrapper_codec: codec "\<lambda>(a, src, dst, v). build_wrapper a src dst v" parse_wrapper
    fst "\<lambda>_. True"
  by unfold_locales (auto simp: parse_build_wrapper)

end
