(* ===== verification/Acse.thy ===== *)
theory Acse
  imports Codec
begin

text \<open>
  Association control, \<^verbatim>\<open>opt/sa02m-spodes/sa02m_spodes/acse.py\<close>: the BER tag-length-value
  form, the association request AARQ, and the loop that reads the association response AARE.
\<close>

section \<open>BER elements\<close>

definition ber_len :: "int \<Rightarrow> bytes" where
  "ber_len n =
     (if n < 0x80 then [word_of_int n]
      else if n < 0x100 then [0x81, word_of_int n]
      else [0x82, word_of_int (drop_bit 8 n AND 0xFF), word_of_int (n AND 0xFF)])"

definition tlv :: "byte \<Rightarrow> bytes \<Rightarrow> bytes" where
  "tlv tg content = tg # ber_len (int (length content)) @ content"

text \<open>The content length and the index after it, lines 84 to 91 of \<^verbatim>\<open>_take\<close>.\<close>

definition ber_head :: "bytes \<Rightarrow> (int \<times> nat) result" where
  "ber_head buf =
     (let n = uint (buf ! 1) in
      if n AND 0x80 \<noteq> 0 then
        let width = nat (n AND 0x7F) in
        if width = 0 \<or> length buf < 2 + width then Inl (AcseError ''length'')
        else Inr (from_be (slice 2 (2 + width) buf), 2 + width)
      else Inr (n, 2))"

definition ber_take :: "bytes \<Rightarrow> ((byte \<times> bytes) \<times> bytes) result" where
  "ber_take buf =
     (if length buf < 2 then Inl (AcseError ''truncated'')
      else bindE (ber_head buf) (\<lambda>(n, i).
        if int (length buf) < int i + n then Inl (AcseError ''truncated'')
        else Inr ((buf ! 0, slice i (i + nat n) buf), drop (i + nat n) buf)))"

section \<open>The association request\<close>

definition OID_LN :: bytes where "OID_LN = [0x60, 0x85, 0x74, 0x05, 0x08, 0x01, 0x01]"
definition OID_LN_CIPHER :: bytes where "OID_LN_CIPHER = [0x60, 0x85, 0x74, 0x05, 0x08, 0x01, 0x03]"
definition OID_LLS :: bytes where "OID_LLS = [0x60, 0x85, 0x74, 0x05, 0x08, 0x02, 0x01]"
definition CONFORMANCE :: int where "CONFORMANCE = 0x007E1F"

definition initiate_request :: "int \<Rightarrow> int \<Rightarrow> bytes result" where
  "initiate_request max_pdu conformance =
     bindE (to_bytes 3 conformance) (\<lambda>conf.
     bindE (to_bytes 2 max_pdu) (\<lambda>mp.
       Inr ([0x01, 0x00, 0x00, 0x00, 0x06, 0x5F, 0x1F, 0x04, 0x00] @ conf @ mp)))"

definition build_aarq :: "bool \<Rightarrow> bytes option \<Rightarrow> int \<Rightarrow> bytes result" where
  "build_aarq ciphered password max_pdu =
     (let oid = (if ciphered then OID_LN_CIPHER else OID_LN);
          parts = tlv 0xA1 (tlv 0x06 oid);
          auth = (case password of
              None \<Rightarrow> []
            | Some pw \<Rightarrow>
                if pw = [] then []
                else [0x8A, 0x02, 0x07, 0x80] @ ([0x8B, 0x07] @ OID_LLS) @ tlv 0xAC (tlv 0x80 pw))
      in bindE (initiate_request max_pdu CONFORMANCE) (\<lambda>ir.
           Inr (tlv 0x60 (parts @ auth @ tlv 0xBE (tlv 0x04 ir)))))"

section \<open>The association response\<close>

record aare =
  accepted :: bool
  result_code :: "byte option"
  diagnostic :: "string option"
  user_information :: bytes

definition aare0 :: aare where
  "aare0 = \<lparr>accepted = False, result_code = None, diagnostic = None, user_information = []\<rparr>"

text \<open>The body of the loop for one element.\<close>

definition aare_step :: "aare \<Rightarrow> byte \<Rightarrow> bytes \<Rightarrow> aare" where
  "aare_step a tg inner =
     (if tg = 0xA2 then
        (let r = (if inner \<noteq> [] \<and> inner ! 0 = 0x02 \<and> length inner \<ge> 3 then Some (inner ! 2)
                  else if inner \<noteq> [] then Some (last inner)
                  else result_code a)
         in a\<lparr>result_code := r, accepted := (r = Some 0)\<rparr>)
      else if tg = 0xA3 then a\<lparr>diagnostic := Some (hex_of inner)\<rparr>
      else if tg = 0xBE then a\<lparr>user_information := inner\<rparr>
      else a)"

lemma ber_head_Inr: "ber_head buf = Inr (n, i) \<Longrightarrow> 0 \<le> n \<and> 2 \<le> i"
  by (auto simp: ber_head_def Let_def split: if_splits)

lemma ber_take_parts:
  assumes "ber_take buf = Inr ((tg, content), rest)"
  obtains i n where "2 \<le> length buf" and "2 \<le> i" and "0 \<le> n" and "int i + n \<le> int (length buf)"
    and "tg = buf ! 0" and "content = slice i (i + nat n) buf" and "rest = drop (i + nat n) buf"
proof -
  from assms obtain n i where "ber_head buf = Inr (n, i)"
    by (auto simp: ber_take_def bindE_Inr_conv split: if_splits)
  with ber_head_Inr [OF this] assms that show ?thesis
    by (auto simp: ber_take_def split: if_splits)
qed

lemma ber_take_Inr:
  assumes "ber_take buf = Inr ((tg, content), rest)"
  shows "\<exists>hdr. buf = tg # hdr @ content @ rest \<and> hdr \<noteq> []"
proof -
  from assms obtain n i where len: "2 \<le> length buf" and i: "2 \<le> i"
    and n: "0 \<le> n" "int i + n \<le> int (length buf)" and tg: "tg = buf ! 0"
    and content: "content = slice i (i + nat n) buf" and rest: "rest = drop (i + nat n) buf"
    by (rule ber_take_parts)
  have "content @ rest = drop i buf"
    using append_take_drop_id [of "nat n" "drop i buf"]
    by (simp add: content rest slice_def add.commute)
  moreover obtain b q where buf: "buf = b # q" using len by (cases buf) auto
  ultimately have "buf = tg # take (i - 1) q @ content @ rest"
    using i append_take_drop_id [of "i - 1" q] by (cases i) (auto simp: tg)
  moreover have "take (i - 1) q \<noteq> []" using i len by (cases q) (auto simp: buf)
  ultimately show ?thesis by blast
qed

interpretation ber_stream: stream_parser ber_take
proof unfold_locales
  fix buf x and rest :: bytes
  assume "ber_take buf = Inr (x, rest)"
  then obtain hdr where "buf = (fst x # hdr @ snd x) @ rest"
    using ber_take_Inr [of buf "fst x" "snd x" rest] by (cases x) auto
  then show "\<exists>pre. buf = pre @ rest \<and> pre \<noteq> []" by blast
qed

function aare_loop :: "aare \<Rightarrow> bytes \<Rightarrow> aare result" where
  "aare_loop a buf =
     (if buf = [] then Inr a
      else (case ber_take buf of
          Inl e \<Rightarrow> Inl e
        | Inr ((tg, inner), rest) \<Rightarrow> aare_loop (aare_step a tg inner) rest))"
  by pat_completeness auto
termination
  by (relation "measure (\<lambda>(a, buf). length buf)") (auto dest: ber_stream.shorter)

declare aare_loop.simps [simp del]

definition parse_aare :: "bytes \<Rightarrow> aare result" where
  "parse_aare apdu =
     (if apdu = [] \<or> apdu ! 0 \<noteq> 0x61 then Inl (AcseError ''not an AARE'')
      else bindE (ber_take apdu) (\<lambda>((tg, content), rest). aare_loop aare0 content))"

section \<open>BER round trip\<close>

lemma ber_len_cases:
  assumes "0 \<le> n" and "n < 0x10000"
  shows "(n < 0x80 \<and> ber_len n = [word_of_int n]) \<or>
    (0x80 \<le> n \<and> n < 0x100 \<and> ber_len n = [0x81, word_of_int n]) \<or>
    (0x100 \<le> n \<and> ber_len n = 0x82 # be_bytes 2 n)"
  using assms
  by (auto simp: ber_len_def numeral_2_eq_2 word_of_int_and_255 drop_bit_eq_div)

lemma length_ber_len:
  "0 \<le> n \<Longrightarrow> n < 0x10000 \<Longrightarrow> length (ber_len n) = (if n < 0x80 then 1 else if n < 0x100 then 2 else 3)"
  by (simp add: ber_len_def)

lemma int_and_128:
  assumes "0 \<le> n" and "n < 128"
  shows "(n :: int) AND 128 = 0"
proof -
  have "take_bit 7 n = n" using assms by (simp add: take_bit_int_eq_self)
  then have "n AND 128 = take_bit 7 (n AND 128)" by (metis and.commute take_bit_and and.left_commute take_bit_eq_mask)
  also have "\<dots> = n AND take_bit 7 128" using \<open>take_bit 7 n = n\<close> by simp
  also have "\<dots> = 0" by (simp add: take_bit_eq_mod)
  finally show ?thesis .
qed

lemma ber_head_len:
  assumes "0 \<le> n" and "n < 0x10000"
  shows "ber_head (tg # ber_len n @ xs) = Inr (n, 1 + length (ber_len n))"
  using ber_len_cases [OF assms]
proof (elim disjE conjE)
  assume "n < 0x80" "ber_len n = [word_of_int n]"
  then show ?thesis using assms int_and_128 [of n]
    by (simp add: ber_head_def uint_word_of_int_byte)
next
  assume "0x80 \<le> n" "n < 0x100" "ber_len n = [0x81, word_of_int n]"
  then show ?thesis
    by (simp add: ber_head_def slice_def from_be_def uint_word_of_int_byte)
next
  assume "0x100 \<le> n" "ber_len n = 0x82 # be_bytes 2 n"
  moreover have "from_be (be_bytes 2 n) = n" using assms by (simp add: from_be_be_bytes)
  ultimately show ?thesis by (simp add: ber_head_def slice_def)
qed

lemma ber_take_tlv:
  assumes "length c < 0x10000"
  shows "ber_take (tlv tg c @ rest) = Inr ((tg, c), rest)"
proof -
  define hd where "hd = ber_len (int (length c))"
  have "ber_head (tg # hd @ c @ rest) = Inr (int (length c), 1 + length hd)"
    using ber_head_len [of "int (length c)"] assms by (simp add: hd_def)
  moreover have "1 \<le> length hd"
    using length_ber_len [of "int (length c)"] assms by (simp add: hd_def)
  ultimately show ?thesis
    by (cases hd) (simp_all add: ber_take_def tlv_def slice_def flip: hd_def)
qed

interpretation ber_codec: codec "\<lambda>(tg, c). Inr (tlv tg c)" ber_take "\<lambda>x. x"
    "\<lambda>(tg, c). length c < 0x10000"
  by unfold_locales (auto simp: ber_take_tlv)

section \<open>What is sent and what is accepted\<close>

text \<open>The loop folds \<open>aare_step\<close> over the elements of the content.\<close>

definition tlvs :: "(byte \<times> bytes) list \<Rightarrow> bytes" where
  "tlvs es = concat (map (\<lambda>e. tlv (fst e) (snd e)) es)"

definition short_tlvs :: "(byte \<times> bytes) list \<Rightarrow> bool" where
  "short_tlvs es = list_all (\<lambda>e. length (snd e) < 0x10000) es"

definition aare_fold :: "aare \<Rightarrow> (byte \<times> bytes) list \<Rightarrow> aare" where
  "aare_fold = foldl (\<lambda>a e. aare_step a (fst e) (snd e))"

lemma aare_loop_tlvs: "short_tlvs es \<Longrightarrow> aare_loop a (tlvs es) = Inr (aare_fold a es)"
proof (induction es arbitrary: a)
  case Nil
  then show ?case by (simp add: aare_loop.simps tlvs_def aare_fold_def)
next
  case (Cons e es)
  then have "ber_take (tlv (fst e) (snd e) @ tlvs es) = Inr (e, tlvs es)"
    by (simp add: ber_take_tlv short_tlvs_def)
  moreover have "tlv (fst e) (snd e) \<noteq> []" by (simp add: tlv_def)
  ultimately show ?case using Cons
    by (subst aare_loop.simps) (simp add: tlvs_def aare_fold_def short_tlvs_def split_beta)
qed

text \<open>Accepted always means that the last result element read was zero.\<close>

definition accept_inv :: "aare \<Rightarrow> bool" where
  "accept_inv a \<longleftrightarrow> accepted a = (result_code a = Some 0)"

lemma accept_inv_step: "accept_inv a \<Longrightarrow> accept_inv (aare_step a t c)"
  by (simp add: accept_inv_def aare_step_def Let_def)

lemma aare_loop_inv: "accept_inv a \<Longrightarrow> aare_loop a buf = Inr r \<Longrightarrow> accept_inv r"
proof (induction a buf arbitrary: r rule: aare_loop.induct)
  case (1 a buf)
  show ?case
  proof (cases "buf = []")
    case True
    with "1.prems" show ?thesis by (simp add: aare_loop.simps)
  next
    case False
    with "1.prems"(2) obtain t c rest where "ber_take buf = Inr ((t, c), rest)"
      "aare_loop (aare_step a t c) rest = Inr r"
      by (subst (asm) aare_loop.simps) (auto split: sum.splits)
    with "1.IH" False accept_inv_step "1.prems"(1) show ?thesis by blast
  qed
qed

lemma ber_take_error: "ber_take buf = Inl e \<Longrightarrow> \<exists>s. e = AcseError s"
  by (auto simp: ber_take_def ber_head_def Let_def split: if_splits)

lemma aare_loop_error: "aare_loop a buf = Inl e \<Longrightarrow> \<exists>s. e = AcseError s"
proof (induction a buf rule: aare_loop.induct)
  case (1 a buf)
  from "1.prems" have ne: "buf \<noteq> []" by (auto simp: aare_loop.simps)
  show ?case
  proof (cases "ber_take buf")
    case (Inl x)
    with ne "1.prems" have "e = x" by (simp add: aare_loop.simps)
    with Inl show ?thesis by (auto dest: ber_take_error)
  next
    case (Inr x)
    obtain t c rest where "x = ((t, c), rest)" by (metis surj_pair)
    with ne Inr "1.prems" "1.IH" show ?thesis
      by (simp add: aare_loop.simps [of a buf])
  qed
qed

lemma parse_aare_error: "parse_aare apdu = Inl e \<Longrightarrow> \<exists>s. e = AcseError s"
  by (auto simp: parse_aare_def split: if_splits)
    (cases "ber_take apdu"; auto dest: ber_take_error aare_loop_error)

lemma parse_aare_accepted:
  "parse_aare apdu = Inr a \<Longrightarrow> accepted a = (result_code a = Some 0)"
  using aare_loop_inv [of aare0]
  by (auto simp: parse_aare_def bindE_Inr_conv accept_inv_def aare0_def split: if_splits)

lemma parse_aare_tlvs:
  assumes "short_tlvs es" and "length (tlvs es) < 0x10000"
  shows "parse_aare (tlv 0x61 (tlvs es) @ rest) = Inr (aare_fold aare0 es)"
proof -
  have "tlv 0x61 (tlvs es) @ rest \<noteq> []" "(tlv 0x61 (tlvs es) @ rest) ! 0 = 0x61"
    by (simp_all add: tlv_def)
  with aare_loop_tlvs [OF assms(1), of aare0] ber_take_tlv [OF assms(2)] show ?thesis
    by (simp add: parse_aare_def)
qed

text \<open>The elements of an AARQ, as a server reads them.\<close>

definition aarq_elements :: "bool \<Rightarrow> bytes \<Rightarrow> bytes \<Rightarrow> (byte \<times> bytes) list" where
  "aarq_elements ciphered pw ir =
     [(0xA1, tlv 0x06 (if ciphered then OID_LN_CIPHER else OID_LN))] @
     (if pw = [] then [] else [(0x8A, [0x07, 0x80]), (0x8B, OID_LLS), (0xAC, tlv 0x80 pw)]) @
     [(0xBE, tlv 0x04 ir)]"

lemma build_aarq_elements:
  assumes "build_aarq ciphered password max_pdu = Inr bs"
  shows "\<exists>ir. initiate_request max_pdu CONFORMANCE = Inr ir \<and>
    bs = tlv 0x60 (tlvs (aarq_elements ciphered (case password of None \<Rightarrow> [] | Some pw \<Rightarrow> pw) ir))"
  using assms
  by (cases password)
    (auto simp: build_aarq_def Let_def bindE_Inr_conv aarq_elements_def tlvs_def tlv_def [of 138]
      tlv_def [of 139] ber_len_def OID_LLS_def)

lemma ber_times_tlvs:
  "short_tlvs es \<Longrightarrow> dec_times ber_take (length es) (tlvs es @ rest) = Inr (es, rest)"
  by (induction es) (auto simp: tlvs_def short_tlvs_def ber_take_tlv)

lemma initiate_request_ok:
  "0 \<le> m \<Longrightarrow> m < 0x10000 \<Longrightarrow>
   initiate_request m CONFORMANCE =
     Inr ([0x01, 0x00, 0x00, 0x00, 0x06, 0x5F, 0x1F, 0x04, 0x00, 0x00, 0x7E, 0x1F] @ be_bytes 2 m)"
  by (simp add: initiate_request_def to_bytes_def CONFORMANCE_def numeral_3_eq_3)

section \<open>Properties\<close>

text \<open>\<^verbatim>\<open>parse_aare\<close> raises only \<^verbatim>\<open>AcseError\<close>, and a parsed answer is accepted exactly
  when the last result element it carried was the code zero: an answer without a result is
  never accepted.\<close>

lemma aare_accepted_exactly:
  "case parse_aare apdu of
     Inl e \<Rightarrow> (\<exists>m. e = AcseError m)
   | Inr a \<Rightarrow> accepted a = (result_code a = Some 0)"
  using parse_aare_error [of apdu] parse_aare_accepted [of apdu] by (simp split: sum.splits)

text \<open>an AARE whose content is a list of elements of at most 65535 octets each is read as the
  fold of the element handler over that list, whatever follows the answer in the buffer.\<close>

lemma aare_elements_folded:
  assumes "short_tlvs es" and "length (tlvs es) < 0x10000"
  shows "parse_aare (tlv 0x61 (tlvs es) @ rest) = Inr (aare_fold aare0 es)"
  using assms by (rule parse_aare_tlvs)

lemma aare_elements_folded_witness:
  "parse_aare (tlv 0x61 (tlvs [(0xA2, [0x02, 0x01, 0x00])]) @ [7])
     = Inr (aare_fold aare0 [(0xA2, [0x02, 0x01, 0x00])])
   \<and> accepted (aare_fold aare0 [(0xA2, [0x02, 0x01, 0x00])])"
proof -
  have s: "short_tlvs [(0xA2, [0x02, 0x01, 0x00])]" "length (tlvs [(0xA2, [0x02, 0x01, 0x00])]) < 0x10000"
    by (simp_all add: short_tlvs_def tlvs_def tlv_def ber_len_def)
  have "accepted (aare_fold aare0 [(0xA2, [0x02, 0x01, 0x00])])"
    by (simp add: aare_fold_def aare_step_def aare0_def Let_def ber_take_def ber_head_def)
  with aare_elements_folded [OF s, of "[7]"] show ?thesis by simp
qed

text \<open>the AARQ that \<^verbatim>\<open>build_aarq\<close> sends consists of the application-context name, of the
  three authentication elements exactly when a non-empty password is given, and of the
  InitiateRequest, in this order and BER-coded.\<close>

lemma aarq_elements_sent:
  assumes "build_aarq ciphered password max_pdu = Inr bs"
  shows "\<exists>ir. initiate_request max_pdu CONFORMANCE = Inr ir \<and>
    bs = tlv 0x60 (tlvs (aarq_elements ciphered (case password of None \<Rightarrow> [] | Some pw \<Rightarrow> pw) ir))"
  using assms by (rule build_aarq_elements)

lemma aarq_elements_sent_witness:
  "\<exists>bs ir. build_aarq False (Some [0x31]) 0xFFFF = Inr bs \<and>
     bs = tlv 0x60 (tlvs (aarq_elements False [0x31] ir))"
proof -
  obtain bs where b: "build_aarq False (Some [0x31]) 0xFFFF = Inr bs"
    by (simp add: build_aarq_def initiate_request_ok Let_def)
  show ?thesis using b aarq_elements_sent [OF b] by auto
qed

end
