(* ===== verification/Xdlms.thy ===== *)
theory Xdlms
  imports Axdr
begin

text \<open>
  xDLMS services, \<^verbatim>\<open>opt/sa02m-spodes/sa02m_spodes/xdlms.py\<close>: the GET, SET and ACTION
  requests by logical name, the reading of their responses with the access errors, and the
  joining of a block transfer.
\<close>

section \<open>Requests\<close>

definition GET_REQUEST :: byte where "GET_REQUEST = 0xC0"
definition SET_REQUEST :: byte where "SET_REQUEST = 0xC1"
definition ACTION_REQUEST :: byte where "ACTION_REQUEST = 0xC3"
definition GET_RESPONSE :: byte where "GET_RESPONSE = 0xC4"
definition SET_RESPONSE :: byte where "SET_RESPONSE = 0xC5"
definition ACTION_RESPONSE :: byte where "ACTION_RESPONSE = 0xC7"
definition EXCEPTION_RESPONSE :: byte where "EXCEPTION_RESPONSE = 0xD8"

lemmas xdlms_tags [py_eval] = GET_REQUEST_def SET_REQUEST_def ACTION_REQUEST_def GET_RESPONSE_def
  SET_RESPONSE_def ACTION_RESPONSE_def EXCEPTION_RESPONSE_def

definition invoke_byte :: "int \<Rightarrow> byte" where
  "invoke_byte invoke_id = word_of_int (0xC0 OR (invoke_id AND 0x0F))"

definition encode_get :: "int \<Rightarrow> bytes \<Rightarrow> int \<Rightarrow> int \<Rightarrow> bytes option \<Rightarrow> bytes result" where
  "encode_get class_id obis attribute invoke_id access =
     (if length obis \<noteq> 6 then Inl (XdlmsError ''obis'')
      else bindE (to_bytes 2 class_id) (\<lambda>c.
        Inr ([GET_REQUEST, 0x01, invoke_byte invoke_id] @ c @ obis @ [word_of_int (attribute AND 0xFF)] @
          (case access of
             None \<Rightarrow> [0x00]
           | Some a \<Rightarrow> if a = [] then [0x00] else 0x01 # a))))"

definition encode_get_next :: "int \<Rightarrow> int \<Rightarrow> bytes result" where
  "encode_get_next block_number invoke_id =
     bindE (to_bytes 4 block_number) (\<lambda>n. Inr ([GET_REQUEST, 0x02, invoke_byte invoke_id] @ n))"

definition encode_set :: "int \<Rightarrow> bytes \<Rightarrow> int \<Rightarrow> cosem \<Rightarrow> int \<Rightarrow> bytes result" where
  "encode_set class_id obis attribute value invoke_id =
     (if length obis \<noteq> 6 then Inl (XdlmsError ''obis'')
      else bindE (to_bytes 2 class_id) (\<lambda>c.
        bindE (encode value) (\<lambda>v.
        Inr ([SET_REQUEST, 0x01, invoke_byte invoke_id] @ c @ obis @
          [word_of_int (attribute AND 0xFF), 0x00] @ v))))"

definition encode_action :: "int \<Rightarrow> bytes \<Rightarrow> int \<Rightarrow> cosem option \<Rightarrow> int \<Rightarrow> bytes result" where
  "encode_action class_id obis method_id param invoke_id =
     (if length obis \<noteq> 6 then Inl (XdlmsError ''obis'')
      else bindE (to_bytes 2 class_id) (\<lambda>c.
        let apdu = [ACTION_REQUEST, 0x01, invoke_byte invoke_id] @ c @ obis @
          [word_of_int (method_id AND 0xFF)] in
        (case param of
           None \<Rightarrow> Inr (apdu @ [0x00])
         | Some p \<Rightarrow> bindE (encode p) (\<lambda>v. Inr (apdu @ [0x01] @ v)))))"

section \<open>Responses\<close>

definition raw_block :: "bytes \<Rightarrow> bytes result" where
  "raw_block buf =
     (if buf = [] then Inl (XdlmsError ''block'')
      else if buf ! 0 \<noteq> 0x00 then
        Inl (CosemAccessError (uint (if length buf > 1 then buf ! 1 else buf ! 0)))
      else bindE (dec_len (drop 1 buf)) (\<lambda>(ln, rest).
        if int (length rest) < ln then Inl (XdlmsError ''block length'')
        else Inr (take (nat ln) rest)))"

datatype get_reply = GetData cosem | GetBlock (last_block: bool) (block_number: int) (raw: bytes)

text \<open>\<^verbatim>\<open>except AxdrError: raise XdlmsError("axdr")\<close>, and the check for trailing bytes.\<close>

definition decode_whole :: "bytes \<Rightarrow> cosem result" where
  "decode_whole buf =
     (case decode buf of
        Inl (AxdrError _) \<Rightarrow> Inl (XdlmsError ''axdr'')
      | Inl e \<Rightarrow> Inl e
      | Inr (d, rest) \<Rightarrow> if rest \<noteq> [] then Inl (XdlmsError ''trailing'') else Inr d)"

definition parse_get_response :: "bytes \<Rightarrow> get_reply result" where
  "parse_get_response apdu =
     (if apdu = [] \<or> apdu ! 0 \<noteq> GET_RESPONSE then Inl (XdlmsError ''not a get-response'')
      else let kind = (if length apdu > 1 then uint (apdu ! 1) else -1) in
        if kind = 0x01 then
          if length apdu < 5 then Inl (XdlmsError ''get-response-normal'')
          else if apdu ! 3 \<noteq> 0x00 then
            Inl (CosemAccessError (uint (if length apdu > 4 then apdu ! 4 else apdu ! 3)))
          else bindE (decode_whole (drop 4 apdu)) (\<lambda>d. Inr (GetData d))
        else if kind = 0x02 then
          if length apdu < 9 then Inl (XdlmsError ''get-response-block'')
          else bindE (raw_block (drop 8 apdu)) (\<lambda>r.
            Inr (GetBlock (apdu ! 3 \<noteq> 0) (from_be (slice 4 8 apdu)) r))
        else Inl (XdlmsError ''get-response kind''))"

definition parse_set_response :: "bytes \<Rightarrow> unit result" where
  "parse_set_response apdu =
     (if apdu = [] \<or> apdu ! 0 \<noteq> SET_RESPONSE \<or> length apdu < 4
      then Inl (XdlmsError ''not a set-response'')
      else if apdu ! 1 = 0x01 \<and> apdu ! 3 \<noteq> 0x00 then Inl (CosemAccessError (uint (apdu ! 3)))
      else if apdu ! 1 \<noteq> 0x01 then Inl (XdlmsError ''set-response kind'')
      else Inr ())"

definition parse_action_response :: "bytes \<Rightarrow> cosem option result" where
  "parse_action_response apdu =
     (if apdu = [] \<or> apdu ! 0 \<noteq> ACTION_RESPONSE \<or> length apdu < 4
      then Inl (XdlmsError ''not an action-response'')
      else if apdu ! 1 \<noteq> 0x01 then Inl (XdlmsError ''action-response kind'')
      else if apdu ! 3 \<noteq> 0x00 then Inl (CosemAccessError (uint (apdu ! 3)))
      else if length apdu \<ge> 6 \<and> apdu ! 4 = 0x01 then
        bindE (decode (drop 5 apdu)) (\<lambda>(d, _). Inr (Some d))
      else Inr None)"

definition decode_block_value :: "bytes list \<Rightarrow> cosem result" where
  "decode_block_value chunks = decode_whole (concat chunks)"

section \<open>Responses of a correct server\<close>

lemma decode_whole_encode:
  "wf_cosem d \<Longrightarrow> encode d = Inr bs \<Longrightarrow> decode_whole bs = Inr d"
  using axdr_codec.roundtrip_all [of d bs] by (simp add: decode_whole_def)

lemma decode_whole_Inr: "decode_whole buf = Inr d \<longleftrightarrow> decode buf = Inr (d, [])"
  by (auto simp: decode_whole_def split: sum.splits exn.splits if_splits)

lemma decode_whole_Inl: "decode_whole buf = Inl e \<Longrightarrow> e = XdlmsError ''axdr'' \<or> e = XdlmsError ''trailing''"
  using decode_error [of buf]
  by (auto simp: decode_whole_def split: sum.splits exn.splits if_splits prod.splits)

definition normal_response :: "byte \<Rightarrow> bytes \<Rightarrow> bytes" where
  "normal_response iv value = [GET_RESPONSE, 0x01, iv, 0x00] @ value"

definition block_response :: "byte \<Rightarrow> bool \<Rightarrow> int \<Rightarrow> bytes \<Rightarrow> bytes \<Rightarrow> bytes" where
  "block_response iv fin n ln chunk =
     [GET_RESPONSE, 0x02, iv, if fin then 1 else 0] @ be_bytes 4 n @ [0x00] @ ln @ chunk"

lemma encode_nonempty: "encode d = Inr bs \<Longrightarrow> bs \<noteq> []"
  by (cases d)
    (auto simp: bindE_Inr_conv enc_fixed_def split: if_splits pyval.splits)

lemma parse_normal_response:
  assumes "wf_cosem d" and "encode d = Inr bs"
  shows "parse_get_response (normal_response iv bs) = Inr (GetData d)"
  using decode_whole_encode [OF assms] encode_nonempty [OF assms(2)]
  by (cases bs) (simp_all add: parse_get_response_def normal_response_def xdlms_tags)

lemma parse_block_response:
  assumes "enc_len (int (length chunk)) = Inr ln" and "0 \<le> n" and "n < 256 ^ 4"
  shows "parse_get_response (block_response iv fin n ln chunk @ rest) = Inr (GetBlock fin n chunk)"
proof -
  have "raw_block (0 # ln @ chunk @ rest) = Inr chunk"
    using dec_len_enc_len [OF assms(1)] by (simp add: raw_block_def)
  moreover have "from_be (be_bytes 4 n) = n" using assms(2,3) by (simp add: from_be_be_bytes)
  moreover have "ln \<noteq> []" using assms(1) by (auto simp: enc_len_def split: if_splits)
  ultimately show ?thesis
    by (cases ln) (simp_all add: parse_get_response_def block_response_def xdlms_tags slice_def)
qed

text \<open>A value cut into blocks anywhere is read back whole.\<close>

lemma decode_blocks:
  "wf_cosem d \<Longrightarrow> encode d = Inr (concat chunks) \<Longrightarrow> decode_block_value chunks = Inr d"
  by (simp add: decode_block_value_def decode_whole_encode)

section \<open>Errors\<close>

text \<open>The exceptions a response parser raises: the two the callers handle, and \<open>AxdrError\<close>.\<close>

fun is_xdlms :: "exn \<Rightarrow> bool" where
  "is_xdlms (XdlmsError _) = True" | "is_xdlms (CosemAccessError _) = True" | "is_xdlms _ = False"

lemma parse_get_response_normal_error:
  "parse_get_response apdu = Inl e \<Longrightarrow> uint (apdu ! 1) \<noteq> 2 \<Longrightarrow> is_xdlms e"
  by (auto simp: parse_get_response_def Let_def bindE_Inl_conv split: if_splits
      dest: decode_whole_Inl)

lemma raw_block_error: "raw_block buf = Inl e \<Longrightarrow> is_xdlms e \<or> e = AxdrError ''length''"
  by (auto simp: raw_block_def bindE_Inl_conv split: if_splits dest: dec_len_Inl)

lemma parse_get_response_error:
  "parse_get_response apdu = Inl e \<Longrightarrow> is_xdlms e \<or> e = AxdrError ''length''"
  by (auto simp: parse_get_response_def Let_def bindE_Inl_conv split: if_splits
      dest: decode_whole_Inl raw_block_error)

text \<open>The block branch does let \<open>AxdrError\<close> through, on a block cut before its length.\<close>

lemma parse_get_response_leak:
  "parse_get_response [GET_RESPONSE, 2, 0xC1, 0, 0, 0, 0, 1, 0] = Inl (AxdrError ''length'')"
  by (simp add: parse_get_response_def raw_block_def dec_len_def)

lemma access_error_normal:
  "length apdu \<ge> 5 \<Longrightarrow> apdu ! 0 = GET_RESPONSE \<Longrightarrow> apdu ! 1 = 0x01 \<Longrightarrow> apdu ! 3 \<noteq> 0 \<Longrightarrow>
    parse_get_response apdu = Inl (CosemAccessError (uint (apdu ! 4)))"
  by (cases apdu) (auto simp: parse_get_response_def)

lemma parse_set_response_ok:
  "parse_set_response apdu = Inr () \<longleftrightarrow>
     length apdu \<ge> 4 \<and> apdu ! 0 = SET_RESPONSE \<and> apdu ! 1 = 1 \<and> apdu ! 3 = 0"
  by (cases apdu) (auto simp: parse_set_response_def)

section \<open>Properties\<close>

text \<open>a value sent in data blocks, cut anywhere, is read back whole: every block answer is
  parsed into its number, its last-block flag and its raw octets, and the concatenation of the raw
  octets decodes to the value.\<close>

lemma blocks_roundtrip:
  assumes "wf_cosem d" and "encode d = Inr (concat chunks)"
    and "\<forall>chunk \<in> set chunks. length chunk < 0x10000" and "0 \<le> n" and "n < 256 ^ 4"
  shows "decode_block_value chunks = Inr d \<and>
    (\<forall>chunk \<in> set chunks. \<forall>iv fin rest. \<exists>ln. enc_len (int (length chunk)) = Inr ln \<and>
       parse_get_response (block_response iv fin n ln chunk @ rest) = Inr (GetBlock fin n chunk))"
proof (intro conjI ballI allI)
  show "decode_block_value chunks = Inr d" using assms(1,2) by (rule decode_blocks)
next
  fix chunk iv fin rest assume "chunk \<in> set chunks"
  then have "length chunk < 0x10000" using assms(3) by blast
  then have "is_ok (enc_len (int (length chunk)))" by (intro enc_len_ok) simp_all
  then obtain ln where "enc_len (int (length chunk)) = Inr ln" by (auto simp: is_ok_ex)
  with parse_block_response [OF this assms(4,5)]
  show "\<exists>ln. enc_len (int (length chunk)) = Inr ln \<and>
      parse_get_response (block_response iv fin n ln chunk @ rest) = Inr (GetBlock fin n chunk)" by blast
qed

lemma blocks_roundtrip_witness:
  "decode_block_value [[0x12], [0x01], [0xF4]] = Inr (ax_u16 500)"
proof -
  have wf: "wf_cosem (ax_u16 500)"
    by (simp add: ax_u16_def wf_cosem.simps tag_defs VInt_in_def is_VInt_def)
  have e: "encode (ax_u16 500) = Inr (concat [[0x12], [0x01], [0xF4]])"
    by (simp add: ax_u16_def tag_defs enc_fixed_def to_bytes_def be_bytes_2)
  show ?thesis using blocks_roundtrip [OF wf e, of 1] by simp
qed

text \<open>\<^verbatim>\<open>parse_get_response\<close> raises \<^verbatim>\<open>XdlmsError\<close> or \<^verbatim>\<open>CosemAccessError\<close>, except that a
  block answer cut before its length octet lets \<^verbatim>\<open>AxdrError\<close> through: a nine-octet answer does.\<close>

lemma get_response_errors:
  "(case parse_get_response apdu of
     Inl e \<Rightarrow> is_xdlms e \<or> e = AxdrError ''length'' | Inr _ \<Rightarrow> True) \<and>
   parse_get_response [GET_RESPONSE, 2, 0xC1, 0, 0, 0, 0, 1, 0] = Inl (AxdrError ''length'')"
  using parse_get_response_error [of apdu] parse_get_response_leak by (simp split: sum.splits)

end
