(* ===== verification/Session.thy ===== *)
theory Session
  imports Hdlc Wrapper Acse Xdlms Security Effect
begin

text \<open>
  The DLMS client session, \<^verbatim>\<open>opt/sa02m-spodes/sa02m_spodes/session.py\<close>: link set-up,
  association, and the GET, SET and ACTION services over HDLC or the TCP wrapper.

  The object is the record \<open>session\<close>; its transport is the parameter \<open>xchg\<close>, a function from
  a frame, a time limit and the world behind the transport to the reply or the exception, and
  the new world.  Time limits are only handed on to the transport.  The block loop of \<open>get\<close>
  runs as long as the meter says that more blocks follow: it carries fuel, and \<open>None\<close> is a
  call that has not returned.
\<close>

section \<open>The session object\<close>

datatype link_state = Idle | Hdlc_up | Associated | Released

datatype link_mode = Hdlc_mode | Wrapper_mode

record 'w session =
  s_client_sap :: int
  s_logical :: int
  s_physical :: int
  s_timeout :: int
  s_ciphered :: bool
  s_password :: "bytes option"
  s_security :: "security option"
  s_mode :: link_mode
  s_state :: link_state
  s_ns :: int
  s_nr :: int
  s_invoke :: int
  s_snrm_sent :: nat
  s_server :: bytes
  s_client :: bytes
  s_world :: 'w

type_synonym 'w transport = "bytes \<Rightarrow> int \<Rightarrow> 'w \<Rightarrow> bytes result \<times> 'w"

definition new_session ::
  "'w \<Rightarrow> int \<Rightarrow> int \<Rightarrow> int \<Rightarrow> int \<Rightarrow> bool \<Rightarrow> bytes option \<Rightarrow> security option \<Rightarrow> link_mode
     \<Rightarrow> 'w session result" where
  "new_session w client_sap logical physical timeout_s ciphered password sec mode =
     bindE (server_address logical physical) (\<lambda>srv.
     bindE (client_address client_sap) (\<lambda>cl.
     Inr \<lparr>s_client_sap = client_sap, s_logical = logical, s_physical = physical,
          s_timeout = timeout_s, s_ciphered = ciphered,
          s_password = (if password = Some [] then None else password), s_security = sec,
          s_mode = mode, s_state = Idle, s_ns = 0, s_nr = 0, s_invoke = 1, s_snrm_sent = 0,
          s_server = srv, s_client = cl, s_world = w\<rparr>))"

section \<open>The exception classes the handlers name\<close>

fun is_hdlc_error :: "exn \<Rightarrow> bool" where
  "is_hdlc_error (HdlcError _) = True" | "is_hdlc_error (IncompleteFrame _) = True"
| "is_hdlc_error _ = False"

fun is_os_error :: "exn \<Rightarrow> bool" where
  "is_os_error (OSError _) = True" | "is_os_error (TimeoutError _) = True"
| "is_os_error (PermissionError _) = True" | "is_os_error BlockingIOError = True"
| "is_os_error _ = False"

fun is_wrapper_error :: "exn \<Rightarrow> bool" where
  "is_wrapper_error (WrapperError _) = True" | "is_wrapper_error _ = False"

fun is_acse_error :: "exn \<Rightarrow> bool" where
  "is_acse_error (AcseError _) = True" | "is_acse_error _ = False"

fun is_security_error :: "exn \<Rightarrow> bool" where
  "is_security_error (SecurityError _) = True" | "is_security_error _ = False"

section \<open>Framing one exchange\<close>

definition exchange :: "'w transport \<Rightarrow> bytes \<Rightarrow> int \<Rightarrow> ('w session, bytes) proc" where
  "exchange xchg frm limit =
     (\<lambda>s. let (r, w) = xchg frm limit (s_world s) in (r, s\<lparr>s_world := w\<rparr>))"

definition one_frame :: "bytes \<Rightarrow> frame result" where
  "one_frame buf =
     (case parse_frame buf of
        Inl (IncompleteFrame _) \<Rightarrow> Inl (SessionError ''incomplete'')
      | Inl (HdlcError _) \<Rightarrow> Inl (SessionError ''hdlc'')
      | Inl e \<Rightarrow> Inl e
      | Inr (f, _) \<Rightarrow> Inr f)"

definition expect_control :: "bytes \<Rightarrow> int \<Rightarrow> frame result" where
  "expect_control buf ctl =
     bindE (one_frame buf) (\<lambda>f.
       if control f \<noteq> ctl then Inl (SessionError (''control 0x'' @ hex_upper (control f))) else Inr f)"

definition hdlc_data :: "'w transport \<Rightarrow> bytes \<Rightarrow> int \<Rightarrow> ('w session, bytes) proc" where
  "hdlc_data xchg apdu limit =
     bindM (getM s_mode) (\<lambda>mode.
     if mode = Wrapper_mode then
       bindM (getM (\<lambda>s. build_wrapper apdu (s_client_sap s) (s_physical s) WRAPPER_VERSION)) (\<lambda>b.
       bindM (liftM b) (\<lambda>frm.
       convertM (\<lambda>e. is_wrapper_error e \<or> is_os_error e) (SessionError ''wrapper'')
         (bindM (exchange xchg frm limit) (\<lambda>reply.
          bindM (liftM (parse_wrapper reply)) (\<lambda>(payload, _). retM payload)))))
     else
       bindM (getM (\<lambda>s. build_frame (s_server s) (s_client s) (i_control (s_ns s) (s_nr s) 1)
                          (LLC_REQUEST @ apdu))) (\<lambda>b.
       bindM (liftM b) (\<lambda>frm.
       bindM (exchange xchg frm limit) (\<lambda>reply.
       bindM (liftM (one_frame reply)) (\<lambda>f.
       if \<not> is_i_frame (control f) then raiseM (SessionError ''expected I-frame'')
       else bindM (modM (\<lambda>s. s\<lparr>s_ns := (s_ns s + 1) AND 7\<rparr>)) (\<lambda>_.
            bindM (modM (\<lambda>s. s\<lparr>s_nr := (ns_of (control f) + 1) AND 7\<rparr>)) (\<lambda>_.
            retM (frame_apdu f))))))))"

section \<open>Association and release\<close>

definition snrm :: "'w transport \<Rightarrow> ('w session, unit) proc" where
  "snrm xchg =
     bindM (getM (\<lambda>s. build_frame (s_server s) (s_client s) SNRM [])) (\<lambda>b.
     bindM (liftM b) (\<lambda>frm.
     bindM (modM (\<lambda>s. s\<lparr>s_snrm_sent := s_snrm_sent s + 1\<rparr>)) (\<lambda>_.
     bindM (getM s_timeout) (\<lambda>t.
     bindM (exchange xchg frm t) (\<lambda>reply.
     bindM (liftM (expect_control reply UA)) (\<lambda>_.
     modM (\<lambda>s. s\<lparr>s_ns := 0, s_nr := 0, s_state := Hdlc_up\<rparr>)))))))"

definition aarq :: "'w transport \<Rightarrow> ('w session, unit) proc" where
  "aarq xchg =
     bindM (getM (\<lambda>s. build_aarq (s_ciphered s) (s_password s) 0xFFFF)) (\<lambda>b.
     bindM (liftM b) (\<lambda>apdu.
     bindM (getM s_timeout) (\<lambda>t.
     bindM (convertM (\<lambda>e. is_hdlc_error e \<or> is_os_error e) (SessionError ''aarq'')
              (hdlc_data xchg apdu t)) (\<lambda>reply.
     bindM (convertM is_acse_error (SessionError ''aare'') (liftM (parse_aare reply))) (\<lambda>a.
     if \<not> accepted a then
       bindM (modM (\<lambda>s. s\<lparr>s_state := Hdlc_up\<rparr>)) (\<lambda>_. raiseM (SessionError ''aare rejected''))
     else modM (\<lambda>s. s\<lparr>s_state := Associated\<rparr>))))))"

definition associate :: "'w transport \<Rightarrow> ('w session, unit) proc" where
  "associate xchg =
     bindM (getM (\<lambda>s. (s_state s, s_mode s))) (\<lambda>(st, mode).
     if st = Associated then retM ()
     else if mode = Wrapper_mode then
       bindM (if st = Idle \<or> st = Released then modM (\<lambda>s. s\<lparr>s_state := Hdlc_up\<rparr>) else retM ())
         (\<lambda>_. aarq xchg)
     else bindM (if st = Idle \<or> st = Released then snrm xchg else retM ()) (\<lambda>_. aarq xchg))"

definition release :: "'w transport \<Rightarrow> ('w session, unit) proc" where
  "release xchg =
     bindM (getM (\<lambda>s. (s_state s, s_mode s))) (\<lambda>(st, mode).
     if st = Idle then retM ()
     else bindM
       (if mode = Wrapper_mode then retM ()
        else catchM
          (bindM (getM (\<lambda>s. build_frame (s_server s) (s_client s) DISC [])) (\<lambda>b.
           bindM (liftM b) (\<lambda>frm.
           bindM (getM s_timeout) (\<lambda>t.
           bindM (exchange xchg frm t) (\<lambda>_. retM ())))))
          (\<lambda>_. retM ()))
       (\<lambda>_. modM (\<lambda>s. s\<lparr>s_state := Released, s_ns := 0, s_nr := 0\<rparr>)))"

section \<open>Services\<close>

definition next_invoke :: "('w session, int) proc" where
  "next_invoke =
     (\<lambda>s. (Inr (s_invoke s), s\<lparr>s_invoke := (if s_invoke s \<ge> 15 then 1 else s_invoke s + 1)\<rparr>))"

definition protect_request :: "sealer \<Rightarrow> bytes \<Rightarrow> ('w session, bytes) proc" where
  "protect_request seal apdu =
     (\<lambda>s. case s_security s of
            None \<Rightarrow> (Inr apdu, s)
          | Some c \<Rightarrow> let (r, c') = protect_apdu seal c apdu in (r, s\<lparr>s_security := Some c'\<rparr>))"

definition unprotect_reply :: "sealer \<Rightarrow> bytes \<Rightarrow> ('w session, bytes) proc" where
  "unprotect_reply seal reply =
     bindM (getM s_security) (\<lambda>sec.
     case sec of
       None \<Rightarrow> retM reply
     | Some c \<Rightarrow>
         catchM (liftM (unprotect_apdu seal c reply)) (\<lambda>e.
           if is_security_error e then bindM (modM (\<lambda>s. s\<lparr>s_state := Hdlc_up\<rparr>)) (\<lambda>_. raiseM e)
           else raiseM e))"

definition xdlms :: "'w transport \<Rightarrow> sealer \<Rightarrow> bytes \<Rightarrow> int option \<Rightarrow> ('w session, bytes) proc" where
  "xdlms xchg seal apdu timeout_s =
     bindM (getM (\<lambda>s. case timeout_s of None \<Rightarrow> s_timeout s | Some t \<Rightarrow> t)) (\<lambda>limit.
     bindM (protect_request seal apdu) (\<lambda>wire.
     bindM (convertM (\<lambda>e. is_hdlc_error e \<or> is_os_error e) (SessionError ''xdlms'')
              (hdlc_data xchg wire limit)) (\<lambda>reply.
     bindM (unprotect_reply seal reply) (\<lambda>plain.
     if plain \<noteq> [] \<and> plain ! 0 = EXCEPTION_RESPONSE then raiseM (SessionError ''exception-response'')
     else retM plain))))"

definition require_associated :: "('w session, unit) proc" where
  "require_associated =
     bindM (getM s_state) (\<lambda>st.
       if st \<noteq> Associated then raiseM (SessionError ''not associated'') else retM ())"

text \<open>One request for the next block, with the reply it brings.\<close>

definition get_next :: "'w transport \<Rightarrow> sealer \<Rightarrow> int option \<Rightarrow> int \<Rightarrow> ('w session, get_reply) proc" where
  "get_next xchg seal timeout_s number =
     bindM next_invoke (\<lambda>inv_id.
     bindM (liftM (encode_get_next number inv_id)) (\<lambda>nxt.
     bindM (xdlms xchg seal nxt timeout_s) (\<lambda>reply.
     liftM (parse_get_response reply))))"

fun get_blocks :: "'w transport \<Rightarrow> sealer \<Rightarrow> int option \<Rightarrow> nat \<Rightarrow> bytes list \<Rightarrow> int \<Rightarrow> bool
    \<Rightarrow> 'w session \<Rightarrow> (cosem result \<times> 'w session) option" where
  "get_blocks xchg seal t fuel chunks number True s = Some (decode_block_value chunks, s)"
| "get_blocks xchg seal t 0 chunks number False s = None"
| "get_blocks xchg seal t (Suc fuel) chunks number False s =
     (case get_next xchg seal t number s of
        (Inl e, s') \<Rightarrow> Some (Inl e, s')
      | (Inr (GetData d), s') \<Rightarrow> Some (Inr d, s')
      | (Inr (GetBlock last_b n raw_b), s') \<Rightarrow>
          get_blocks xchg seal t fuel (chunks @ [raw_b]) n last_b s')"

definition get_first :: "'w transport \<Rightarrow> sealer \<Rightarrow> int \<Rightarrow> bytes \<Rightarrow> int \<Rightarrow> bytes option \<Rightarrow> int option
    \<Rightarrow> ('w session, get_reply) proc" where
  "get_first xchg seal class_id obis attribute access timeout_s =
     bindM require_associated (\<lambda>_.
     bindM next_invoke (\<lambda>inv_id.
     bindM (liftM (encode_get class_id obis attribute inv_id access)) (\<lambda>apdu.
     bindM (xdlms xchg seal apdu timeout_s) (\<lambda>reply.
     liftM (parse_get_response reply)))))"

definition session_get :: "'w transport \<Rightarrow> sealer \<Rightarrow> nat \<Rightarrow> int \<Rightarrow> bytes \<Rightarrow> int \<Rightarrow> bytes option
    \<Rightarrow> int option \<Rightarrow> 'w session \<Rightarrow> (cosem result \<times> 'w session) option" where
  "session_get xchg seal fuel class_id obis attribute access timeout_s s =
     (case get_first xchg seal class_id obis attribute access timeout_s s of
        (Inl e, s') \<Rightarrow> Some (Inl e, s')
      | (Inr (GetData d), s') \<Rightarrow> Some (Inr d, s')
      | (Inr (GetBlock last_b n raw_b), s') \<Rightarrow>
          get_blocks xchg seal timeout_s fuel [raw_b] n last_b s')"

definition session_set :: "'w transport \<Rightarrow> sealer \<Rightarrow> int \<Rightarrow> bytes \<Rightarrow> int \<Rightarrow> cosem \<Rightarrow> int option
    \<Rightarrow> ('w session, unit) proc" where
  "session_set xchg seal class_id obis attribute value timeout_s =
     bindM require_associated (\<lambda>_.
     bindM next_invoke (\<lambda>inv_id.
     bindM (liftM (encode_set class_id obis attribute value inv_id)) (\<lambda>apdu.
     bindM (xdlms xchg seal apdu timeout_s) (\<lambda>reply.
     liftM (parse_set_response reply)))))"

definition session_action :: "'w transport \<Rightarrow> sealer \<Rightarrow> int \<Rightarrow> bytes \<Rightarrow> int \<Rightarrow> cosem option \<Rightarrow> int option
    \<Rightarrow> ('w session, cosem option) proc" where
  "session_action xchg seal class_id obis method_id param timeout_s =
     bindM require_associated (\<lambda>_.
     bindM next_invoke (\<lambda>inv_id.
     bindM (liftM (encode_action class_id obis method_id param inv_id)) (\<lambda>apdu.
     bindM (xdlms xchg seal apdu timeout_s) (\<lambda>reply.
     liftM (parse_action_response reply)))))"

section \<open>The session invariant\<close>

definition session_inv :: "'w session \<Rightarrow> bool" where
  "session_inv s \<longleftrightarrow>
     1 \<le> s_invoke s \<and> s_invoke s \<le> 15 \<and> 0 \<le> s_ns s \<and> s_ns s \<le> 7 \<and> 0 \<le> s_nr s \<and> s_nr s \<le> 7 \<and>
     (\<forall>c. s_security s = Some c \<longrightarrow> security_wf c) \<and>
     server_address (s_logical s) (s_physical s) = Inr (s_server s) \<and>
     client_address (s_client_sap s) = Inr (s_client s)"

lemma session_invI:
  "session_inv s \<Longrightarrow> session_inv (s\<lparr>s_world := w\<rparr>)"
  "session_inv s \<Longrightarrow> session_inv (s\<lparr>s_state := st\<rparr>)"
  "session_inv s \<Longrightarrow> session_inv (s\<lparr>s_snrm_sent := n\<rparr>)"
  "session_inv s \<Longrightarrow> 0 \<le> k \<Longrightarrow> k \<le> 7 \<Longrightarrow> session_inv (s\<lparr>s_ns := k\<rparr>)"
  "session_inv s \<Longrightarrow> 0 \<le> k \<Longrightarrow> k \<le> 7 \<Longrightarrow> session_inv (s\<lparr>s_nr := k\<rparr>)"
  "session_inv s \<Longrightarrow> 1 \<le> k \<Longrightarrow> k \<le> 15 \<Longrightarrow> session_inv (s\<lparr>s_invoke := k\<rparr>)"
  "session_inv s \<Longrightarrow> security_wf c \<Longrightarrow> session_inv (s\<lparr>s_security := Some c\<rparr>)"
  by (simp_all add: session_inv_def)

lemma and_7_range: "0 \<le> n AND (7 :: int)" "n AND (7 :: int) \<le> 7"
proof -
  have "n mod 8 < 8" by simp
  then show "n AND (7 :: int) \<le> 7" by (simp add: int_and_7)
qed (simp add: int_and_7)

lemma new_session_inv:
  assumes "new_session w sap lg ph t ciph pw sec mode = Inr s"
    and "\<And>c. sec = Some c \<Longrightarrow> security_wf c"
  shows "session_inv s" and "s_state s = Idle" and "s_snrm_sent s = 0"
  using assms by (auto simp: new_session_def bindE_Inr_conv session_inv_def)

lemma keeps_exchange: "(\<And>s w. I s \<Longrightarrow> I (s\<lparr>s_world := w\<rparr>)) \<Longrightarrow> keeps I (exchange xchg frm t)"
  by (auto simp: keeps_def exchange_def split: prod.splits)

lemma keeps_hdlc_data: "keeps session_inv (hdlc_data xchg apdu t)"
  unfolding hdlc_data_def
  by (intro keeps_rules keeps_exchange keeps_mod session_invI and_7_range; assumption?)

lemma keeps_snrm: "keeps session_inv (snrm xchg)"
  unfolding snrm_def
  by (intro keeps_rules keeps_exchange keeps_mod) (auto simp: session_inv_def)

lemma keeps_aarq: "keeps session_inv (aarq xchg)"
  unfolding aarq_def
  by (intro keeps_rules keeps_hdlc_data keeps_mod session_invI; assumption?)

lemma keeps_associate: "keeps session_inv (associate xchg)"
  unfolding associate_def
  by (intro keeps_rules keeps_snrm keeps_aarq keeps_mod session_invI; assumption?)

lemma keeps_release: "keeps session_inv (release xchg)"
  unfolding release_def
  by (intro keeps_rules keeps_exchange keeps_mod) (auto simp: session_inv_def)

lemma keeps_next_invoke: "keeps session_inv next_invoke"
  by (auto simp: keeps_def next_invoke_def session_inv_def)

lemma keeps_protect: "keeps session_inv (protect_request seal apdu)"
proof (rule keepsI)
  fix s :: "'a session" and r s'
  assume s: "session_inv s" and p: "protect_request seal apdu s = (r, s')"
  show "session_inv s'"
  proof (cases "s_security s")
    case None
    with p s show ?thesis by (simp add: protect_request_def)
  next
    case (Some c)
    obtain r' c' where c': "protect_apdu seal c apdu = (r', c')" by force
    from s Some have "security_wf c" by (simp add: session_inv_def)
    from protect_apdu_wf [OF this c'] s p Some c' show ?thesis
      by (auto simp: protect_request_def intro: session_invI)
  qed
qed

lemma keeps_unprotect: "keeps session_inv (unprotect_reply seal reply)"
  unfolding unprotect_reply_def
  by (intro keeps_rules keeps_mod session_invI; assumption?)

lemma keeps_xdlms: "keeps session_inv (xdlms xchg seal apdu t)"
  unfolding xdlms_def
  by (intro keeps_rules keeps_hdlc_data keeps_protect keeps_unprotect)

lemma keeps_require: "keeps I require_associated"
  unfolding require_associated_def by (intro keeps_rules)

lemmas keeps_services = keeps_rules keeps_require keeps_next_invoke keeps_xdlms

lemma keeps_get_first: "keeps session_inv (get_first xchg seal cid obis att acc t)"
  unfolding get_first_def by (intro keeps_services)

lemma keeps_get_next: "keeps session_inv (get_next xchg seal t n)"
  unfolding get_next_def by (intro keeps_services)

lemma keeps_set: "keeps session_inv (session_set xchg seal cid obis att v t)"
  unfolding session_set_def by (intro keeps_services)

lemma keeps_action: "keeps session_inv (session_action xchg seal cid obis mid p t)"
  unfolding session_action_def by (intro keeps_services)

lemma get_blocks_inv:
  "session_inv s \<Longrightarrow> get_blocks xchg seal t fuel chunks n l s = Some (r, s') \<Longrightarrow> session_inv s'"
  by (induction xchg seal t fuel chunks n l s rule: get_blocks.induct)
    (auto split: prod.splits sum.splits get_reply.splits dest: keepsD [OF keeps_get_next])

lemma session_get_inv:
  "session_inv s \<Longrightarrow> session_get xchg seal fuel cid obis att acc t s = Some (r, s') \<Longrightarrow> session_inv s'"
  by (auto simp: session_get_def split: prod.splits sum.splits get_reply.splits
      dest: keepsD [OF keeps_get_first] get_blocks_inv)

section \<open>Association only by an accepted response\<close>

text \<open>The reply of the transport that carries an APDU back.\<close>

definition carried :: "link_mode \<Rightarrow> bytes \<Rightarrow> bytes \<Rightarrow> bool" where
  "carried mode reply apdu \<longleftrightarrow>
     (if mode = Wrapper_mode then \<exists>rest. parse_wrapper reply = Inr (apdu, rest)
      else \<exists>f rest. parse_frame reply = Inr (f, rest) \<and> is_i_frame (control f) \<and> apdu = frame_apdu f)"

lemma one_frame_Inr: "one_frame buf = Inr f \<longleftrightarrow> (\<exists>rest. parse_frame buf = Inr (f, rest))"
  by (auto simp: one_frame_def split: sum.splits exn.splits)

lemma convertM_Inr: "convertM p e m s = (Inr x, s') \<longleftrightarrow> m s = (Inr x, s')"
  by (auto simp: convertM_def catchM_def split: prod.splits sum.splits)

lemma exchange_Inr: "exchange xchg frm t s = (r, s') \<longleftrightarrow>
    (\<exists>w. xchg frm t (s_world s) = (r, w) \<and> s' = s\<lparr>s_world := w\<rparr>)"
  by (auto simp: exchange_def split: prod.splits)

lemma hdlc_data_Inr:
  assumes "hdlc_data xchg apdu t s = (Inr reply, s')"
  shows "\<exists>frm buf w. xchg frm t (s_world s) = (Inr buf, w) \<and> carried (s_mode s) buf reply \<and>
    s_world s' = w \<and>
    (if s_mode s = Wrapper_mode
     then build_wrapper apdu (s_client_sap s) (s_physical s) WRAPPER_VERSION = Inr frm
     else build_frame (s_server s) (s_client s) (i_control (s_ns s) (s_nr s) 1) (LLC_REQUEST @ apdu) = Inr frm)"
proof (cases "s_mode s = Wrapper_mode")
  case True
  with assms show ?thesis
    by (fastforce simp: hdlc_data_def bindM_Inr convertM_Inr exchange_Inr carried_def split_beta)
next
  case False
  with assms show ?thesis
    by (auto simp: hdlc_data_def bindM_Inr exchange_Inr carried_def one_frame_Inr split: if_splits)
qed

text \<open>Fields one exchange leaves alone.\<close>

definition same_link :: "'w session \<Rightarrow> 'w session \<Rightarrow> bool" where
  "same_link s0 s \<longleftrightarrow> s_state s = s_state s0 \<and> s_mode s = s_mode s0 \<and> s_snrm_sent s = s_snrm_sent s0
     \<and> s_invoke s = s_invoke s0 \<and> s_security s = s_security s0"

lemma same_linkI:
  "same_link s0 s \<Longrightarrow> same_link s0 (s\<lparr>s_world := w\<rparr>)"
  "same_link s0 s \<Longrightarrow> same_link s0 (s\<lparr>s_ns := k\<rparr>)"
  "same_link s0 s \<Longrightarrow> same_link s0 (s\<lparr>s_nr := k\<rparr>)"
  by (simp_all add: same_link_def)

lemma keeps_link: "keeps (same_link s0) (hdlc_data xchg apdu t)"
  unfolding hdlc_data_def
  by (intro keeps_rules keeps_exchange keeps_mod same_linkI; assumption?)

lemma hdlc_data_link: "hdlc_data xchg apdu t s = (r, s') \<Longrightarrow> same_link s s'"
  by (rule keepsD [OF keeps_link]) (simp_all add: same_link_def)

lemma convertM_state: "convertM p e m s = (r, s') \<Longrightarrow> \<exists>r'. m s = (r', s')"
  by (auto simp: convertM_def catchM_def split: prod.splits sum.splits)

lemma aarq_associated:
  assumes "aarq xchg s = (r, s')" and "s_state s \<noteq> Associated" and "s_state s' = Associated"
  shows "r = Inr () \<and> (\<exists>frm t w buf apdu a. xchg frm t w = (Inr buf, s_world s') \<and>
    carried (s_mode s) buf apdu \<and> parse_aare apdu = Inr a \<and> accepted a)"
proof -
  from assms obtain apdu where "build_aarq (s_ciphered s) (s_password s) 0xFFFF = Inr apdu"
    by (cases "build_aarq (s_ciphered s) (s_password s) 0xFFFF") (auto simp: aarq_def)
  moreover obtain d s1 where d: "convertM (\<lambda>e. is_hdlc_error e \<or> is_os_error e) (SessionError ''aarq'')
      (hdlc_data xchg apdu (s_timeout s)) s = (d, s1)" by force
  moreover obtain d' where d': "hdlc_data xchg apdu (s_timeout s) s = (d', s1)"
    using convertM_state [OF d] by blast
  moreover have st: "s_state s1 = s_state s" "s_mode s1 = s_mode s"
    using hdlc_data_link [OF d'] by (simp_all add: same_link_def)
  ultimately obtain reply where reply: "d = Inr reply"
    using assms by (cases d) (auto simp: aarq_def bindM_run_error)
  have "hdlc_data xchg apdu (s_timeout s) s = (Inr reply, s1)" using d reply by (simp add: convertM_Inr)
  from hdlc_data_Inr [OF this]
  obtain frm buf where x: "xchg frm (s_timeout s) (s_world s) = (Inr buf, s_world s1)"
    and c: "carried (s_mode s) buf reply" by auto
  show ?thesis
  proof (cases "parse_aare reply")
    case (Inl e)
    with assms \<open>build_aarq _ _ _ = _\<close> d reply st show ?thesis
      by (auto simp: aarq_def bindM_run bindM_run_error convertM_def catchM_def)
  next
    case (Inr a)
    with assms \<open>build_aarq _ _ _ = _\<close> d reply st
    have "accepted a" "r = Inr ()" "s' = s1\<lparr>s_state := Associated\<rparr>"
      by (auto simp: aarq_def bindM_run convertM_def [of is_acse_error] catchM_def [of "liftM _"] bindM_def [of "\<lambda>s. (Inr _, s)"]
          split: if_splits)
    with x c Inr show ?thesis by simp blast
  qed
qed


lemma snrm_state:
  assumes "snrm xchg s = (r, s')"
  shows "s_snrm_sent s' \<le> s_snrm_sent s + 1" and "s_mode s' = s_mode s"
    and "s_state s' = s_state s \<or> (r = Inr () \<and> s_state s' = Hdlc_up)"
  using assms
  by (auto simp: snrm_def effect_defs exchange_def split: prod.splits sum.splits)

lemma snrm_not_associated:
  "snrm xchg s = (r, s') \<Longrightarrow> s_state s \<noteq> Associated \<Longrightarrow> s_state s' \<noteq> Associated \<and> s_mode s' = s_mode s"
  using snrm_state [of xchg s r s'] by auto

lemma associate_associated:
  assumes "associate xchg s = (r, s')" and "s_state s \<noteq> Associated" and "s_state s' = Associated"
  shows "r = Inr () \<and> (\<exists>frm t w buf apdu a. xchg frm t w = (Inr buf, s_world s') \<and>
    carried (s_mode s) buf apdu \<and> parse_aare apdu = Inr a \<and> accepted a)"
proof -
  obtain s1 where "aarq xchg s1 = (r, s')" "s_state s1 \<noteq> Associated" "s_mode s1 = s_mode s"
  proof (cases "s_mode s = Hdlc_mode \<and> (s_state s = Idle \<or> s_state s = Released)")
    case True
    obtain r1 s1 where 1: "snrm xchg s = (r1, s1)" by force
    from snrm_not_associated [OF this assms(2)] have s1: "s_state s1 \<noteq> Associated" "s_mode s1 = s_mode s"
      by simp_all
    with 1 True assms that show ?thesis
      by (cases r1) (auto simp: associate_def bindM_def)
  next
    case False
    with assms that show ?thesis
      by (cases "s_mode s"; cases "s_state s") (auto simp: associate_def split: if_splits)
  qed
  from aarq_associated [OF this(1,2) assms(3)] this(3) show ?thesis by simp
qed

lemma associate_again:
  "s_state s = Associated \<Longrightarrow> associate xchg s = (Inr (), s)"
  by (simp add: associate_def)

text \<open>How many SNRM frames one call may send.\<close>

lemma aarq_snrm: "aarq xchg s = (r, s') \<Longrightarrow> s_snrm_sent s' = s_snrm_sent s"
proof -
  have "keeps (\<lambda>x. s_snrm_sent x = s_snrm_sent s) (hdlc_data xchg apdu t)" for apdu t
    unfolding hdlc_data_def by (intro keeps_rules keeps_exchange keeps_mod) simp_all
  then have "keeps (\<lambda>x. s_snrm_sent x = s_snrm_sent s) (aarq xchg)"
    unfolding aarq_def by (intro keeps_rules keeps_mod) simp_all
  then show "aarq xchg s = (r, s') \<Longrightarrow> ?thesis" by (rule keepsD) simp_all
qed

lemma associate_snrm:
  assumes "associate xchg s = (r, s')"
  shows "s_snrm_sent s' \<le> s_snrm_sent s +
    (if s_mode s = Hdlc_mode \<and> (s_state s = Idle \<or> s_state s = Released) then 1 else 0)"
proof (cases "s_mode s = Hdlc_mode \<and> (s_state s = Idle \<or> s_state s = Released)")
  case True
  obtain r1 s1 where 1: "snrm xchg s = (r1, s1)" by force
  with True assms show ?thesis
    using snrm_state(1) [OF 1] aarq_snrm [of xchg s1 r s']
    by (cases r1) (auto simp: associate_def bindM_def)
next
  case False
  with assms aarq_snrm [of xchg] show ?thesis
    by (cases "s_mode s"; cases "s_state s") (auto simp: associate_def split: if_splits)
qed

section \<open>Services need the association and can only lose it\<close>

lemma require_associated_run:
  "require_associated s =
     (if s_state s = Associated then (Inr (), s) else (Inl (SessionError ''not associated''), s))"
  by (simp add: require_associated_def)

lemma services_not_associated:
  assumes "s_state s \<noteq> Associated"
  shows "session_get xchg seal fuel cid obis att acc t s = Some (Inl (SessionError ''not associated''), s)"
    and "session_set xchg seal cid obis att v t s = (Inl (SessionError ''not associated''), s)"
    and "session_action xchg seal cid obis mid p t s = (Inl (SessionError ''not associated''), s)"
  using assms
  by (simp_all add: session_get_def get_first_def session_set_def session_action_def
      bindM_run_error require_associated_run)

text \<open>The state after a service: unchanged, or back to the bare link.\<close>

definition only_loses :: "link_state \<Rightarrow> 'w session \<Rightarrow> bool" where
  "only_loses st s \<longleftrightarrow> s_state s = st \<or> s_state s = Hdlc_up"

lemma only_loses_upd:
  "only_loses st s \<Longrightarrow> only_loses st (s\<lparr>s_world := w\<rparr>)"
  "only_loses st s \<Longrightarrow> only_loses st (s\<lparr>s_ns := k\<rparr>)"
  "only_loses st s \<Longrightarrow> only_loses st (s\<lparr>s_nr := k\<rparr>)"
  "only_loses st (s\<lparr>s_state := Hdlc_up\<rparr>)"
  by (simp_all add: only_loses_def)

lemma only_loses_xdlms: "keeps (only_loses st) (xdlms xchg seal apdu t)"
proof -
  have "keeps (only_loses st) (hdlc_data xchg w l)" for w l
    unfolding hdlc_data_def by (intro keeps_rules keeps_exchange keeps_mod only_loses_upd; assumption?)
  moreover have "keeps (only_loses st) (protect_request seal a)" for a
    by (rule keepsI) (auto simp: protect_request_def only_loses_def split: option.splits prod.splits)
  moreover have "keeps (only_loses st) (unprotect_reply seal a)" for a
    unfolding unprotect_reply_def by (intro keeps_rules keeps_mod only_loses_upd)
  ultimately show ?thesis unfolding xdlms_def by (intro keeps_rules)
qed

lemma only_loses_invoke: "keeps (only_loses st) next_invoke"
  by (rule keepsI) (auto simp: next_invoke_def only_loses_def)

lemmas only_loses_rules = keeps_rules keeps_require only_loses_invoke only_loses_xdlms

lemma only_loses_get_first: "keeps (only_loses st) (get_first xchg seal cid obis att acc t)"
  unfolding get_first_def by (intro only_loses_rules)

lemma only_loses_get_next: "keeps (only_loses st) (get_next xchg seal t n)"
  unfolding get_next_def by (intro only_loses_rules)

lemma only_loses_set: "keeps (only_loses st) (session_set xchg seal cid obis att v t)"
  unfolding session_set_def by (intro only_loses_rules)

lemma only_loses_action: "keeps (only_loses st) (session_action xchg seal cid obis mid p t)"
  unfolding session_action_def by (intro only_loses_rules)

lemma only_loses_blocks:
  "only_loses st s \<Longrightarrow> get_blocks xchg seal t fuel chunks n l s = Some (r, s') \<Longrightarrow> only_loses st s'"
  by (induction xchg seal t fuel chunks n l s rule: get_blocks.induct)
    (auto split: prod.splits sum.splits get_reply.splits dest: keepsD [OF only_loses_get_next])

lemma only_loses_get:
  "only_loses st s \<Longrightarrow> session_get xchg seal fuel cid obis att acc t s = Some (r, s') \<Longrightarrow> only_loses st s'"
  by (auto simp: session_get_def split: prod.splits sum.splits get_reply.splits
      dest: keepsD [OF only_loses_get_first] only_loses_blocks)

section \<open>Security failures\<close>

text \<open>
  With a security context, a service call only goes on with a reply the context accepted, and a
  refused reply leaves the association.
\<close>

lemma hdlc_data_security: "hdlc_data xchg apdu t s = (r, s') \<Longrightarrow> s_security s' = s_security s"
  by (drule hdlc_data_link) (simp add: same_link_def)

lemma protect_request_security:
  assumes "protect_request seal apdu s = (r, s')" and "s_security s = Some c"
  shows "\<exists>c'. s_security s' = Some c' \<and> sec_ek c' = sec_ek c \<and> sec_ak c' = sec_ak c
    \<and> sec_title c' = sec_title c"
  using assms
  by (auto simp: protect_request_def split: prod.splits dest!: protect_apdu_state)

lemma unprotect_keys:
  assumes "sec_ek c' = sec_ek c" and "sec_ak c' = sec_ak c" and "sec_title c' = sec_title c"
  shows "unprotect_apdu seal c' a = unprotect_apdu seal c a"
  unfolding unprotect_apdu_def assms by (rule refl)

lemma xdlms_secure:
  assumes "xdlms xchg seal apdu t s = (Inr plain, s')" and "s_security s = Some c"
  shows "\<exists>wire. unprotect_apdu seal c wire = Inr plain"
proof -
  from assms(1) obtain wire s1 reply s2 p where 1: "protect_request seal apdu s = (Inr wire, s1)"
    and 2: "hdlc_data xchg wire (case t of None \<Rightarrow> s_timeout s | Some t \<Rightarrow> t) s1 = (Inr reply, s2)"
    and 3: "unprotect_reply seal reply s2 = (Inr p, s')" and p: "plain = p"
    by (auto simp: xdlms_def bindM_Inr convertM_Inr split: if_splits)
  from protect_request_security [OF 1 assms(2)] obtain c' where c': "s_security s1 = Some c'"
    "sec_ek c' = sec_ek c" "sec_ak c' = sec_ak c" "sec_title c' = sec_title c" by blast
  with hdlc_data_security [OF 2] 3 p have "unprotect_apdu seal c' reply = Inr plain"
    by (auto simp: unprotect_reply_def catchM_def split: sum.splits if_splits)
  with unprotect_keys [OF c'(2-4)] show ?thesis by auto
qed

text \<open>What a service reports as \<open>SecurityError\<close> after the exchange has dropped the association.\<close>

lemma unprotect_reply_refused:
  "s_security s = Some c \<Longrightarrow> unprotect_apdu seal c reply = Inl (SecurityError m) \<Longrightarrow>
   unprotect_reply seal reply s = (Inl (SecurityError m), s\<lparr>s_state := Hdlc_up\<rparr>)"
  by (simp add: unprotect_reply_def catchM_def)

lemma xdlms_clear_reply:
  assumes "protect_request seal apdu s = (Inr wire, s1)" and "s_security s = Some c"
    and "hdlc_data xchg wire (case t of None \<Rightarrow> s_timeout s | Some t \<Rightarrow> t) s1 = (Inr reply, s2)"
    and "reply \<noteq> []" and "unglo (reply ! 0) = None"
  shows "xdlms xchg seal apdu t s = (Inl (SecurityError ''clear''), s2\<lparr>s_state := Hdlc_up\<rparr>)"
proof -
  from protect_request_security [OF assms(1,2)] hdlc_data_security [OF assms(3)]
  obtain c' where "s_security s2 = Some c'" by auto
  moreover have "unprotect_apdu seal c' reply = Inl (SecurityError ''clear'')"
    using assms(4,5) by (intro unprotect_apdu_clear)
  ultimately have "unprotect_reply seal reply s2 = (Inl (SecurityError ''clear''), s2\<lparr>s_state := Hdlc_up\<rparr>)"
    by (intro unprotect_reply_refused)
  with assms(1,3) show ?thesis
    by (simp add: xdlms_def bindM_run bindM_run_error convertM_Inr [THEN iffD2])
qed

section \<open>The life of a session\<close>

text \<open>One call of a public method.\<close>

inductive session_step :: "'w transport \<Rightarrow> sealer \<Rightarrow> 'w session \<Rightarrow> 'w session \<Rightarrow> bool"
  for xchg seal where
  step_associate: "associate xchg s = (r, s') \<Longrightarrow> session_step xchg seal s s'"
| step_release: "release xchg s = (r, s') \<Longrightarrow> session_step xchg seal s s'"
| step_get: "session_get xchg seal fuel cid obis att acc t s = Some (r, s') \<Longrightarrow> session_step xchg seal s s'"
| step_set: "session_set xchg seal cid obis att v t s = (r, s') \<Longrightarrow> session_step xchg seal s s'"
| step_action: "session_action xchg seal cid obis mid p t s = (r, s') \<Longrightarrow> session_step xchg seal s s'"

inductive_cases session_stepE: "session_step xchg seal s s'"

inductive session_run :: "'w transport \<Rightarrow> sealer \<Rightarrow> 'w session \<Rightarrow> 'w session \<Rightarrow> bool"
  for xchg seal s0 where
  run_start: "session_run xchg seal s0 s0"
| run_step: "session_run xchg seal s0 s \<Longrightarrow> session_step xchg seal s s' \<Longrightarrow> session_run xchg seal s0 s'"

lemma release_state: "release xchg s = (r, s') \<Longrightarrow>
    r = Inr () \<and> s_state s' = (if s_state s = Idle then Idle else Released)"
  by (auto simp: release_def effect_defs split: if_splits prod.splits sum.splits)

lemma step_inv: "session_step xchg seal s s' \<Longrightarrow> session_inv s \<Longrightarrow> session_inv s'"
  by (erule session_stepE)
    (auto dest: keepsD [OF keeps_associate] keepsD [OF keeps_release] session_get_inv
      keepsD [OF keeps_set] keepsD [OF keeps_action])

lemma run_inv: "session_run xchg seal s0 s \<Longrightarrow> session_inv s0 \<Longrightarrow> session_inv s"
  by (induction rule: session_run.induct) (auto dest: step_inv)

lemma step_associated:
  assumes "session_step xchg seal s s'" and "s_state s \<noteq> Associated" and "s_state s' = Associated"
  shows "\<exists>frm t w buf apdu a. xchg frm t w = (Inr buf, s_world s') \<and>
    carried (s_mode s) buf apdu \<and> parse_aare apdu = Inr a \<and> accepted a"
  using assms(1)
proof (cases rule: session_step.cases)
  case (step_associate r)
  from associate_associated [OF this assms(2,3)] show ?thesis by simp
next
  case (step_release r)
  with release_state [OF this] assms show ?thesis by (auto split: if_splits)
next
  case (step_get fuel cid obis att acc t r)
  with only_loses_get [of "s_state s" s] assms show ?thesis by (fastforce simp: only_loses_def)
next
  case (step_set cid obis att v t r)
  with keepsD [OF only_loses_set [of "s_state s"]] assms show ?thesis by (fastforce simp: only_loses_def)
next
  case (step_action cid obis mid p t r)
  with keepsD [OF only_loses_action [of "s_state s"]] assms show ?thesis by (fastforce simp: only_loses_def)
qed

section \<open>A meter that answers\<close>

text \<open>
  The peer of the end-to-end lemmas: it frames the scripted answers one by one and falls silent
  when they are used up.  An answer is a control octet and the information field.
\<close>

fun meter :: "bytes \<Rightarrow> bytes \<Rightarrow> (int \<times> bytes) list transport" where
  "meter srv cl frm t [] = (Inl (TimeoutError ''hdlc''), [])"
| "meter srv cl frm t ((ctl, info) # w) = (build_frame cl srv ctl info, w)"

text \<open>A session in the clear, in front of the answers \<open>w\<close>, and an associated one.\<close>

definition linked :: "bytes \<Rightarrow> bytes \<Rightarrow> (int \<times> bytes) list \<Rightarrow> (int \<times> bytes) list session \<Rightarrow> bool" where
  "linked srv cl w s \<longleftrightarrow> s_mode s = Hdlc_mode \<and> s_security s = None \<and>
     s_server s = srv \<and> s_client s = cl \<and> s_world s = w"

definition ready :: "bytes \<Rightarrow> bytes \<Rightarrow> (int \<times> bytes) list \<Rightarrow> (int \<times> bytes) list session \<Rightarrow> bool" where
  "ready srv cl w s \<longleftrightarrow> linked srv cl w s \<and> s_state s = Associated"

definition link_addresses :: "bytes \<Rightarrow> bytes \<Rightarrow> bool" where
  "link_addresses srv cl \<longleftrightarrow> addr_field srv \<and> addr_field cl \<and> length srv \<le> 4 \<and> length cl = 1"

lemma session_addresses: "session_inv s \<Longrightarrow> link_addresses (s_server s) (s_client s)"
  using encode_address_spec(1,2) server_address_spec(1,2)
  by (fastforce simp: link_addresses_def session_inv_def client_address_def split: if_splits)

lemma link_frame:
  assumes "link_addresses srv cl" and "info \<noteq> []" and "length info \<le> 2030"
  shows "\<exists>bs. build_frame srv cl ctl info = Inr bs" and "\<exists>bs. build_frame cl srv ctl info = Inr bs"
proof -
  have "srv \<noteq> []" "cl \<noteq> []" using assms(1) by (auto simp: link_addresses_def addr_field_def)
  with assms show "\<exists>bs. build_frame srv cl ctl info = Inr bs" "\<exists>bs. build_frame cl srv ctl info = Inr bs"
    by (auto simp: build_frame_Inr frame_len_def LEN_MASK_def link_addresses_def)
qed

definition answer_ok :: "int \<Rightarrow> bytes \<Rightarrow> bool" where
  "answer_ok c a \<longleftrightarrow> 0 \<le> c \<and> c < 256 \<and> is_i_frame c \<and> length a \<le> 2000"

lemma frame_apdu_response: "information f = LLC_RESPONSE @ a \<Longrightarrow> frame_apdu f = a"
  by (simp add: frame_apdu_def starts_with_def LLC_REQUEST_def LLC_RESPONSE_def)

lemma hdlc_data_meter:
  assumes adr: "link_addresses srv cl" and s: "linked srv cl ((c, LLC_RESPONSE @ a) # w) s"
    and a: "answer_ok c a" and apdu: "length apdu \<le> 2000"
  shows "\<exists>s'. hdlc_data (meter srv cl) apdu t s = (Inr a, s') \<and> linked srv cl w s' \<and> s_state s' = s_state s"
proof -
  have "LLC_REQUEST @ apdu \<noteq> []" "length (LLC_REQUEST @ apdu) \<le> 2030"
    using apdu by (simp_all add: LLC_REQUEST_def)
  from link_frame(1) [OF adr this] obtain frm where
    frm: "build_frame srv cl (i_control (s_ns s) (s_nr s) 1) (LLC_REQUEST @ apdu) = Inr frm" by blast
  have "LLC_RESPONSE @ a \<noteq> []" "length (LLC_RESPONSE @ a) \<le> 2030"
    using a by (simp_all add: LLC_RESPONSE_def answer_ok_def)
  from link_frame(2) [OF adr this] obtain bs where bs: "build_frame cl srv c (LLC_RESPONSE @ a) = Inr bs"
    by blast
  define f where "f = \<lparr>dest = cl, src = srv, control = c, information = LLC_RESPONSE @ a, segmented = False\<rparr>"
  have "parse_frame bs = Inr (f, [])"
    using parse_frame_build [OF _ _ bs, of "[]" "[]"] adr a
    by (simp add: link_addresses_def f_def answer_ok_def)
  then have "one_frame bs = Inr f" by (auto simp: one_frame_Inr)
  moreover have "frame_apdu f = a" by (rule frame_apdu_response) (simp add: f_def)
  moreover have "is_i_frame (control f)" using a by (simp add: f_def answer_ok_def)
  moreover have "exchange (meter srv cl) frm t s = (Inr bs, s\<lparr>s_world := w\<rparr>)"
    using s bs by (simp add: exchange_def linked_def)
  ultimately show ?thesis
    using s frm by (simp add: hdlc_data_def linked_def bindM_run)
qed

lemma xdlms_meter:
  assumes adr: "link_addresses srv cl" and s: "ready srv cl ((c, LLC_RESPONSE @ a) # w) s"
    and a: "answer_ok c a" and apdu: "length apdu \<le> 2000" and ne: "a ! 0 \<noteq> EXCEPTION_RESPONSE"
  shows "\<exists>s'. xdlms (meter srv cl) seal apdu t s = (Inr a, s') \<and> ready srv cl w s'"
proof -
  define l where "l = (case t of None \<Rightarrow> s_timeout s | Some t \<Rightarrow> t)"
  from s have lk: "linked srv cl ((c, LLC_RESPONSE @ a) # w) s" and st: "s_state s = Associated"
    by (simp_all add: ready_def)
  from hdlc_data_meter [OF adr lk a apdu, of l] st obtain s' where
    d: "hdlc_data (meter srv cl) apdu l s = (Inr a, s')" and s': "ready srv cl w s'" by (auto simp: ready_def)
  have "protect_request seal apdu s = (Inr apdu, s)" using s by (simp add: protect_request_def ready_def linked_def)
  moreover have "unprotect_reply seal a s' = (Inr a, s')" using s' by (simp add: unprotect_reply_def ready_def linked_def)
  moreover have "convertM p e (hdlc_data (meter srv cl) apdu l) s = (Inr a, s')" for p e
    using d by (simp add: convertM_Inr)
  ultimately show ?thesis using s' ne
    by (simp add: xdlms_def bindM_run flip: l_def)
qed

lemma ready_invoke: "ready srv cl w s \<Longrightarrow> ready srv cl w (snd (next_invoke s))"
  by (simp add: next_invoke_def ready_def linked_def)

lemma next_invoke_run: "next_invoke s = (Inr (s_invoke s), snd (next_invoke s))"
  by (simp add: next_invoke_def)

section \<open>A block transfer is read back whole\<close>

text \<open>The blocks of a transfer: control octet, block number and bytes of each.\<close>

type_synonym blk = "int \<times> int \<times> bytes"

definition len_octets :: "bytes \<Rightarrow> bytes" where
  "len_octets chunk = (case enc_len (int (length chunk)) of Inl _ \<Rightarrow> [] | Inr ln \<Rightarrow> ln)"

fun block_answers :: "blk list \<Rightarrow> (int \<times> bytes) list" where
  "block_answers [] = []"
| "block_answers ((c, n, chunk) # bs) =
     (c, LLC_RESPONSE @ block_response 0xC1 (bs = []) n (len_octets chunk) chunk) # block_answers bs"

definition blk_ok :: "blk \<Rightarrow> bool" where
  "blk_ok b = (case b of (c, n, chunk) \<Rightarrow>
     0 \<le> c \<and> c < 256 \<and> is_i_frame c \<and> 0 \<le> n \<and> n < 256 ^ 4 \<and> length chunk \<le> 1900)"

lemma block_answer:
  assumes "blk_ok (c, n, chunk)"
  shows "answer_ok c (block_response iv fin n (len_octets chunk) chunk)"
    and "block_response iv fin n (len_octets chunk) chunk ! 0 \<noteq> EXCEPTION_RESPONSE"
    and "parse_get_response (block_response iv fin n (len_octets chunk) chunk) = Inr (GetBlock fin n chunk)"
proof -
  have "length chunk < 0x10000" using assms by (simp add: blk_ok_def)
  then obtain ln where ln: "enc_len (int (length chunk)) = Inr ln" "length ln \<le> 3"
    by (cases "enc_len (int (length chunk))") (auto simp: enc_len_def split: if_splits)
  then have l: "len_octets chunk = ln" by (simp add: len_octets_def)
  show "answer_ok c (block_response iv fin n (len_octets chunk) chunk)"
    using assms ln by (simp add: answer_ok_def blk_ok_def block_response_def l)
  show "block_response iv fin n (len_octets chunk) chunk ! 0 \<noteq> EXCEPTION_RESPONSE"
    by (simp add: block_response_def xdlms_tags)
  show "parse_get_response (block_response iv fin n (len_octets chunk) chunk) = Inr (GetBlock fin n chunk)"
    using parse_block_response [OF ln(1), of n iv fin "[]"] assms by (simp add: l blk_ok_def)
qed

lemma get_next_answer:
  assumes adr: "link_addresses srv cl" and b: "blk_ok (c, n, chunk)" and m: "0 \<le> m" "m < 256 ^ 4"
    and s: "ready srv cl ((c, LLC_RESPONSE @ block_response iv fin n (len_octets chunk) chunk) # w) s"
  shows "\<exists>s'. get_next (meter srv cl) seal t m s = (Inr (GetBlock fin n chunk), s') \<and> ready srv cl w s'"
proof -
  define apdu where "apdu = [GET_REQUEST, 0x02, invoke_byte (s_invoke s)] @ be_bytes 4 m"
  have apdu: "encode_get_next m (s_invoke s) = Inr apdu"
    using m by (simp add: encode_get_next_def to_bytes_def apdu_def)
  have len: "length apdu \<le> 2000" by (simp add: apdu_def)
  note ans = block_answer [OF b, of iv fin]
  from xdlms_meter [OF adr ready_invoke [OF s] ans(1) len ans(2), of seal t] obtain s' where
    "xdlms (meter srv cl) seal apdu t (snd (next_invoke s)) =
       (Inr (block_response iv fin n (len_octets chunk) chunk), s')"
    "ready srv cl w s'" by blast
  then show ?thesis
    using ans(3) apdu by (simp add: get_next_def bindM_run [OF next_invoke_run] bindM_run)
qed

lemma get_next_meter:
  assumes "link_addresses srv cl" and "blk_ok (c, n, chunk)" and "0 \<le> m" "m < 256 ^ 4"
    and "ready srv cl (block_answers ((c, n, chunk) # bs)) s"
  shows "\<exists>s'. get_next (meter srv cl) seal t m s = (Inr (GetBlock (bs = []) n chunk), s') \<and>
    ready srv cl (block_answers bs) s'"
  using get_next_answer [OF assms(1-4), of "0xC1" "bs = []" "block_answers bs"] assms(5) by simp

lemma get_blocks_meter:
  assumes adr: "link_addresses srv cl" and "list_all blk_ok bs" and "0 \<le> m" "m < 256 ^ 4"
    and "ready srv cl (block_answers bs) s" and "length bs \<le> fuel"
  shows "\<exists>s'. get_blocks (meter srv cl) seal t fuel chunks m (bs = []) s =
      Some (decode_block_value (chunks @ map (\<lambda>b. snd (snd b)) bs), s') \<and> ready srv cl [] s'"
  using assms(2-)
proof (induction bs arbitrary: fuel chunks m s)
  case Nil
  then show ?case by simp
next
  case (Cons b bs)
  obtain c n chunk where b: "b = (c, n, chunk)" using prod_cases3 by blast
  from Cons.prems b have ok: "blk_ok (c, n, chunk)" by simp
  from Cons.prems obtain f where f: "fuel = Suc f" by (cases fuel) auto
  from get_next_meter [OF adr ok Cons.prems(2,3)] Cons.prems(4) b obtain s1 where
    1: "get_next (meter srv cl) seal t m s = (Inr (GetBlock (bs = []) n chunk), s1)"
    and s1: "ready srv cl (block_answers bs) s1" by blast
  have n: "0 \<le> n" "n < 256 ^ 4" using ok by (simp_all add: blk_ok_def)
  from Cons.IH [of n s1 f "chunks @ [chunk]"] Cons.prems s1 n f obtain s' where
    "get_blocks (meter srv cl) seal t f (chunks @ [chunk]) n (bs = []) s1 =
       Some (decode_block_value ((chunks @ [chunk]) @ map (\<lambda>b. snd (snd b)) bs), s')"
    "ready srv cl [] s'" by auto
  then show ?case using 1 by (simp add: f b)
qed

lemma session_get_meter:
  assumes adr: "link_addresses srv cl" and s: "ready srv cl (block_answers (b # bs)) s"
    and ok: "list_all blk_ok (b # bs)" and fuel: "length bs \<le> fuel"
    and req: "length obis = 6" "0 \<le> cid" "cid < 65536"
    and d: "wf_cosem d" "encode d = Inr (concat (map (\<lambda>b. snd (snd b)) (b # bs)))"
  shows "\<exists>s'. session_get (meter srv cl) seal fuel cid obis att None t s = Some (Inr d, s') \<and>
    ready srv cl [] s'"
proof -
  obtain c n chunk where b: "b = (c, n, chunk)" using prod_cases3 by blast
  with ok have bok: "blk_ok (c, n, chunk)" and bsok: "list_all blk_ok bs" by simp_all
  define apdu where "apdu = [GET_REQUEST, 0x01, invoke_byte (s_invoke s)] @ be_bytes 2 cid @ obis
    @ [word_of_int (att AND 0xFF), 0x00]"
  have apdu: "encode_get cid obis att (s_invoke s) None = Inr apdu"
    using req by (simp add: encode_get_def to_bytes_def apdu_def)
  have "length apdu \<le> 2000" using req by (simp add: apdu_def)
  define a where "a = block_response 0xC1 (bs = []) n (len_octets chunk) chunk"
  note ans = block_answer [OF bok, of "0xC1" "bs = []", folded a_def]
  have "ready srv cl ((c, LLC_RESPONSE @ a) # block_answers bs) (snd (next_invoke s))"
    using ready_invoke [OF s] by (simp add: a_def b)
  from xdlms_meter [OF adr this ans(1) \<open>length apdu \<le> 2000\<close> ans(2), of seal t] obtain s1 where
    x: "xdlms (meter srv cl) seal apdu t (snd (next_invoke s)) = (Inr a, s1)"
    and s1: "ready srv cl (block_answers bs) s1" by blast
  have "s_state s = Associated" using s by (simp add: ready_def)
  then have "get_first (meter srv cl) seal cid obis att None t s = (Inr (GetBlock (bs = []) n chunk), s1)"
    using ans(3) apdu x
    by (simp add: get_first_def require_associated_run bindM_run [OF next_invoke_run] bindM_run)
  moreover have "0 \<le> n" "n < 256 ^ 4" using bok by (simp_all add: blk_ok_def)
  from get_blocks_meter [OF adr bsok this s1 fuel, of seal t "[chunk]"] obtain s' where
    "get_blocks (meter srv cl) seal t fuel [chunk] n (bs = []) s1 =
       Some (decode_block_value (map (\<lambda>b. snd (snd b)) (b # bs)), s')" "ready srv cl [] s'" by (auto simp: b)
  ultimately show ?thesis using decode_blocks [OF d]
    by (simp add: session_get_def del: list.map)
qed


section \<open>A transfer has no bound of its own\<close>

text \<open>
  A meter that never sets the last-block flag keeps the loop running: neither the number of
  blocks nor their numbering is checked.
\<close>

definition same_block :: "bytes \<Rightarrow> int \<times> bytes" where
  "same_block chunk = (0, LLC_RESPONSE @ block_response 0xC1 False 1 (len_octets chunk) chunk)"

lemma get_blocks_endless:
  assumes adr: "link_addresses srv cl" and len: "length chunk \<le> 1900"
    and "ready srv cl (replicate fuel (same_block chunk)) s"
  shows "get_blocks (meter srv cl) seal t fuel chunks 1 False s = None"
  using assms(3)
proof (induction fuel arbitrary: chunks s)
  case 0
  then show ?case by simp
next
  case (Suc k)
  have b: "blk_ok (0, 1, chunk)" using len by (simp add: blk_ok_def is_i_frame_def)
  from get_next_answer [OF adr b, of 1 "0xC1" False "replicate k (same_block chunk)" s seal t] Suc.prems
  obtain s' where "get_next (meter srv cl) seal t 1 s = (Inr (GetBlock False 1 chunk), s')"
    "ready srv cl (replicate k (same_block chunk)) s'" by (auto simp: same_block_def)
  with Suc.IH show ?case by simp
qed

lemma session_get_endless:
  assumes adr: "link_addresses srv cl" and len: "length chunk \<le> 1900"
    and req: "length obis = 6" "0 \<le> cid" "cid < 65536"
    and s: "ready srv cl (replicate (Suc fuel) (same_block chunk)) s"
  shows "session_get (meter srv cl) seal fuel cid obis att None t s = None"
proof -
  define apdu where "apdu = [GET_REQUEST, 0x01, invoke_byte (s_invoke s)] @ be_bytes 2 cid @ obis
    @ [word_of_int (att AND 0xFF), 0x00]"
  have apdu: "encode_get cid obis att (s_invoke s) None = Inr apdu"
    using req by (simp add: encode_get_def to_bytes_def apdu_def)
  have la: "length apdu \<le> 2000" using req by (simp add: apdu_def)
  have bok: "blk_ok (0, 1, chunk)" using len by (simp add: blk_ok_def is_i_frame_def)
  define a where "a = block_response 0xC1 False 1 (len_octets chunk) chunk"
  note ans = block_answer [OF bok, of "0xC1" False, folded a_def]
  have "ready srv cl ((0, LLC_RESPONSE @ a) # replicate fuel (same_block chunk)) (snd (next_invoke s))"
    using ready_invoke [OF s] by (simp add: a_def same_block_def)
  from xdlms_meter [OF adr this ans(1) la ans(2), of seal t] obtain s1 where
    x: "xdlms (meter srv cl) seal apdu t (snd (next_invoke s)) = (Inr a, s1)"
    and s1: "ready srv cl (replicate fuel (same_block chunk)) s1" by blast
  have "s_state s = Associated" using s by (simp add: ready_def)
  then have "get_first (meter srv cl) seal cid obis att None t s = (Inr (GetBlock False 1 chunk), s1)"
    using ans(3) apdu x
    by (simp add: get_first_def require_associated_run bindM_run [OF next_invoke_run] bindM_run)
  then show ?thesis using get_blocks_endless [OF adr len s1] by (simp add: session_get_def)
qed

section \<open>Association with a meter\<close>

lemma snrm_meter:
  assumes inv: "session_inv s" and w: "s_world s = (UA, []) # w"
  shows "snrm (meter (s_server s) (s_client s)) s = (Inr (),
    s\<lparr>s_snrm_sent := s_snrm_sent s + 1, s_world := w, s_ns := 0, s_nr := 0, s_state := Hdlc_up\<rparr>)"
proof -
  note adr = session_addresses [OF inv]
  have "s_server s \<noteq> []" "s_client s \<noteq> []" using adr by (auto simp: link_addresses_def addr_field_def)
  with adr obtain frm bs where frm: "build_frame (s_server s) (s_client s) SNRM [] = Inr frm"
    and bs: "build_frame (s_client s) (s_server s) UA [] = Inr bs"
    by (auto simp: build_frame_Inr frame_len_def LEN_MASK_def link_addresses_def)
  have "\<exists>f. expect_control bs UA = Inr f"
    using parse_frame_build [OF _ _ bs, of "[]" "[]"] adr
    by (simp add: expect_control_def one_frame_def link_addresses_def UA_def)
  then obtain f where "expect_control bs UA = Inr f" ..
  with frm bs w show ?thesis by (simp add: snrm_def exchange_def bindM_run)
qed

lemma aarq_meter:
  assumes adr: "link_addresses srv cl" and s: "linked srv cl ((c, LLC_RESPONSE @ a) # w) s"
    and a: "answer_ok c a" "parse_aare a = Inr r" "accepted r"
    and aq: "build_aarq (s_ciphered s) (s_password s) 0xFFFF = Inr apdu" "length apdu \<le> 2000"
  shows "\<exists>s'. aarq (meter srv cl) s = (Inr (), s') \<and> ready srv cl w s'"
proof -
  from hdlc_data_meter [OF adr s a(1) aq(2), of "s_timeout s"] obtain s1 where
    d: "hdlc_data (meter srv cl) apdu (s_timeout s) s = (Inr a, s1)" and s1: "linked srv cl w s1" by blast
  then have "convertM p e (hdlc_data (meter srv cl) apdu (s_timeout s)) s = (Inr a, s1)" for p e
    by (simp add: convertM_Inr)
  moreover have "convertM is_acse_error e (liftM (parse_aare a)) s1 = (Inr r, s1)" for e
    using a(2) by (simp add: convertM_Inr)
  ultimately show ?thesis using a(3) aq(1) s1
    by (simp add: aarq_def bindM_run ready_def linked_def)
qed

lemma associate_meter:
  assumes inv: "session_inv s" and s: "s_mode s = Hdlc_mode" "s_security s = None"
    and st: "s_state s = Idle \<or> s_state s = Released"
    and w: "s_world s = (UA, []) # (c, LLC_RESPONSE @ a) # w"
    and a: "answer_ok c a" "parse_aare a = Inr r" "accepted r"
    and aq: "build_aarq (s_ciphered s) (s_password s) 0xFFFF = Inr apdu" "length apdu \<le> 2000"
  shows "\<exists>s'. associate (meter (s_server s) (s_client s)) s = (Inr (), s') \<and>
    ready (s_server s) (s_client s) w s'"
proof -
  define s1 where "s1 = s\<lparr>s_snrm_sent := s_snrm_sent s + 1, s_world := (c, LLC_RESPONSE @ a) # w,
    s_ns := 0, s_nr := 0, s_state := Hdlc_up\<rparr>"
  have "snrm (meter (s_server s) (s_client s)) s = (Inr (), s1)"
    using snrm_meter [OF inv w] by (simp add: s1_def)
  moreover have "linked (s_server s) (s_client s) ((c, LLC_RESPONSE @ a) # w) s1"
    using s by (simp add: s1_def linked_def)
  from aarq_meter [OF session_addresses [OF inv] this a, of apdu] aq
  obtain s' where "aarq (meter (s_server s) (s_client s)) s1 = (Inr (), s')"
    "ready (s_server s) (s_client s) w s'" by (auto simp: s1_def)
  ultimately show ?thesis using s st by (auto simp: associate_def bindM_run)
qed

text \<open>Association and one block-wise read, end to end.\<close>

lemma read_meter:
  assumes inv: "session_inv s" and s: "s_mode s = Hdlc_mode" "s_security s = None"
    and st: "s_state s = Idle \<or> s_state s = Released"
    and w: "s_world s = (UA, []) # (c, LLC_RESPONSE @ a) # block_answers (b # bs)"
    and a: "answer_ok c a" "parse_aare a = Inr r" "accepted r"
    and aq: "build_aarq (s_ciphered s) (s_password s) 0xFFFF = Inr apdu" "length apdu \<le> 2000"
    and ok: "list_all blk_ok (b # bs)" and fuel: "length bs \<le> fuel"
    and req: "length obis = 6" "0 \<le> cid" "cid < 65536"
    and d: "wf_cosem d" "encode d = Inr (concat (map (\<lambda>b. snd (snd b)) (b # bs)))"
  shows "\<exists>s1 s2. associate (meter (s_server s) (s_client s)) s = (Inr (), s1) \<and>
    session_get (meter (s_server s) (s_client s)) seal fuel cid obis att None t s1 = Some (Inr d, s2)"
proof -
  from associate_meter [OF inv s st w a aq] obtain s1 where
    1: "associate (meter (s_server s) (s_client s)) s = (Inr (), s1)"
    and s1: "ready (s_server s) (s_client s) (block_answers (b # bs)) s1" by blast
  from session_get_meter [OF session_addresses [OF inv] s1 ok fuel req d] 1 show ?thesis by blast
qed

section \<open>Properties\<close>

text \<open>A session to exercise the properties on: client 16 talking to logical device 1 at 16.\<close>

definition demo_session :: "link_mode \<Rightarrow> security option \<Rightarrow> 'w \<Rightarrow> 'w session" where
  "demo_session mode sec w =
     \<lparr>s_client_sap = 16, s_logical = 1, s_physical = 16, s_timeout = 5, s_ciphered = False,
      s_password = None, s_security = sec, s_mode = mode, s_state = Idle, s_ns = 0, s_nr = 0,
      s_invoke = 1, s_snrm_sent = 0, s_server = [0x02, 0x21], s_client = [0x21], s_world = w\<rparr>"

definition demo_aare :: bytes where
  "demo_aare = tlv 0x61 (tlvs [(0xA2, [0x02, 0x01, 0x00])])"

lemma demo_addresses: "encode_address 1 1 = Inr [0x03]" "encode_address 16 1 = Inr [0x21]"
  by (simp_all add: encode_address_def)

lemma demo_server: "server_address 1 16 = Inr [0x02, 0x21]"
  by (simp add: server_address_def demo_addresses demo_addresses [simplified] Let_def)

lemma demo_new: "new_session w 16 1 16 5 False None sec mode = Inr (demo_session mode sec w)"
  unfolding new_session_def demo_server client_address_def demo_addresses demo_session_def bindE.simps
  by (simp only: option.distinct if_False)

lemma demo_inv: "session_inv (demo_session mode None w)"
  by (rule new_session_inv(1) [OF demo_new]) simp

lemma demo_aare_accepted: "\<exists>r. parse_aare demo_aare = Inr r \<and> accepted r"
proof -
  have s: "short_tlvs [(0xA2, [0x02, 0x01, 0x00])]" "length (tlvs [(0xA2, [0x02, 0x01, 0x00])]) < 0x10000"
    by (simp_all add: short_tlvs_def tlvs_def tlv_def ber_len_def)
  have "accepted (aare_fold aare0 [(0xA2, [0x02, 0x01, 0x00])])"
    by (simp add: aare_fold_def aare_step_def aare0_def Let_def ber_take_def ber_head_def)
  with parse_aare_tlvs [OF s, of "[]"] show ?thesis by (simp add: demo_aare_def)
qed

lemma demo_aare_length: "length demo_aare = 7"
  by (simp add: demo_aare_def tlvs_def tlv_def ber_len_def)

lemma demo_aarq: "\<exists>apdu. build_aarq False None 0xFFFF = Inr apdu \<and> length apdu \<le> 2000"
  by (simp add: build_aarq_def initiate_request_ok Let_def tlv_def ber_len_def OID_LN_def)

text \<open>C1: against a meter that answers SNRM with UA, the AARQ with an accepting AARE and the
  requests with the blocks of a value, however the value is cut, \<^verbatim>\<open>associate\<close> succeeds and
  \<^verbatim>\<open>get\<close> returns that value: framing, sequence numbers, association, block transfer and decoding
  compose.\<close>

theorem session_reads_meter:
  assumes "session_inv s" and "s_mode s = Hdlc_mode" and "s_security s = None"
    and "s_state s = Idle \<or> s_state s = Released"
    and "s_world s = (UA, []) # (c, LLC_RESPONSE @ a) # block_answers (b # bs)"
    and "answer_ok c a" and "parse_aare a = Inr r" and "accepted r"
    and "build_aarq (s_ciphered s) (s_password s) 0xFFFF = Inr apdu" and "length apdu \<le> 2000"
    and "list_all blk_ok (b # bs)" and "length bs \<le> fuel"
    and "length obis = 6" and "0 \<le> cid" and "cid < 65536"
    and "wf_cosem d" and "encode d = Inr (concat (map (\<lambda>b. snd (snd b)) (b # bs)))"
  shows "\<exists>s1 s2. associate (meter (s_server s) (s_client s)) s = (Inr (), s1) \<and>
    session_get (meter (s_server s) (s_client s)) seal fuel cid obis att None t s1 = Some (Inr d, s2)"
  using assms by (rule read_meter)

theorem session_reads_meter_witness:
  "\<exists>s1 s2. associate (meter [0x02, 0x21] [0x21]) (demo_session Hdlc_mode None
        ((UA, []) # (0, LLC_RESPONSE @ demo_aare) # block_answers [(0, 1, [0x12]), (0, 2, [0x01, 0xF4])]))
      = (Inr (), s1) \<and>
    session_get (meter [0x02, 0x21] [0x21]) zero_seal 1 3 [1, 0, 1, 8, 0, 255] 2 None None s1
      = Some (Inr (ax_u16 500), s2)"
proof -
  define w where "w = (UA, []) # (0, LLC_RESPONSE @ demo_aare) #
    block_answers [(0, 1, [0x12]), (0, 2, [0x01, 0xF4 :: byte])]"
  define s where "s = demo_session Hdlc_mode None w"
  have inv: "session_inv s" unfolding s_def by (rule demo_inv)
  have s: "s_mode s = Hdlc_mode" "s_security s = None" "s_state s = Idle \<or> s_state s = Released"
    "s_world s = w" "s_ciphered s = False" "s_password s = None" "s_server s = [0x02, 0x21]" "s_client s = [0x21]"
    by (simp_all add: s_def demo_session_def)
  have a: "answer_ok 0 demo_aare" by (simp add: answer_ok_def is_i_frame_def demo_aare_length)
  obtain r where r: "parse_aare demo_aare = Inr r" "accepted r" using demo_aare_accepted by blast
  obtain apdu where q: "build_aarq (s_ciphered s) (s_password s) 0xFFFF = Inr apdu" "length apdu \<le> 2000"
    using demo_aarq s by auto
  have ok: "list_all blk_ok [(0, 1, [0x12]), (0, 2, [0x01, 0xF4])]"
    by (simp add: blk_ok_def is_i_frame_def)
  have wf: "wf_cosem (ax_u16 500)"
    by (simp add: ax_u16_def wf_cosem.simps tag_defs VInt_in_def is_VInt_def)
  have e: "encode (ax_u16 500) = Inr (concat (map (\<lambda>b. snd (snd b)) [(0 :: int, 1 :: int, [0x12]), (0, 2, [0x01, 0xF4])]))"
    by (simp add: ax_u16_def tag_defs enc_fixed_def to_bytes_def be_bytes_2)
  show ?thesis
    using session_reads_meter [OF inv s(1-3) s(4) [unfolded w_def] a r q ok _ _ _ _ wf e,
      of 1 "[1, 0, 1, 8, 0, 255]" 3 zero_seal 2 None]
    unfolding s(7,8) by (simp add: s_def w_def)
qed

text \<open>C2: whatever the transport answers and whichever public methods are called in whichever
  order, a session keeps its addresses the encodings of its SAP and device numbers, its invoke
  identifier in 1 to 15, its sequence numbers in 0 to 7 and its security context well-formed.\<close>

theorem session_invariant:
  assumes "new_session w sap lg ph t ciph pw sec mode = Inr s0"
    and "\<And>c. sec = Some c \<Longrightarrow> security_wf c"
    and "session_run xchg seal s0 s"
  shows "session_inv s"
  using assms(3) new_session_inv(1) [OF assms(1,2)] by (rule run_inv)

theorem session_invariant_witness:
  "session_inv (snd (associate (meter [0x02, 0x21] [0x21]) (demo_session Hdlc_mode None [])))"
proof -
  obtain r s1 where s1: "associate (meter [0x02, 0x21] [0x21]) (demo_session Hdlc_mode None []) = (r, s1)"
    by (rule prod.exhaust)
  have "session_run (meter [0x02, 0x21] [0x21]) zero_seal (demo_session Hdlc_mode None []) s1"
    by (rule run_step [OF run_start]) (rule step_associate [OF s1])
  from session_invariant [OF demo_new _ this] s1 show ?thesis by simp
qed

text \<open>C3: a call of a public method associates a session only by a transport reply that carries,
  in the framing of the session's mode, an AARE with result zero.\<close>

theorem associated_only_by_aare:
  assumes "session_step xchg seal s s'" and "s_state s \<noteq> Associated" and "s_state s' = Associated"
  shows "\<exists>frm t w buf apdu a. xchg frm t w = (Inr buf, s_world s') \<and>
    carried (s_mode s) buf apdu \<and> parse_aare apdu = Inr a \<and> accepted a \<and> result_code a = Some 0"
  using step_associated [OF assms] parse_aare_accepted by blast

theorem associated_only_by_aare_witness:
  "\<exists>s s' frm t w buf apdu a. session_step (meter [0x02, 0x21] [0x21]) zero_seal s s' \<and>
     s_state s' = Associated \<and> meter [0x02, 0x21] [0x21] frm t w = (Inr buf, s_world s') \<and>
     parse_aare apdu = Inr a \<and> accepted a"
proof -
  define s where "s = demo_session Hdlc_mode None ((UA, []) # (0, LLC_RESPONSE @ demo_aare) # [])"
  have s: "s_mode s = Hdlc_mode" "s_security s = None" "s_state s = Idle \<or> s_state s = Released"
    "s_world s = (UA, []) # (0, LLC_RESPONSE @ demo_aare) # []" "s_ciphered s = False"
    "s_password s = None" "s_server s = [0x02, 0x21]" "s_client s = [0x21]" "s_state s \<noteq> Associated"
    by (simp_all add: s_def demo_session_def)
  have inv: "session_inv s" unfolding s_def by (rule demo_inv)
  have a: "answer_ok 0 demo_aare" by (simp add: answer_ok_def is_i_frame_def demo_aare_length)
  obtain r where r: "parse_aare demo_aare = Inr r" "accepted r" using demo_aare_accepted by blast
  obtain apdu where q: "build_aarq (s_ciphered s) (s_password s) 0xFFFF = Inr apdu" "length apdu \<le> 2000"
    using demo_aarq s by auto
  from associate_meter [OF inv s(1-4) a r q] obtain s' where
    as: "associate (meter [0x02, 0x21] [0x21]) s = (Inr (), s')" and st: "s_state s' = Associated"
    by (auto simp: ready_def s)
  have step: "session_step (meter [0x02, 0x21] [0x21]) zero_seal s s'" by (rule step_associate [OF as])
  from associated_only_by_aare [OF step s(9) st] step st show ?thesis by blast
qed

text \<open>outside an association every service refuses with \<^verbatim>\<open>SessionError\<close> before anything is
  sent: the session and the transport are left as they were.\<close>

lemma services_need_association:
  assumes "s_state s \<noteq> Associated"
  shows "session_get xchg seal fuel cid obis att acc t s = Some (Inl (SessionError ''not associated''), s) \<and>
    session_set xchg seal cid obis att v t s = (Inl (SessionError ''not associated''), s) \<and>
    session_action xchg seal cid obis mid p t s = (Inl (SessionError ''not associated''), s)"
  by (intro conjI services_not_associated [OF assms])

lemma services_need_association_witness:
  "session_action (meter [0x02, 0x21] [0x21]) zero_seal 3 [1, 0, 1, 8, 0, 255] 1 None None
      (demo_session Hdlc_mode None [])
     = (Inl (SessionError ''not associated''), demo_session Hdlc_mode None [])"
  by (rule services_need_association [THEN conjunct2, THEN conjunct2]) (simp add: demo_session_def)



text \<open>C40: a meter that answers every request for the next block with the same unfinished block
  keeps \<^verbatim>\<open>get\<close> in its loop for as long as it answers: there is no bound on the number of blocks.\<close>

theorem get_without_bound:
  assumes "link_addresses srv cl" and "length chunk \<le> 1900"
    and "length obis = 6" and "0 \<le> cid" and "cid < 65536"
    and "ready srv cl (replicate (Suc fuel) (same_block chunk)) s"
  shows "session_get (meter srv cl) seal fuel cid obis att None t s = None"
  using assms by (rule session_get_endless)

theorem get_without_bound_witness:
  "session_get (meter [0x02, 0x21] [0x21]) zero_seal 100 3 [1, 0, 1, 8, 0, 255] 2 None None
     ((demo_session Hdlc_mode None (replicate 101 (same_block [0x12])))\<lparr>s_state := Associated\<rparr>) = None"
proof (rule get_without_bound)
  show "link_addresses [0x02, 0x21] [0x21]" by (simp add: link_addresses_def addr_field_def)
  show "ready [0x02, 0x21] [0x21] (replicate (Suc 100) (same_block [0x12]))
     ((demo_session Hdlc_mode None (replicate 101 (same_block [0x12])))\<lparr>s_state := Associated\<rparr>)"
    by (simp add: ready_def linked_def demo_session_def del: replicate.simps)
qed simp_all

end
