(* ===== verification/Link.thy ===== *)
theory Link
  imports Session
begin

text \<open>
  The three transports, \<^verbatim>\<open>opt/sa02m-spodes/sa02m_spodes/link.py\<close>: the UART, the transparent
  gateway socket and the TCP wrapper socket.  The world of a transport is what its calls
  observe, in order: the readings of \<^verbatim>\<open>time.monotonic()\<close> in the loop test and the outcome of every
  read.  Past the end of the clock readings the deadline is taken to have passed.

  The session relies on its transport through the locale \<open>framed_transport\<close>: an exchange
  that returns, returns exactly one frame.  The interpretations show it for the code's transports.
\<close>

section \<open>The contract\<close>

locale framed_transport =
  fixes xchg :: "bytes \<Rightarrow> int \<Rightarrow> 'w \<Rightarrow> bytes result \<times> 'w"
    and dec :: "bytes \<Rightarrow> ('f \<times> bytes) result"
  assumes framed: "xchg frm t w = (Inr reply, w') \<Longrightarrow> \<exists>f. dec reply = Inr (f, [])"

text \<open>Over such a transport the framing errors of a session are the ones of the link itself.\<close>

locale hdlc_transport = framed_transport xchg parse_frame
  for xchg :: "bytes \<Rightarrow> int \<Rightarrow> 'w \<Rightarrow> bytes result \<times> 'w"
begin

lemma one_frame_ok: "xchg frm t w = (Inr reply, w') \<Longrightarrow> \<exists>f. one_frame reply = Inr f"
  by (drule framed) (auto simp: one_frame_Inr)

lemma hdlc_data_error:
  assumes "hdlc_data xchg apdu t s = (Inl e, s')" and "s_mode s = Hdlc_mode"
    and "build_frame (s_server s) (s_client s) (i_control (s_ns s) (s_nr s) 1) (LLC_REQUEST @ apdu) = Inr frm"
  shows "e = SessionError ''expected I-frame'' \<or> (\<exists>w. xchg frm t (s_world s) = (Inl e, w))"
proof -
  obtain r w where x: "xchg frm t (s_world s) = (r, w)" by force
  then have ex: "exchange xchg frm t s = (r, s\<lparr>s_world := w\<rparr>)" by (simp add: exchange_def)
  show ?thesis
  proof (cases r)
    case (Inl e')
    with assms ex x show ?thesis by (auto simp: hdlc_data_def bindM_run_error)
  next
    case (Inr reply)
    with one_frame_ok x obtain f where "one_frame reply = Inr f" by blast
    with assms ex Inr show ?thesis by (auto simp: hdlc_data_def bindM_run split: if_splits)
  qed
qed

end

locale wrapper_transport = framed_transport xchg parse_wrapper
  for xchg :: "bytes \<Rightarrow> int \<Rightarrow> 'w \<Rightarrow> bytes result \<times> 'w"
begin

lemma hdlc_data_reply:
  assumes "xchg frm t (s_world s) = (Inr reply, w)" and "s_mode s = Wrapper_mode"
    and "build_wrapper apdu (s_client_sap s) (s_physical s) WRAPPER_VERSION = Inr frm"
  shows "\<exists>p. hdlc_data xchg apdu t s = (Inr p, s\<lparr>s_world := w\<rparr>)"
proof -
  from framed [OF assms(1)] obtain p where "parse_wrapper reply = Inr (p, [])" by blast
  with assms show ?thesis
    by (simp add: hdlc_data_def exchange_def bindM_run convertM_def catchM_def)
qed

end

section \<open>One HDLC frame out of a buffer\<close>

definition take_hdlc :: "bytes \<Rightarrow> bytes option result" where
  "take_hdlc buf =
     (case find_byte FLAG buf of
        None \<Rightarrow> Inr None
      | Some start \<Rightarrow>
          (case parse_frame (drop start buf) of
             Inl (IncompleteFrame _) \<Rightarrow> Inr None
           | Inl (HdlcError _) \<Rightarrow> Inr None
           | Inl e \<Rightarrow> Inl e
           | Inr (_, rest) \<Rightarrow> Inr (Some (slice start (start + (length buf - start - length rest)) buf))))"

lemma take_hdlc_framed:
  assumes "take_hdlc buf = Inr (Some got)"
  shows "\<exists>f. parse_frame got = Inr (f, [])"
proof -
  from assms obtain start f rest where p: "parse_frame (drop start buf) = Inr (f, rest)"
    and got: "got = slice start (start + (length buf - start - length rest)) buf"
    by (auto simp: take_hdlc_def split: option.splits sum.splits exn.splits prod.splits)
  have "got = take (length (drop start buf) - length rest) (drop start buf)"
    by (simp add: got slice_def)
  with hdlc_prefix.cut [OF p] show ?thesis by auto
qed

section \<open>The UART\<close>

record uart =
  u_clock :: "int list"
  u_reads :: "bytes list"
  u_written :: "bytes list"

text \<open>The next outcome of a read; an exhausted port stays silent.\<close>

fun next_read :: "bytes list \<Rightarrow> bytes \<times> bytes list" where
  "next_read [] = ([], [])"
| "next_read (c # cs) = (c, cs)"

fun uart_loop :: "int \<Rightarrow> bytes \<Rightarrow> int list \<Rightarrow> bytes list \<Rightarrow> bytes result \<times> int list \<times> bytes list" where
  "uart_loop deadline buf [] cs = (Inl (TimeoutError ''hdlc''), [], cs)"
| "uart_loop deadline buf (now # ts) cs =
     (if \<not> now < deadline then (Inl (TimeoutError ''hdlc''), ts, cs)
      else let (chunk, cs') = next_read cs in
        if chunk = [] then uart_loop deadline buf ts cs'
        else (case take_hdlc (buf @ chunk) of
            Inl e \<Rightarrow> (Inl e, ts, cs')
          | Inr (Some got) \<Rightarrow> (Inr got, ts, cs')
          | Inr None \<Rightarrow> uart_loop deadline (buf @ chunk) ts cs'))"

fun uart_exchange :: "bytes \<Rightarrow> int \<Rightarrow> uart \<Rightarrow> bytes result \<times> uart" where
  "uart_exchange frm t u =
     (case u_clock u of
        [] \<Rightarrow> (Inl (TimeoutError ''hdlc''), u\<lparr>u_written := u_written u @ [frm]\<rparr>)
      | t0 # ts \<Rightarrow>
          let (r, ts', cs') = uart_loop (t0 + t) [] ts (u_reads u)
          in (r, \<lparr>u_clock = ts', u_reads = cs', u_written = u_written u @ [frm]\<rparr>))"

lemma uart_loop_framed:
  "uart_loop deadline buf ts cs = (Inr got, ts', cs') \<Longrightarrow> \<exists>f. parse_frame got = Inr (f, [])"
  by (induction deadline buf ts cs rule: uart_loop.induct)
    (auto split: if_splits sum.splits option.splits prod.splits dest: take_hdlc_framed)

interpretation uart: hdlc_transport uart_exchange
  by unfold_locales
    (auto split: list.splits prod.splits dest: uart_loop_framed)

section \<open>The transparent gateway socket\<close>

text \<open>One \<^verbatim>\<open>recv\<close>: data, nothing before the time limit (or nothing pending), closed, or an error.\<close>

datatype recv = Chunk bytes | Nothing | Closed | Broken string

record tsock =
  t_dead :: bool
  t_buf :: bytes
  t_clock :: "int list"
  t_recv :: "recv list"
  t_send_ok :: bool
  t_sent :: "bytes list"

fun next_recv :: "recv list \<Rightarrow> recv \<times> recv list" where
  "next_recv [] = (Nothing, [])"
| "next_recv (e # es) = (e, es)"

text \<open>\<^verbatim>\<open>_discard_pending\<close>: an error other than "nothing pending" leaves the method.\<close>

fun discard_pending :: "recv list \<Rightarrow> unit result \<times> bool \<times> recv list" where
  "discard_pending [] = (Inr (), False, [])"
| "discard_pending (Chunk b # es) = (if b = [] then (Inr (), True, es) else discard_pending es)"
| "discard_pending (Nothing # es) = (Inr (), False, es)"
| "discard_pending (Closed # es) = (Inr (), True, es)"
| "discard_pending (Broken m # es) = (Inl (OSError m), False, es)"

fun trans_loop :: "int \<Rightarrow> bytes \<Rightarrow> bool \<Rightarrow> int list \<Rightarrow> recv list
    \<Rightarrow> bytes result \<times> bytes \<times> bool \<times> int list \<times> recv list" where
  "trans_loop deadline buf dead [] es = (Inl (TimeoutError ''transparent''), buf, dead, [], es)"
| "trans_loop deadline buf dead (now # ts) es =
     (if \<not> now < deadline then (Inl (TimeoutError ''transparent''), buf, dead, ts, es)
      else let (e, es') = next_recv es in
        case e of
          Nothing \<Rightarrow> (Inl (TimeoutError ''transparent''), buf, dead, ts, es')
        | Closed \<Rightarrow> (Inl (TimeoutError ''transparent''), buf, True, ts, es')
        | Broken m \<Rightarrow> (Inl (OSError m), buf, True, ts, es')
        | Chunk b \<Rightarrow>
            if b = [] then (Inl (TimeoutError ''transparent''), buf, True, ts, es')
            else (case take_hdlc (buf @ b) of
                Inl x \<Rightarrow> (Inl x, buf @ b, dead, ts, es')
              | Inr (Some got) \<Rightarrow>
                  (Inr got, drop (the (find_byte FLAG (buf @ b)) + length got) (buf @ b), dead, ts, es')
              | Inr None \<Rightarrow> trans_loop deadline (buf @ b) dead ts es'))"

text \<open>After the frame is sent: wait for the answer.\<close>

definition trans_wait :: "bytes \<Rightarrow> int \<Rightarrow> bool \<Rightarrow> recv list \<Rightarrow> tsock \<Rightarrow> bytes result \<times> tsock" where
  "trans_wait frm t gone es s =
     (case t_clock s of
        [] \<Rightarrow> (Inl (TimeoutError ''transparent''),
               s\<lparr>t_buf := [], t_recv := es, t_dead := gone, t_sent := t_sent s @ [frm]\<rparr>)
      | t0 # ts \<Rightarrow>
          (case trans_loop (t0 + t) [] gone ts es of
             (r, buf, dead, ts', es') \<Rightarrow>
               (r, s\<lparr>t_buf := buf, t_dead := dead, t_clock := ts', t_recv := es',
                     t_sent := t_sent s @ [frm]\<rparr>)))"

definition trans_exchange :: "bytes \<Rightarrow> int \<Rightarrow> tsock \<Rightarrow> bytes result \<times> tsock" where
  "trans_exchange frm t s =
     (if t_dead s then (Inl (OSError ''transparent link closed''), s)
      else case discard_pending (t_recv s) of (r, gone, es) \<Rightarrow>
        (case r of
           Inl x \<Rightarrow> (Inl x, s\<lparr>t_buf := [], t_recv := es\<rparr>)
         | Inr _ \<Rightarrow>
             if \<not> t_send_ok s then
               (Inl (OSError ''send''), s\<lparr>t_buf := [], t_recv := es, t_dead := True\<rparr>)
             else trans_wait frm t gone es s))"

lemma trans_loop_framed:
  "trans_loop deadline buf dead ts es = (Inr got, rest) \<Longrightarrow> \<exists>f. parse_frame got = Inr (f, [])"
proof (induction deadline buf dead ts es rule: trans_loop.induct)
  case (2 deadline buf dead now ts es)
  obtain e es' where e: "next_recv es = (e, es')" by force
  from "2.prems" e obtain b where now: "now < deadline" and b: "e = Chunk b" "b \<noteq> []"
    by (cases e) (auto split: if_splits)
  show ?case
  proof (cases "take_hdlc (buf @ b)")
    case (Inl x)
    with "2.prems" e now b show ?thesis by simp
  next
    case (Inr o')
    show ?thesis
    proof (cases o')
      case None
      with "2.prems" e now b Inr have t: "trans_loop deadline (buf @ b) dead ts es' = (Inr got, rest)" by simp
      show ?thesis by (rule "2.IH" [OF _ refl _ b(1,2) Inr None t]) (use e now in simp_all)
    next
      case (Some g)
      with "2.prems" e now b Inr show ?thesis by (auto dest: take_hdlc_framed)
    qed
  qed
qed simp

lemma trans_wait_framed:
  assumes "trans_wait frm t gone es s = (Inr reply, s')"
  shows "\<exists>f. parse_frame reply = Inr (f, [])"
proof (cases "t_clock s")
  case Nil
  with assms show ?thesis by (simp add: trans_wait_def)
next
  case (Cons t0 ts)
  obtain r rest where "trans_loop (t0 + t) [] gone ts es = (r, rest)" by (rule prod.exhaust)
  with assms Cons trans_loop_framed [of "t0 + t" "[]" gone ts es reply rest] show ?thesis
    by (cases rest) (simp add: trans_wait_def)
qed

interpretation trans: hdlc_transport trans_exchange
proof unfold_locales
  fix frm t s reply s'
  assume "trans_exchange frm t s = (Inr reply, s')"
  then obtain gone es where "trans_wait frm t gone es s = (Inr reply, s')"
    by (auto simp: trans_exchange_def split: if_splits prod.splits sum.splits)
  then show "\<exists>f. parse_frame reply = Inr (f, [])" by (rule trans_wait_framed)
qed

section \<open>The wrapper socket\<close>

record wsock =
  w_buf :: bytes
  w_clock :: "int list"
  w_recv :: "recv list"
  w_send_ok :: bool
  w_sent :: "bytes list"

fun wrap_loop :: "int \<Rightarrow> bytes \<Rightarrow> int list \<Rightarrow> recv list
    \<Rightarrow> bytes result \<times> bytes \<times> int list \<times> recv list" where
  "wrap_loop deadline buf [] es = (Inl (TimeoutError ''wrapper''), buf, [], es)"
| "wrap_loop deadline buf (now # ts) es =
     (if \<not> now < deadline then (Inl (TimeoutError ''wrapper''), buf, ts, es)
      else let need = 8 + nat (from_be (slice 6 8 buf)) in
        if length buf \<ge> 8 \<and> length buf \<ge> need then (Inr (take need buf), drop need buf, ts, es)
        else let (e, es') = next_recv es in
          case e of
            Nothing \<Rightarrow> (Inl (TimeoutError ''wrapper''), buf, ts, es')
          | Closed \<Rightarrow> (Inl (TimeoutError ''wrapper''), buf, ts, es')
          | Broken m \<Rightarrow> (Inl (OSError m), buf, ts, es')
          | Chunk b \<Rightarrow> if b = [] then (Inl (TimeoutError ''wrapper''), buf, ts, es')
                       else wrap_loop deadline (buf @ b) ts es')"

fun wrap_exchange :: "bytes \<Rightarrow> int \<Rightarrow> wsock \<Rightarrow> bytes result \<times> wsock" where
  "wrap_exchange frm t s =
     (if \<not> w_send_ok s then (Inl (OSError ''send''), s)
      else case w_clock s of
        [] \<Rightarrow> (Inl (TimeoutError ''wrapper''), s\<lparr>w_sent := w_sent s @ [frm]\<rparr>)
      | t0 # ts \<Rightarrow>
          let (r, buf, ts', es') = wrap_loop (t0 + t) (w_buf s) ts (w_recv s)
          in (r, s\<lparr>w_buf := buf, w_clock := ts', w_recv := es', w_sent := w_sent s @ [frm]\<rparr>))"

lemma parse_wrapper_exact:
  assumes "8 \<le> length buf" and "8 + nat (from_be (slice 6 8 buf)) \<le> length buf"
  shows "\<exists>p. parse_wrapper (take (8 + nat (from_be (slice 6 8 buf))) buf) = Inr (p, [])"
proof -
  define n where "n = nat (from_be (slice 6 8 buf))"
  have "slice 6 8 (take (8 + n) buf) = slice 6 8 buf" by (simp add: slice_def drop_take min_def)
  with assms show ?thesis unfolding n_def [symmetric] by (simp add: parse_wrapper_def n_def Let_def)
qed

lemma wrap_loop_framed:
  "wrap_loop deadline buf ts es = (Inr got, rest) \<Longrightarrow> \<exists>p. parse_wrapper got = Inr (p, [])"
proof (induction deadline buf ts es rule: wrap_loop.induct)
  case (2 deadline buf now ts es)
  then show ?case using parse_wrapper_exact [of buf]
    by (auto simp: Let_def split: if_splits prod.splits recv.splits)
qed simp

interpretation wrap: wrapper_transport wrap_exchange
  by unfold_locales
    (auto split: list.splits prod.splits if_splits dest: wrap_loop_framed)

section \<open>Left-over bytes\<close>

text \<open>What a gateway sent before the next request is thrown away, whatever it was.\<close>

lemma discard_chunks:
  "list_all (\<lambda>b. b \<noteq> []) stale \<Longrightarrow>
     discard_pending (map Chunk stale @ Nothing # es) = (Inr (), False, es)"
  by (induction stale) auto

lemma trans_exchange_fresh:
  assumes "\<not> t_dead s" and "list_all (\<lambda>b. b \<noteq> []) stale" and "t_recv s = map Chunk stale @ Nothing # es"
  shows "trans_exchange frm t s = trans_exchange frm t (s\<lparr>t_buf := [], t_recv := Nothing # es\<rparr>)"
  using assms discard_chunks [OF assms(2), of es]
  by (simp add: trans_exchange_def trans_wait_def split: list.splits)

text \<open>The wrapper socket keeps them: a late answer is handed out for the next request.\<close>

lemma wrap_exchange_stale:
  assumes "w_send_ok s" and "w_clock s = t0 # now # ts" and "now < t0 + t"
    and "build_wrapper p sr ds 1 = Inr late" and "w_buf s = late @ extra"
  shows "\<exists>s'. wrap_exchange frm t s = (Inr late, s') \<and> w_buf s' = extra"
proof -
  from assms(4) have len: "length p \<le> 0xFFFF"
    and late: "late = (be_bytes 2 1 @ be_bytes 2 (sr mod 0x10000) @ be_bytes 2 (ds mod 0x10000))
       @ be_bytes 2 (int (length p)) @ p"
    by (auto simp: build_wrapper_Inr)
  have "slice 6 8 (late @ extra) = be_bytes 2 (int (length p))" by (simp add: slice_def late)
  moreover have "from_be (be_bytes 2 (int (length p))) = int (length p)"
    using len by (simp add: from_be_be_bytes)
  moreover have "length late = 8 + length p" by (simp add: late)
  ultimately have "wrap_loop (t0 + t) (late @ extra) (now # ts) es = (Inr late, extra, ts, es)" for es
    using assms(3) by (simp add: Let_def)
  then show ?thesis using assms(1,2,5) by (simp del: wrap_loop.simps)
qed

text \<open>A reset seen while discarding raises without marking the link dead.\<close>

lemma trans_exchange_reset:
  assumes "\<not> t_dead s" and "t_recv s = Broken m # es"
  shows "trans_exchange frm t s = (Inl (OSError m), s\<lparr>t_buf := [], t_recv := es\<rparr>)"
  using assms by (simp add: trans_exchange_def)

lemma trans_exchange_dead: "t_dead s \<Longrightarrow> trans_exchange frm t s = (Inl (OSError ''transparent link closed''), s)"
  by (simp add: trans_exchange_def)

section \<open>Properties\<close>

text \<open>an exchange of the UART and of the transparent socket that returns at all returns exactly
  one complete, valid HDLC frame, and one of the wrapper socket exactly one wrapper frame, however
  the bytes arrive: what is passed on to the session never has a partial frame or bytes of a second
  one.\<close>

lemma exchanges_deliver_one_frame:
  "(case fst (uart_exchange frm t u) of Inr reply \<Rightarrow> \<exists>f. parse_frame reply = Inr (f, []) | Inl _ \<Rightarrow> True) \<and>
   (case fst (trans_exchange frm t s) of Inr reply \<Rightarrow> \<exists>f. parse_frame reply = Inr (f, []) | Inl _ \<Rightarrow> True) \<and>
   (case fst (wrap_exchange frm t w) of Inr reply \<Rightarrow> \<exists>p. parse_wrapper reply = Inr (p, []) | Inl _ \<Rightarrow> True)"
  using uart.framed [of frm t u] trans.framed [of frm t s] wrap.framed [of frm t w]
  by (auto split: sum.splits simp del: uart_exchange.simps wrap_exchange.simps)
    (metis prod.collapse)+

text \<open>whatever complete chunks a transparent gateway left pending before a request, the
  exchange behaves as if the socket had been empty: nothing sent earlier is taken for the answer.\<close>

lemma transparent_ignores_leftovers:
  assumes "\<not> t_dead s" and "list_all (\<lambda>b. b \<noteq> []) stale" and "t_recv s = map Chunk stale @ Nothing # es"
  shows "trans_exchange frm t s = trans_exchange frm t (s\<lparr>t_buf := [], t_recv := Nothing # es\<rparr>)"
  using assms by (rule trans_exchange_fresh)

definition demo_tsock :: "recv list \<Rightarrow> tsock" where
  "demo_tsock es = \<lparr>t_dead = False, t_buf = [0xAA], t_clock = [0, 1], t_recv = es, t_send_ok = True, t_sent = []\<rparr>"

lemma transparent_ignores_leftovers_witness:
  "trans_exchange [1] 5 (demo_tsock [Chunk [0x7E], Chunk [1, 2], Nothing, Closed])
     = trans_exchange [1] 5 ((demo_tsock [Nothing, Closed])\<lparr>t_buf := []\<rparr>)"
  using transparent_ignores_leftovers [of "demo_tsock [Chunk [0x7E], Chunk [1, 2], Nothing, Closed]"
      "[[0x7E], [1, 2]]" "[Closed]" "[1]" 5]
  by (simp add: demo_tsock_def)

text \<open>the wrapper socket keeps what arrived late: a complete answer left in its buffer, which
  the previous request gave up waiting for, is handed out as the answer to the next request.\<close>

lemma wrapper_answers_late:
  assumes "w_send_ok s" and "w_clock s = t0 # now # ts" and "now < t0 + t"
    and "build_wrapper p sr ds 1 = Inr late" and "w_buf s = late @ extra"
  shows "\<exists>s'. wrap_exchange frm t s = (Inr late, s') \<and> w_buf s' = extra"
  using assms by (rule wrap_exchange_stale)

lemma wrapper_answers_late_witness:
  "\<exists>late s'. build_wrapper [0xC4] 1 16 1 = Inr late \<and>
     wrap_exchange [0xC0] 5 \<lparr>w_buf = late, w_clock = [0, 1], w_recv = [], w_send_ok = True, w_sent = []\<rparr>
       = (Inr late, s')"
proof -
  obtain late where l: "build_wrapper [0xC4] 1 16 1 = Inr late"
    by (simp add: build_wrapper_def to_bytes_def)
  show ?thesis
    using wrapper_answers_late [of "\<lparr>w_buf = late, w_clock = [0, 1], w_recv = [], w_send_ok = True, w_sent = []\<rparr>"
        0 1 "[]" 5 "[0xC4]" 1 16 late "[]" "[0xC0]"] l
    by (auto simp del: wrap_exchange.simps)
qed

end
