(* ===== verification/Modbus_Rtu.thy ===== *)
theory Modbus_Rtu
  imports Crc Effect
begin

text \<open>
  Modbus RTU requests and responses,
  \<^verbatim>\<open>opt/sa02m-flasher/sa02m_flasher/modbus_rtu.py\<close>: the check word, the request builders, the
  serial-addressed "fast Modbus" frames, the bus-scan answer and the response parser with
  its search for a frame start.  The error texts are the constructors of \<open>rtu_error\<close>; the log
  callback is left out.
\<close>

section \<open>Check word\<close>

definition crc16_modbus :: "bytes \<Rightarrow> 16 word" where
  "crc16_modbus data = foldl (crc_byte 0xA001) 0xFFFF data"

definition nmbs_crc_calc :: "bytes \<Rightarrow> 16 word" where
  "nmbs_crc_calc data = (let r = crc16_modbus data in push_bit 8 r OR drop_bit 8 r)"

section \<open>Requests\<close>

text \<open>\<^verbatim>\<open>struct.pack(">H", n & 0xFFFF)\<close>, and the address octet \<^verbatim>\<open>bytes([slave])\<close>.\<close>

definition u16 :: "int \<Rightarrow> bytes" where "u16 n = be_bytes 2 (n AND 0xFFFF)"

definition octet :: "int \<Rightarrow> byte result" where
  "octet n = (if 0 \<le> n \<and> n < 256 then Inr (word_of_int n) else Inl (ValueError ''bytes must be in range(0, 256)''))"

definition with_crc :: "bytes \<Rightarrow> bytes" where
  "with_crc frm = frm @ le16 (crc16_modbus frm)"

definition rtu_frame :: "int \<Rightarrow> bytes \<Rightarrow> bytes result" where
  "rtu_frame slave body = bindE (octet slave) (\<lambda>s. Inr (with_crc (s # body)))"

definition build_read_holding_registers_body :: "int \<Rightarrow> int \<Rightarrow> bytes result" where
  "build_read_holding_registers_body start_addr count =
     (if \<not> (1 \<le> count \<and> count \<le> 125) then Inl (ValueError ''count must be 1..125'')
      else Inr (0x03 # u16 start_addr @ u16 count))"

definition build_read_holding_registers :: "int \<Rightarrow> int \<Rightarrow> int \<Rightarrow> bytes result" where
  "build_read_holding_registers slave start_addr count =
     (if \<not> (1 \<le> count \<and> count \<le> 125) then Inl (ValueError ''count must be 1..125'')
      else rtu_frame slave (0x03 # u16 start_addr @ u16 count))"

definition build_read_input_registers :: "int \<Rightarrow> int \<Rightarrow> int \<Rightarrow> bytes result" where
  "build_read_input_registers slave start_addr count =
     (if \<not> (1 \<le> count \<and> count \<le> 125) then Inl (ValueError ''count must be 1..125'')
      else rtu_frame slave (0x04 # u16 start_addr @ u16 count))"

definition build_read_discrete_inputs :: "int \<Rightarrow> int \<Rightarrow> int \<Rightarrow> bytes result" where
  "build_read_discrete_inputs slave start_addr count =
     (if \<not> (1 \<le> count \<and> count \<le> 2000) then Inl (ValueError ''count must be 1..2000'')
      else rtu_frame slave (0x02 # u16 start_addr @ u16 count))"

definition build_report_slave_id :: "int \<Rightarrow> bytes" where
  "build_report_slave_id slave = with_crc [word_of_int (slave AND 0xFF), 0x11]"

definition build_read_coils :: "int \<Rightarrow> int \<Rightarrow> int \<Rightarrow> bytes result" where
  "build_read_coils slave start_addr count =
     (if \<not> (1 \<le> count \<and> count \<le> 2000) then Inl (ValueError ''count must be 1..2000'')
      else rtu_frame slave (0x01 # u16 start_addr @ u16 count))"

definition build_write_coil :: "int \<Rightarrow> int \<Rightarrow> bool \<Rightarrow> bytes result" where
  "build_write_coil slave coil_addr on =
     rtu_frame slave (0x05 # u16 coil_addr @ u16 (if on then 0xFF00 else 0x0000))"

definition build_write_single_register_body :: "int \<Rightarrow> int \<Rightarrow> bytes" where
  "build_write_single_register_body reg_addr v = 0x06 # u16 reg_addr @ u16 v"

definition build_write_single_register :: "int \<Rightarrow> int \<Rightarrow> int \<Rightarrow> bytes result" where
  "build_write_single_register slave reg_addr v =
     rtu_frame slave (build_write_single_register_body reg_addr v)"

definition build_write_multiple_registers_body :: "int \<Rightarrow> int list \<Rightarrow> bytes result" where
  "build_write_multiple_registers_body start_addr vs =
     (let count = length vs in
      if \<not> (1 \<le> count \<and> count \<le> 127) then Inl (ValueError ''count must be 1..127'')
      else Inr (0x10 # u16 start_addr @ u16 (int count) @ [word_of_int (int (count * 2))] @
                concat (map u16 vs)))"

definition build_write_multiple_registers :: "int \<Rightarrow> int \<Rightarrow> int list \<Rightarrow> bytes result" where
  "build_write_multiple_registers slave start_addr vs =
     bindE (build_write_multiple_registers_body start_addr vs) (rtu_frame slave)"

definition build_fast_modbus_request :: "int \<Rightarrow> bytes \<Rightarrow> bytes" where
  "build_fast_modbus_request serial inner_pdu =
     with_crc ([0xFD, 0x46, 0x08] @ be_bytes 4 (serial AND 0xFFFFFFFF) @ inner_pdu)"

definition build_wb_ext_scan_cmd :: "byte \<Rightarrow> bytes" where
  "build_wb_ext_scan_cmd subcmd = with_crc [0xFD, 0x46, subcmd]"

section \<open>Answers\<close>

datatype rtu_error =
    Too_short | Short_0x46 | Exception_code int | Bad_crc | Bad_length string
  | Unknown_function int | Wrong_serial int int | Not_fast_response | No_frame

type_synonym rtu_answer = "int option \<times> bytes option \<times> rtu_error option"

text \<open>
  One position of the loop of \<^verbatim>\<open>parse_fast_modbus_response\<close>: the serial number seen there, and the
  answer when the loop ends here.
\<close>

definition fast_inner_len :: "bytes \<Rightarrow> nat \<Rightarrow> nat option" where
  "fast_inner_len data i =
     (let f = data ! (i + 7) in
      if f = 0x06 \<or> f = 0x10 then Some 5
      else if f = 0x03 then (if i + 9 > length data then None else Some (2 + unat (data ! (i + 8))))
      else if f AND 0x80 \<noteq> 0 then Some 2
      else None)"

definition fast_answer :: "int \<Rightarrow> bytes \<Rightarrow> rtu_answer" where
  "fast_answer serial inner =
     (if length inner < 1 then (Some serial, None, None)
      else let func = inner ! 0 in
        if func AND 0x80 \<noteq> 0 then
          (Some serial, None, Some (Exception_code (if length inner \<ge> 2 then uint (inner ! 1) else 0)))
        else if func = 0x03 then
          if length inner < 2 then (None, None, Some (Bad_length ''0x03 in 0x46''))
          else if length inner \<noteq> 2 + unat (inner ! 1) then (None, None, Some (Bad_length ''payload 0x03''))
          else (Some serial, Some (drop 2 inner), None)
        else if func = 0x06 \<or> func = 0x10 then (Some serial, None, None)
        else (Some serial, None, Some (Unknown_function (uint func))))"

definition fast_frame :: "bytes \<Rightarrow> nat \<Rightarrow> int \<Rightarrow> rtu_answer option" where
  "fast_frame data i serial =
     (case fast_inner_len data i of
        None \<Rightarrow> None
      | Some n \<Rightarrow>
          let frame_len = 7 + n + 2; frm = slice i (i + frame_len) data in
          if i + frame_len > length data then None
          else if le16 (crc16_modbus (take (length frm - 2) frm)) \<noteq> drop (length frm - 2) frm then None
          else Some (fast_answer serial (slice 7 (length frm - 2) frm)))"

definition fast_at :: "bytes \<Rightarrow> int option \<Rightarrow> nat \<Rightarrow> int option \<times> rtu_answer option" where
  "fast_at data expected i =
     (if data ! i \<noteq> 0xFD \<or> data ! (i + 1) \<noteq> 0x46 \<or> data ! (i + 2) \<noteq> 0x09 then (None, None)
      else let serial = from_be (slice (i + 3) (i + 7) data);
               other = (case expected of None \<Rightarrow> False
                        | Some x \<Rightarrow> serial AND 0xFFFFFFFF \<noteq> x AND 0xFFFFFFFF) in
        (Some serial, if other \<or> i + 8 > length data then None else fast_frame data i serial))"

fun fast_loop :: "bytes \<Rightarrow> int option \<Rightarrow> nat list \<Rightarrow> int option \<Rightarrow> rtu_answer" where
  "fast_loop data expected [] last_serial =
     (case (expected, last_serial) of
        (Some x, Some l) \<Rightarrow> (Some l, None, Some (Wrong_serial l x))
      | _ \<Rightarrow> (None, None, Some Not_fast_response))"
| "fast_loop data expected (i # is) last_serial =
     (case fast_at data expected i of
        (seen, Some a) \<Rightarrow> a
      | (seen, None) \<Rightarrow>
          fast_loop data expected is (case seen of None \<Rightarrow> last_serial | Some s \<Rightarrow> Some s))"

definition parse_fast_modbus_response :: "bytes \<Rightarrow> int option \<Rightarrow> rtu_answer" where
  "parse_fast_modbus_response data expected =
     (if length data < 9 then (None, None, Some Short_0x46)
      else fast_loop data expected [0..<length data - 8] None)"

text \<open>\<^verbatim>\<open>bin(x).count("1")\<close>.\<close>

definition bit_count :: "16 word \<Rightarrow> nat" where
  "bit_count w = length (filter (bit w) [0..<16])"

definition parse_wb_ext_scan_response :: "bytes \<Rightarrow> nat \<Rightarrow> int option \<times> int option \<times> nat" where
  "parse_wb_ext_scan_response data offset =
     (let d = drop offset data in
      if length d < 10 then (None, None, 0)
      else if d ! 0 \<noteq> 0xFD \<or> d ! 2 \<noteq> 0x03 then (None, None, 0)
      else if d ! 1 \<noteq> 0x46 then (None, None, 0)
      else
        let serial = from_be (slice 3 7 d); modbus_addr = uint (d ! 7) in
        if \<not> (1 \<le> modbus_addr \<and> modbus_addr \<le> 247) then (None, None, 0)
        else
          let calc = nmbs_crc_calc (take 8 d); recv = word16 (d ! 8) (d ! 9) in
          if calc = recv then (Some modbus_addr, Some serial, 10)
          else if bit_count (calc XOR recv) \<le> 6 \<and> serial \<noteq> 0 \<and> serial \<noteq> 0xFFFFFFFF
          then (Some modbus_addr, Some serial, 10)
          else (None, None, 0))"

text \<open>An answer that carries \<open>byte_count\<close> payload bytes after the address, function and count.\<close>

definition counted_answer :: "bytes \<Rightarrow> string \<Rightarrow> rtu_answer" where
  "counted_answer d err =
     (let byte_count = unat (d ! 2); frame_len = 3 + byte_count + 2 in
      if length d < frame_len then (None, None, Some (Bad_length err))
      else if le16 (crc16_modbus (take (3 + byte_count) d)) \<noteq> slice (3 + byte_count) frame_len d
      then (None, None, Some Bad_crc)
      else (Some (uint (d ! 0)), Some (slice 3 (3 + byte_count) d), None))"

definition parse_response_from :: "bytes \<Rightarrow> nat \<Rightarrow> rtu_answer" where
  "parse_response_from data offset =
     (let d = drop offset data in
      if length d < 5 then (None, None, Some Too_short)
      else
        let slave = uint (d ! 0); func = d ! 1 in
        if func AND 0x80 \<noteq> 0 then
          let crc = crc16_modbus (take 3 d) in
          if le16 crc \<noteq> slice 3 5 d \<and> be16 crc \<noteq> slice 3 5 d then
            if 1 \<le> slave \<and> slave \<le> 247 \<and> length d \<ge> 5
            then (Some slave, None, Some (Exception_code (uint (d ! 2))))
            else (None, None, Some Bad_crc)
          else (Some slave, None, Some (Exception_code (uint (d ! 2))))
        else if func \<in> {0x03, 0x04, 0x11} then
          if func = 0x11 \<and> (unat (d ! 2) < 1 \<or> unat (d ! 2) > 246)
          then (None, None, Some (Bad_length ''0x11''))
          else counted_answer d ''0x03/0x04''
        else if func \<in> {0x01, 0x02} then counted_answer d ''0x01/0x02''
        else if func \<in> {0x05, 0x06, 0x10} then
          if length d < 8 then (None, None, Some (Bad_length ''write''))
          else let crc = crc16_modbus (take 6 d) in
            if le16 crc \<noteq> slice 6 8 d \<and> be16 crc \<noteq> slice 6 8 d then (None, None, Some Bad_crc)
            else (Some slave, None, None)
        else (None, None, Some (Unknown_function (uint func))))"

definition known_functions :: "byte set" where
  "known_functions = {0x01, 0x81, 0x02, 0x82, 0x03, 0x83, 0x04, 0x84, 0x05, 0x85, 0x06, 0x10, 0x86, 0x90,
     0x11, 0x91}"

definition expects :: "int option \<Rightarrow> int option \<Rightarrow> bool" where
  "expects expected slave \<longleftrightarrow> expected = None \<or> slave = expected"

fun is_exception :: "rtu_error option \<Rightarrow> bool" where
  "is_exception (Some (Exception_code _)) = True" | "is_exception _ = False"

fun search_frame :: "bytes \<Rightarrow> int option \<Rightarrow> nat list \<Rightarrow> rtu_answer" where
  "search_frame data expected [] = (None, None, Some No_frame)"
| "search_frame data expected (i # is) =
     (if uint (data ! i) < 1 \<or> uint (data ! i) > 247 then search_frame data expected is
      else if data ! (i + 1) \<notin> known_functions then search_frame data expected is
      else if data ! (i + 1) = 0x11 \<and> data ! i = 0x46 then search_frame data expected is
      else (case parse_response_from data i of
          (slave, payload, Some e) \<Rightarrow> search_frame data expected is
        | (slave, payload, None) \<Rightarrow>
            if expects expected slave then (slave, payload, None) else search_frame data expected is))"

definition parse_response :: "bytes \<Rightarrow> int option \<Rightarrow> rtu_answer" where
  "parse_response data expected =
     (if length data < 5 then (None, None, Some Too_short)
      else case parse_response_from data 0 of (slave, payload, err) \<Rightarrow>
        if err = None \<and> expects expected slave then (slave, payload, None)
        else if is_exception err \<and> slave \<noteq> None \<and> expects expected slave
        then (slave, None, err)
        else search_frame data expected [1..<min (length data - 4) 64])"

section \<open>The check on the wire\<close>

interpretation rtu_crc: check_burst "crc_byte 0xA001"
  by (rule check_burst_crc_byte) simp

definition rtu_crc_ok :: "bytes \<Rightarrow> bool" where
  "rtu_crc_ok frm \<longleftrightarrow> (\<exists>body. frm = with_crc body)"

lemma rtu_crc_residue:
  "foldl (crc_byte 0xA001) 0xFFFF (body @ [lo, hi]) = 0 \<longleftrightarrow> [lo, hi] = le16 (crc16_modbus body)"
proof -
  have zero: "(crc_bit 0xA001 ^^ n) 0 = 0" for n by (induction n) (simp_all add: crc_bit_def)
  have "[lo, hi] = le16 (crc16_modbus body) \<longleftrightarrow> crc16_modbus body = word16 hi lo"
    using le16_eq [of "crc16_modbus body" lo hi] by auto
  then show ?thesis
    using crc_residue [of "0xA001" "0xFFFF" body lo hi 0] zero
    by (auto simp: crc16_modbus_def)
qed

lemma rtu_crc_ok_iff:
  assumes "2 \<le> length frm"
  shows "rtu_crc_ok frm \<longleftrightarrow> foldl (crc_byte 0xA001) 0xFFFF frm = 0"
proof -
  obtain body lo hi where frm: "frm = body @ [lo, hi]"
  proof -
    have "length (drop (length frm - 2) frm) = 2" using assms by simp
    then obtain lo hi where "drop (length frm - 2) frm = [lo, hi]"
      by (auto simp: length_Suc_conv numeral_2_eq_2 simp del: length_drop)
    with that show ?thesis by (metis append_take_drop_id)
  qed
  have "rtu_crc_ok frm \<longleftrightarrow> [lo, hi] = le16 (crc16_modbus body)"
  proof
    assume "rtu_crc_ok frm"
    then obtain b where "body @ [lo, hi] = b @ le16 (crc16_modbus b)"
      by (auto simp: rtu_crc_ok_def with_crc_def frm)
    then have "body = b \<and> [lo, hi] = le16 (crc16_modbus b)"
      by (subst (asm) append_eq_append_conv) simp_all
    then show "[lo, hi] = le16 (crc16_modbus body)" by simp
  qed (auto simp: rtu_crc_ok_def with_crc_def frm)
  with rtu_crc_residue show ?thesis by (simp add: frm)
qed

lemma rtu_burst:
  assumes "rtu_crc_ok (xs @ b1 # b2 # ys)" and "(d1, d2) \<noteq> (b1, b2)"
  shows "\<not> rtu_crc_ok (xs @ d1 # d2 # ys)"
  using assms rtu_crc.burst [of "0xFFFF" xs b1 b2 ys d1 d2]
  by (auto simp: rtu_crc_ok_iff)

section \<open>A delivered payload was on the wire with its check\<close>

lemma slice_take_parts: "a \<le> b \<Longrightarrow> take b xs = take a xs @ slice a b xs"
  by (simp add: slice_def) (metis le_add_diff_inverse take_add)

lemma counted_answer_sound:
  assumes "counted_answer d err = (slave, payload, None)" and "5 \<le> length d"
  shows "\<exists>p post. d = with_crc (d ! 0 # d ! 1 # d ! 2 # p) @ post \<and> payload = Some p \<and>
    length p = unat (d ! 2) \<and> slave = Some (uint (d ! 0))"
proof -
  define n where "n = unat (d ! 2)"
  define p where "p = slice 3 (3 + n) d"
  from assms(1) have len: "3 + n + 2 \<le> length d" and slave: "slave = Some (uint (d ! 0))"
    and payload: "payload = Some p" and crc: "le16 (crc16_modbus (take (3 + n) d)) = slice (3 + n) (3 + n + 2) d"
    by (auto simp: counted_answer_def Let_def n_def p_def split: if_splits)
  obtain a b c q where "d = a # b # c # q"
    using len by (cases d; cases "tl d"; cases "tl (tl d)") auto
  then have three: "take 3 d = [d ! 0, d ! 1, d ! 2]" by simp
  have body: "take (3 + n) d = d ! 0 # d ! 1 # d ! 2 # p"
    using slice_take_parts [of 3 "3 + n" d] three by (simp add: p_def)
  have "take (3 + n + 2) d = take (3 + n) d @ slice (3 + n) (3 + n + 2) d"
    by (rule slice_take_parts) simp
  then have "take (3 + n + 2) d = with_crc (d ! 0 # d ! 1 # d ! 2 # p)"
    by (simp only: with_crc_def body [symmetric] crc)
  then have "d = with_crc (d ! 0 # d ! 1 # d ! 2 # p) @ drop (3 + n + 2) d"
    by (metis append_take_drop_id)
  moreover have "length p = n" using len by (simp add: p_def length_slice)
  ultimately show ?thesis using payload slave by (auto simp: n_def)
qed

lemma parse_response_from_sound:
  assumes "parse_response_from data i = (slave, Some p, None)"
  shows "\<exists>s f n post. drop i data = with_crc (s # f # n # p) @ post \<and> length p = unat n \<and>
    slave = Some (uint s) \<and> f \<in> {0x01, 0x02, 0x03, 0x04, 0x11}"
proof -
  let ?d = "drop i data"
  from assms have d: "5 \<le> length ?d" and f: "?d ! 1 \<in> {0x01, 0x02, 0x03, 0x04, 0x11}"
    and c: "\<exists>err. counted_answer ?d err = (slave, Some p, None)"
    by (auto simp: parse_response_from_def Let_def split: if_splits)
  from c obtain err where "counted_answer ?d err = (slave, Some p, None)" ..
  from counted_answer_sound [OF this d] f show ?thesis by blast
qed

lemma search_frame_sound:
  "search_frame data expected is = (slave, payload, None) \<Longrightarrow>
     \<exists>i \<in> set is. parse_response_from data i = (slave, payload, None) \<and> expects expected slave"
  by (induction data expected "is" rule: search_frame.induct)
    (auto split: if_splits prod.splits option.splits)

lemma parse_response_from_ok:
  assumes "parse_response data expected = (slave, payload, None)"
  shows "\<exists>i. parse_response_from data i = (slave, payload, None) \<and> expects expected slave"
proof -
  obtain s p e where 0: "parse_response_from data 0 = (s, p, e)" using prod_cases3 by blast
  show ?thesis
  proof (cases "e = None \<and> expects expected s")
    case True
    with assms 0 have "parse_response_from data 0 = (slave, payload, None) \<and> expects expected slave"
      by (auto simp: parse_response_def split: if_splits)
    then show ?thesis ..
  next
    case False
    with assms 0 have "search_frame data expected [1..<min (length data - 4) 64] = (slave, payload, None)"
      by (auto simp: parse_response_def split: if_splits)
    from search_frame_sound [OF this] show ?thesis by blast
  qed
qed

lemma parse_response_sound:
  assumes "parse_response data expected = (slave, Some p, None)"
  shows "\<exists>pre s f n post. data = pre @ with_crc (s # f # n # p) @ post \<and> length p = unat n \<and>
    slave = Some (uint s) \<and> expects expected slave"
proof -
  from parse_response_from_ok [OF assms] obtain i where
    i: "parse_response_from data i = (slave, Some p, None)" "expects expected slave" by blast
  from parse_response_from_sound [OF i(1)] obtain s f n post where
    "drop i data = with_crc (s # f # n # p) @ post" "length p = unat n" "slave = Some (uint s)" by blast
  then have "data = take i data @ with_crc (s # f # n # p) @ post" by (metis append_take_drop_id)
  with i(2) \<open>length p = unat n\<close> \<open>slave = Some (uint s)\<close> show ?thesis by blast
qed

section \<open>A correct answer is read\<close>

lemma length_with_crc [wire_len]: "length (with_crc b) = length b + 2"
  by (simp add: with_crc_def)

lemma parse_counted:
  assumes "f \<in> {0x01, 0x02, 0x03, 0x04}" and "length p < 256" and "expects expected (Some (uint s))"
  shows "parse_response (with_crc (s # f # of_nat (length p) # p) @ post) expected = (Some (uint s), Some p, None)"
proof -
  define d where "d = with_crc (s # f # of_nat (length p) # p) @ post"
  have n: "unat (of_nat (length p) :: byte) = length p" using assms(2) by (simp add: unat_of_nat)
  have d': "d = (s # f # of_nat (length p) # p) @ le16 (crc16_modbus (s # f # of_nat (length p) # p)) @ post"
    by (simp add: d_def with_crc_def)
  have parts: "d ! 0 = s" "d ! 1 = f" "d ! 2 = of_nat (length p)" by (simp_all add: d')
  have dr: "drop (3 + length p) d = le16 (crc16_modbus (s # f # of_nat (length p) # p)) @ post"
    by (simp add: d' numeral_3_eq_3)
  have c1: "take (3 + length p) d = s # f # of_nat (length p) # p"
    by (simp add: d' numeral_3_eq_3)
  have c2: "slice 3 (3 + length p) d = p" by (simp add: d' slice_def)
  have c3: "slice (3 + length p) (3 + length p + 2) d = le16 (crc16_modbus (s # f # of_nat (length p) # p))"
    unfolding slice_def dr by simp
  have c4: "\<not> length d < 3 + length p + 2" by (simp add: d')
  have ca: "counted_answer d err = (Some (uint s), Some p, None)" for err
    unfolding counted_answer_def Let_def parts n c1 c2 c3 if_not_P [OF c4] by simp
  have len: "\<not> length d < 5" "5 \<le> length d" by (simp_all add: d')
  from assms(1) have "f = 1 \<or> f = 2 \<or> f = 3 \<or> f = 4" by simp
  then have "parse_response_from d 0 = (Some (uint s), Some p, None)"
    unfolding parse_response_from_def Let_def drop_0 parts if_not_P [OF len(1)]
    by (elim disjE) (simp_all add: ca)
  with \<open>5 \<le> length d\<close> assms(3) show ?thesis
    by (simp add: parse_response_def flip: d_def)
qed

lemma parse_write_ack:
  assumes "f \<in> {0x05, 0x06, 0x10}" and "length b = 4" and "expects expected (Some (uint s))"
  shows "parse_response (with_crc (s # f # b) @ post) expected = (Some (uint s), None, None)"
proof -
  define d where "d = with_crc (s # f # b) @ post"
  have d': "d = (s # f # b) @ le16 (crc16_modbus (s # f # b)) @ post" by (simp add: d_def with_crc_def)
  have parts: "d ! 0 = s" "d ! 1 = f" by (simp_all add: d')
  have cut: "take 6 d = s # f # b" "slice 6 8 d = le16 (crc16_modbus (s # f # b))"
    using assms(2) by (simp_all add: d' slice_def)
  have len: "\<not> length d < 5" "\<not> length d < 8" using assms(2) by (simp_all add: d')
  from assms(1) have "f = 5 \<or> f = 6 \<or> f = 16" by simp
  then have "parse_response_from d 0 = (Some (uint s), None, None)"
    unfolding parse_response_from_def Let_def drop_0 parts cut if_not_P [OF len(1)] if_not_P [OF len(2)]
    by (elim disjE) simp_all
  with len assms(3) show ?thesis by (simp add: parse_response_def flip: d_def)
qed

text \<open>An exception is believed whatever its check field says.\<close>

lemma parse_exception_unchecked:
  assumes "1 \<le> uint s" and "uint s \<le> 247" and "f AND 0x80 \<noteq> 0" and "expects expected (Some (uint s))"
  shows "parse_response ([s, f, c, x, y] @ post) expected = (Some (uint s), None, Some (Exception_code (uint c)))"
proof -
  have "parse_response_from ([s, f, c, x, y] @ post) 0 = (Some (uint s), None, Some (Exception_code (uint c)))"
    using assms by (simp add: parse_response_from_def Let_def)
  with assms(4) show ?thesis by (simp add: parse_response_def)
qed

section \<open>Requests\<close>

lemma rtu_frame_Inr: "rtu_frame slave body = Inr b \<longleftrightarrow>
    0 \<le> slave \<and> slave < 256 \<and> b = with_crc (word_of_int slave # body)"
  by (auto simp: rtu_frame_def octet_def)

lemma length_u16 [simp]: "length (u16 n) = 2"
  by (simp add: u16_def)

lemma write_multiple_length:
  assumes "build_write_multiple_registers slave start vs = Inr b"
  shows "length b = 9 + 2 * length vs \<and> rtu_crc_ok b \<and> unat (b ! 6) = 2 * length vs"
proof -
  from assms obtain body where body: "build_write_multiple_registers_body start vs = Inr body"
    and b: "b = with_crc (word_of_int slave # body)"
    by (auto simp: build_write_multiple_registers_def bindE_Inr_conv rtu_frame_Inr)
  from body have n: "1 \<le> length vs" "length vs \<le> 127" and bd: "body = 0x10 # u16 start @ u16 (int (length vs))
      @ [word_of_int (int (length vs * 2))] @ concat (map u16 vs)"
    by (auto simp: build_write_multiple_registers_body_def Let_def split: if_splits)
  have "length (concat (map u16 vs)) = 2 * length vs" by (induction vs) auto
  then have "length body = 6 + 2 * length vs" by (simp add: bd)
  moreover have "b ! 6 = of_nat (length vs * 2)"
    by (simp add: b with_crc_def bd nth_append)
  then have "unat (b ! 6) = length vs * 2 mod 256" by (simp only: unat_of_nat) simp
  then have "unat (b ! 6) = 2 * length vs" using n by simp
  ultimately show ?thesis by (auto simp: b length_with_crc rtu_crc_ok_def)
qed

section \<open>Serial-addressed answers\<close>

lemma and_ffffffff: "(n::int) AND 0xFFFFFFFF = n mod 2 ^ 32"
  using take_bit_eq_mask [of 32 n] by (simp add: take_bit_eq_mod mask_numeral)

lemma parse_fast_read:
  assumes serial: "0 \<le> serial" "serial < 2 ^ 32" and "length p < 256"
  shows "parse_fast_modbus_response
    (with_crc ([0xFD, 0x46, 0x09] @ be_bytes 4 serial @ [0x03, of_nat (length p)] @ p)) (Some serial)
    = (Some serial, Some p, None)"
proof -
  define inner where "inner = [0x03, of_nat (length p)] @ p"
  define body where "body = [0xFD, 0x46, 0x09] @ be_bytes 4 serial @ inner"
  define d where "d = with_crc body"
  have n: "unat (of_nat (length p) :: byte) = length p" using assms(3) by (simp add: unat_of_nat)
  have len: "length d = 7 + (2 + length p) + 2" "length body = 7 + (2 + length p)"
    by (simp_all add: d_def body_def inner_def with_crc_def)
  have d': "d = body @ le16 (crc16_modbus body)" by (simp add: d_def with_crc_def)
  have sl: "slice 3 7 d = be_bytes 4 serial" by (simp add: d' body_def slice_def)
  have s: "from_be (slice 3 7 d) = serial" using serial by (simp add: sl from_be_be_bytes)
  have inner': "slice 7 (length d - 2) d = inner"
    by (simp add: len) (simp add: d' body_def slice_def inner_def)
  have "d ! 7 = 0x03" "d ! 8 = of_nat (length p)"
    by (simp_all add: d' body_def inner_def nth_append)
  then have "fast_inner_len d 0 = Some (2 + length p)"
    using len n by (simp add: fast_inner_len_def)
  moreover have "slice 0 (length d) d = d" by (rule slice_full)
  moreover have "take (length d - 2) d = body" "drop (length d - 2) d = le16 (crc16_modbus body)"
    using len by (simp_all add: d')
  moreover have "fast_answer serial inner = (Some serial, Some p, None)"
    using n by (simp add: fast_answer_def inner_def)
  ultimately have "fast_frame d 0 serial = Some (Some serial, Some p, None)"
    using inner' len by (simp add: fast_frame_def Let_def)
  moreover have "d ! 0 = 0xFD" "d ! 1 = 0x46" "d ! 2 = 0x09" by (simp_all add: d' body_def)
  ultimately have "fast_at d (Some serial) 0 = (Some serial, Some (Some serial, Some p, None))"
    using s len by (simp add: fast_at_def Let_def numeral_2_eq_2)
  moreover have "[0..<length d - 8] = 0 # [1..<length d - 8]"
    using len by (simp add: upt_conv_Cons)
  ultimately have "parse_fast_modbus_response d (Some serial) = (Some serial, Some p, None)"
    using len by (simp add: parse_fast_modbus_response_def)
  then show ?thesis by (simp add: d_def body_def inner_def)
qed

section \<open>Properties\<close>

text \<open>C38: a payload that \<^verbatim>\<open>parse_response\<close> returns without an error really was on the line: the
  buffer contains a frame with a matching CRC and byte count whose data is that payload, from the
  slave reported, which is the expected one.\<close>

theorem response_on_the_line:
  assumes "parse_response data expected = (slave, Some p, None)"
  shows "\<exists>pre s f n post. data = pre @ with_crc (s # f # n # p) @ post \<and> length p = unat n \<and>
    slave = Some (uint s) \<and> expects expected slave"
  using assms by (rule parse_response_sound)

theorem response_on_the_line_witness:
  "\<exists>pre s f n post. with_crc [0x11, 0x03, 0x02, 0x01, 0xF4] @ [0x00] = pre @ with_crc [s, f, n, 0x01, 0xF4] @ post"
proof -
  have "parse_response (with_crc [0x11, 0x03, 0x02, 0x01, 0xF4] @ [0x00]) (Some 17)
      = (Some 17, Some [0x01, 0xF4], None)"
    using parse_counted [of "0x03" "[0x01, 0xF4]" "Some 17" "0x11" "[0x00]"]
    by (simp add: expects_def)
  from response_on_the_line [OF this] show ?thesis by blast
qed

text \<open>a well-formed answer to a read, alone or followed by other bytes, is parsed to its data
  and its slave.\<close>

lemma read_answer_parsed:
  assumes "f \<in> {0x01, 0x02, 0x03, 0x04}" and "length p < 256" and "expects expected (Some (uint s))"
  shows "parse_response (with_crc (s # f # of_nat (length p) # p) @ post) expected
    = (Some (uint s), Some p, None)"
  using assms by (rule parse_counted)

lemma read_answer_parsed_witness:
  "parse_response (with_crc [0x11, 0x03, 0x02, 0x01, 0xF4] @ [0x00]) (Some 17)
    = (Some 17, Some [0x01, 0xF4], None)"
  using read_answer_parsed [of "0x03" "[0x01, 0xF4]" "Some 17" "0x11" "[0x00]"]
  by (simp add: expects_def)

text \<open>an exception answer is taken without looking at its CRC: any two octets in its place give
  the same verdict.\<close>

lemma exception_crc_ignored:
  assumes "1 \<le> uint s" and "uint s \<le> 247" and "f AND 0x80 \<noteq> 0" and "expects expected (Some (uint s))"
  shows "parse_response ([s, f, c, x, y] @ post) expected = (Some (uint s), None, Some (Exception_code (uint c)))"
  using assms by (rule parse_exception_unchecked)

lemma exception_crc_ignored_witness:
  "parse_response ([0x11, 0x83, 0x02, 0xDE, 0xAD] @ []) (Some 17) = (Some 17, None, Some (Exception_code 2))"
  using exception_crc_ignored [of "0x11" "0x83" "Some 17" "0x02" "0xDE" "0xAD" "[]"]
  by (simp add: expects_def)

end
