(* ===== verification/Modbus_Tcp.thy ===== *)
theory Modbus_Tcp
  imports Modbus_Rtu
begin

text \<open>
  Modbus TCP, \<^verbatim>\<open>opt/sa02m-flasher/sa02m_flasher/modbus_tcp.py\<close>: the transaction counter, the
  conversion between RTU frames and MBAP units, and one request over a socket.  The module
  variable \<^verbatim>\<open>_trans_id\<close> is explicit state.  The socket is the list of what its reads bring;
  the clock of the read loop is a list of readings, past whose end the deadline has passed.
\<close>

section \<open>Transaction identifiers\<close>

definition next_trans_id :: "int \<Rightarrow> int \<times> int" where
  "next_trans_id trans_id =
     (let t = (trans_id + 1) AND 0xFFFF in (if t \<noteq> 0 then t else 1, t))"

section \<open>Frames\<close>

definition rtu_frame_to_tcp_adu :: "int \<Rightarrow> bytes \<Rightarrow> bytes result \<times> int" where
  "rtu_frame_to_tcp_adu trans_id rtu =
     (if length rtu < 4 then (Inl (ValueError ''RTU frame too short''), trans_id)
      else
        let slave = rtu ! 0; pdu = slice 1 (length rtu - 2) rtu;
            (tid, trans_id') = next_trans_id trans_id;
            len = 1 + length pdu
        in (if len < 0x10000
            then Inr (be_bytes 2 tid @ be_bytes 2 0 @ be_bytes 2 (int len) @ [slave] @ pdu)
            else Inl StructError, trans_id'))"

definition tcp_adu_to_rtu_response :: "bytes \<Rightarrow> bytes result" where
  "tcp_adu_to_rtu_response adu =
     (if length adu < 9 then Inl (ValueError ''TCP answer too short'')
      else Inr (with_crc (adu ! 6 # drop 7 adu)))"

section \<open>Reading an exact number of bytes\<close>

text \<open>
  What one \<^verbatim>\<open>recv(k)\<close> of the stream brings: at most \<open>k\<close> bytes of the next segment, the rest of it
  stays; nothing in the time slice; or an error.  An empty segment is the closed connection.
\<close>

datatype seg = Seg bytes | Quiet | Failed

fun recv_some :: "nat \<Rightarrow> seg list \<Rightarrow> seg \<times> seg list" where
  "recv_some k [] = (Quiet, [])"
| "recv_some k (Seg b # es) =
     (Seg (take k b), if drop k b = [] then es else Seg (drop k b) # es)"
| "recv_some k (e # es) = (e, es)"

text \<open>
  \<open>alive\<close> holds, per round, whether the two clock readings are before the deadline and the cancel
  callback says no.
\<close>

fun recv_exact_until :: "nat \<Rightarrow> bool list \<Rightarrow> bytes \<Rightarrow> seg list \<Rightarrow> bytes \<times> bool list \<times> seg list" where
  "recv_exact_until n [] buf es = (buf, [], es)"
| "recv_exact_until n (ok # alive) buf es =
     (if \<not> length buf < n then (buf, ok # alive, es)
      else if \<not> ok then (buf, alive, es)
      else (case recv_some (n - length buf) es of
          (Quiet, es') \<Rightarrow> recv_exact_until n alive buf es'
        | (Failed, es') \<Rightarrow> (buf, alive, es')
        | (Seg b, es') \<Rightarrow>
            if b = [] then (buf, alive, es') else recv_exact_until n alive (buf @ b) es'))"

text \<open>After the request is sent: header, length check, body.\<close>

definition read_adu :: "bool list \<Rightarrow> seg list \<Rightarrow> bytes option" where
  "read_adu alive es =
     (case recv_exact_until 7 alive [] es of (header, alive1, es1) \<Rightarrow>
        if length header < 7 then None
        else
          let len = nat (from_be (slice 4 6 header)) in
          if len < 1 \<or> len > 260 then None
          else (case recv_exact_until len alive1 [] es1 of (body, alive2, es2) \<Rightarrow>
              if length body < len then None
              else (case tcp_adu_to_rtu_response (header @ body) of Inl _ \<Rightarrow> None | Inr r \<Rightarrow> Some r)))"

definition modbus_tcp_transact :: "bool \<Rightarrow> bool \<Rightarrow> bool \<Rightarrow> int \<Rightarrow> bytes \<Rightarrow> bool list \<Rightarrow> seg list
    \<Rightarrow> bytes option \<times> int" where
  "modbus_tcp_transact cancelled connects sends trans_id rtu alive es =
     (case rtu_frame_to_tcp_adu trans_id rtu of
        (Inl _, t) \<Rightarrow> (None, t)
      | (Inr adu, t) \<Rightarrow>
          (if cancelled \<or> \<not> connects \<or> \<not> sends then None else read_adu alive es, t))"

section \<open>Frames there and back\<close>

lemma adu_roundtrip:
  assumes "rtu_crc_ok rtu" and "5 \<le> length rtu"
    and "rtu_frame_to_tcp_adu t rtu = (Inr adu, t')"
  shows "tcp_adu_to_rtu_response adu = Inr rtu"
proof -
  from assms(1) obtain body where rtu: "rtu = with_crc body" by (auto simp: rtu_crc_ok_def)
  with assms(2) obtain s pdu where body: "body = s # pdu" and pdu: "2 \<le> length pdu"
    by (cases body) (auto simp: with_crc_def)
  have "slice 1 (length rtu - 2) rtu = pdu" "rtu ! 0 = s"
    by (simp_all add: rtu body with_crc_def slice_def)
  with assms(3) obtain tid where
    "adu = be_bytes 2 tid @ be_bytes 2 0 @ be_bytes 2 (int (1 + length pdu)) @ [s] @ pdu"
    by (auto simp: rtu_frame_to_tcp_adu_def Let_def split: if_splits prod.splits)
  then show ?thesis using pdu
    by (simp add: tcp_adu_to_rtu_response_def rtu body nth_append)
qed

lemma and_ffff: "(n::int) AND 0xFFFF = n mod 0x10000"
  using take_bit_eq_mask [of 16 n] by (simp add: take_bit_eq_mod mask_numeral)

lemma next_trans_id_range:
  assumes "next_trans_id t = (i, t')"
  shows "1 \<le> i \<and> i \<le> 0xFFFF \<and> 0 \<le> t' \<and> t' \<le> 0xFFFF"
proof -
  define m where "m = (t + 1) mod 0x10000"
  have "0 \<le> m" "m < 0x10000" by (simp_all add: m_def)
  moreover have "i = (if m \<noteq> 0 then m else 1)" "t' = m"
    using assms by (auto simp: next_trans_id_def Let_def and_ffff m_def)
  ultimately show ?thesis by auto
qed

text \<open>At the wrap the same identifier is handed out twice in a row.\<close>

lemma next_trans_id_wrap:
  "next_trans_id 0xFFFF = (1, 0)" "next_trans_id 0 = (1, 1)"
  by (simp_all add: next_trans_id_def and_ffff)

section \<open>Reading\<close>

lemma recv_exact_until_length: "length buf \<le> n \<Longrightarrow>
    recv_exact_until n alive buf es = (out, rest) \<Longrightarrow> length out \<le> n"
proof (induction n alive buf es rule: recv_exact_until.induct)
  case (2 n ok alive buf es)
  show ?case
  proof (cases "length buf < n \<and> ok")
    case False
    with 2 show ?thesis by (auto split: if_splits)
  next
    case True
    obtain e es' where e: "recv_some (n - length buf) es = (e, es')" by (rule prod.exhaust)
    have "length b \<le> n - length buf" if "e = Seg b" for b
      using e that by (cases "(n - length buf, es)" rule: recv_some.cases) auto
    with 2 True e show ?thesis by (cases e) (auto split: if_splits)
  qed
qed auto

text \<open>The bytes a stream still holds.\<close>

fun stream_bytes :: "seg list \<Rightarrow> bytes" where
  "stream_bytes [] = []"
| "stream_bytes (Seg b # es) = b @ stream_bytes es"
| "stream_bytes (_ # es) = stream_bytes es"

lemma recv_some_stream: "recv_some k es = (e, es') \<Longrightarrow>
    stream_bytes es = (case e of Seg b \<Rightarrow> b @ stream_bytes es' | _ \<Rightarrow> stream_bytes es')"
  by (cases "(k, es)" rule: recv_some.cases) (auto split: if_splits simp: append_assoc [symmetric] simp del: append_assoc)

lemma recv_exact_until_stream:
  "recv_exact_until n alive buf es = (out, alive', es') \<Longrightarrow>
     buf @ stream_bytes es = out @ stream_bytes es'"
proof (induction n alive buf es rule: recv_exact_until.induct)
  case (2 n ok alive buf es)
  obtain e es1 where e: "recv_some (n - length buf) es = (e, es1)" by (rule prod.exhaust)
  with 2 recv_some_stream [OF e] show ?case by (cases e) (auto split: if_splits)
qed auto

text \<open>
  The length field of MBAP counts the unit identifier, which is the seventh header byte: a server
  that answers with exactly one unit has sent one byte less than the loop asks for, and the call
  returns \<open>None\<close>, whatever the timing.
\<close>

lemma read_adu_server_answer:
  assumes "length pdu < 0xFFFF"
    and "stream_bytes es = be_bytes 2 tid @ be_bytes 2 0 @ be_bytes 2 (1 + int (length pdu)) @ [u] @ pdu"
  shows "read_adu alive es = None"
proof (rule ccontr)
  assume some: "read_adu alive es \<noteq> None"
  obtain header alive1 es1 where h: "recv_exact_until 7 alive [] es = (header, alive1, es1)"
    using prod_cases3 by blast
  define len where "len = nat (from_be (slice 4 6 header))"
  obtain body alive2 es2 where b: "recv_exact_until len alive1 [] es1 = (body, alive2, es2)"
    using prod_cases3 by blast
  from some h b have lh: "7 \<le> length header" and lb: "len \<le> length body"
    by (auto simp: read_adu_def Let_def len_def [symmetric] split: if_splits)
  from recv_exact_until_length [OF _ h] lh have "length header = 7" by simp
  moreover have "stream_bytes es = header @ body @ stream_bytes es2"
    using recv_exact_until_stream [OF h] recv_exact_until_stream [OF b] by simp
  ultimately have header: "header = be_bytes 2 tid @ be_bytes 2 0 @ be_bytes 2 (1 + int (length pdu)) @ [u]"
    and body: "pdu = body @ stream_bytes es2"
    using assms(2) append_eq_append_conv [of header "be_bytes 2 tid @ be_bytes 2 0 @ be_bytes 2 (1 + int (length pdu)) @ [u]"
        "body @ stream_bytes es2" pdu] by simp_all
  have "from_be (be_bytes 2 (1 + int (length pdu))) = 1 + int (length pdu)"
    using assms(1) by (simp add: from_be_be_bytes)
  then have "len = Suc (length pdu)" by (simp add: len_def header slice_def)
  with lb body show False by simp
qed

section \<open>Properties\<close>

text \<open>wrapping a frame of at least five bytes with a valid CRC into a TCP ADU and unwrapping it
  as an answer gives the frame back, CRC included, and the transaction identifier stays within 1
  and 65535 at every step of the counter.\<close>

lemma adu_there_and_back:
  assumes "rtu_crc_ok rtu" and "5 \<le> length rtu" and "rtu_frame_to_tcp_adu t rtu = (Inr adu, t')"
  shows "tcp_adu_to_rtu_response adu = Inr rtu \<and>
    1 \<le> fst (next_trans_id t) \<and> fst (next_trans_id t) \<le> 0xFFFF"
  using adu_roundtrip [OF assms] next_trans_id_range [of t] by (auto simp: prod_eq_iff)

lemma adu_there_and_back_witness:
  "\<exists>adu t'. rtu_frame_to_tcp_adu 7 (with_crc [0x11, 0x03, 0x02, 0x01, 0xF4]) = (Inr adu, t') \<and>
     tcp_adu_to_rtu_response adu = Inr (with_crc [0x11, 0x03, 0x02, 0x01, 0xF4])"
proof -
  let ?rtu = "with_crc [0x11, 0x03, 0x02, 0x01, 0xF4]"
  have ok: "rtu_crc_ok ?rtu" by (auto simp: rtu_crc_ok_def)
  have len: "5 \<le> length ?rtu" by (simp add: length_with_crc)
  obtain adu t' where a: "rtu_frame_to_tcp_adu 7 ?rtu = (Inr adu, t')"
    by (auto simp: rtu_frame_to_tcp_adu_def next_trans_id_def Let_def with_crc_def le16_def slice_def)
  show ?thesis using a adu_there_and_back [OF ok len a] by blast
qed

text \<open>C39: the reader of \<^verbatim>\<open>modbus_tcp_transact\<close> waits for as many bytes after the seven-byte header
  as the length field says, although the unit identifier, already read, counts among them: a
  complete answer of a compliant server is never returned, whatever the pauses of the connection.\<close>

theorem compliant_answer_lost:
  assumes "length pdu < 0xFFFF"
    and "stream_bytes es = be_bytes 2 tid @ be_bytes 2 0 @ be_bytes 2 (1 + int (length pdu)) @ [u] @ pdu"
  shows "read_adu alive es = None"
  using assms by (rule read_adu_server_answer)

theorem compliant_answer_lost_witness:
  "read_adu (replicate 10 True) [Seg [0, 1, 0, 0, 0, 3, 17], Quiet, Seg [0x83, 2]] = None"
  by (rule compliant_answer_lost [of "[0x83, 2]" _ 1 17]) (simp_all add: be_bytes_2)

end
