(* ===== verification/Module_Rules.thy ===== *)
theory Module_Rules
  imports Prelude
begin

text \<open>
  Two tables of decisions of the flasher: the serial-number ranges per module type,
  \<^verbatim>\<open>opt/sa02m-flasher/sa02m_flasher/serial_ranges.py\<close>, and the field-bus selector (holding
  register 122), \<^verbatim>\<open>opt/sa02m-flasher/sa02m_flasher/bus_mode.py\<close>.  A raw register value is given as
  what \<^verbatim>\<open>_coerce\<close> makes of it: \<open>None\<close> for a value that is no number.
\<close>

section \<open>Serial-number ranges\<close>

definition SERIAL_RANGES :: "(string \<times> int \<times> int) list" where
  "SERIAL_RANGES =
     [(''6DO8DI'', 235536384, 235541383), (''4DO6DI'', 235541384, 235546383),
      (''6DO'', 235546384, 235551383), (''16DO'', 235551384, 235556383),
      (''14DI'', 235556384, 235561383), (''12AI'', 235561384, 235566383),
      (''6AO6AI'', 235566384, 235571383), (''12AO'', 235571384, 235576383),
      (''4TO6DI'', 235576384, 235581383), (''10DICON'', 235581384, 235586383),
      (''6DO5DI2AO'', 235586384, 235591383), (''SE02M3'', 235581384, 235586383),
      (''DTV'', 235586384, 235591383), (''MP02M'', 235591384, 235596383),
      (''MR02M'', 235596384, 235601383), (''NONE'', 1, 0x00FFFFFF)]"

definition NONE_RANGE :: "int \<times> int" where "NONE_RANGE = (1, 0x00FFFFFF)"

definition get_range_for_module :: "string \<Rightarrow> int \<times> int" where
  "get_range_for_module module_type =
     (case map_of SERIAL_RANGES (map upper_char (py_strip module_type)) of
        None \<Rightarrow> NONE_RANGE | Some r \<Rightarrow> r)"

definition clamp_serial_to_range :: "int \<Rightarrow> string \<Rightarrow> int" where
  "clamp_serial_to_range serial module_type =
     (case get_range_for_module module_type of (start, fin) \<Rightarrow>
        if serial < start then start
        else if serial > fin then fin
        else serial AND 0xFFFFFFFF)"

fun first_range :: "int \<Rightarrow> (string \<times> int \<times> int) list \<Rightarrow> string option" where
  "first_range s [] = None"
| "first_range s ((name, lo, hi) # rest) =
     (if name = ''NONE'' then first_range s rest
      else if lo \<le> s \<and> s \<le> hi then Some name
      else first_range s rest)"

definition signature_from_serial :: "int \<Rightarrow> string option" where
  "signature_from_serial serial =
     (let s = serial AND 0xFFFFFFFF in
      if s = 0 \<or> s = 0xFFFFFFFF then None else first_range s SERIAL_RANGES)"

definition get_default_serial_for_signature :: "string \<Rightarrow> int option" where
  "get_default_serial_for_signature signature =
     (let key = map upper_char (py_strip signature) in
      if key = [] \<or> key = ''NONE'' then None
      else map_option fst (map_of SERIAL_RANGES key))"

lemma int_and_32bit: "(n::int) AND 0xFFFFFFFF = n mod 2 ^ 32"
  using take_bit_eq_mask [of 32 n] by (simp add: take_bit_eq_mod mask_numeral)

lemma SERIAL_RANGES_sane: "(n, lo, hi) \<in> set SERIAL_RANGES \<Longrightarrow> 1 \<le> lo \<and> lo \<le> hi \<and> hi < 2 ^ 32"
  by (auto simp: SERIAL_RANGES_def)

lemma range_sane: "get_range_for_module m = (lo, hi) \<Longrightarrow> 1 \<le> lo \<and> lo \<le> hi \<and> hi < 2 ^ 32"
  by (auto simp: get_range_for_module_def NONE_RANGE_def split: option.splits
      dest!: map_of_SomeD SERIAL_RANGES_sane)

lemma clamp_in_range:
  assumes "get_range_for_module m = (lo, hi)"
  shows "lo \<le> clamp_serial_to_range n m \<and> clamp_serial_to_range n m \<le> hi"
  using range_sane [OF assms] by (auto simp: clamp_serial_to_range_def assms int_and_32bit)

lemma clamp_id:
  "get_range_for_module m = (lo, hi) \<Longrightarrow> lo \<le> n \<Longrightarrow> n \<le> hi \<Longrightarrow> clamp_serial_to_range n m = n"
  using range_sane [of m lo hi] by (simp add: clamp_serial_to_range_def int_and_32bit)

lemma first_range_sound:
  "first_range s rs = Some n \<Longrightarrow> \<exists>lo hi. (n, lo, hi) \<in> set rs \<and> lo \<le> s \<and> s \<le> hi \<and> n \<noteq> ''NONE''"
  by (induction s rs rule: first_range.induct) (auto split: if_splits)

lemma signature_sound:
  "signature_from_serial n = Some name \<Longrightarrow>
     \<exists>lo hi. (name, lo, hi) \<in> set SERIAL_RANGES \<and> lo \<le> n mod 2 ^ 32 \<and> n mod 2 ^ 32 \<le> hi"
  by (auto simp: signature_from_serial_def Let_def int_and_32bit split: if_splits dest!: first_range_sound)

text \<open>
  Two pairs of types share a range, so the types listed second are never recognised, not even
  from their own default serial number.
\<close>

lemma signature_never: "signature_from_serial n \<noteq> Some ''SE02M3'' \<and> signature_from_serial n \<noteq> Some ''DTV''"
  by (simp add: signature_from_serial_def Let_def SERIAL_RANGES_def)

lemma signature_default_shadowed:
  "get_default_serial_for_signature ''SE02M3'' = Some 235581384"
  "signature_from_serial 235581384 = Some ''10DICON''"
  by (simp_all add: get_default_serial_for_signature_def signature_from_serial_def Let_def
      SERIAL_RANGES_def py_strip_def is_space_def upper_char_def int_and_32bit)

section \<open>The bus selector\<close>

definition REG_BUS_MODE :: int where "REG_BUS_MODE = 122"
definition BUS_CLASSIC :: int where "BUS_CLASSIC = 0"
definition BUS_FAST :: int where "BUS_FAST = 1"
definition BUS_BACNET :: int where "BUS_BACNET = 2"

lemmas bus_defs = REG_BUS_MODE_def BUS_CLASSIC_def BUS_FAST_def BUS_BACNET_def

definition bus_mode_valid :: "int option \<Rightarrow> bool" where
  "bus_mode_valid v = (case v of None \<Rightarrow> False | Some n \<Rightarrow> 0 \<le> n \<and> n \<le> 2)"

definition sanitize :: "int option \<Rightarrow> int" where
  "sanitize v = (case v of None \<Rightarrow> BUS_FAST | Some n \<Rightarrow> if 0 \<le> n \<and> n \<le> 2 then n else BUS_FAST)"

definition BUS_MODE_CHOICES :: "(int \<times> string) list" where
  "BUS_MODE_CHOICES =
     [(BUS_CLASSIC, ''bus_mode_classic''), (BUS_FAST, ''bus_mode_fast''), (BUS_BACNET, ''bus_mode_bacnet'')]"

definition bus_mode_label :: "int option \<Rightarrow> string" where
  "bus_mode_label v =
     (case map_of BUS_MODE_CHOICES (sanitize v) of None \<Rightarrow> ''bus_mode_classic'' | Some k \<Rightarrow> k)"

definition FAMILY_MR :: string where "FAMILY_MR = ''mr''"
definition FAMILY_DTV :: string where "FAMILY_DTV = ''dtv''"

definition selector_supported :: "string option \<Rightarrow> bool" where
  "selector_supported family \<longleftrightarrow> family = Some FAMILY_MR \<or> family = Some FAMILY_DTV"

datatype recovery = Recovery_write | Recovery_latched

definition force_modbus_return_value :: "string \<Rightarrow> int option \<Rightarrow> int" where
  "force_modbus_return_value family prior =
     (if family = FAMILY_MR then
        (case prior of Some p \<Rightarrow> if p = BUS_CLASSIC \<or> p = BUS_FAST then p else BUS_CLASSIC
         | None \<Rightarrow> BUS_CLASSIC)
      else BUS_CLASSIC)"

definition force_modbus_recovery_plan :: "string \<Rightarrow> bool \<Rightarrow> int option \<Rightarrow> recovery \<times> int \<times> int option" where
  "force_modbus_recovery_plan family answered prior =
     (if answered then (Recovery_write, REG_BUS_MODE, Some (force_modbus_return_value family prior))
      else (Recovery_latched, REG_BUS_MODE, None))"

definition mr_msv_pv_for_mode :: "int option \<Rightarrow> int" where
  "mr_msv_pv_for_mode mode = sanitize mode + 1"

definition mode_from_mr_msv_pv :: "int option \<Rightarrow> int" where
  "mode_from_mr_msv_pv pv = (case pv of None \<Rightarrow> BUS_FAST | Some n \<Rightarrow> sanitize (Some (n - 1)))"

datatype switch_verdict = Applied | Inert | Not_applied

definition bacnet_switch_verdict :: "bool \<Rightarrow> int option \<Rightarrow> switch_verdict" where
  "bacnet_switch_verdict answered v =
     (if \<not> answered then Applied else if sanitize v = BUS_BACNET then Inert else Not_applied)"

lemma sanitize_range: "0 \<le> sanitize v \<and> sanitize v \<le> 2"
  by (simp add: sanitize_def bus_defs split: option.splits)

lemma sanitize_valid: "bus_mode_valid v \<Longrightarrow> Some (sanitize v) = v"
  by (auto simp: sanitize_def bus_mode_valid_def split: option.splits)

lemma msv_roundtrip: "mode_from_mr_msv_pv (Some (mr_msv_pv_for_mode v)) = sanitize v"
  using sanitize_range [of v] by (simp add: mode_from_mr_msv_pv_def mr_msv_pv_for_mode_def sanitize_def [of "Some _"])

lemma recovery_never_bacnet:
  "force_modbus_recovery_plan family answered prior = (a, r, Some v) \<Longrightarrow>
     a = Recovery_write \<and> r = 122 \<and> (v = BUS_CLASSIC \<or> v = BUS_FAST)"
  by (auto simp: force_modbus_recovery_plan_def force_modbus_return_value_def bus_defs
      split: if_splits option.splits)

section \<open>Properties\<close>

text \<open>whatever serial number is proposed for a module type, the clamped one lies in the range of
  that type, and a number already in the range is kept.\<close>

lemma serial_clamped:
  "case get_range_for_module m of (lo, hi) \<Rightarrow>
     lo \<le> clamp_serial_to_range n m \<and> clamp_serial_to_range n m \<le> hi \<and>
     (lo \<le> n \<and> n \<le> hi \<longrightarrow> clamp_serial_to_range n m = n)"
  using clamp_in_range [of m _ _ n] clamp_id [of m _ _ n] by (auto split: prod.split)

lemma serial_clamped_witness:
  "clamp_serial_to_range 5 '''' = 5"
  using serial_clamped [where m = "''''" and n = 5] by (simp add: get_range_for_module_def SERIAL_RANGES_def NONE_RANGE_def py_strip_def)

text \<open>the overlapping ranges hide two module types: no serial number at all is recognised as
  \<^verbatim>\<open>SE02M3\<close> or \<^verbatim>\<open>DTV\<close>, and the default number of the first is taken for a \<^verbatim>\<open>10DICON\<close>.\<close>

lemma shadowed_signatures:
  "signature_from_serial n \<noteq> Some ''SE02M3'' \<and> signature_from_serial n \<noteq> Some ''DTV'' \<and>
   get_default_serial_for_signature ''SE02M3'' = Some 235581384 \<and>
   signature_from_serial 235581384 = Some ''10DICON''"
  using signature_never signature_default_shadowed by (intro conjI) blast+

end
