(* ===== verification/Mstp.thy ===== *)
theory Mstp
  imports Crc Effect
begin

text \<open>
  BACnet MS/TP frames and the ring-join state machine,
  \<^verbatim>\<open>opt/sa02m-flasher/sa02m_flasher/bacnet_mstp.py\<close>.  Stream scanners keep the bytes after the
  source's index \<^verbatim>\<open>i\<close> instead of the index.  The injected transport is the list of what each
  round sees: whether the clock is still before the deadline, and the bytes read.  The REAL
  encoding \<^verbatim>\<open>struct.pack(">f")\<close> is not modelled.
\<close>

section \<open>Check sums\<close>

definition crc8_update :: "byte \<Rightarrow> byte \<Rightarrow> byte" where
  "crc8_update data_value crc_value =
     (let c = ucast (crc_value XOR data_value) :: 16 word;
          crc = c XOR push_bit 1 c XOR push_bit 2 c XOR push_bit 3 c XOR push_bit 4 c
                XOR push_bit 5 c XOR push_bit 6 c XOR push_bit 7 c
      in ucast ((crc AND 0xFE) XOR (drop_bit 8 crc AND 1)))"

definition crc16_data_update :: "byte \<Rightarrow> 16 word \<Rightarrow> 16 word" where
  "crc16_data_update data_value crc_value =
     (let lo = (crc_value AND 0xFF) XOR ucast data_value in
      drop_bit 8 crc_value XOR push_bit 8 lo XOR push_bit 3 lo XOR push_bit 12 lo XOR drop_bit 4 lo
        XOR (lo AND 0x0F) XOR push_bit 7 (lo AND 0x0F))"

definition crc8_run :: "bytes \<Rightarrow> byte" where
  "crc8_run bs = foldl (\<lambda>c b. crc8_update b c) 0xFF bs"

definition crc16_run :: "bytes \<Rightarrow> 16 word" where
  "crc16_run bs = foldl (\<lambda>c b. crc16_data_update b c) 0xFFFF bs"

definition header_crc_valid :: "bytes \<Rightarrow> bool" where
  "header_crc_valid frame8 \<longleftrightarrow> 8 \<le> length frame8 \<and> crc8_run (slice 2 8 frame8) = 0x55"

definition DATA_CRC_RESIDUE :: "16 word" where "DATA_CRC_RESIDUE = 0xF0B8"

definition data_crc_valid :: "bytes \<Rightarrow> bool" where
  "data_crc_valid b \<longleftrightarrow> crc16_run b = DATA_CRC_RESIDUE"

section \<open>Frames\<close>

definition FRAME_TYPE_TOKEN :: byte where "FRAME_TYPE_TOKEN = 0"
definition FRAME_TYPE_POLL_FOR_MASTER :: byte where "FRAME_TYPE_POLL_FOR_MASTER = 1"
definition FRAME_TYPE_REPLY_TO_PFM :: byte where "FRAME_TYPE_REPLY_TO_PFM = 2"
definition FRAME_TYPE_DATA_EXPECTING_REPLY :: byte where "FRAME_TYPE_DATA_EXPECTING_REPLY = 5"
definition FRAME_TYPE_DATA_NOT_EXPECTING_REPLY :: byte where "FRAME_TYPE_DATA_NOT_EXPECTING_REPLY = 6"
definition FRAME_TYPE_REPLY_POSTPONED :: byte where "FRAME_TYPE_REPLY_POSTPONED = 7"

lemmas frame_types = FRAME_TYPE_TOKEN_def FRAME_TYPE_POLL_FOR_MASTER_def FRAME_TYPE_REPLY_TO_PFM_def
  FRAME_TYPE_DATA_EXPECTING_REPLY_def FRAME_TYPE_DATA_NOT_EXPECTING_REPLY_def
  FRAME_TYPE_REPLY_POSTPONED_def

text \<open>\<^verbatim>\<open>bytes([.., len(data) >> 8, ..])\<close> raises above 65535 bytes of data.\<close>

definition mstp_frame :: "byte \<Rightarrow> byte \<Rightarrow> byte \<Rightarrow> bytes \<Rightarrow> bytes result" where
  "mstp_frame ftype dst sr data =
     (if length data div 256 > 255 then Inl (ValueError ''bytes must be in range(0, 256)'')
      else
        let hdr = [ftype, dst, sr] @ be_bytes 2 (int (length data));
            out = [0x55, 0xFF] @ hdr @ [NOT (crc8_run hdr)]
        in Inr (if data = [] then out else out @ data @ le16 (NOT (crc16_run data))))"

definition object_id :: "int \<Rightarrow> int \<Rightarrow> bytes" where
  "object_id obj_type obj_inst =
     be_bytes 4 (push_bit 22 (obj_type AND 0x3FF) OR (obj_inst AND 0x3FFFFF))"

definition rp_request :: "int \<Rightarrow> int \<Rightarrow> int \<Rightarrow> int \<Rightarrow> bytes" where
  "rp_request invoke obj_type obj_inst prop =
     [0x01, 0x04] @ [0x00, 0x01, word_of_int (invoke AND 0xFF), 0x0C] @ [0x0C] @ object_id obj_type obj_inst
       @ [0x19, word_of_int (prop AND 0xFF)]"

definition wp_request :: "int \<Rightarrow> int \<Rightarrow> int \<Rightarrow> int \<Rightarrow> bytes \<Rightarrow> bytes" where
  "wp_request invoke obj_type obj_inst prop app_value =
     [0x01, 0x04] @ [0x00, 0x01, word_of_int (invoke AND 0xFF), 0x0F] @ [0x0C] @ object_id obj_type obj_inst
       @ [0x19, word_of_int (prop AND 0xFF)] @ [0x3E] @ app_value @ [0x3F]"

definition app_value_unsigned8 :: "int \<Rightarrow> bytes" where
  "app_value_unsigned8 v = [0x21, word_of_int (v AND 0xFF)]"

definition mr_recovery_wp_payload :: "int \<Rightarrow> int \<Rightarrow> bytes" where
  "mr_recovery_wp_payload invoke present_value =
     wp_request invoke 19 1 85 (app_value_unsigned8 present_value)"

record mframe =
  m_ftype :: byte
  m_dst :: byte
  m_src :: byte
  m_data :: bytes

text \<open>The length of the frame whose valid header starts the buffer.\<close>

definition data_len :: "bytes \<Rightarrow> nat" where
  "data_len d = nat (from_be (slice 5 7 d))"

definition frame_total :: "bytes \<Rightarrow> nat" where
  "frame_total d = 8 + (if data_len d = 0 then 0 else data_len d + 2)"

definition frame_here :: "bytes \<Rightarrow> mframe" where
  "frame_here d = \<lparr>m_ftype = d ! 2, m_dst = d ! 3, m_src = d ! 4, m_data = slice 8 (8 + data_len d) d\<rparr>"

function parse_frames :: "bytes \<Rightarrow> mframe list \<times> bytes" where
  "parse_frames d =
     (if length d < 8 then ([], d)
      else if d ! 0 \<noteq> 0x55 \<or> d ! 1 \<noteq> 0xFF then parse_frames (drop 1 d)
      else if crc8_run (slice 2 8 d) \<noteq> 0x55 then parse_frames (drop 2 d)
      else if frame_total d > length d then ([], d)
      else (case parse_frames (drop (frame_total d) d) of (fs, rest) \<Rightarrow> (frame_here d # fs, rest)))"
  by pat_completeness auto
termination
  by (relation "measure length") (auto simp: frame_total_def)

declare parse_frames.simps [simp del]

section \<open>Passive listening\<close>

record sniff =
  bytes_read :: nat
  frames_seen :: nat
  bad_header_crc :: nat
  histogram :: "byte \<Rightarrow> nat"

definition sniff0 :: sniff where
  "sniff0 = \<lparr>bytes_read = 0, frames_seen = 0, bad_header_crc = 0, histogram = (\<lambda>_. 0)\<rparr>"

function sniff_scan :: "bytes \<Rightarrow> sniff \<Rightarrow> sniff \<times> bytes" where
  "sniff_scan d r =
     (if length d < 8 then (r, d)
      else if d ! 0 \<noteq> 0x55 \<or> d ! 1 \<noteq> 0xFF then sniff_scan (drop 1 d) r
      else if \<not> header_crc_valid (take 8 d)
      then sniff_scan (drop 2 d) (r\<lparr>bad_header_crc := bad_header_crc r + 1\<rparr>)
      else if frame_total d > length d then (r, d)
      else sniff_scan (drop (frame_total d) d)
             (r\<lparr>frames_seen := frames_seen r + 1,
                histogram := (histogram r)(d ! 2 := histogram r (d ! 2) + 1)\<rparr>))"
  by pat_completeness auto
termination
  by (relation "measure (\<lambda>(d, r). length d)") (auto simp: frame_total_def)

declare sniff_scan.simps [simp del]

fun sniff_loop :: "(bool \<times> bytes) list \<Rightarrow> bytes \<Rightarrow> sniff \<Rightarrow> sniff" where
  "sniff_loop [] buf r = r"
| "sniff_loop ((before_deadline, chunk) # obs) buf r =
     (if \<not> before_deadline then r
      else if chunk = [] then sniff_loop obs buf r
      else (case sniff_scan (buf @ chunk) (r\<lparr>bytes_read := bytes_read r + length chunk\<rparr>) of
          (r', buf') \<Rightarrow> sniff_loop obs buf' r'))"

definition sniff_stream :: "(bool \<times> bytes) list \<Rightarrow> sniff" where
  "sniff_stream obs = sniff_loop obs [] sniff0"

definition alive :: "sniff \<Rightarrow> bool" where
  "alive r \<longleftrightarrow> frames_seen r > 0"

section \<open>Joining the ring\<close>

datatype ring = Wait_pfm | Wait_token | Wait_reply | Ring_done

record ring_fsm =
  my_mac :: byte
  dut_mac :: byte
  invoke_id :: int
  obj_type :: int
  obj_inst :: int
  prop_id :: int
  der_payload :: "bytes option"
  ring_state :: ring

definition der :: "ring_fsm \<Rightarrow> bytes result" where
  "der f = mstp_frame FRAME_TYPE_DATA_EXPECTING_REPLY (dut_mac f) (my_mac f)
     (case der_payload f of
        None \<Rightarrow> rp_request (invoke_id f) (obj_type f) (obj_inst f) (prop_id f)
      | Some p \<Rightarrow> p)"

definition is_reply_type :: "byte \<Rightarrow> bool" where
  "is_reply_type t \<longleftrightarrow> t = FRAME_TYPE_DATA_EXPECTING_REPLY \<or> t = FRAME_TYPE_DATA_NOT_EXPECTING_REPLY
     \<or> t = FRAME_TYPE_REPLY_POSTPONED"

definition to_me :: "ring_fsm \<Rightarrow> mframe \<Rightarrow> bool" where
  "to_me f fr \<longleftrightarrow> m_dst fr = my_mac f \<and> m_src fr = dut_mac f"

text \<open>The state moves before the frame to send is built.\<close>

definition ring_step :: "ring_fsm \<Rightarrow> mframe \<Rightarrow> bytes option result \<times> ring_fsm" where
  "ring_step f fr =
     (if (ring_state f = Wait_pfm \<or> ring_state f = Wait_token) \<and>
         m_ftype fr = FRAME_TYPE_POLL_FOR_MASTER \<and> to_me f fr
      then (bindE (mstp_frame FRAME_TYPE_REPLY_TO_PFM (dut_mac f) (my_mac f) []) (\<lambda>b. Inr (Some b)),
            f\<lparr>ring_state := Wait_token\<rparr>)
      else if ring_state f = Wait_token \<and> m_ftype fr = FRAME_TYPE_TOKEN \<and> to_me f fr
      then (bindE (der f) (\<lambda>b. Inr (Some b)), f\<lparr>ring_state := Wait_reply\<rparr>)
      else if ring_state f = Wait_reply \<and> to_me f fr \<and> is_reply_type (m_ftype fr)
      then (bindE (mstp_frame FRAME_TYPE_TOKEN (dut_mac f) (my_mac f) []) (\<lambda>b. Inr (Some b)),
            f\<lparr>ring_state := Ring_done\<rparr>)
      else (Inr None, f))"

record ring_result =
  frames_rx :: nat
  frames_tx :: nat
  reply_data :: "bytes option"

definition apdu_pdu_type :: "bytes \<Rightarrow> nat option" where
  "apdu_pdu_type b = (if length b \<ge> 3 \<and> b ! 0 = 0x01 then Some (unat (drop_bit 4 (b ! 2))) else None)"

definition recovery_acked :: "bytes option \<Rightarrow> bool" where
  "recovery_acked reply =
     (case reply of None \<Rightarrow> False
      | Some b \<Rightarrow> b \<noteq> [] \<and> (apdu_pdu_type b = Some 2 \<or> apdu_pdu_type b = Some 3))"

text \<open>The frames of one round; what is written is collected in order.\<close>

fun ring_frames :: "mframe list \<Rightarrow> ring_fsm \<Rightarrow> ring_result \<Rightarrow> bytes list
    \<Rightarrow> (ring_fsm \<times> ring_result \<times> bytes list) result" where
  "ring_frames [] f r tx = Inr (f, r, tx)"
| "ring_frames (fr # frs) f r tx =
     (let r1 = r\<lparr>frames_rx := frames_rx r + 1\<rparr>;
          r2 = (if to_me f fr \<and> is_reply_type (m_ftype fr) \<and> m_data fr \<noteq> []
                then r1\<lparr>reply_data := Some (m_data fr)\<rparr> else r1)
      in case ring_step f fr of (out, f') \<Rightarrow>
        bindE out (\<lambda>b.
          let (r3, tx') = (case b of None \<Rightarrow> (r2, tx)
                           | Some w \<Rightarrow> (r2\<lparr>frames_tx := frames_tx r2 + 1\<rparr>, tx @ [w]))
          in if ring_state f' = Ring_done then Inr (f', r3, tx')
             else ring_frames frs f' r3 tx'))"

fun ring_loop :: "(bool \<times> bytes) list \<Rightarrow> bytes \<Rightarrow> ring_fsm \<Rightarrow> ring_result \<Rightarrow> bytes list
    \<Rightarrow> (ring_fsm \<times> ring_result \<times> bytes list) result" where
  "ring_loop [] buf f r tx = Inr (f, r, tx)"
| "ring_loop ((before_deadline, chunk) # obs) buf f r tx =
     (if \<not> before_deadline \<or> ring_state f = Ring_done then Inr (f, r, tx)
      else (case parse_frames (buf @ chunk) of (frs, buf') \<Rightarrow>
        bindE (ring_frames frs f r tx) (\<lambda>(f', r', tx'). ring_loop obs buf' f' r' tx')))"

definition run_ring_join :: "(bool \<times> bytes) list \<Rightarrow> ring_fsm
    \<Rightarrow> (ring_fsm \<times> ring_result \<times> bytes list) result" where
  "run_ring_join obs f = ring_loop obs [] f \<lparr>frames_rx = 0, frames_tx = 0, reply_data = None\<rparr> []"

definition answered :: "ring_fsm \<Rightarrow> bool" where
  "answered f \<longleftrightarrow> ring_state f = Ring_done"

definition acked :: "ring_result \<Rightarrow> bool" where
  "acked r \<longleftrightarrow> recovery_acked (reply_data r)"

section \<open>Identity\<close>

definition device_instance :: "int \<Rightarrow> int \<Rightarrow> int" where
  "device_instance serial modbus_addr =
     (let s = serial AND 0xFFFFFFFF in
      if s = 0 \<or> s = 0xFFFFFFFF then 100000 + (modbus_addr AND 0xFFFF) else s AND 0x3FFFFF)"

definition resolve_mstp_baud :: "string \<Rightarrow> int option \<Rightarrow> int" where
  "resolve_mstp_baud family persisted =
     (if family = ''mr'' then 38400
      else let b = (case persisted of None \<Rightarrow> 0 | Some n \<Rightarrow> n) in if b > 0 then b else 38400)"

section \<open>The check sums are the polynomial ones\<close>

text \<open>Two xor-additive functions that agree on the single bits agree everywhere.\<close>

lemma additive_eqI:
  fixes f g :: "'a::len word \<Rightarrow> 'b::len word"
  assumes f: "\<And>x y. f (x XOR y) = f x XOR f y" and g: "\<And>x y. g (x XOR y) = g x XOR g y"
    and basis: "\<And>k. k < LENGTH('a) \<Longrightarrow> f (push_bit k 1) = g (push_bit k 1)"
  shows "f w = g w"
proof -
  have zero: "f 0 = 0" "g 0 = 0" using f [of 0 0] g [of 0 0] by simp_all
  have "k \<le> LENGTH('a) \<Longrightarrow> f (take_bit k w) = g (take_bit k w)" for k
  proof (induction k)
    case 0
    then show ?case by (simp add: zero)
  next
    case (Suc k)
    have split: "take_bit (Suc k) w = take_bit k w XOR (if bit w k then push_bit k 1 else 0)"
      using Suc.prems by (intro bit_word_eqI) (auto simp: bit_simps less_Suc_eq)
    from Suc basis [of k] show ?case by (simp only: split f g) (simp add: zero)
  qed
  from this [of "LENGTH('a)"] show ?thesis by simp
qed

definition crc16_map :: "16 word \<Rightarrow> 16 word" where
  "crc16_map w = (let lo = w AND 0xFF in
      drop_bit 8 w XOR push_bit 8 lo XOR push_bit 3 lo XOR push_bit 12 lo XOR drop_bit 4 lo
        XOR (lo AND 0x0F) XOR push_bit 7 (lo AND 0x0F))"

lemma word_and_xor_distrib: "(x XOR y) AND m = (x AND m) XOR (y AND m)" for x y m :: "'a::len word"
  by (rule bit_word_eqI) (auto simp: bit_simps)

lemma word_push_xor: "push_bit n (x XOR y) = push_bit n x XOR push_bit n y" for x y :: "'a::len word"
  by (rule bit_word_eqI) (auto simp: bit_simps)

lemma word_drop_xor: "drop_bit n (x XOR y) = drop_bit n x XOR drop_bit n y" for x y :: "'a::len word"
  by (rule bit_word_eqI) (auto simp: bit_simps)

lemmas xor_additive = word_and_xor_distrib word_push_xor word_drop_xor

lemma crc16_map_additive: "crc16_map (x XOR y) = crc16_map x XOR crc16_map y"
  unfolding crc16_map_def Let_def
  by (simp only: xor_additive) (simp only: xor.assoc xor.left_commute xor.commute)

lemma crc16_update_map: "crc16_data_update b c = crc16_map (c XOR ucast b)"
proof -
  have m: "(0xFF :: 16 word) = mask 8" by (simp add: mask_eq_exp_minus_1)
  have lo: "(c XOR ucast b) AND 0xFF = (c AND 0xFF) XOR ucast b"
    unfolding m by (rule bit_word_eqI) (auto simp: bit_simps dest: bit_imp_le_length)
  have hi: "drop_bit 8 (c XOR ucast b) = drop_bit 8 c"
    by (rule bit_word_eqI) (auto simp: bit_simps dest: bit_imp_le_length)
  show ?thesis unfolding crc16_data_update_def crc16_map_def Let_def lo hi by (rule refl)
qed


lemma crc_bits_additive: "(crc_bit poly ^^ n) (x XOR y) = (crc_bit poly ^^ n) x XOR (crc_bit poly ^^ n) y"
  by (rule crc_bits_xor)

lemma crc_bits8: "(crc_bit poly ^^ 8) w =
    crc_bit poly (crc_bit poly (crc_bit poly (crc_bit poly
    (crc_bit poly (crc_bit poly (crc_bit poly (crc_bit poly w)))))))"
  by (simp add: numeral_eq_Suc)

lemma crc16_map_bits: "crc16_map w = (crc_bit 0x8408 ^^ 8) w"
proof (rule additive_eqI [of crc16_map "crc_bit 0x8408 ^^ 8"])
  fix k assume "k < LENGTH(16)"
  then have "k = 0 \<or> k = 1 \<or> k = 2 \<or> k = 3 \<or> k = 4 \<or> k = 5 \<or> k = 6 \<or> k = 7 \<or> k = 8 \<or> k = 9
      \<or> k = 10 \<or> k = 11 \<or> k = 12 \<or> k = 13 \<or> k = 14 \<or> k = 15" by simp arith
  then have "push_bit k 1 = (1 :: 16 word) \<or> push_bit k 1 = (2 :: 16 word) \<or> push_bit k 1 = (4 :: 16 word) \<or> push_bit k 1 = (8 :: 16 word)
      \<or> push_bit k 1 = (16 :: 16 word) \<or> push_bit k 1 = (32 :: 16 word) \<or> push_bit k 1 = (64 :: 16 word) \<or> push_bit k 1 = (128 :: 16 word)
      \<or> push_bit k 1 = (256 :: 16 word) \<or> push_bit k 1 = (512 :: 16 word) \<or> push_bit k 1 = (1024 :: 16 word) \<or> push_bit k 1 = (2048 :: 16 word)
      \<or> push_bit k 1 = (4096 :: 16 word) \<or> push_bit k 1 = (8192 :: 16 word) \<or> push_bit k 1 = (16384 :: 16 word) \<or> push_bit k 1 = (32768 :: 16 word)"
    by (elim disjE) simp_all
  then show "crc16_map (push_bit k 1) = (crc_bit 0x8408 ^^ 8) (push_bit k 1)"
    unfolding crc16_map_def Let_def crc_bits8
    by (elim disjE; simp only:; simp add: crc_bit_eval)
qed (rule crc16_map_additive crc_bits_xor)+

lemma crc16_data_update_eq: "crc16_data_update b c = crc_byte 0x8408 c b"
  by (simp add: crc16_update_map crc16_map_bits crc_byte_def)

lemma crc16_run_eq: "crc16_run bs = foldl (crc_byte 0x8408) 0xFFFF bs"
  by (simp add: crc16_run_def crc16_data_update_eq)

interpretation mstp_data: check_burst "\<lambda>c b. crc16_data_update b c"
  unfolding crc16_data_update_eq by (rule check_burst_crc_byte) simp

section \<open>The header check\<close>

definition crc8_map :: "byte \<Rightarrow> byte" where
  "crc8_map x =
     (let c = ucast x :: 16 word;
          crc = c XOR push_bit 1 c XOR push_bit 2 c XOR push_bit 3 c XOR push_bit 4 c
                XOR push_bit 5 c XOR push_bit 6 c XOR push_bit 7 c
      in ucast ((crc AND 0xFE) XOR (drop_bit 8 crc AND 1)))"

text \<open>The inverse of the update, as a shift register run backwards.\<close>

definition crc8_back :: "byte \<Rightarrow> byte" where
  "crc8_back y = y XOR push_bit 1 y XOR drop_bit 7 y XOR push_bit 1 (drop_bit 7 y)"

lemma crc8_update_map: "crc8_update b c = crc8_map (c XOR b)"
  by (simp add: crc8_update_def crc8_map_def)

lemma ucast_xor: "(ucast (x XOR y) :: 'b::len word) = ucast x XOR ucast y" for x y :: "'a::len word"
  by (rule bit_word_eqI) (auto simp: bit_simps)

lemma crc8_map_additive: "crc8_map (x XOR y) = crc8_map x XOR crc8_map y"
  unfolding crc8_map_def Let_def
  by (simp only: xor_additive ucast_xor) (simp only: xor.assoc xor.left_commute xor.commute)

lemma crc8_back_additive: "crc8_back (x XOR y) = crc8_back x XOR crc8_back y"
  unfolding crc8_back_def
  by (simp only: xor_additive) (simp only: xor.assoc xor.left_commute xor.commute)

lemma crc8_back_map: "crc8_back (crc8_map x) = x"
proof (rule additive_eqI [of "\<lambda>x. crc8_back (crc8_map x)" "\<lambda>x. x"])
  fix k assume "k < LENGTH(8)"
  then have "k = 0 \<or> k = 1 \<or> k = 2 \<or> k = 3 \<or> k = 4 \<or> k = 5 \<or> k = 6 \<or> k = 7" by simp arith
  then have "push_bit k 1 = (1 :: byte) \<or> push_bit k 1 = (2 :: byte) \<or> push_bit k 1 = (4 :: byte) \<or> push_bit k 1 = (8 :: byte)
      \<or> push_bit k 1 = (16 :: byte) \<or> push_bit k 1 = (32 :: byte) \<or> push_bit k 1 = (64 :: byte) \<or> push_bit k 1 = (128 :: byte)"
    by (elim disjE) simp_all
  then show "crc8_back (crc8_map (push_bit k 1)) = push_bit k 1"
    by (elim disjE; simp only:; simp add: crc8_map_def crc8_back_def)
qed (simp_all only: crc8_map_additive crc8_back_additive)

lemma crc8_map_inj: "crc8_map x = crc8_map y \<longleftrightarrow> x = y"
  by (metis crc8_back_map)

interpretation mstp_header: check_step "\<lambda>c b. crc8_update b c"
  by unfold_locales (simp_all add: crc8_update_map crc8_map_inj word_xor_cancel word_xor_cancel_left)

lemma crc8_final: "crc8_update (NOT c) c = 0x55"
proof -
  have ones: "c XOR NOT c = 0xFF" by simp
  show ?thesis unfolding crc8_update_map ones by (simp add: crc8_map_def)
qed

lemma crc8_run_final: "crc8_run (hdr @ [NOT (crc8_run hdr)]) = 0x55"
  by (simp add: crc8_run_def crc8_final)

lemma crc8_run_change:
  "crc8_run bs = 0x55 \<Longrightarrow> i < length bs \<Longrightarrow> b \<noteq> bs ! i \<Longrightarrow> crc8_run (bs[i := b]) \<noteq> 0x55"
  unfolding crc8_run_def by (metis mstp_header.single_byte_update)

section \<open>The data check\<close>

lemma data_crc_with: "data_crc_valid (d @ le16 (NOT (crc16_run d)))"
proof -
  define w where "w = NOT (crc16_run d)"
  have le: "le16 w = [ucast w, ucast (drop_bit 8 w)]" by (simp add: le16_def)
  have "(crc_bit 0x8408 ^^ 8) 0xFFFF = 0xf87" "(crc_bit 0x8408 ^^ 8) 0xf87 = 0xF0B8"
    unfolding crc_bits8 by (simp_all add: crc_bit_eval)
  then have res: "(crc_bit 0x8408 ^^ 16) 0xFFFF = 0xF0B8"
    using funpow_add [of 8 8 "crc_bit 0x8408"] by simp
  have "word16 (ucast (drop_bit 8 w)) (ucast w) = foldl (crc_byte 0x8408) 0xFFFF d XOR 0xFFFF"
  proof -
    have m: "(0xFFFF :: 16 word) = -1" by simp
    have not: "NOT x = x XOR 0xFFFF" for x :: "16 word" unfolding m by simp
    show ?thesis unfolding word16_split w_def not crc16_run_eq by (rule refl)
  qed
  with crc_residue [of "0x8408" "0xFFFF" d "ucast w" "ucast (drop_bit 8 w)" "0xFFFF"]
  have "foldl (crc_byte 0x8408) 0xFFFF (d @ [ucast w, ucast (drop_bit 8 w)]) = 0xF0B8"
    unfolding res by simp
  then show ?thesis
    unfolding w_def [symmetric] data_crc_valid_def DATA_CRC_RESIDUE_def crc16_run_eq [of "_ @ _"] le .
qed

lemma data_crc_burst:
  "data_crc_valid (xs @ b1 # b2 # ys) \<Longrightarrow> (d1, d2) \<noteq> (b1, b2) \<Longrightarrow> \<not> data_crc_valid (xs @ d1 # d2 # ys)"
  unfolding data_crc_valid_def crc16_run_def
  using mstp_data.burst [of "0xFFFF" xs b1 b2 ys d1 d2] by auto


section \<open>Scanning\<close>

lemma parse_short: "length d < 8 \<Longrightarrow> parse_frames d = ([], d)"
  by (simp add: parse_frames.simps)

lemma mstp_frame_Inr:
  assumes "mstp_frame ft dst sr data = Inr b"
  shows "length data < 0x10000" and
    "b = [0x55, 0xFF, ft, dst, sr] @ be_bytes 2 (int (length data)) @
       [NOT (crc8_run ([ft, dst, sr] @ be_bytes 2 (int (length data))))] @
       (if data = [] then [] else data @ le16 (NOT (crc16_run data)))"
  using assms by (auto simp: mstp_frame_def Let_def split: if_splits)

lemma parse_mstp_frame:
  assumes "mstp_frame ft dst sr data = Inr b"
  shows "parse_frames (b @ rest) =
    (case parse_frames rest of (fs, q) \<Rightarrow>
       (\<lparr>m_ftype = ft, m_dst = dst, m_src = sr, m_data = data\<rparr> # fs, q))"
proof -
  define h where "h = be_bytes 2 (int (length data))"
  define c where "c = NOT (crc8_run ([ft, dst, sr] @ h))"
  define tail where "tail = (if data = [] then [] else data @ le16 (NOT (crc16_run data)))"
  define d where "d = b @ rest"
  note f = mstp_frame_Inr [OF assms]
  obtain h0 h1 where h: "h = [h0, h1]"
    by (auto simp: h_def numeral_2_eq_2)
  have d: "d = [0x55, 0xFF, ft, dst, sr, h0, h1, c] @ tail @ rest"
    using f(2) h by (simp add: d_def h_def c_def tail_def)
  have "slice 2 8 d = ([ft, dst, sr] @ h) @ [c]" by (simp add: d slice_def h)
  then have crc: "crc8_run (slice 2 8 d) = 0x55" unfolding c_def by (simp only: crc8_run_final)
  have "slice 5 7 d = h" by (simp add: d slice_def h)
  then have dl: "data_len d = length data"
    using f(1) by (simp add: data_len_def h_def from_be_be_bytes)
  then have tot: "frame_total d = 8 + length tail" by (simp add: frame_total_def tail_def)
  moreover have "d = ([0x55, 0xFF, ft, dst, sr, h0, h1, c] @ tail) @ rest" by (simp add: d)
  moreover have "length ([0x55, 0xFF, ft, dst, sr, h0, h1, c] @ tail) = 8 + length tail" by simp
  ultimately have "drop (frame_total d) d = rest" "frame_total d \<le> length d"
    by (metis append_eq_conv_conj, metis length_append le_add1)
  moreover have "frame_here d = \<lparr>m_ftype = ft, m_dst = dst, m_src = sr, m_data = data\<rparr>"
    using dl by (simp add: frame_here_def d slice_def tail_def)
  ultimately show ?thesis
    using crc by (simp add: parse_frames.simps [of d] flip: d_def) (simp add: d)
qed

text \<open>A header with one changed byte after the preamble is not taken for a frame.\<close>

lemma header_change:
  assumes "header_crc_valid h" and "length h = 8" and "2 \<le> i" and "i < 8" and "x \<noteq> h ! i"
  shows "\<not> header_crc_valid (h[i := x])"
proof -
  have s: "slice 2 8 h = drop 2 h" "slice 2 8 (h[i := x]) = (drop 2 h)[i - 2 := x]"
    using assms(2,3) by (simp_all add: slice_def drop_update_swap)
  have "crc8_run (drop 2 h) = 0x55" using assms(1) s by (simp add: header_crc_valid_def)
  moreover have "i - 2 < length (drop 2 h)" using assms by simp
  moreover have "2 + (i - 2) = i" using assms(3) by simp
  then have "x \<noteq> drop 2 h ! (i - 2)" using assms by (simp only: nth_drop not_False_eq_True)
  ultimately have "crc8_run ((drop 2 h)[i - 2 := x]) \<noteq> 0x55" by (rule crc8_run_change)
  then show ?thesis by (simp add: header_crc_valid_def s)
qed

text \<open>The frames do not depend on how the stream is cut into reads.\<close>

lemma slice_append: "b \<le> length xs \<Longrightarrow> slice a b (xs @ ys) = slice a b xs"
  by (simp add: slice_def)

lemma parse_frames_append:
  "parse_frames a = (fs, q) \<Longrightarrow>
     parse_frames (a @ b) = (case parse_frames (q @ b) of (gs, r) \<Rightarrow> (fs @ gs, r))"
proof (induction a arbitrary: fs q rule: parse_frames.induct)
  case (1 d)
  show ?case
  proof (cases "length d < 8")
    case True
    with "1.prems" show ?thesis by (simp add: parse_short)
  next
    case long: False
    have nth: "(d @ b) ! 0 = d ! 0" "(d @ b) ! 1 = d ! 1" "(d @ b) ! 2 = d ! 2" "(d @ b) ! 3 = d ! 3"
      "(d @ b) ! 4 = d ! 4"
      using long by (simp_all add: nth_append) (cases d; simp)
    have cut: "slice 2 8 (d @ b) = slice 2 8 d" "slice 5 7 (d @ b) = slice 5 7 d"
      using long by (simp_all add: slice_append)
    have dl: "data_len (d @ b) = data_len d" by (simp add: data_len_def cut)
    have tot: "frame_total (d @ b) = frame_total d" by (simp add: frame_total_def dl)
    consider (noise) "d ! 0 \<noteq> 0x55 \<or> d ! 1 \<noteq> 0xFF" | (bad) "d ! 0 = 0x55" "d ! 1 = 0xFF" "crc8_run (slice 2 8 d) \<noteq> 0x55"
      | (wait) "d ! 0 = 0x55" "d ! 1 = 0xFF" "crc8_run (slice 2 8 d) = 0x55" "frame_total d > length d"
      | (good) "d ! 0 = 0x55" "d ! 1 = 0xFF" "crc8_run (slice 2 8 d) = 0x55" "frame_total d \<le> length d"
      by linarith
    then show ?thesis
    proof cases
      case noise
      with "1.prems" long have "parse_frames (drop 1 d) = (fs, q)" by (simp add: parse_frames.simps [of d])
      from "1.IH"(1) [OF long noise this] noise long nth show ?thesis
        by (simp add: parse_frames.simps [of "d @ b"])
    next
      case bad
      with "1.prems" long have "parse_frames (drop 2 d) = (fs, q)" by (simp add: parse_frames.simps [of d])
      with "1.IH"(2) [OF long] bad long nth cut show ?thesis
        by (simp add: parse_frames.simps [of "d @ b"])
    next
      case wait
      with "1.prems" long have "fs = []" "q = d" by (simp_all add: parse_frames.simps [of d])
      then show ?thesis by simp
    next
      case good
      obtain gs r where g: "parse_frames (drop (frame_total d) d) = (gs, r)" by (rule prod.exhaust)
      with "1.prems" good long have fq: "fs = frame_here d # gs" "q = r"
        by (simp_all add: parse_frames.simps [of d])
      have "8 + data_len d \<le> length d" using good(4) by (auto simp: frame_total_def split: if_splits)
      then have here: "frame_here (d @ b) = frame_here d"
        unfolding frame_here_def dl nth by (simp add: slice_append)
      from "1.IH"(3) [OF long _ _ _ g] good have
        "parse_frames (drop (frame_total d) d @ b) = (case parse_frames (r @ b) of (hs, s) \<Rightarrow> (gs @ hs, s))"
        by simp
      with good long nth cut tot here fq show ?thesis
        by (simp add: parse_frames.simps [of "d @ b"] split: prod.splits)
    qed
  qed
qed

section \<open>Listening counts what parsing delivers\<close>

lemma header_valid_iff: "8 \<le> length d \<Longrightarrow> header_crc_valid (take 8 d) \<longleftrightarrow> crc8_run (slice 2 8 d) = 0x55"
proof -
  assume "8 \<le> length d"
  moreover have "slice 2 8 (take 8 d) = slice 2 8 d" by (simp add: slice_def drop_take)
  ultimately show ?thesis by (simp add: header_crc_valid_def)
qed

definition type_count :: "byte \<Rightarrow> mframe list \<Rightarrow> nat" where
  "type_count t fs = length (filter (\<lambda>f. m_ftype f = t) fs)"

lemma sniff_scan_parse:
  "parse_frames d = (fs, q) \<Longrightarrow> \<exists>r'. sniff_scan d r = (r', q) \<and>
     frames_seen r' = frames_seen r + length fs \<and>
     bytes_read r' = bytes_read r \<and>
     (\<forall>t. histogram r' t = histogram r t + type_count t fs)"
proof (induction d r arbitrary: fs q rule: sniff_scan.induct)
  case (1 d r)
  show ?case
  proof (cases "length d < 8")
    case True
    with "1.prems" show ?thesis by (simp add: sniff_scan.simps parse_short type_count_def)
  next
    case long: False
    then have hv: "header_crc_valid (take 8 d) \<longleftrightarrow> crc8_run (slice 2 8 d) = 0x55"
      by (intro header_valid_iff) simp
    consider (noise) "d ! 0 \<noteq> 0x55 \<or> d ! 1 \<noteq> 0xFF" | (bad) "\<not> (d ! 0 \<noteq> 0x55 \<or> d ! 1 \<noteq> 0xFF)" "crc8_run (slice 2 8 d) \<noteq> 0x55"
      | (wait) "\<not> (d ! 0 \<noteq> 0x55 \<or> d ! 1 \<noteq> 0xFF)" "crc8_run (slice 2 8 d) = 0x55" "frame_total d > length d"
      | (good) "\<not> (d ! 0 \<noteq> 0x55 \<or> d ! 1 \<noteq> 0xFF)" "crc8_run (slice 2 8 d) = 0x55" "\<not> frame_total d > length d"
      by linarith
    then show ?thesis
    proof cases
      case noise
      with "1.prems" long have "parse_frames (drop 1 d) = (fs, q)" by (simp add: parse_frames.simps [of d])
      from "1.IH"(1) [OF long noise this] noise long show ?thesis by (simp add: sniff_scan.simps [of d])
    next
      case bad
      with "1.prems" long have "parse_frames (drop 2 d) = (fs, q)" by (simp add: parse_frames.simps [of d])
      from "1.IH"(2) [OF long bad(1) _ this] bad long hv show ?thesis by (simp add: sniff_scan.simps [of d])
    next
      case wait
      with "1.prems" long have fq: "fs = []" "q = d" by (simp_all add: parse_frames.simps [of d])
      from wait long hv have "sniff_scan d r = (r, d)" by (simp add: sniff_scan.simps [of d])
      with fq show ?thesis by (simp add: type_count_def)
    next
      case good
      obtain gs p where g: "parse_frames (drop (frame_total d) d) = (gs, p)" by (rule prod.exhaust)
      with "1.prems" good long have fq: "fs = frame_here d # gs" "q = p"
        by (simp_all add: parse_frames.simps [of d])
      define r1 where "r1 = r\<lparr>frames_seen := frames_seen r + 1,
                histogram := (histogram r)(d ! 2 := histogram r (d ! 2) + 1)\<rparr>"
      from "1.IH"(3) [OF long good(1) _ good(3) g] good hv obtain r' where
        "sniff_scan (drop (frame_total d) d) r1 = (r', p)" "frames_seen r' = frames_seen r1 + length gs"
        "bytes_read r' = bytes_read r1" "\<forall>t. histogram r' t = histogram r1 t + type_count t gs"
        by (auto simp: r1_def)
      with good long hv fq show ?thesis
        by (simp add: sniff_scan.simps [of d] r1_def [symmetric])
          (simp add: r1_def type_count_def frame_here_def)
    qed
  qed
qed

definition heard :: "(bool \<times> bytes) list \<Rightarrow> bytes" where
  "heard obs = concat (map snd (takeWhile fst obs))"

lemma parse_frames_rest: "parse_frames a = (fs, q) \<Longrightarrow> parse_frames q = ([], q)"
  using parse_frames_append [of a fs q "[]"] by (auto split: prod.splits)

lemma sniff_loop_parse:
  "parse_frames buf = ([], buf) \<Longrightarrow>
     frames_seen (sniff_loop obs buf r) = frames_seen r + length (fst (parse_frames (buf @ heard obs))) \<and>
     (\<forall>t. histogram (sniff_loop obs buf r) t =
        histogram r t + type_count t (fst (parse_frames (buf @ heard obs))))"
proof (induction obs arbitrary: buf r)
  case Nil
  then show ?case by (simp add: heard_def type_count_def)
next
  case (Cons ob obs)
  obtain ok chunk where ob: "ob = (ok, chunk)" by (rule prod.exhaust)
  show ?case
  proof (cases "ok \<and> chunk \<noteq> []")
    case False
    with Cons ob show ?thesis by (auto simp: heard_def type_count_def)
  next
    case True
    obtain fs q where p: "parse_frames (buf @ chunk) = (fs, q)" by (rule prod.exhaust)
    define r1 where "r1 = r\<lparr>bytes_read := bytes_read r + length chunk\<rparr>"
    from sniff_scan_parse [OF p, of r1] obtain r' where r': "sniff_scan (buf @ chunk) r1 = (r', q)"
      "frames_seen r' = frames_seen r + length fs" "\<forall>t. histogram r' t = histogram r t + type_count t fs"
      by (auto simp: r1_def)
    from True ob r'(1) have loop: "sniff_loop (ob # obs) buf r = sniff_loop obs q r'"
      by (simp add: r1_def)
    have "heard (ob # obs) = chunk @ heard obs" using True ob by (simp add: heard_def)
    then have "parse_frames (buf @ heard (ob # obs)) =
        (case parse_frames (q @ heard obs) of (gs, s) \<Rightarrow> (fs @ gs, s))"
      using parse_frames_append [OF p, of "heard obs"] by simp
    then have "fst (parse_frames (buf @ heard (ob # obs))) = fs @ fst (parse_frames (q @ heard obs))"
      by (simp split: prod.splits)
    with Cons.IH [OF parse_frames_rest [OF p], of r'] r' loop show ?thesis
      by (simp add: type_count_def)
  qed
qed

lemma sniff_stream_parse:
  "frames_seen (sniff_stream obs) = length (fst (parse_frames (heard obs)))"
  "histogram (sniff_stream obs) t = type_count t (fst (parse_frames (heard obs)))"
  using sniff_loop_parse [of "[]" obs sniff0]
  by (simp_all add: sniff_stream_def sniff0_def parse_short)

section \<open>The ring-join machine\<close>

text \<open>What a step may transmit, by the state it starts from.\<close>

inductive ring_move :: "ring \<Rightarrow> mframe \<Rightarrow> ring \<Rightarrow> bool" where
  poll: "s = Wait_pfm \<or> s = Wait_token \<Longrightarrow> m_ftype fr = FRAME_TYPE_POLL_FOR_MASTER \<Longrightarrow> ring_move s fr Wait_token"
| token: "m_ftype fr = FRAME_TYPE_TOKEN \<Longrightarrow> ring_move Wait_token fr Wait_reply"
| reply: "is_reply_type (m_ftype fr) \<Longrightarrow> ring_move Wait_reply fr Ring_done"

inductive_cases ring_moveE: "ring_move s fr s'"

inductive_simps ring_move_simps:
  "ring_move Wait_pfm fr s" "ring_move Wait_token fr s" "ring_move Wait_reply fr s" "ring_move Ring_done fr s"

lemma ring_step_moves:
  assumes "ring_step f fr = (out, f')"
  shows "f' = f\<lparr>ring_state := ring_state f'\<rparr> \<and>
    (if \<exists>s'. ring_move (ring_state f) fr s' \<and> to_me f fr
     then ring_move (ring_state f) fr (ring_state f') \<and> out \<noteq> Inr None
     else out = Inr None \<and> ring_state f' = ring_state f)"
proof -
  have ne: "bindE m (\<lambda>b. Inr (Some b)) \<noteq> Inr None" for m :: "bytes result" by (cases m) auto
  show ?thesis
    using assms ne
    by (cases "ring_state f")
      (auto simp: ring_step_def ring_move_simps frame_types is_reply_type_def split: if_splits)
qed

text \<open>What has been transmitted, by the state the machine is in.\<close>

definition polled :: "ring_fsm \<Rightarrow> bytes list \<Rightarrow> bool" where
  "polled f ps \<longleftrightarrow> (\<forall>p \<in> set ps. mstp_frame FRAME_TYPE_REPLY_TO_PFM (dut_mac f) (my_mac f) [] = Inr p)"

definition ring_sent :: "ring_fsm \<Rightarrow> bytes list \<Rightarrow> bool" where
  "ring_sent f tx \<longleftrightarrow>
     (case ring_state f of
        Wait_pfm \<Rightarrow> tx = []
      | Wait_token \<Rightarrow> polled f tx
      | Wait_reply \<Rightarrow> (\<exists>ps d. polled f ps \<and> der f = Inr d \<and> tx = ps @ [d])
      | Ring_done \<Rightarrow> (\<exists>ps d t. polled f ps \<and> der f = Inr d \<and> tx = ps @ [d, t] \<and>
          mstp_frame FRAME_TYPE_TOKEN (dut_mac f) (my_mac f) [] = Inr t))"

lemma der_state [simp]: "der (f\<lparr>ring_state := x\<rparr>) = der f"
  by (simp add: der_def split: option.split)

lemma polled_state [simp]: "polled (f\<lparr>ring_state := x\<rparr>) ps = polled f ps"
  by (cases f) (simp add: polled_def)

lemma ring_stepE:
  assumes "ring_step f fr = (Inr out, f')"
  obtains (idle) "out = None" "f' = f"
    | (poll) w where "ring_state f = Wait_pfm \<or> ring_state f = Wait_token" "out = Some w"
        "mstp_frame FRAME_TYPE_REPLY_TO_PFM (dut_mac f) (my_mac f) [] = Inr w"
        "f' = f\<lparr>ring_state := Wait_token\<rparr>"
    | (token) w where "ring_state f = Wait_token" "der f = Inr w" "out = Some w"
        "f' = f\<lparr>ring_state := Wait_reply\<rparr>"
    | (reply) w where "ring_state f = Wait_reply" "out = Some w"
        "mstp_frame FRAME_TYPE_TOKEN (dut_mac f) (my_mac f) [] = Inr w"
        "f' = f\<lparr>ring_state := Ring_done\<rparr>"
proof (cases "(ring_state f = Wait_pfm \<or> ring_state f = Wait_token) \<and>
         m_ftype fr = FRAME_TYPE_POLL_FOR_MASTER \<and> to_me f fr")
  case True
  with assms poll show ?thesis unfolding ring_step_def if_P [OF True] prod.inject bindE_Inr_conv by blast
next
  case p: False
  show ?thesis
  proof (cases "ring_state f = Wait_token \<and> m_ftype fr = FRAME_TYPE_TOKEN \<and> to_me f fr")
    case True
    with assms p token show ?thesis unfolding ring_step_def
      unfolding if_not_P [OF p] if_P [OF True] prod.inject bindE_Inr_conv by blast
  next
    case t: False
    show ?thesis
    proof (cases "ring_state f = Wait_reply \<and> to_me f fr \<and> is_reply_type (m_ftype fr)")
      case True
      with assms reply show ?thesis unfolding ring_step_def
        unfolding if_not_P [OF p] if_not_P [OF t] if_P [OF True] prod.inject bindE_Inr_conv by blast
    next
      case False
      with assms idle show ?thesis unfolding ring_step_def
        unfolding if_not_P [OF p] if_not_P [OF t] if_not_P [OF False] prod.inject by blast
    qed
  qed
qed

lemma ring_step_sent:
  assumes "ring_step f fr = (Inr out, f')" and "ring_sent f tx" and "ring_state f \<noteq> Ring_done"
  shows "ring_sent f' (case out of None \<Rightarrow> tx | Some w \<Rightarrow> tx @ [w])"
  using assms(1)
proof (cases rule: ring_stepE)
  case idle
  with assms(2) show ?thesis by simp
next
  case (poll w)
  then have "polled f tx" using assms(2) by (auto simp: ring_sent_def polled_def)
  with poll show ?thesis by (auto simp: ring_sent_def polled_def)
next
  case (token w)
  with assms(2) show ?thesis by (auto simp: ring_sent_def)
next
  case (reply w)
  with assms(2) show ?thesis by (auto simp: ring_sent_def)
qed

lemma ring_frames_Cons:
  assumes "ring_step f fr = (Inr b, f1)"
  shows "\<exists>r3. ring_frames (fr # frs) f r tx =
    (if ring_state f1 = Ring_done then Inr (f1, r3, case b of None \<Rightarrow> tx | Some w \<Rightarrow> tx @ [w])
     else ring_frames frs f1 r3 (case b of None \<Rightarrow> tx | Some w \<Rightarrow> tx @ [w]))"
  using assms by (cases b; cases "ring_state f1 = Ring_done") (auto simp: Let_def)

lemma ring_frames_sent:
  "ring_frames frs f r tx = Inr (f', r', tx') \<Longrightarrow> ring_sent f tx \<Longrightarrow> ring_state f \<noteq> Ring_done \<Longrightarrow>
     ring_sent f' tx'"
proof (induction frs arbitrary: f r tx)
  case (Cons fr frs)
  obtain o1 f1 where st: "ring_step f fr = (o1, f1)" by (rule prod.exhaust)
  with Cons.prems(1) obtain b where b: "o1 = Inr b" by (cases o1) auto
  define tx1 where "tx1 = (case b of None \<Rightarrow> tx | Some w \<Rightarrow> tx @ [w])"
  have sent: "ring_sent f1 tx1"
    unfolding tx1_def using st b Cons.prems(2,3) by (intro ring_step_sent) simp_all
  from ring_frames_Cons [OF st [unfolded b], of frs r tx] Cons.prems(1) obtain r3 where
    "(if ring_state f1 = Ring_done then Inr (f1, r3, tx1) else ring_frames frs f1 r3 tx1) = Inr (f', r', tx')"
    unfolding tx1_def by metis
  with Cons.IH [of f1 r3 tx1] sent show ?case by (auto split: if_splits)
qed simp

lemma ring_loop_sent:
  "ring_loop obs buf f r tx = Inr (f', r', tx') \<Longrightarrow> ring_sent f tx \<Longrightarrow> ring_sent f' tx'"
proof (induction obs arbitrary: buf f r tx)
  case (Cons ob obs)
  obtain ok chunk where ob: "ob = (ok, chunk)" by (rule prod.exhaust)
  show ?case
  proof (cases "\<not> ok \<or> ring_state f = Ring_done")
    case True
    with Cons.prems ob show ?thesis by simp
  next
    case False
    obtain frs buf' where p: "parse_frames (buf @ chunk) = (frs, buf')" by (rule prod.exhaust)
    with Cons.prems(1) ob False obtain f1 r1 tx1 where
      1: "ring_frames frs f r tx = Inr (f1, r1, tx1)" and 2: "ring_loop obs buf' f1 r1 tx1 = Inr (f', r', tx')"
      by (auto simp: bindE_Inr_conv)
    from ring_frames_sent [OF 1 Cons.prems(2)] False have "ring_sent f1 tx1" by blast
    with 2 show ?thesis by (rule Cons.IH)
  qed
qed simp

section \<open>Properties\<close>

text \<open>the shift-and-xor update of the data check is the bit-serial CRC-16 with the reflected
  polynomial 8408, byte for byte, and the residue that \<^verbatim>\<open>data_crc_valid\<close> compares with is met by
  every payload followed by its complemented check.\<close>

lemma data_crc_is_x25:
  "crc16_data_update b c = crc_byte 0x8408 c b \<and> data_crc_valid (d @ le16 (NOT (crc16_run d)))"
  by (intro conjI crc16_data_update_eq data_crc_with)

text \<open>the frame that \<^verbatim>\<open>mstp_frame\<close> builds is the first one \<^verbatim>\<open>parse_frames\<close> delivers from a
  buffer that begins with it, with its type, addresses and data, and the rest of the buffer is
  parsed as if it stood alone.\<close>

lemma mstp_frame_delivered:
  assumes "mstp_frame ft dst sr data = Inr b"
  shows "parse_frames (b @ rest) =
    (case parse_frames rest of (fs, q) \<Rightarrow>
       (\<lparr>m_ftype = ft, m_dst = dst, m_src = sr, m_data = data\<rparr> # fs, q))"
  using assms by (rule parse_mstp_frame)

lemma mstp_frame_delivered_witness:
  "\<exists>b. mstp_frame 6 1 2 [0xAB] = Inr b \<and>
     parse_frames (b @ []) = ([\<lparr>m_ftype = 6, m_dst = 1, m_src = 2, m_data = [0xAB]\<rparr>], [])"
proof -
  obtain b where b: "mstp_frame 6 1 2 [0xAB] = Inr b" by (simp add: mstp_frame_def Let_def)
  show ?thesis using b mstp_frame_delivered [OF b, of "[]"] by (simp add: parse_short)
qed

text \<open>listening counts exactly what parsing delivers: the number of frames and the histogram of
  their types that \<^verbatim>\<open>sniff_stream\<close> reports are those of the frames in the concatenation of the
  chunks read, however the stream was cut into reads.\<close>

lemma sniff_counts_frames:
  "frames_seen (sniff_stream obs) = length (fst (parse_frames (heard obs))) \<and>
   histogram (sniff_stream obs) t = type_count t (fst (parse_frames (heard obs)))"
  by (intro conjI sniff_stream_parse)


definition demo_ring :: ring_fsm where
  "demo_ring = \<lparr>my_mac = 3, dut_mac = 9, invoke_id = 1, obj_type = 8, obj_inst = 1, prop_id = 77,
     der_payload = None, ring_state = Wait_pfm\<rparr>"

text \<open>a reply-type frame with data from the device, heard before the request was even sent, is
  recorded as the reply: the outcome counts as acknowledged although nothing was transmitted and
  the join has not been answered.\<close>

lemma stale_frame_acknowledges:
  assumes "mstp_frame FRAME_TYPE_DATA_NOT_EXPECTING_REPLY (my_mac f) (dut_mac f) d = Inr b"
    and "ring_state f = Wait_pfm" and "recovery_acked (Some d)"
  shows "\<exists>r. run_ring_join [(True, b)] f = Inr (f, r, []) \<and> acked r \<and> \<not> answered f"
proof -
  have d: "d \<noteq> []" using assms(3) by (auto simp: recovery_acked_def)
  have p: "parse_frames ([] @ b) = ([\<lparr>m_ftype = FRAME_TYPE_DATA_NOT_EXPECTING_REPLY, m_dst = my_mac f,
      m_src = dut_mac f, m_data = d\<rparr>], [])"
    using parse_mstp_frame [OF assms(1), of "[]"] by (simp add: parse_short)
  show ?thesis unfolding run_ring_join_def ring_loop.simps p
    using assms(2,3) d
    by (simp add: Let_def ring_step_def to_me_def is_reply_type_def frame_types acked_def answered_def)
qed

lemma demo_ack: "recovery_acked (Some [1, 0, 0x20])"
  by (simp add: recovery_acked_def apdu_pdu_type_def)

lemma stale_frame_acknowledges_witness:
  "\<exists>b r. run_ring_join [(True, b)] demo_ring = Inr (demo_ring, r, []) \<and> acked r \<and> \<not> answered demo_ring"
proof -
  obtain b where b: "mstp_frame FRAME_TYPE_DATA_NOT_EXPECTING_REPLY (my_mac demo_ring) (dut_mac demo_ring)
      [1, 0, 0x20] = Inr b"
    by (simp add: mstp_frame_def Let_def)
  show ?thesis using stale_frame_acknowledges [OF b _ demo_ack] by (auto simp: demo_ring_def)
qed


end
