(* ===== verification/Gateway_Frames.thy ===== *)
theory Gateway_Frames
  imports Crc
begin

text \<open>
  The framing of the serial gateway, \<^verbatim>\<open>opt/sa02m-serial-gateway/serial_gateway.py\<close>: how long a
  request on a TCP stream and a response on the RS-485 line are, the reading of one request, and the
  blocking exchange with the line.  The locale \<open>length_prefix\<close> is what all three length functions
  promise: a length once known does not change with the bytes that follow.
\<close>

section \<open>Check sum\<close>

definition gw_crc16 :: "bytes \<Rightarrow> 16 word" where
  "gw_crc16 data = foldl (crc_byte 0xA001) 0xFFFF data"

definition append_crc :: "bytes \<Rightarrow> bytes" where
  "append_crc data = data @ le16 (gw_crc16 data)"

definition check_crc :: "bytes \<Rightarrow> bool" where
  "check_crc data \<longleftrightarrow> 4 \<le> length data \<and>
     gw_crc16 (take (length data - 2) data) = word16 (data ! (length data - 1)) (data ! (length data - 2))"

section \<open>Length of a request\<close>

text \<open>Zero means that more header bytes are needed.\<close>

definition write_pdu_length :: "bytes \<Rightarrow> nat result" where
  "write_pdu_length data =
     (let coils = (data ! 0 = 15); count = unat (word16 (data ! 3) (data ! 4));
          expected = (if coils then (count + 7) div 8 else count * 2) in
      if \<not> (1 \<le> count \<and> count \<le> (if coils then 1968 else 123)) \<or> unat (data ! 5) \<noteq> expected
      then Inl (RtuFramingError ''write quantity'') else Inr (6 + unat (data ! 5)))"

definition file_pdu_length :: "bytes \<Rightarrow> nat result" where
  "file_pdu_length data =
     (let n = unat (data ! 1) in
      if \<not> (7 \<le> n \<and> n \<le> (if data ! 0 = 20 then 245 else 251))
      then Inl (RtuFramingError ''file-record byte count'') else Inr (2 + n))"

definition read_write_pdu_length :: "bytes \<Rightarrow> nat result" where
  "read_write_pdu_length data =
     (let count = unat (word16 (data ! 7) (data ! 8)) in
      if \<not> (1 \<le> count \<and> count \<le> 121) \<or> unat (data ! 9) \<noteq> count * 2
      then Inl (RtuFramingError ''read/write byte count'') else Inr (10 + unat (data ! 9)))"

definition request_pdu_length :: "bytes \<Rightarrow> nat result" where
  "request_pdu_length data =
     (if data = [] then Inr 0
      else if data ! 0 \<in> {1, 2, 3, 4, 5, 6} then Inr 5
      else if data ! 0 \<in> {7, 11, 12, 17} then Inr 1
      else if data ! 0 = 22 then Inr 7
      else if data ! 0 = 24 then Inr 3
      else if data ! 0 \<in> {15, 16} then (if length data < 6 then Inr 0 else write_pdu_length data)
      else if data ! 0 \<in> {20, 21} then (if length data < 2 then Inr 0 else file_pdu_length data)
      else if data ! 0 = 23 then (if length data < 10 then Inr 0 else read_write_pdu_length data)
      else if data ! 0 = 43 \<and> length data < 2 then Inr 0
      else if data ! 0 = 43 \<and> data ! 1 = 14 then Inr 4
      else Inl (RtuFramingError ''function''))"

definition pdu_at :: "nat \<Rightarrow> bytes \<Rightarrow> nat result" where
  "pdu_at offset data =
     bindE (request_pdu_length (drop offset data)) (\<lambda>len.
       Inr (if len = 0 then 0 else offset + len + 2))"

definition rtu_request_length :: "bytes \<Rightarrow> nat result" where
  "rtu_request_length data =
     (if data = [] then Inr 0
      else if data ! 0 = 0xFD then
        (if length data < 3 then Inr 0
         else if data ! 1 \<noteq> 0x46 then Inl (RtuFramingError ''FastModbus function'')
         else if data ! 2 \<in> {1, 2, 4} then Inr 5
         else if data ! 2 \<noteq> 8 then Inl (RtuFramingError ''FastModbus command'')
         else pdu_at 7 data)
      else if 247 < unat (data ! 0) then Inl (RtuFramingError ''unit address'')
      else pdu_at 1 data)"

section \<open>Length of a response\<close>

definition modbus_read_frame_len :: "bytes \<Rightarrow> nat" where
  "modbus_read_frame_len data =
     (if length data < 3 then 0
      else if data ! 1 AND 0x80 \<noteq> 0 then 5
      else if data ! 1 \<in> {1, 2, 3, 4} then 3 + unat (data ! 2) + 2
      else if data ! 1 \<in> {0x06, 0x10} then 8
      else 0)"

definition fast_inner_length :: "bytes \<Rightarrow> nat" where
  "fast_inner_length rem =
     (if length rem < 8 then 0
      else if rem ! 7 AND 0x80 \<noteq> 0 then 3 + 4 + 2 + 2
      else if rem ! 7 \<in> {3, 4} then (if length rem < 9 then 0 else 3 + 4 + (2 + unat (rem ! 8)) + 2)
      else if rem ! 7 \<in> {0x06, 0x10} then 3 + 4 + 5 + 2
      else 0)"

definition fast_modbus_frame_len :: "bytes \<Rightarrow> nat" where
  "fast_modbus_frame_len rem =
     (if length rem < 3 \<or> rem ! 0 \<noteq> 0xFD \<or> rem ! 1 \<noteq> 0x46 then 0
      else if rem ! 2 \<in> {1, 2, 4} then 5
      else if rem ! 2 = 3 then 10
      else if rem ! 2 \<in> {8, 9} then fast_inner_length rem
      else 0)"

section \<open>Self-delimiting lengths\<close>

locale length_prefix =
  fixes len :: "bytes \<Rightarrow> nat result"
  assumes stable: "len p \<noteq> Inr 0 \<Longrightarrow> len (p @ x) = len p"
    and decided: "len p = Inr n \<Longrightarrow> n \<noteq> 0 \<Longrightarrow> n \<le> length p \<Longrightarrow> len (take n p) = Inr n"
begin

lemma stable_take: "len (take k f) \<noteq> Inr 0 \<Longrightarrow> len (take k f) = len f"
  using stable [of "take k f" "drop k f"] by simp

text \<open>While a frame is coming in, its length is unknown or already right; it is never refused.\<close>

lemma frame_prefix:
  assumes "len f = Inr (length f)"
  shows "len (take k f) = Inr 0 \<or> len (take k f) = Inr (length f)"
  using stable_take [of k f] assms by auto

text \<open>A length that becomes known with the last byte is longer than what was there before.\<close>

lemma first_known:
  assumes "len (p @ [b]) = Inr n" and "n \<noteq> 0" and "len p = Inr 0"
  shows "length p < n"
proof (rule ccontr)
  assume "\<not> length p < n"
  then have le: "n \<le> length p" by simp
  with decided [OF assms(1,2)] have "len (take n p) = Inr n" by simp
  with stable [of "take n p" "drop n p"] assms(2,3) show False by simp
qed

lemma known_is_frame:
  assumes "len (take k f) = Inr n" and "n \<noteq> 0" and "len f = Inr (length f)"
  shows "n = length f"
  using stable_take [of k f] assms by auto

end

lemma request_pdu_length_stable:
  assumes "request_pdu_length p \<noteq> Inr 0"
  shows "request_pdu_length (p @ x) = request_pdu_length p"
proof -
  have ne: "p \<noteq> []" using assms by (auto simp: request_pdu_length_def)
  have n: "k < length p \<Longrightarrow> (p @ x) ! k = p ! k" for k by (simp add: nth_append)
  have n0: "(p @ x) ! 0 = p ! 0" using ne n by simp
  have w: "write_pdu_length (p @ x) = write_pdu_length p" if "6 \<le> length p"
  proof -
    have e: "(p @ x) ! 3 = p ! 3" "(p @ x) ! 4 = p ! 4" "(p @ x) ! 5 = p ! 5" using that by (auto intro: n)
    show ?thesis unfolding write_pdu_length_def n0 e by (rule refl)
  qed
  have f: "file_pdu_length (p @ x) = file_pdu_length p \<and> (p @ x) ! 1 = p ! 1" if "2 \<le> length p"
  proof -
    have e: "(p @ x) ! 1 = p ! 1" using that by (auto intro: n)
    then show ?thesis unfolding file_pdu_length_def n0 e by simp
  qed
  have r: "read_write_pdu_length (p @ x) = read_write_pdu_length p" if "10 \<le> length p"
  proof -
    have e: "(p @ x) ! 7 = p ! 7" "(p @ x) ! 8 = p ! 8" "(p @ x) ! 9 = p ! 9" using that by (auto intro: n)
    show ?thesis unfolding read_write_pdu_length_def n0 e by (rule refl)
  qed
  show ?thesis
    using assms ne w f r unfolding request_pdu_length_def n0
    by (simp del: insert_iff split: if_split_asm) auto
qed

lemma request_pdu_length_decided:
  assumes "request_pdu_length p = Inr n" and "n \<noteq> 0" and "n \<le> length p"
  shows "request_pdu_length (take n p) = Inr n"
proof -
  have ne: "p \<noteq> []" using assms by auto
  have t: "k < n \<Longrightarrow> take n p ! k = p ! k" for k by simp
  have l: "length (take n p) = n" using assms(3) by simp
  have t0: "take n p ! 0 = p ! 0" and ne': "take n p \<noteq> []" using assms(2) ne by auto
  have w: "write_pdu_length p = Inr n \<Longrightarrow> 6 \<le> n \<and> write_pdu_length (take n p) = Inr n"
    by (auto simp: write_pdu_length_def Let_def split: if_split_asm)
  have f: "file_pdu_length p = Inr n \<Longrightarrow> 2 \<le> n \<and> file_pdu_length (take n p) = Inr n"
    by (auto simp: file_pdu_length_def Let_def split: if_split_asm)
  have r: "read_write_pdu_length p = Inr n \<Longrightarrow> 10 \<le> n \<and> read_write_pdu_length (take n p) = Inr n"
    by (auto simp: read_write_pdu_length_def Let_def split: if_split_asm)
  consider (put) "p ! 0 = 15 \<or> p ! 0 = 16" | (records) "p ! 0 = 20 \<or> p ! 0 = 21" | (rw) "p ! 0 = 23"
    | (other) "p ! 0 \<notin> {15, 16}" "p ! 0 \<notin> {20, 21}" "p ! 0 \<noteq> 23"
    by blast
  then show ?thesis
  proof cases
    case put
    with assms(1,2) ne have "write_pdu_length p = Inr n"
      by (elim disjE) (simp_all add: request_pdu_length_def split: if_splits)
    with w put ne' show ?thesis unfolding request_pdu_length_def t0 l by (elim disjE) simp_all
  next
    case records
    with assms(1,2) ne have "file_pdu_length p = Inr n"
      by (elim disjE) (simp_all add: request_pdu_length_def split: if_splits)
    with f records ne' show ?thesis unfolding request_pdu_length_def t0 l by (elim disjE) simp_all
  next
    case rw
    with assms(1,2) ne have "read_write_pdu_length p = Inr n"
      by (simp add: request_pdu_length_def split: if_splits)
    with r rw ne' show ?thesis unfolding request_pdu_length_def t0 l by simp
  next
    case other
    show ?thesis
    proof (cases "p ! 0 = 43")
      case True
      with assms ne have "n = 4" "p ! 1 = 14" by (simp_all add: request_pdu_length_def split: if_splits)
      with True ne' t [of 1] show ?thesis unfolding request_pdu_length_def t0 l by simp
    next
      case False
      with other ne' ne have "request_pdu_length (take n p) = request_pdu_length p"
        unfolding request_pdu_length_def t0 by (simp only: if_False simp_thms)
      with assms(1) show ?thesis by simp
    qed
  qed
qed

interpretation request_pdu: length_prefix request_pdu_length
  by unfold_locales (rule request_pdu_length_stable request_pdu_length_decided; assumption)+

lemma rtu_request_length_stable:
  assumes "rtu_request_length p \<noteq> Inr 0"
  shows "rtu_request_length (p @ x) = rtu_request_length p"
proof -
  have ne: "p \<noteq> []" using assms by (auto simp: rtu_request_length_def)
  have n: "k < length p \<Longrightarrow> (p @ x) ! k = p ! k" for k by (simp add: nth_append)
  have n0: "(p @ x) ! 0 = p ! 0" using ne n by simp
  have e: "(p @ x) ! 1 = p ! 1 \<and> (p @ x) ! 2 = p ! 2" if "3 \<le> length p" using that by (auto intro: n)
  have at: "pdu_at k (p @ x) = pdu_at k p" if nz: "pdu_at k p \<noteq> Inr 0" for k
  proof -
    have nz': "request_pdu_length (drop k p) \<noteq> Inr 0" using nz by (auto simp: pdu_at_def)
    have "k < length p" by (rule ccontr) (use nz' in \<open>simp add: request_pdu_length_def\<close>)
    then have "drop k (p @ x) = drop k p @ x" by simp
    with request_pdu_length_stable [OF nz', of x] show ?thesis by (simp add: pdu_at_def)
  qed
  show ?thesis
    using assms ne e at unfolding rtu_request_length_def n0
    by (simp del: insert_iff split: if_split_asm) auto
qed

lemma pdu_at_decided:
  assumes "pdu_at k p = Inr n" and "n \<noteq> 0" and "n \<le> length p"
  shows "k < n \<and> pdu_at k (take n p) = Inr n"
proof -
  from assms obtain l where l: "request_pdu_length (drop k p) = Inr l" "l \<noteq> 0" "n = k + l + 2"
    by (auto simp: pdu_at_def bindE_Inr_conv split: if_splits)
  have "request_pdu_length (take l (drop k p)) = Inr l"
    using request_pdu_length_decided [OF l(1,2)] assms(3) l(3) by simp
  moreover have "drop k (take n p) = take (l + 2) (drop k p)" by (simp add: l(3) drop_take)
  then have "drop k (take n p) = take l (drop k p) @ take 2 (drop l (drop k p))" by (simp only: take_add)
  ultimately have "request_pdu_length (drop k (take n p)) = Inr l"
    using request_pdu_length_stable l(2) by simp
  with l(2,3) show ?thesis by (simp add: pdu_at_def)
qed

lemma rtu_request_length_decided:
  assumes "rtu_request_length p = Inr n" and "n \<noteq> 0" and "n \<le> length p"
  shows "rtu_request_length (take n p) = Inr n"
proof -
  have ne: "p \<noteq> []" using assms by auto
  have t: "k < n \<Longrightarrow> take n p ! k = p ! k" for k by simp
  have l: "length (take n p) = n" using assms(3) by simp
  have t0: "take n p ! 0 = p ! 0" and ne': "take n p \<noteq> []" using assms(2) ne by auto
  have a: "pdu_at k p = Inr n \<Longrightarrow> k < n \<and> pdu_at k (take n p) = Inr n" for k
    using pdu_at_decided assms(2,3) by blast
  show ?thesis
  proof (cases "p ! 0 = 0xFD")
    case fast: True
    show ?thesis
    proof (cases "p ! 2 \<in> {1, 2, 4}")
      case True
      with assms fast ne have "n = 5" "p ! 1 = 0x46"
        by (simp_all del: insert_iff add: rtu_request_length_def split: if_splits)
      with True fast ne' t [of 1] t [of 2] show ?thesis
        unfolding rtu_request_length_def t0 l by (simp del: insert_iff)
    next
      case False
      with assms fast ne have "pdu_at 7 p = Inr n" "p ! 1 = 0x46" "p ! 2 = 8"
        by (simp_all del: insert_iff add: rtu_request_length_def split: if_splits)
      with False fast ne' a [of 7] t [of 1] t [of 2] show ?thesis
        unfolding rtu_request_length_def t0 l by simp
    qed
  next
    case False
    with assms ne have "pdu_at 1 p = Inr n" "\<not> 247 < unat (p ! 0)"
      by (simp_all add: rtu_request_length_def split: if_splits)
    with False ne' a [of 1] show ?thesis unfolding rtu_request_length_def t0 l by simp
  qed
qed

interpretation rtu_request: length_prefix rtu_request_length
  by unfold_locales (rule rtu_request_length_stable rtu_request_length_decided; assumption)+

lemma response_length_stable:
  assumes "modbus_read_frame_len p \<noteq> 0"
  shows "modbus_read_frame_len (p @ x) = modbus_read_frame_len p"
proof -
  have l: "3 \<le> length p" using assms by (auto simp: modbus_read_frame_len_def split: if_splits)
  then have e: "(p @ x) ! 1 = p ! 1" "(p @ x) ! 2 = p ! 2" by (auto simp: nth_append)
  show ?thesis using l unfolding modbus_read_frame_len_def e by (simp del: insert_iff)
qed

lemma fast_length_stable:
  assumes "fast_modbus_frame_len p \<noteq> 0"
  shows "fast_modbus_frame_len (p @ x) = fast_modbus_frame_len p"
proof -
  have l: "3 \<le> length p" using assms by (auto simp: fast_modbus_frame_len_def split: if_splits)
  then have e: "(p @ x) ! 0 = p ! 0" "(p @ x) ! 1 = p ! 1" "(p @ x) ! 2 = p ! 2"
    by (auto simp: nth_append)
  have i: "fast_inner_length (p @ x) = fast_inner_length p" if nz: "fast_inner_length p \<noteq> 0"
  proof -
    have l: "8 \<le> length p" using nz by (auto simp: fast_inner_length_def split: if_splits)
    then have e: "(p @ x) ! 7 = p ! 7" by (auto simp: nth_append)
    have e9: "9 \<le> length p \<Longrightarrow> (p @ x) ! 8 = p ! 8" by (auto simp: nth_append)
    show ?thesis using nz l e9 unfolding fast_inner_length_def e
      by (simp del: insert_iff split: if_split_asm)
  qed
  show ?thesis using assms l i unfolding fast_modbus_frame_len_def e
    by (simp del: insert_iff split: if_split_asm)
qed

lemma response_length_decided:
  assumes "modbus_read_frame_len p = n" and "n \<noteq> 0" and "n \<le> length p"
  shows "modbus_read_frame_len (take n p) = n"
proof -
  have "3 \<le> n" using assms(1,2) by (auto simp: modbus_read_frame_len_def split: if_splits)
  then have t: "take n p ! 1 = p ! 1" "take n p ! 2 = p ! 2" and l: "length (take n p) = n"
    using assms(3) by auto
  show ?thesis
    using assms \<open>3 \<le> n\<close> unfolding modbus_read_frame_len_def t l by (simp del: insert_iff split: if_split_asm)
qed

interpretation read_response: length_prefix "\<lambda>d. Inr (modbus_read_frame_len d)"
  by unfold_locales (simp_all add: response_length_stable response_length_decided)

lemma fast_length_decided:
  assumes "fast_modbus_frame_len p = n" and "n \<noteq> 0" and "n \<le> length p"
  shows "fast_modbus_frame_len (take n p) = n"
proof -
  have n: "5 \<le> n" using assms(1,2)
    by (auto simp: fast_modbus_frame_len_def fast_inner_length_def split: if_splits)
  then have t: "take n p ! 0 = p ! 0" "take n p ! 1 = p ! 1" "take n p ! 2 = p ! 2" and l: "length (take n p) = n"
    using assms(3) by auto
  have i: "fast_inner_length p = n \<Longrightarrow> fast_inner_length (take n p) = n"
  proof -
    assume f: "fast_inner_length p = n"
    then have n: "11 \<le> n" using assms(2) by (auto simp: fast_inner_length_def split: if_splits)
    then have t: "take n p ! 7 = p ! 7" "take n p ! 8 = p ! 8" by auto
    show ?thesis using f assms n unfolding fast_inner_length_def t l
      by (simp del: insert_iff split: if_split_asm)
  qed
  show ?thesis
    using assms n i unfolding fast_modbus_frame_len_def t l by (simp del: insert_iff split: if_split_asm) auto
qed

interpretation fast_response: length_prefix "\<lambda>d. Inr (fast_modbus_frame_len d)"
  by unfold_locales (simp_all add: fast_length_stable fast_length_decided)

section \<open>Reading one request\<close>

text \<open>
  A TCP stream as a reader meets it: the bytes that arrive in time and what happens after them.
  \<^verbatim>\<open>readexactly\<close> takes all the bytes asked for, or fails.
\<close>

datatype stream_end = Eof | Stalled | Reset

type_synonym reader = "bytes \<times> stream_end"

fun end_error :: "stream_end \<Rightarrow> exn" where
  "end_error Eof = IncompleteReadError"
| "end_error Stalled = TimeoutError ''read''"
| "end_error Reset = ConnectionResetError"

definition readexactly :: "nat \<Rightarrow> reader \<Rightarrow> bytes result \<times> reader" where
  "readexactly n r =
     (if n \<le> length (fst r) then (Inr (take n (fst r)), (drop n (fst r), snd r))
      else (Inl (end_error (snd r)), r))"

text \<open>Inside the second time limit a stream that ends is a framing error.\<close>

fun frame_error :: "exn \<Rightarrow> exn" where
  "frame_error IncompleteReadError = RtuFramingError ''incomplete''"
| "frame_error e = e"

fun rtu_fill :: "bytes \<Rightarrow> bytes \<Rightarrow> stream_end \<Rightarrow> (bytes \<times> nat) result \<times> bytes" where
  "rtu_fill data [] e =
     (case rtu_request_length data of
        Inl x \<Rightarrow> (Inl x, [])
      | Inr n \<Rightarrow> if n \<noteq> 0 then (Inr (data, n), []) else (Inl (frame_error (end_error e)), []))"
| "rtu_fill data (b # bs) e =
     (case rtu_request_length data of
        Inl x \<Rightarrow> (Inl x, b # bs)
      | Inr n \<Rightarrow> if n \<noteq> 0 then (Inr (data, n), b # bs) else rtu_fill (data @ [b]) bs e)"

definition read_rtu_request :: "reader \<Rightarrow> bytes result \<times> reader" where
  "read_rtu_request r =
     (case readexactly 1 r of
        (Inl x, r1) \<Rightarrow> (Inl x, r1)
      | (Inr data, r1) \<Rightarrow>
          (case rtu_fill data (fst r1) (snd r1) of
             (Inl x, bs) \<Rightarrow> (Inl x, (bs, snd r1))
           | (Inr (hdr, n), bs) \<Rightarrow>
               if n > 262 then (Inl (RtuFramingError ''too long''), (bs, snd r1))
               else (case readexactly (n - length hdr) (bs, snd r1) of
                   (Inl x, r2) \<Rightarrow> (Inl (frame_error x), r2)
                 | (Inr more, r2) \<Rightarrow>
                     if \<not> check_crc (hdr @ more) then (Inl (RtuFramingError ''crc''), r2)
                     else (Inr (hdr @ more), r2))))"

section \<open>Requests come off the stream one at a time\<close>

definition rtu_request :: "bytes \<Rightarrow> bool" where
  "rtu_request f \<longleftrightarrow> rtu_request_length f = Inr (length f) \<and> length f \<le> 262 \<and> check_crc f"

lemma rtu_request_nonempty: "rtu_request f \<Longrightarrow> 0 < length f"
  by (auto simp: rtu_request_def check_crc_def)

lemma rtu_fill_frame:
  assumes "rtu_request_length f = Inr (length f)" and "0 < length f" and "k \<le> length f"
  shows "\<exists>j. k \<le> j \<and> j \<le> length f \<and>
    rtu_fill (take k f) (drop k f @ rest) e = (Inr (take j f, length f), drop j f @ rest)"
  using assms(3)
proof (induction "length f - k" arbitrary: k)
  case 0
  then have k: "k = length f" by simp
  have "rtu_fill f rest e = (Inr (f, length f), rest)"
    using assms(1,2) by (cases rest) auto
  with k show ?case by (intro exI [of _ k]) simp
next
  case (Suc m)
  then have k: "k < length f" by simp
  then have d: "drop k f = f ! k # drop (Suc k) f" by (simp add: Cons_nth_drop_Suc)
  from rtu_request.frame_prefix [OF assms(1), of k]
  show ?case
  proof
    assume z: "rtu_request_length (take k f) = Inr 0"
    have "take k f @ [f ! k] = take (Suc k) f" using k by (simp add: take_Suc_conv_app_nth)
    with z have "rtu_fill (take k f) (drop k f @ rest) e = rtu_fill (take (Suc k) f) (drop (Suc k) f @ rest) e"
      by (simp add: d)
    moreover have "m = length f - Suc k" "Suc k \<le> length f" using Suc.hyps(2) k by simp_all
    note Suc.hyps(1) [OF this]
    ultimately show ?thesis by (metis Suc_leD)
  next
    assume "rtu_request_length (take k f) = Inr (length f)"
    with assms(2) have "rtu_fill (take k f) (drop k f @ rest) e = (Inr (take k f, length f), drop k f @ rest)"
      by (simp add: d)
    with k show ?thesis by (intro exI [of _ k]) simp
  qed
qed

lemma read_rtu_request_frame:
  assumes "rtu_request f"
  shows "read_rtu_request (f @ rest, e) = (Inr f, (rest, e))"
proof -
  have f: "rtu_request_length f = Inr (length f)" "length f \<le> 262" "check_crc f"
    using assms by (auto simp: rtu_request_def)
  have ne: "0 < length f" using rtu_request_nonempty [OF assms] .
  then have one: "readexactly 1 (f @ rest, e) = (Inr (take 1 f), (drop 1 f @ rest, e))"
    by (simp add: readexactly_def Suc_le_eq)
  from rtu_fill_frame [OF f(1) ne, of 1 rest e] ne obtain j where j: "j \<le> length f"
    "rtu_fill (take 1 f) (drop 1 f @ rest) e = (Inr (take j f, length f), drop j f @ rest)"
    by (auto simp: Suc_le_eq)
  have "readexactly (length f - j) (drop j f @ rest, e) = (Inr (drop j f), (rest, e))"
    using j(1) by (simp add: readexactly_def)
  with one j f show ?thesis by (simp add: read_rtu_request_def)
qed

text \<open>Nothing else is accepted.\<close>

lemma rtu_fill_Inr:
  assumes "rtu_fill data bs e = (Inr (hdr, n), rest)" and "data = [] \<or> rtu_request_length (butlast data) = Inr 0"
  shows "data @ bs = hdr @ rest \<and> rtu_request_length hdr = Inr n \<and> n \<noteq> 0 \<and>
    (hdr = [] \<or> rtu_request_length (butlast hdr) = Inr 0)"
  using assms
proof (induction data bs e rule: rtu_fill.induct)
  case (1 data e)
  then show ?case by (auto split: sum.splits if_splits)
next
  case (2 data b bs e)
  show ?case
  proof (cases "rtu_request_length data")
    case (Inl x)
    with "2.prems"(1) show ?thesis by simp
  next
    case (Inr m)
    show ?thesis
    proof (cases "m = 0")
      case True
      with "2.prems"(1) Inr have "rtu_fill (data @ [b]) bs e = (Inr (hdr, n), rest)" by simp
      from "2.IH" [OF Inr _ this] True Inr show ?thesis by simp
    next
      case False
      with "2.prems" Inr show ?thesis by simp
    qed
  qed
qed

lemma rtu_request_length_one: "rtu_request_length [] = Inr 0"
  by (simp add: rtu_request_length_def)

lemma read_rtu_request_Inr:
  assumes "read_rtu_request (bs, e) = (Inr f, (rest, e'))"
  shows "bs = f @ rest \<and> e' = e \<and> rtu_request f"
proof -
  from assms obtain data bs1 where one: "readexactly 1 (bs, e) = (Inr data, (bs1, e))"
    by (auto simp: read_rtu_request_def readexactly_def split: if_splits)
  then have d: "bs = data @ bs1" "length data = 1" by (auto simp: readexactly_def split: if_splits)
  from assms one obtain hdr n bs2 where fill: "rtu_fill data bs1 e = (Inr (hdr, n), bs2)"
    by (auto simp: read_rtu_request_def split: sum.splits prod.splits)
  have b0: "data = [] \<or> rtu_request_length (butlast data) = Inr 0"
    using d(2) by (cases data) (simp_all add: rtu_request_length_one)
  from rtu_fill_Inr [OF fill b0] have h: "data @ bs1 = hdr @ bs2" "rtu_request_length hdr = Inr n" "n \<noteq> 0"
    "hdr = [] \<or> rtu_request_length (butlast hdr) = Inr 0" by auto
  have "hdr \<noteq> []" using h(2,3) rtu_request_length_one by auto
  then obtain p b where p: "hdr = p @ [b]" by (metis append_butlast_last_id)
  with h(4) have "rtu_request_length p = Inr 0" by simp
  with rtu_request.first_known [of p b n] h(2,3) p have le: "length hdr \<le> n" by simp
  from assms one fill have n: "n \<le> 262"
    and more: "(case readexactly (n - length hdr) (bs2, e) of
                   (Inl x, r2) \<Rightarrow> (Inl (frame_error x), r2)
                 | (Inr more, r2) \<Rightarrow>
                     if \<not> check_crc (hdr @ more) then (Inl (RtuFramingError ''crc''), r2)
                     else (Inr (hdr @ more), r2)) = (Inr f, (rest, e'))"
    by (simp_all add: read_rtu_request_def split: if_splits)
  have enough: "n - length hdr \<le> length bs2"
  proof (rule ccontr)
    assume "\<not> n - length hdr \<le> length bs2"
    with more show False by (simp add: readexactly_def)
  qed
  with more have f: "f = hdr @ take (n - length hdr) bs2" "rest = drop (n - length hdr) bs2" "e' = e"
    "check_crc f"
    by (auto simp: readexactly_def split: if_splits)
  have "length f = n" using f(1) enough le by simp
  moreover have "rtu_request_length f = Inr n"
    using rtu_request.stable [of hdr] h(2,3) f(1) by simp
  ultimately show ?thesis using n f d h(1) by (simp add: rtu_request_def)
qed

section \<open>The exchange with the line\<close>

definition strip_leading_echo :: "bytes \<Rightarrow> bytes \<Rightarrow> bytes" where
  "strip_leading_echo request buf =
     (if 0 < length request \<and> take (length request) buf = request then drop (length request) buf else buf)"

definition lstrip_ff :: "bytes \<Rightarrow> bytes" where
  "lstrip_ff = dropWhile (\<lambda>b. b = 0xFF)"

definition startswith :: "bytes \<Rightarrow> bytes \<Rightarrow> bool" where
  "startswith xs pre \<longleftrightarrow> take (length pre) xs = pre"

definition extract_rtu_response :: "bytes \<Rightarrow> bytes \<Rightarrow> bytes option" where
  "extract_rtu_response request buf =
     (if 0 < length request \<and> startswith request buf then None
      else let rem = lstrip_ff (strip_leading_echo request buf) in
        if rem = [] \<or> \<not> (1 \<le> unat (rem ! 0) \<and> unat (rem ! 0) \<le> 247) then
          (let flen46 = fast_modbus_frame_len rem in
           if flen46 \<noteq> 0 \<and> flen46 \<le> length rem then Some (take flen46 rem) else None)
        else
          (let flen = modbus_read_frame_len rem in
           if flen \<noteq> 0 \<and> flen \<le> length rem then Some (take flen rem) else None))"

text \<open>
  One round of the receive loop before the deadline: bytes are waiting, or not and the line has or
  has not been quiet for the silence time.  The end of the rounds is the deadline.
\<close>

datatype rx_round = Rx bytes | Idle bool

definition exchange_rest :: "bytes \<Rightarrow> bytes \<Rightarrow> bytes" where
  "exchange_rest request buf = lstrip_ff (strip_leading_echo request buf)"

fun exchange_loop :: "bytes \<Rightarrow> bytes \<Rightarrow> rx_round list \<Rightarrow> bytes" where
  "exchange_loop request buf [] = exchange_rest request buf"
| "exchange_loop request buf (Rx b # rs) =
     (case extract_rtu_response request (buf @ b) of
        Some f \<Rightarrow> f
      | None \<Rightarrow> exchange_loop request (buf @ b) rs)"
| "exchange_loop request buf (Idle quiet # rs) =
     (if buf \<noteq> [] \<and> quiet then
        (case extract_rtu_response request buf of Some f \<Rightarrow> f | None \<Rightarrow> exchange_rest request buf)
      else exchange_loop request buf rs)"

definition received :: "rx_round list \<Rightarrow> bytes" where
  "received rs = concat (map (\<lambda>r. case r of Rx b \<Rightarrow> b | Idle _ \<Rightarrow> []) rs)"

text \<open>An absent device: only the echo of the request comes back, however it is cut.\<close>

lemma extract_prefix: "0 < length req \<Longrightarrow> startswith req buf \<Longrightarrow> extract_rtu_response req buf = None"
  by (simp add: extract_rtu_response_def)

lemma rest_prefix:
  assumes "req = buf @ more"
  shows "exchange_rest req buf = (if more = [] then [] else lstrip_ff buf)"
  using assms by (auto simp: exchange_rest_def strip_leading_echo_def lstrip_ff_def)

lemma exchange_echo_only:
  assumes "buf @ received rs = req" and "req \<noteq> []" and "\<forall>q. Idle q \<in> set rs \<longrightarrow> \<not> q"
  shows "exchange_loop req buf rs = []"
  using assms
proof (induction rs arbitrary: buf)
  case Nil
  then show ?case by (simp add: received_def rest_prefix [of _ _ "[]"])
next
  case (Cons r rs)
  show ?case
  proof (cases r)
    case (Rx b)
    with Cons.prems(1) have eq: "(buf @ b) @ received rs = req" by (simp add: received_def)
    have "startswith req (buf @ b)" by (simp add: startswith_def flip: eq)
    with Cons.prems(2) have "extract_rtu_response req (buf @ b) = None" by (simp add: extract_prefix)
    with Cons.IH [OF eq Cons.prems(2)] Cons.prems(3) Rx show ?thesis by simp
  next
    case (Idle q)
    with Cons.prems(1) have "buf @ received rs = req" by (simp add: received_def)
    with Cons.IH [OF _ Cons.prems(2)] Cons.prems(3) Idle show ?thesis by auto
  qed
qed

text \<open>A device that answers behind the echo.\<close>

definition read_response :: "bytes \<Rightarrow> bool" where
  "read_response f \<longleftrightarrow> f \<noteq> [] \<and> 1 \<le> unat (f ! 0) \<and> unat (f ! 0) \<le> 247 \<and>
     modbus_read_frame_len f = length f"

lemma extract_response:
  assumes "read_response f" and "req \<noteq> []"
  shows "extract_rtu_response req (req @ take k f) = (if k < length f then None else Some f)"
proof (cases "k = 0 \<or> f = []")
  case True
  with assms show ?thesis by (auto simp: extract_rtu_response_def startswith_def read_response_def)
next
  case False
  let ?r = "take k f"
  have r0: "?r ! 0 = f ! 0" "?r \<noteq> []" using False by auto
  have ff: "lstrip_ff ?r = ?r"
  proof (cases f)
    case (Cons a g)
    have "a \<noteq> 0xFF" using assms(1) Cons by (auto simp: read_response_def)
    then show ?thesis using Cons False by (cases k) (simp_all add: lstrip_ff_def)
  qed (simp add: lstrip_ff_def)
  have "\<not> startswith req (req @ ?r)" using r0(2) by (auto simp: startswith_def)
  then have ex: "extract_rtu_response req (req @ ?r) =
      (let flen = modbus_read_frame_len ?r in
       if flen \<noteq> 0 \<and> flen \<le> length ?r then Some (take flen ?r) else None)"
    using assms r0 ff by (simp add: extract_rtu_response_def strip_leading_echo_def read_response_def Let_def)
  have "modbus_read_frame_len ?r = 0 \<or> modbus_read_frame_len ?r = length f"
    using read_response.frame_prefix [of f k] assms(1) by (simp add: read_response_def)
  moreover have "modbus_read_frame_len f = length f" "0 < length f"
    using assms(1) by (auto simp: read_response_def)
  ultimately show ?thesis unfolding ex by (cases "k < length f") (auto simp: Let_def)
qed

lemma exchange_answer:
  assumes "buf @ received rs = req @ f" and "read_response f" and "req \<noteq> []"
    and "\<forall>q. Idle q \<in> set rs \<longrightarrow> \<not> q" and "length buf < length (req @ f)"
  shows "exchange_loop req buf rs = f"
  using assms
proof (induction rs arbitrary: buf)
  case Nil
  then show ?case by (simp add: received_def)
next
  case (Cons r rs)
  show ?case
  proof (cases r)
    case (Rx b)
    with Cons.prems(1) have eq: "(buf @ b) @ received rs = req @ f" by (simp add: received_def)
    then have pre: "buf @ b = take (length (buf @ b)) (req @ f)" by (metis append_eq_conv_conj)
    show ?thesis
    proof (cases "length (buf @ b) \<le> length req")
      case True
      then have "take (length (buf @ b)) req = buf @ b" using pre by simp
      then have "startswith req (buf @ b)" unfolding startswith_def .
      with Cons.prems(3) have "extract_rtu_response req (buf @ b) = None" by (simp add: extract_prefix)
      moreover have "f \<noteq> []" using Cons.prems(2) by (simp add: read_response_def)
      then have "length (buf @ b) < length (req @ f)" using True by (cases f) auto
      moreover have "\<forall>q. Idle q \<in> set rs \<longrightarrow> \<not> q" using Cons.prems(4) by auto
      ultimately show ?thesis using Cons.IH [OF eq Cons.prems(2,3)] Rx by simp
    next
      case False
      define n k where "n = length (buf @ b)" and "k = n - length req"
      have "buf @ b = take n (req @ f)" using pre by (simp only: n_def)
      moreover have "length req \<le> n" using False by (simp add: n_def)
      ultimately have bb: "buf @ b = req @ take k f" by (simp add: k_def)
      show ?thesis
      proof (cases "k < length f")
        case True
        then have "extract_rtu_response req (buf @ b) = None"
          unfolding bb extract_response [OF Cons.prems(2,3)] by simp
        moreover have "length (buf @ b) < length (req @ f)" unfolding bb using True by simp
        moreover have "\<forall>q. Idle q \<in> set rs \<longrightarrow> \<not> q" using Cons.prems(4) by auto
        ultimately show ?thesis using Cons.IH [OF eq Cons.prems(2,3)] Rx by simp
      next
        case False
        then have "extract_rtu_response req (buf @ b) = Some f"
          unfolding bb extract_response [OF Cons.prems(2,3)] by simp
        with Rx show ?thesis by simp
      qed
    qed
  next
    case (Idle q)
    with Cons.prems(1) have "buf @ received rs = req @ f" by (simp add: received_def)
    with Cons.IH [OF _ Cons.prems(2,3) _ Cons.prems(5)] Cons.prems(4) Idle show ?thesis by auto
  qed
qed

end
