(* ===== verification/Gateway.thy ===== *)
theory Gateway
  imports Gateway_Frames
begin

text \<open>
  The TCP side of the serial gateway, \<^verbatim>\<open>opt/sa02m-serial-gateway/serial_gateway.py\<close>: the MBAP
  header, the client loops of \<^verbatim>\<open>ModbusTcpGateway\<close> and \<^verbatim>\<open>RtuOverTcpGateway\<close> and the counters of
  \<^verbatim>\<open>PortStats\<close>.  The blocking exchange with the line is an argument of the loops (its own model is in
  \<^verbatim>\<open>Gateway_Frames\<close>); a client is the stream it sends, and everything written to it arrives.
  The texts of \<^verbatim>\<open>last_error\<close> are left out.
\<close>

section \<open>MBAP\<close>

definition MBAP_LEN :: nat where "MBAP_LEN = 6"

definition FM_PROBE_PAYLOAD :: bytes where
  "FM_PROBE_PAYLOAD = map (\<lambda>c. of_nat (of_char c)) ''WB-FAST-MODBUS?''"

definition FM_PROBE_RESP :: bytes where
  "FM_PROBE_RESP = map (\<lambda>c. of_nat (of_char c)) ''WB-FAST-MODBUS-OK''"

definition parse_mbap_header :: "bytes \<Rightarrow> (int \<times> int \<times> int) option" where
  "parse_mbap_header raw =
     (if length raw < MBAP_LEN then None
      else Some (from_be (slice 0 2 raw), from_be (slice 2 4 raw), from_be (slice 4 6 raw)))"

definition build_mbap_response :: "int \<Rightarrow> byte \<Rightarrow> bytes \<Rightarrow> bytes result" where
  "build_mbap_response tid unit_id pdu =
     (let len = 1 + int (length pdu) in
      if tid < 0 \<or> 0xFFFF < tid \<or> 0xFFFF < len then Inl StructError
      else Inr (be_bytes 2 tid @ be_bytes 2 0 @ be_bytes 2 len @ [unit_id] @ pdu))"

section \<open>Counters\<close>

record port_stats =
  bytes_tx :: nat
  bytes_rx :: nat
  requests :: nat
  errors :: nat
  tcp_clients :: int
  refused :: nat

definition stats0 :: port_stats where
  "stats0 = \<lparr>bytes_tx = 0, bytes_rx = 0, requests = 0, errors = 0, tcp_clients = 0, refused = 0\<rparr>"

definition count_error :: "port_stats \<Rightarrow> port_stats" where
  "count_error st = st\<lparr>errors := errors st + 1\<rparr>"

text \<open>What the exchange in the executor comes to: an answer, the outer time limit, or an exception.\<close>

datatype exchange_outcome = Reply bytes | Timed_out | Worker_error exn

type_synonym 'w line = "bytes \<Rightarrow> 'w \<Rightarrow> exchange_outcome \<times> 'w"

section \<open>One Modbus TCP request\<close>

definition mbap_answer :: "int \<Rightarrow> byte \<Rightarrow> byte \<Rightarrow> bytes \<Rightarrow> port_stats \<Rightarrow> bytes result \<times> port_stats" where
  "mbap_answer tid unit_id fc resp st =
     (if resp = [] then (build_mbap_response tid unit_id [fc OR 0x80, 0x0B], count_error st)
      else let r = lstrip_ff resp in
        if \<not> check_crc r then (build_mbap_response tid unit_id [fc OR 0x80, 0x0A], count_error st)
        else (build_mbap_response tid (r ! 0) (slice 1 (length r - 2) r),
              st\<lparr>bytes_rx := bytes_rx st + length r, requests := requests st + 1\<rparr>))"

definition mbap_forward :: "'w line \<Rightarrow> int \<Rightarrow> byte \<Rightarrow> bytes \<Rightarrow> port_stats \<Rightarrow> 'w
    \<Rightarrow> bytes result \<times> port_stats \<times> 'w" where
  "mbap_forward line tid unit_id pdu st w =
     (let rtu_req = append_crc (unit_id # pdu);
          st1 = st\<lparr>bytes_tx := bytes_tx st + length rtu_req\<rparr> in
      case line rtu_req w of (out, w') \<Rightarrow>
        (case out of
           Worker_error e \<Rightarrow> (Inl e, st1, w')
         | Timed_out \<Rightarrow> (case mbap_answer tid unit_id (pdu ! 0) [] st1 of (b, st2) \<Rightarrow> (b, st2, w'))
         | Reply resp \<Rightarrow> (case mbap_answer tid unit_id (pdu ! 0) resp st1 of (b, st2) \<Rightarrow> (b, st2, w'))))"

definition is_probe :: "bool \<Rightarrow> byte \<Rightarrow> bytes \<Rightarrow> bool" where
  "is_probe fm_probe unit_id pdu \<longleftrightarrow>
     fm_probe \<and> pdu ! 0 = 0x47 \<and> unit_id = 0 \<and>
     slice 1 (1 + length FM_PROBE_PAYLOAD) pdu = FM_PROBE_PAYLOAD"

section \<open>The Modbus TCP client loop\<close>

text \<open>
  The loop ends normally (\<open>None\<close>) or with the exception that leaves it.  What was written to the
  client is collected in order.
\<close>

fun is_timeout :: "exn \<Rightarrow> bool" where
  "is_timeout (TimeoutError _) = True"
| "is_timeout _ = False"

lemma readexactly_shorter: "(Inr b, r') = readexactly n r \<Longrightarrow> length (fst r') + n = length (fst r)"
  by (auto simp: readexactly_def split: if_splits)

function mbap_loop :: "'w line \<Rightarrow> bool \<Rightarrow> reader \<Rightarrow> port_stats \<Rightarrow> 'w \<Rightarrow> bytes
    \<Rightarrow> exn option \<times> port_stats \<times> 'w \<times> bytes" where
  "mbap_loop line fm r st w out =
     (case readexactly MBAP_LEN r of
        (Inl e, r1) \<Rightarrow> (if is_timeout e then None else Some e, st, w, out)
      | (Inr header, r1) \<Rightarrow>
          (case parse_mbap_header header of
             None \<Rightarrow> (None, st, w, out)
           | Some (tid, pid, len) \<Rightarrow>
               if len < 1 \<or> 260 < len then (None, st, w, out)
               else (case readexactly (nat len) r1 of
                   (Inl e, r2) \<Rightarrow> (Some e, st, w, out)
                 | (Inr body, r2) \<Rightarrow>
                     if drop 1 body = [] then mbap_loop line fm r2 st w out
                     else if is_probe fm (body ! 0) (drop 1 body) then
                       (case build_mbap_response tid (body ! 0) (0x47 # FM_PROBE_RESP) of
                          Inl e \<Rightarrow> (Some e, st, w, out)
                        | Inr b \<Rightarrow> mbap_loop line fm r2 st w (out @ b))
                     else (case mbap_forward line tid (body ! 0) (drop 1 body) st w of
                         (Inl e, st', w') \<Rightarrow> (Some e, st', w', out)
                       | (Inr b, st', w') \<Rightarrow> mbap_loop line fm r2 st' w' (out @ b)))))"
  by pat_completeness auto
termination
  by (relation "measure (\<lambda>(line, fm, r, st, w, out). length (fst r))")
    (auto simp: MBAP_LEN_def dest!: readexactly_shorter)

declare mbap_loop.simps [simp del]

section \<open>The RTU-over-TCP client loop\<close>

lemma read_rtu_request_shorter: "(Inr f, r') = read_rtu_request r \<Longrightarrow> length (fst r') < length (fst r)"
  using read_rtu_request_Inr [of "fst r" "snd r" f "fst r'" "snd r'"] rtu_request_nonempty [of f] by auto

function rtu_loop :: "'w line \<Rightarrow> reader \<Rightarrow> port_stats \<Rightarrow> 'w \<Rightarrow> bytes
    \<Rightarrow> exn option \<times> port_stats \<times> 'w \<times> bytes" where
  "rtu_loop line r st w out =
     (case read_rtu_request r of
        (Inl e, r1) \<Rightarrow> if is_timeout e then (None, count_error st, w, out) else (Some e, st, w, out)
      | (Inr data, r1) \<Rightarrow>
          let st1 = st\<lparr>bytes_tx := bytes_tx st + length data\<rparr> in
          (case line data w of
             (Worker_error e, w') \<Rightarrow> (Some e, st1, w', out)
           | (Timed_out, w') \<Rightarrow> rtu_loop line r1 st1 w' out
           | (Reply resp, w') \<Rightarrow>
               if resp = [] then rtu_loop line r1 st1 w' out
               else rtu_loop line r1
                 (st1\<lparr>bytes_rx := bytes_rx st1 + length resp, requests := requests st1 + 1\<rparr>) w'
                 (out @ resp)))"
  by pat_completeness auto
termination
  by (relation "measure (\<lambda>(line, r, st, w, out). length (fst r))")
    (auto dest!: read_rtu_request_shorter)

declare rtu_loop.simps [simp del]

section \<open>The handlers\<close>

text \<open>A peer outside the allow-list is turned away before a byte is read.\<close>

fun quiet_exn :: "exn \<Rightarrow> bool" where
  "quiet_exn IncompleteReadError = True"
| "quiet_exn ConnectionResetError = True"
| "quiet_exn _ = False"

definition leave :: "exn option \<Rightarrow> port_stats \<Rightarrow> port_stats" where
  "leave ending st =
     (let st1 = (case ending of None \<Rightarrow> st | Some e \<Rightarrow> if quiet_exn e then st else count_error st)
      in st1\<lparr>tcp_clients := tcp_clients st1 - 1\<rparr>)"

definition handle_client :: "(port_stats \<Rightarrow> 'w \<Rightarrow> exn option \<times> port_stats \<times> 'w \<times> bytes) \<Rightarrow> bool
    \<Rightarrow> port_stats \<Rightarrow> 'w \<Rightarrow> port_stats \<times> 'w \<times> bytes" where
  "handle_client body allowed st w =
     (if \<not> allowed then (st\<lparr>refused := refused st + 1\<rparr>, w, [])
      else (case body (st\<lparr>tcp_clients := tcp_clients st + 1\<rparr>) w of
          (ending, st', w', out) \<Rightarrow> (leave ending st', w', out)))"

definition handle_modbus_tcp :: "'w line \<Rightarrow> bool \<Rightarrow> reader \<Rightarrow> bool \<Rightarrow> port_stats \<Rightarrow> 'w
    \<Rightarrow> port_stats \<times> 'w \<times> bytes" where
  "handle_modbus_tcp line fm r = handle_client (\<lambda>st w. mbap_loop line fm r st w [])"

definition handle_rtu_over_tcp :: "'w line \<Rightarrow> reader \<Rightarrow> bool \<Rightarrow> port_stats \<Rightarrow> 'w
    \<Rightarrow> port_stats \<times> 'w \<times> bytes" where
  "handle_rtu_over_tcp line r = handle_client (\<lambda>st w. rtu_loop line r st w [])"

section \<open>What the line and the client get\<close>

text \<open>A line that notes every request it is given; what it answers depends on the request alone.\<close>

definition recording :: "(bytes \<Rightarrow> exchange_outcome) \<Rightarrow> bytes list line" where
  "recording dev req seen = (dev req, seen @ [req])"

text \<open>A client's request, as transaction identifier, unit and PDU, on the stream and on the line.\<close>

type_synonym mbap_request = "int \<times> byte \<times> bytes"

fun mbap_adu :: "mbap_request \<Rightarrow> bytes" where
  "mbap_adu (tid, u, pdu) =
     be_bytes 2 tid @ be_bytes 2 0 @ be_bytes 2 (1 + int (length pdu)) @ u # pdu"

fun line_frame :: "mbap_request \<Rightarrow> bytes" where
  "line_frame (tid, u, pdu) = append_crc (u # pdu)"

fun wf_mbap :: "bool \<Rightarrow> mbap_request \<Rightarrow> bool" where
  "wf_mbap fm (tid, u, pdu) \<longleftrightarrow>
     0 \<le> tid \<and> tid \<le> 0xFFFF \<and> pdu \<noteq> [] \<and> length pdu \<le> 259 \<and> \<not> is_probe fm u pdu"

text \<open>The answer promised for a request, given what the exchange came to.\<close>

fun promised :: "mbap_request \<Rightarrow> exchange_outcome \<Rightarrow> bytes" where
  "promised (tid, u, pdu) (Reply resp) =
     (let r = lstrip_ff resp in
      if resp = [] then mbap_adu (tid, u, [pdu ! 0 OR 0x80, 0x0B])
      else if \<not> check_crc r then mbap_adu (tid, u, [pdu ! 0 OR 0x80, 0x0A])
      else mbap_adu (tid, r ! 0, slice 1 (length r - 2) r))"
| "promised (tid, u, pdu) _ = mbap_adu (tid, u, [pdu ! 0 OR 0x80, 0x0B])"

fun wf_outcome :: "exchange_outcome \<Rightarrow> bool" where
  "wf_outcome (Reply resp) \<longleftrightarrow> length resp \<le> 65536"
| "wf_outcome Timed_out \<longleftrightarrow> True"
| "wf_outcome (Worker_error e) \<longleftrightarrow> False"

lemma build_mbap_response_adu:
  "0 \<le> tid \<Longrightarrow> tid \<le> 0xFFFF \<Longrightarrow> length pdu \<le> 65534 \<Longrightarrow> build_mbap_response tid u pdu = Inr (mbap_adu (tid, u, pdu))"
  by (simp add: build_mbap_response_def Let_def)

lemma lstrip_ff_le: "length (lstrip_ff b) \<le> length b"
  unfolding lstrip_ff_def by (rule length_dropWhile_le)

lemma mbap_forward_promised:
  assumes "wf_mbap fm (tid, u, pdu)" and "wf_outcome (dev (append_crc (u # pdu)))"
  shows "\<exists>st'. mbap_forward (recording dev) tid u pdu st seen =
      (Inr (promised (tid, u, pdu) (dev (append_crc (u # pdu)))), st', seen @ [append_crc (u # pdu)]) \<and>
    tcp_clients st' = tcp_clients st \<and> requests st' + errors st' = requests st + errors st + 1"
proof (cases "dev (append_crc (u # pdu))")
  case (Reply resp)
  have "length (slice 1 (length (lstrip_ff resp) - 2) (lstrip_ff resp)) \<le> 65534"
    using assms(2) Reply lstrip_ff_le [of resp] by (simp add: slice_def)
  with assms Reply show ?thesis
    by (simp add: mbap_forward_def recording_def mbap_answer_def Let_def count_error_def
      build_mbap_response_adu del: mbap_adu.simps)
next
  case Timed_out
  with assms show ?thesis
    by (simp add: mbap_forward_def recording_def mbap_answer_def Let_def count_error_def
      build_mbap_response_adu del: mbap_adu.simps)
next
  case (Worker_error e)
  with assms show ?thesis by simp
qed

lemma mbap_loop_step:
  assumes "wf_mbap fm (tid, u, pdu)"
  shows "mbap_loop line fm (mbap_adu (tid, u, pdu) @ rest, e) st w out =
     (case mbap_forward line tid u pdu st w of
        (Inl x, st', w') \<Rightarrow> (Some x, st', w', out)
      | (Inr b, st', w') \<Rightarrow> mbap_loop line fm (rest, e) st' w' (out @ b))"
proof -
  let ?h = "be_bytes 2 tid @ be_bytes 2 0 @ be_bytes 2 (1 + int (length pdu))"
  have h: "length ?h = 6" by simp
  have head: "readexactly MBAP_LEN (mbap_adu (tid, u, pdu) @ rest, e) = (Inr ?h, ((u # pdu) @ rest, e))"
    using h by (simp add: readexactly_def MBAP_LEN_def)
  have p: "parse_mbap_header ?h = Some (tid, 0, 1 + int (length pdu))"
    using assms h by (simp add: parse_mbap_header_def MBAP_LEN_def slice_def from_be_be_bytes)
  have body: "readexactly (nat (1 + int (length pdu))) ((u # pdu) @ rest, e) = (Inr (u # pdu), (rest, e))"
    by (simp add: readexactly_def nat_add_distrib)
  show ?thesis
    by (subst mbap_loop.simps) (use assms head p body in \<open>simp split: prod.splits sum.splits\<close>)
qed

lemma mbap_loop_serves:
  assumes "\<forall>t\<in>set ts. wf_mbap fm t" and "\<forall>t\<in>set ts. wf_outcome (dev (line_frame t))"
  shows "\<exists>st'. mbap_loop (recording dev) fm (concat (map mbap_adu ts) @ rest, e) st seen out =
      mbap_loop (recording dev) fm (rest, e) st' (seen @ map line_frame ts)
        (out @ concat (map (\<lambda>t. promised t (dev (line_frame t))) ts)) \<and>
    tcp_clients st' = tcp_clients st \<and> requests st' + errors st' = requests st + errors st + length ts"
  using assms
proof (induction ts arbitrary: st seen out)
  case Nil
  show ?case by (intro exI [of _ st]) simp
next
  case (Cons t ts)
  obtain tid u pdu where t: "t = (tid, u, pdu)" by (cases t) auto
  from Cons.prems t have wf: "wf_mbap fm (tid, u, pdu)" "wf_outcome (dev (append_crc (u # pdu)))" by auto
  let ?p = "promised t (dev (line_frame t))"
  from mbap_forward_promised [where dev = dev, OF wf, of st seen] obtain st1 where
    f: "mbap_forward (recording dev) tid u pdu st seen = (Inr ?p, st1, seen @ [line_frame t])"
    and st1: "tcp_clients st1 = tcp_clients st" "requests st1 + errors st1 = requests st + errors st + 1"
    unfolding t line_frame.simps by auto
  from Cons.IH [of st1 "seen @ [line_frame t]" "out @ ?p"] Cons.prems obtain st' where
    "mbap_loop (recording dev) fm (concat (map mbap_adu ts) @ rest, e) st1 (seen @ [line_frame t]) (out @ ?p) =
      mbap_loop (recording dev) fm (rest, e) st' (seen @ map line_frame (t # ts))
        (out @ concat (map (\<lambda>t. promised t (dev (line_frame t))) (t # ts)))"
    "tcp_clients st' = tcp_clients st1" "requests st' + errors st' = requests st1 + errors st1 + length ts"
    by auto
  moreover have "mbap_loop (recording dev) fm (mbap_adu t @ (concat (map mbap_adu ts) @ rest), e) st seen out =
      mbap_loop (recording dev) fm (concat (map mbap_adu ts) @ rest, e) st1 (seen @ [line_frame t]) (out @ ?p)"
    unfolding t by (subst mbap_loop_step [OF wf(1)]) (simp only: f [unfolded t] prod.case sum.case)
  ultimately show ?case using st1 by (intro exI [of _ st']) simp
qed

lemma mbap_loop_end: "mbap_loop line fm ([], e) st w out =
    (if is_timeout (end_error e) then None else Some (end_error e), st, w, out)"
  by (subst mbap_loop.simps) (simp add: readexactly_def MBAP_LEN_def)


text \<open>The same for RTU over TCP, where the answer is passed on as it is.\<close>

fun passed_on :: "exchange_outcome \<Rightarrow> bytes" where
  "passed_on (Reply resp) = resp"
| "passed_on _ = []"

fun worker_ok :: "exchange_outcome \<Rightarrow> bool" where
  "worker_ok (Worker_error _) \<longleftrightarrow> False"
| "worker_ok _ \<longleftrightarrow> True"

lemma rtu_loop_step:
  assumes "rtu_request f" and "worker_ok (dev f)"
  shows "\<exists>st'. rtu_loop (recording dev) (f @ rest, e) st seen out =
      rtu_loop (recording dev) (rest, e) st' (seen @ [f]) (out @ passed_on (dev f)) \<and>
    tcp_clients st' = tcp_clients st \<and> errors st' = errors st"
proof (cases "dev f")
  case (Reply resp)
  then show ?thesis
    by (subst rtu_loop.simps)
      (cases "resp = []"; simp add: read_rtu_request_frame [OF assms(1)] recording_def Let_def; fastforce)
next
  case Timed_out
  then show ?thesis
    by (subst rtu_loop.simps) (simp add: read_rtu_request_frame [OF assms(1)] recording_def Let_def; fastforce)
next
  case (Worker_error x)
  with assms show ?thesis by simp
qed

lemma rtu_loop_serves:
  assumes "\<forall>f\<in>set fs. rtu_request f" and "\<forall>f\<in>set fs. worker_ok (dev f)"
  shows "\<exists>st'. rtu_loop (recording dev) (concat fs @ rest, e) st seen out =
      rtu_loop (recording dev) (rest, e) st' (seen @ fs) (out @ concat (map (\<lambda>f. passed_on (dev f)) fs)) \<and>
    tcp_clients st' = tcp_clients st \<and> errors st' = errors st"
  using assms
proof (induction fs arbitrary: st seen out)
  case Nil
  show ?case by (intro exI [of _ st]) simp
next
  case (Cons f fs)
  then have f: "rtu_request f" "worker_ok (dev f)" by auto
  from rtu_loop_step [where dev = dev, OF f, of "concat fs @ rest" e st seen out] obtain st1 where st1:
    "rtu_loop (recording dev) (f @ concat fs @ rest, e) st seen out =
      rtu_loop (recording dev) (concat fs @ rest, e) st1 (seen @ [f]) (out @ passed_on (dev f))"
    "tcp_clients st1 = tcp_clients st" "errors st1 = errors st"
    by auto
  from Cons.IH [of st1 "seen @ [f]" "out @ passed_on (dev f)"] Cons.prems obtain st' where
    "rtu_loop (recording dev) (concat fs @ rest, e) st1 (seen @ [f]) (out @ passed_on (dev f)) =
      rtu_loop (recording dev) (rest, e) st' (seen @ f # fs)
        (out @ concat (map (\<lambda>f. passed_on (dev f)) (f # fs)))"
    "tcp_clients st' = tcp_clients st1" "errors st' = errors st1"
    by auto
  with st1 show ?case by (intro exI [of _ st']) simp
qed

text \<open>Whatever a client sends, the line is given whole requests with a valid check sum, in order.\<close>

lemma rtu_loop_sees:
  "rtu_loop (recording dev) r st seen out = (x, st', seen', out') \<Longrightarrow>
   \<exists>fs rest. seen' = seen @ fs \<and> list_all rtu_request fs \<and> fst r = concat fs @ rest \<and>
     out' = out @ concat (map (\<lambda>f. passed_on (dev f)) fs) \<and> tcp_clients st' = tcp_clients st"
proof (induction "length (fst r)" arbitrary: r st seen out rule: less_induct)
  case less
  obtain res r1 where rd: "read_rtu_request r = (res, r1)" by (rule prod.exhaust)
  show ?case
  proof (cases res)
    case (Inl e)
    with less.prems rd show ?thesis
      by (simp add: rtu_loop.simps [of _ r] count_error_def split: if_splits)
        (auto intro: exI [of _ "[]"])
  next
    case (Inr f)
    have f: "r = (f @ fst r1, snd r)" "snd r1 = snd r" "rtu_request f"
      using read_rtu_request_Inr [of "fst r" "snd r" f "fst r1" "snd r1"] rd Inr
      by (simp_all add: prod_eq_iff)
    show ?thesis
    proof (cases "worker_ok (dev f)")
      case False
      then obtain e where "dev f = Worker_error e" by (cases "dev f") auto
      with less.prems rd Inr f(3) show ?thesis
        by (subst f(1)) (simp add: rtu_loop.simps [of _ r] recording_def Let_def; fastforce)
    next
      case True
      from rtu_loop_step [where dev = dev, OF f(3) True, of "fst r1" "snd r" st seen out] obtain st1 where st1:
        "rtu_loop (recording dev) r st seen out =
          rtu_loop (recording dev) (fst r1, snd r) st1 (seen @ [f]) (out @ passed_on (dev f))"
        "tcp_clients st1 = tcp_clients st"
        using f(1) by auto
      have shorter: "length (fst (fst r1, snd r)) < length (fst r)"
        using f(1) rtu_request_nonempty [OF f(3)] by (metis fst_conv length_append less_add_same_cancel2)
      from less.hyps [OF shorter, of st1 "seen @ [f]" "out @ passed_on (dev f)"] less.prems st1(1)
      obtain fs rest where "seen' = (seen @ [f]) @ fs" "list_all rtu_request fs" "fst r1 = concat fs @ rest"
        "out' = (out @ passed_on (dev f)) @ concat (map (\<lambda>f. passed_on (dev f)) fs)"
        "tcp_clients st' = tcp_clients st1"
        by auto
      moreover have "fst r = f @ fst r1" using f(1) by (metis fst_conv)
      ultimately show ?thesis using f(3) st1(2) by (intro exI [of _ "f # fs"] exI [of _ rest]) simp
    qed
  qed
qed


section \<open>Gateway and line together\<close>

text \<open>
  The exchange of \<^verbatim>\<open>SerialWorker\<close> as the line: \<open>rounds req\<close> are the rounds of its receive loop.
\<close>

definition serial_line :: "(bytes \<Rightarrow> rx_round list) \<Rightarrow> bytes \<Rightarrow> exchange_outcome" where
  "serial_line rounds req = Reply (exchange_loop req [] (rounds req))"

text \<open>A half-duplex line with devices: the echo of the request, then what a device says, if any.\<close>

definition answers :: "(bytes \<Rightarrow> rx_round list) \<Rightarrow> bytes \<Rightarrow> bytes \<Rightarrow> bool" where
  "answers rounds req f \<longleftrightarrow> received (rounds req) = req @ f \<and> (\<forall>q. Idle q \<in> set (rounds req) \<longrightarrow> \<not> q)"

lemma serial_line_answer:
  assumes "answers rounds req f" and "read_response f" and "req \<noteq> []"
  shows "serial_line rounds req = Reply f"
proof -
  have "[] @ received (rounds req) = req @ f" "\<forall>q. Idle q \<in> set (rounds req) \<longrightarrow> \<not> q"
    using assms(1) by (auto simp only: answers_def append_Nil append_Nil2)
  then have "exchange_loop req [] (rounds req) = f"
    by (rule exchange_answer [OF _ assms(2,3)]) (simp add: assms(3))
  then show ?thesis by (simp add: serial_line_def)
qed

lemma serial_line_silent:
  assumes "answers rounds req []" and "req \<noteq> []"
  shows "serial_line rounds req = Reply []"
proof -
  have "[] @ received (rounds req) = req" "\<forall>q. Idle q \<in> set (rounds req) \<longrightarrow> \<not> q"
    using assms(1) by (auto simp only: answers_def append_Nil append_Nil2)
  then have "exchange_loop req [] (rounds req) = []" by (rule exchange_echo_only [OF _ assms(2)])
  then show ?thesis by (simp add: serial_line_def)
qed

lemma check_crc_append: "2 \<le> length d \<Longrightarrow> check_crc (append_crc d)"
proof -
  assume d: "2 \<le> length d"
  obtain a b where ab: "le16 (gw_crc16 d) = [a, b]" by (simp add: le16_def)
  then have "gw_crc16 d = word16 b a" by (simp add: le16_eq)
  with d ab show ?thesis by (simp add: check_crc_def append_crc_def nth_append)
qed

lemma unat_lt_byte: "unat (b :: byte) < 256"
  using unsigned_less [of b] by simp

lemma read_response_length: "read_response f \<Longrightarrow> length f \<le> 260"
  using unat_lt_byte [of "f ! 2"]
  by (auto simp: read_response_def modbus_read_frame_len_def split: if_splits)

lemma read_response_lstrip: "read_response f \<Longrightarrow> lstrip_ff f = f"
  by (cases f) (auto simp: read_response_def lstrip_ff_def)

lemma handle_serves:
  assumes "\<forall>t\<in>set ts. wf_mbap fm t" and "\<forall>t\<in>set ts. wf_outcome (dev (line_frame t))"
  shows "case handle_modbus_tcp (recording dev) fm (concat (map mbap_adu ts), e) True st seen of
    (st', seen', out) \<Rightarrow>
      seen' = seen @ map line_frame ts \<and>
      out = concat (map (\<lambda>t. promised t (dev (line_frame t))) ts) \<and>
      tcp_clients st' = tcp_clients st \<and>
      requests st' + errors st' = requests st + errors st + length ts"
proof -
  let ?st = "st\<lparr>tcp_clients := tcp_clients st + 1\<rparr>"
  from mbap_loop_serves [OF assms, of "[]" e ?st seen "[]"] obtain st' where l:
    "mbap_loop (recording dev) fm (concat (map mbap_adu ts), e) ?st seen [] =
      mbap_loop (recording dev) fm ([], e) st' (seen @ map line_frame ts)
        (concat (map (\<lambda>t. promised t (dev (line_frame t))) ts))"
    and st': "tcp_clients st' = tcp_clients ?st" "requests st' + errors st' = requests ?st + errors ?st + length ts"
    by auto
  show ?thesis
    using st' by (simp add: handle_modbus_tcp_def handle_client_def l mbap_loop_end leave_def Let_def)
      (cases e; simp)
qed

text \<open>C25: A Modbus TCP client that sends well-formed requests one after the other, over a line that
  comes back with an answer or with nothing, gets exactly one response to each, in order, with its
  transaction identifier: the answer of the device without its check sum, exception 0x0B when
  nothing came, exception 0x0A when the check sum was wrong.  The line is given each request once,
  as unit, PDU and check sum, every request counts once, and the client is no longer counted.\<close>

theorem modbus_tcp_serves:
  assumes "\<forall>t\<in>set ts. wf_mbap fm t" and "\<forall>t\<in>set ts. wf_outcome (dev (line_frame t))"
  shows "case handle_modbus_tcp (recording dev) fm (concat (map mbap_adu ts), e) True st seen of
    (st', seen', out) \<Rightarrow>
      seen' = seen @ map line_frame ts \<and>
      out = concat (map (\<lambda>t. promised t (dev (line_frame t))) ts) \<and>
      tcp_clients st' = tcp_clients st \<and>
      requests st' + errors st' = requests st + errors st + length ts"
  by (rule handle_serves [OF assms])

theorem modbus_tcp_serves_witness:
  "case handle_modbus_tcp (recording (\<lambda>r. if r = append_crc [1, 3, 0, 0, 0, 1] then Reply (append_crc [1, 3, 2, 0, 7]) else Reply []))
      True (concat (map mbap_adu [(5, 1, [3, 0, 0, 0, 1]), (6, 2, [3, 0, 0, 0, 1])]), Eof) True stats0 [] of
    (st', seen', out) \<Rightarrow> seen' = [append_crc [1, 3, 0, 0, 0, 1], append_crc [2, 3, 0, 0, 0, 1]] \<and>
      tcp_clients st' = 0"
  using modbus_tcp_serves [where ts = "[(5, 1, [3, 0, 0, 0, 1]), (6, 2, [3, 0, 0, 0, 1])]" and fm = True and e = Eof
    and dev = "\<lambda>r. if r = append_crc [1, 3, 0, 0, 0, 1] then Reply (append_crc [1, 3, 2, 0, 7]) else Reply []"
    and st = stats0 and seen = "[]"]
  by (simp add: is_probe_def append_crc_def stats0_def del: mbap_adu.simps split: prod.splits)



text \<open>C27: In RTU-over-TCP mode, whatever bytes a client sends and however its stream ends, the line is
  only given complete requests of a known shape with a valid check sum, and they are, one after the
  other, a prefix of what the client sent; the client is sent exactly the answers, in that order.
  A client outside the allow-list reaches nothing.\<close>

theorem rtu_line_sees_requests:
  "case handle_rtu_over_tcp (recording dev) r allowed st seen of (st', seen', out) \<Rightarrow>
     \<exists>fs rest. seen' = seen @ fs \<and> list_all rtu_request fs \<and> fst r = concat fs @ rest \<and>
       out = concat (map (\<lambda>f. passed_on (dev f)) fs) \<and> (fs = [] \<or> allowed) \<and>
       tcp_clients st' = tcp_clients st"
proof (cases allowed)
  case False
  then show ?thesis by (simp add: handle_rtu_over_tcp_def handle_client_def)
next
  case True
  obtain x st' seen' out where l:
    "rtu_loop (recording dev) r (st\<lparr>tcp_clients := tcp_clients st + 1\<rparr>) seen [] = (x, st', seen', out)"
    by (rule prod_cases4)
  from rtu_loop_sees [OF l] obtain fs rest where fs: "seen' = seen @ fs" "list_all rtu_request fs"
    "fst r = concat fs @ rest" "out = concat (map (\<lambda>f. passed_on (dev f)) fs)" "tcp_clients st' = tcp_clients st + 1"
    by auto
  from fs(5) have "tcp_clients (leave x st') = tcp_clients st"
    by (simp add: leave_def count_error_def Let_def split: option.splits)
  with fs True show ?thesis
    by (auto simp: handle_rtu_over_tcp_def handle_client_def l)
qed

end
