(* ===== verification/Text.thy ===== *)
theory Text
  imports Prelude
begin

text \<open>
  Reading text: \<^verbatim>\<open>split\<close>, digits and numbers, and what they give on printed numbers.
\<close>

section \<open>Splitting and digits\<close>

text \<open>\<^verbatim>\<open>s.split(c)\<close> and \<^verbatim>\<open>s.split()\<close>.\<close>

fun split_on :: "char \<Rightarrow> string \<Rightarrow> string list" where
  "split_on c [] = [[]]"
| "split_on c (x # xs) =
     (if x = c then [] # split_on c xs
      else (case split_on c xs of [] \<Rightarrow> [[x]] | w # ws \<Rightarrow> (x # w) # ws))"

fun split_space :: "string \<Rightarrow> string \<Rightarrow> string list" where
  "split_space w [] = (if w = [] then [] else [w])"
| "split_space w (x # xs) =
     (if is_space x then (if w = [] then split_space [] xs else w # split_space [] xs)
      else split_space (w @ [x]) xs)"

definition is_digit :: "char \<Rightarrow> bool" where
  "is_digit c \<longleftrightarrow> (let n = of_char c :: nat in 48 \<le> n \<and> n \<le> 57)"

fun digit_value :: "char \<Rightarrow> nat option" where
  "digit_value c =
     (let n = of_char c :: nat in
      if 48 \<le> n \<and> n \<le> 57 then Some (n - 48)
      else if 97 \<le> n \<and> n \<le> 102 then Some (n - 87)
      else if 65 \<le> n \<and> n \<le> 70 then Some (n - 55)
      else None)"

definition number_in :: "nat \<Rightarrow> string \<Rightarrow> nat" where
  "number_in base s = foldl (\<lambda>a c. a * base + (case digit_value c of Some d \<Rightarrow> d | None \<Rightarrow> 0)) 0 s"

text \<open>A field of decimal digits, as \<^verbatim>\<open>(\d+)\<close> matches one.\<close>

definition digits :: "string \<Rightarrow> bool" where
  "digits s \<longleftrightarrow> s \<noteq> [] \<and> list_all is_digit s"

section \<open>Printed numbers\<close>

lemma dec_digits_digit: "c \<in> set (dec_digits n) \<Longrightarrow> is_digit c"
proof (induction n rule: dec_digits.induct)
  case (1 n)
  show ?case
  proof (cases "n < 10")
    case True
    with "1.prems" have "c = char_of (48 + n)" by (subst (asm) dec_digits.simps) simp
    with True show ?thesis by (simp add: is_digit_def Let_def)
  next
    case False
    with "1.prems" have "c \<in> set (dec_digits (n div 10)) \<or> c = char_of (48 + n mod 10)"
      by (subst (asm) dec_digits.simps) auto
    moreover have "n mod 10 < 10" by simp
    ultimately show ?thesis using "1.IH" [OF False] by (auto simp: is_digit_def Let_def)
  qed
qed

lemma dec_digits_nonempty [simp]: "dec_digits n \<noteq> []"
  by (subst dec_digits.simps) simp

lemma dec_digits_free:
  "\<not> is_digit c \<Longrightarrow> c \<notin> set (dec_digits n)"
  using dec_digits_digit by blast

lemma not_digit [simp]: "\<not> is_digit CHR ''.''" "\<not> is_digit CHR '':''" "\<not> is_digit CHR ''/''" "\<not> is_digit CHR ''%''"
  by (simp_all add: is_digit_def)

lemma digit_not_space: "is_digit c \<Longrightarrow> \<not> is_space c"
  by (simp add: is_digit_def is_space_def Let_def)

lemma split_on_free: "c \<notin> set w \<Longrightarrow> split_on c w = [w]"
  by (induction w) auto

lemma split_on_append: "c \<notin> set w \<Longrightarrow> split_on c (w @ c # rest) = w # split_on c rest"
  by (induction w) auto

lemma number_in_snoc:
  "number_in b (s @ [c]) = number_in b s * b + (case digit_value c of Some d \<Rightarrow> d | None \<Rightarrow> 0)"
  by (simp add: number_in_def)

lemma digit_chars:
  assumes "n < 10"
  shows "digit_value (char_of (48 + n)) = Some n" and "char_of (48 + n) = CHR ''0'' \<longleftrightarrow> n = 0"
proof -
  have "list_all (\<lambda>n. digit_value (char_of (48 + n)) = Some n \<and> (char_of (48 + n) = CHR ''0'' \<longleftrightarrow> n = 0)) [0 ..< 10]"
    by code_simp
  with assms show "digit_value (char_of (48 + n)) = Some n" "char_of (48 + n) = CHR ''0'' \<longleftrightarrow> n = 0"
    by (simp_all add: list_all_iff)
qed

lemma number_in_digits [simp]: "number_in 10 (dec_digits n) = n"
proof (induction n rule: dec_digits.induct)
  case (1 n)
  show ?case
  proof (cases "n < 10")
    case True
    then show ?thesis by (subst dec_digits.simps) (simp add: number_in_def digit_chars del: digit_value.simps)
  next
    case False
    with 1 have "number_in 10 (dec_digits (n div 10)) = n div 10" by simp
    with False show ?thesis
      by (subst dec_digits.simps) (simp add: number_in_snoc digit_chars del: digit_value.simps)
  qed
qed

lemma length_digits: "n < 10 ^ Suc k \<Longrightarrow> length (dec_digits n) \<le> Suc k"
proof (induction k arbitrary: n)
  case 0
  then show ?case by (subst dec_digits.simps) simp
next
  case (Suc k)
  have "length (dec_digits (n div 10)) \<le> Suc k" using Suc.prems by (intro Suc.IH) simp
  then show ?case by (subst dec_digits.simps) simp
qed

lemma hd_digits: "n \<noteq> 0 \<Longrightarrow> dec_digits n ! 0 \<noteq> CHR ''0''"
proof (induction n rule: dec_digits.induct)
  case (1 n)
  show ?case
  proof (cases "n < 10")
    case True
    with digit_chars(2) [OF True] "1.prems" show ?thesis by (subst dec_digits.simps) simp
  next
    case False
    then have "n div 10 \<noteq> 0" by simp
    with "1.IH" [OF False] False show ?thesis
      by (subst dec_digits.simps) (simp add: nth_append)
  qed
qed

lemma py_strip_id: "s \<noteq> [] \<Longrightarrow> \<not> is_space (hd s) \<Longrightarrow> \<not> is_space (last s) \<Longrightarrow> py_strip s = s"
proof -
  assume s: "s \<noteq> []" "\<not> is_space (hd s)" "\<not> is_space (last s)"
  then have "dropWhile is_space s = s" by (cases s) auto
  moreover have "dropWhile is_space (rev s) = rev s" using s by (cases s rule: rev_cases) auto
  ultimately show "py_strip s = s" by (simp add: py_strip_def)
qed

lemma digits_dec_digits [simp]: "digits (dec_digits n)"
  by (simp add: digits_def list_all_iff dec_digits_digit)

end
