(* ===== verification/Ip_Access.thy ===== *)
theory Ip_Access
  imports Text
begin

text \<open>
  Network access control of the serial gateway (\<^verbatim>\<open>serial_gateway.py\<close>): the listening address, the
  allow-list and the check of a peer.  The readings of \<^verbatim>\<open>ipaddress\<close> that the code relies on
  (\<^verbatim>\<open>ip_address\<close>, \<^verbatim>\<open>ip_network\<close> with \<^verbatim>\<open>strict=False\<close>, membership, \<^verbatim>\<open>ipv4_mapped\<close>) are those of
  the standard library of Python 3.11; addresses are numbers below \<open>2^32\<close> and \<open>2^128\<close>.
\<close>

section \<open>Addresses\<close>

datatype ip = V4 nat | V6 nat

definition parse_octet :: "string \<Rightarrow> nat option" where
  "parse_octet s =
     (if s = [] \<or> \<not> list_all is_digit s \<or> 3 < length s \<or> (s \<noteq> ''0'' \<and> s ! 0 = CHR ''0'') then None
      else let n = number_in 10 s in if 255 < n then None else Some n)"

fun all_some :: "'a option list \<Rightarrow> 'a list option" where
  "all_some [] = Some []"
| "all_some (None # xs) = None"
| "all_some (Some x # xs) = map_option ((#) x) (all_some xs)"

definition digits_to_nat :: "nat \<Rightarrow> nat list \<Rightarrow> nat" where
  "digits_to_nat base ds = foldl (\<lambda>a d. a * base + d) 0 ds"

definition parse_ipv4 :: "string \<Rightarrow> nat option" where
  "parse_ipv4 s =
     (let octets = split_on CHR ''.'' s in
      if length octets \<noteq> 4 then None
      else map_option (digits_to_nat 256) (all_some (map parse_octet octets)))"

definition parse_hextet :: "string \<Rightarrow> nat option" where
  "parse_hextet s =
     (if s = [] \<or> 4 < length s \<or> (\<exists>c\<in>set s. digit_value c = None) then None else Some (number_in 16 s))"

text \<open>An IPv4 tail stands for its two hextets; \<open>Inl\<close> is a part still to be read, \<open>Inr\<close> its value.\<close>

definition hextet_parts :: "string \<Rightarrow> (string + nat) list option" where
  "hextet_parts s =
     (let parts = split_on CHR '':'' s in
      if s = [] \<or> length parts < 3 then None
      else if CHR ''.'' \<in> set (last parts) then
        map_option (\<lambda>v. map Inl (butlast parts) @ [Inr (v div 65536), Inr (v mod 65536)]) (parse_ipv4 (last parts))
      else Some (map Inl parts))"

fun part_value :: "string + nat \<Rightarrow> nat option" where
  "part_value (Inl s) = parse_hextet s"
| "part_value (Inr n) = Some n"

definition part_empty :: "string + nat \<Rightarrow> bool" where
  "part_empty p \<longleftrightarrow> p = Inl []"

text \<open>The places of an empty part strictly inside: none, one, or an error.\<close>

definition skip_places :: "(string + nat) list \<Rightarrow> nat list" where
  "skip_places parts = filter (\<lambda>i. part_empty (parts ! i)) [1 ..< length parts - 1]"

definition hextets :: "(string + nat) list \<Rightarrow> (string + nat) list option" where
  "hextets parts =
     (let n = length parts in
      if 9 < n then None
      else (case skip_places parts of
        [] \<Rightarrow> if n \<noteq> 8 \<or> part_empty (parts ! 0) \<or> part_empty (parts ! (n - 1)) then None else Some parts
      | [i] \<Rightarrow>
          (let hi = (if part_empty (parts ! 0) then i - 1 else i);
               lo = (if part_empty (parts ! (n - 1)) then n - i - 2 else n - i - 1) in
           if part_empty (parts ! 0) \<and> hi \<noteq> 0 \<or> part_empty (parts ! (n - 1)) \<and> lo \<noteq> 0 \<or> 8 < hi + lo + 1
           then None
           else Some (take hi parts @ replicate (8 - (hi + lo)) (Inr 0) @ drop (n - lo) parts))
      | _ \<Rightarrow> None))"

definition parse_ipv6 :: "string \<Rightarrow> nat option" where
  "parse_ipv6 s =
     (case hextet_parts s of
        None \<Rightarrow> None
      | Some parts \<Rightarrow> (case hextets parts of
          None \<Rightarrow> None
        | Some ps \<Rightarrow> map_option (digits_to_nat 65536) (all_some (map part_value ps))))"

text \<open>A scope identifier behind \<^verbatim>\<open>%\<close> is cut off; it may be neither empty nor contain another one.\<close>

definition split_scope :: "string \<Rightarrow> string option" where
  "split_scope s =
     (case split_on CHR ''%'' s of
        [a] \<Rightarrow> Some a
      | [a, z] \<Rightarrow> if z = [] then None else Some a
      | _ \<Rightarrow> None)"

definition ip_address :: "string \<Rightarrow> ip option" where
  "ip_address s =
     (if CHR ''/'' \<in> set s then None
      else (case parse_ipv4 s of
        Some n \<Rightarrow> Some (V4 n)
      | None \<Rightarrow> map_option V6 (Option.bind (split_scope s) parse_ipv6)))"

section \<open>Networks\<close>

text \<open>A network is its address with the host bits cleared and the number of host bits.\<close>

datatype net = Net4 nat nat | Net6 nat nat

definition clear_host :: "nat \<Rightarrow> nat \<Rightarrow> nat" where
  "clear_host host n = n div 2 ^ host * 2 ^ host"

definition prefix_text :: "nat \<Rightarrow> string \<Rightarrow> nat option" where
  "prefix_text width s =
     (if s \<noteq> [] \<and> list_all is_digit s \<and> number_in 10 s \<le> width then Some (number_in 10 s) else None)"

text \<open>A dotted mask: as a net mask (ones, then zeros), else as a host mask (zeros, then ones).\<close>

definition mask_host_bits :: "nat \<Rightarrow> nat option" where
  "mask_host_bits m =
     (case find (\<lambda>h. m = 2 ^ 32 - 2 ^ h) [0 ..< 33] of
        Some h \<Rightarrow> Some h
      | None \<Rightarrow> find (\<lambda>h. m = 2 ^ h - 1) [0 ..< 33])"

definition host_bits4 :: "string \<Rightarrow> nat option" where
  "host_bits4 s =
     (case prefix_text 32 s of
        Some p \<Rightarrow> Some (32 - p)
      | None \<Rightarrow> Option.bind (parse_ipv4 s) mask_host_bits)"

definition host_bits6 :: "string \<Rightarrow> nat option" where
  "host_bits6 s = map_option (\<lambda>p. 128 - p) (prefix_text 128 s)"

definition ip_network :: "string \<Rightarrow> net option" where
  "ip_network s =
     (case split_on CHR ''/'' s of
        [a] \<Rightarrow> (case ip_address a of
            Some (V4 n) \<Rightarrow> Some (Net4 n 0) | Some (V6 n) \<Rightarrow> Some (Net6 n 0) | None \<Rightarrow> None)
      | [a, m] \<Rightarrow> (case (parse_ipv4 a, host_bits4 m) of
            (Some n, Some h) \<Rightarrow> Some (Net4 (clear_host h n) h)
          | _ \<Rightarrow> (case (Option.bind (split_scope a) parse_ipv6, host_bits6 m) of
              (Some n, Some h) \<Rightarrow> Some (Net6 (clear_host h n) h)
            | _ \<Rightarrow> None))
      | _ \<Rightarrow> None)"

fun in_net :: "ip \<Rightarrow> net \<Rightarrow> bool" where
  "in_net (V4 a) (Net4 n h) \<longleftrightarrow> clear_host h a = n"
| "in_net (V6 a) (Net6 n h) \<longleftrightarrow> clear_host h a = n"
| "in_net _ _ \<longleftrightarrow> False"

fun ipv4_mapped :: "ip \<Rightarrow> ip" where
  "ipv4_mapped (V4 a) = V4 a"
| "ipv4_mapped (V6 a) = (if a div 2 ^ 32 = 0xFFFF then V4 (a mod 2 ^ 32) else V6 a)"

section \<open>The configuration\<close>

text \<open>A value of the configuration file, as far as the two keys look at it.\<close>

datatype cfg_val = CNone | CStr string | CList "cfg_val list" | COther

definition DEFAULT_BIND :: string where "DEFAULT_BIND = ''0.0.0.0''"

fun parse_bind :: "cfg_val \<Rightarrow> string result" where
  "parse_bind CNone = Inr DEFAULT_BIND"
| "parse_bind (CStr raw) =
     (let value = py_strip raw in
      if value = [] then Inr DEFAULT_BIND
      else if ip_address value = None then Inl (AccessConfigError ''bind address'')
      else Inr value)"
| "parse_bind _ = Inl (AccessConfigError ''bind type'')"

fun allow_entry :: "cfg_val \<Rightarrow> net result" where
  "allow_entry (CStr s) =
     (case ip_network (py_strip s) of
        Some n \<Rightarrow> Inr n | None \<Rightarrow> Inl (AccessConfigError ''allow_from entry''))"
| "allow_entry _ = Inl (AccessConfigError ''allow_from entry type'')"

fun allow_entries :: "cfg_val list \<Rightarrow> net list result" where
  "allow_entries [] = Inr []"
| "allow_entries (x # xs) = bindE (allow_entry x) (\<lambda>n. bindE (allow_entries xs) (\<lambda>ns. Inr (n # ns)))"

definition allow_items :: "cfg_val list \<Rightarrow> net list option result" where
  "allow_items items = (if items = [] then Inr None else bindE (allow_entries items) (\<lambda>ns. Inr (Some ns)))"

fun parse_allow_from :: "cfg_val \<Rightarrow> net list option result" where
  "parse_allow_from CNone = Inr None"
| "parse_allow_from (CStr raw) =
     allow_items (map CStr (split_space [] (map (\<lambda>c. if c = CHR '','' then CHR '' '' else c) raw)))"
| "parse_allow_from (CList items) = allow_items items"
| "parse_allow_from COther = Inl (AccessConfigError ''allow_from type'')"

section \<open>The check of a peer\<close>

text \<open>The peer's host is absent when the transport has no peer name.\<close>

definition peer_allowed :: "net list option \<Rightarrow> string option \<Rightarrow> bool" where
  "peer_allowed nets host =
     (case nets of
        None \<Rightarrow> True
      | Some ns \<Rightarrow>
          (case host of
             None \<Rightarrow> False
           | Some h \<Rightarrow> h \<noteq> [] \<and>
               (case ip_address h of
                  None \<Rightarrow> False
                | Some a \<Rightarrow> list_ex (in_net (ipv4_mapped a)) ns)))"

definition peer_host :: "string list option \<Rightarrow> string option" where
  "peer_host peername = (case peername of Some (h # _) \<Rightarrow> Some h | _ \<Rightarrow> None)"

section \<open>Reading a printed address\<close>

definition dotted :: "nat \<Rightarrow> string" where
  "dotted n = dec_digits (n div 2 ^ 24 mod 256) @ ''.'' @ dec_digits (n div 2 ^ 16 mod 256) @ ''.'' @
     dec_digits (n div 2 ^ 8 mod 256) @ ''.'' @ dec_digits (n mod 256)"

lemma parse_octet_digits: "n < 256 \<Longrightarrow> parse_octet (dec_digits n) = Some n"
proof (cases "n = 0")
  case True
  have "parse_octet (dec_digits 0) = Some 0" by code_simp
  with True show ?thesis by simp
next
  case False
  assume "n < 256"
  with False length_digits [of n 2] hd_digits [of n] show ?thesis
    by (auto simp: parse_octet_def list_all_iff dec_digits_digit)
qed

lemma octets_of:
  assumes "n < 2 ^ 32"
  shows "digits_to_nat 256 [n div 2 ^ 24 mod 256, n div 2 ^ 16 mod 256, n div 2 ^ 8 mod 256, n mod 256] = n"
proof -
  define a b c where "a = n div 256" and "b = a div 256" and "c = b div 256"
  have e: "n div 2 ^ 8 = a" "n div 2 ^ 16 = b" "n div 2 ^ 24 = c"
    by (simp_all add: a_def b_def c_def flip: div_mult2_eq)
  have "c < 256" using assms e(3) by (simp add: less_mult_imp_div_less flip: e(3))
  then have "((c mod 256 * 256 + b mod 256) * 256 + a mod 256) * 256 + n mod 256 = n"
    using div_mult_mod_eq [of b 256] div_mult_mod_eq [of a 256] div_mult_mod_eq [of n 256]
    by (simp only: mod_less c_def [symmetric] b_def [symmetric] a_def [symmetric])
  then show ?thesis unfolding e by (simp add: digits_to_nat_def)
qed

lemma split_dotted: "split_on CHR ''.'' (dotted n) =
    [dec_digits (n div 2 ^ 24 mod 256), dec_digits (n div 2 ^ 16 mod 256), dec_digits (n div 2 ^ 8 mod 256), dec_digits (n mod 256)]"
  by (simp add: dotted_def split_on_append split_on_free dec_digits_free)

lemma parse_ipv4_dotted: "n < 2 ^ 32 \<Longrightarrow> parse_ipv4 (dotted n) = Some n"
  using octets_of [of n] by (simp add: parse_ipv4_def split_dotted parse_octet_digits)

lemma dotted_chars: "c \<in> set (dotted n) \<Longrightarrow> is_digit c \<or> c = CHR ''.''"
  by (auto simp: dotted_def dest: dec_digits_digit)

lemma dotted_free: "c \<noteq> CHR ''.'' \<Longrightarrow> \<not> is_digit c \<Longrightarrow> c \<notin> set (dotted n)"
  using dotted_chars by blast

lemma ip_address_dotted: "n < 2 ^ 32 \<Longrightarrow> ip_address (dotted n) = Some (V4 n)"
  by (simp add: ip_address_def dotted_free parse_ipv4_dotted)

text \<open>A dual-stack listener reports an IPv4 peer behind \<open>::ffff:\<close>.\<close>

lemma hextets_of: "digits_to_nat 65536 [0, 0, 0, 0, 0, 0xFFFF, n div 65536, n mod 65536] = 0xFFFF * 2 ^ 32 + n"
  using div_mult_mod_eq [of n 65536] by (simp add: digits_to_nat_def)

lemma parse_ipv6_mapped:
  assumes "n < 2 ^ 32"
  shows "parse_ipv6 (''::ffff:'' @ dotted n) = Some (0xFFFF * 2 ^ 32 + n)"
proof -
  have "split_on CHR '':'' (''::ffff:'' @ dotted n) = ['''', '''', ''ffff'', dotted n]"
    by (simp add: split_on_free dotted_free)
  moreover have "CHR ''.'' \<in> set (dotted n)" by (simp add: dotted_def)
  ultimately have p: "hextet_parts (''::ffff:'' @ dotted n) =
      Some [Inl '''', Inl '''', Inl ''ffff'', Inr (n div 65536), Inr (n mod 65536)]"
    by (simp add: hextet_parts_def parse_ipv4_dotted [OF assms])
  have s: "skip_places [Inl '''', Inl '''', Inl ''ffff'', Inr (n div 65536), Inr (n mod 65536)] = [1]"
    by (simp add: skip_places_def part_empty_def upt_conv_Cons)
  have five: "replicate 5 x = [x, x, x, x, x]" for x :: "string + nat" by (simp add: eval_nat_numeral)
  have h: "hextets [Inl '''', Inl '''', Inl ''ffff'', Inr (n div 65536), Inr (n mod 65536)] =
      Some [Inr 0, Inr 0, Inr 0, Inr 0, Inr 0, Inl ''ffff'', Inr (n div 65536), Inr (n mod 65536)]"
    using five by (simp add: hextets_def s part_empty_def)
  have "parse_hextet ''ffff'' = Some 0xFFFF" by (simp add: parse_hextet_def number_in_def)
  then show ?thesis
    by (simp only: parse_ipv6_def p h hextets_of option.case list.map part_value.simps all_some.simps option.map)
qed

lemma ip_address_mapped:
  assumes "n < 2 ^ 32"
  shows "ip_address (''::ffff:'' @ dotted n) = Some (V6 (0xFFFF * 2 ^ 32 + n))"
proof -
  define k where "k = n div 2 ^ 24 mod 256"
  obtain r where d: "dotted n = dec_digits k @ CHR ''.'' # r" by (simp add: dotted_def k_def)
  have free: "CHR ''.'' \<notin> set (''::ffff:'' @ dec_digits k)" by (simp add: dec_digits_free)
  have "split_on CHR ''.'' (''::ffff:'' @ dotted n) = (''::ffff:'' @ dec_digits k) # split_on CHR ''.'' r"
    using split_on_append [OF free, of r] by (simp only: d append_assoc)
  moreover have "parse_octet (''::ffff:'' @ dec_digits k) = None"
    by (simp add: parse_octet_def is_digit_def)
  ultimately have "parse_ipv4 (''::ffff:'' @ dotted n) = None"
    by (simp only: parse_ipv4_def Let_def list.map all_some.simps option.map if_cancel)
  moreover have "split_scope (''::ffff:'' @ dotted n) = Some (''::ffff:'' @ dotted n)"
    by (simp add: split_scope_def split_on_free dotted_free)
  moreover have "CHR ''/'' \<notin> set (''::ffff:'' @ dotted n)" by (simp add: dotted_free)
  ultimately show ?thesis
    using parse_ipv6_mapped [OF assms] by (simp only: ip_address_def if_False option.case bind.bind_lunit option.map)
qed

lemma mapped_back:
  assumes "n < 2 ^ 32"
  shows "ipv4_mapped (V6 (0xFFFF * 2 ^ 32 + n)) = V4 n"
proof -
  have "(0xFFFF * 2 ^ 32 + n) div 2 ^ 32 = 0xFFFF + n div 2 ^ 32" by (rule div_mult_self3) simp
  moreover have "(0xFFFF * 2 ^ 32 + n) mod 2 ^ 32 = n mod 2 ^ 32" by (rule mod_mult_self3)
  ultimately show ?thesis
    unfolding ipv4_mapped.simps by (simp only: div_less [OF assms] mod_less [OF assms] add_0_right refl if_True)
qed

section \<open>An allow-list entry is a prefix\<close>

lemma dotted_hd: "is_digit (hd (dotted n @ rest))"
proof -
  have "hd (dotted n @ rest) = hd (dec_digits (n div 2 ^ 24 mod 256))" by (simp add: dotted_def)
  moreover have "hd (dec_digits k) \<in> set (dec_digits k)" for k by (rule hd_in_set) simp
  ultimately show ?thesis using dec_digits_digit by metis
qed

lemma py_strip_entry: "py_strip (dotted n @ CHR ''/'' # dec_digits p) = dotted n @ CHR ''/'' # dec_digits p"
proof (rule py_strip_id)
  show "\<not> is_space (hd (dotted n @ CHR ''/'' # dec_digits p))" by (rule digit_not_space [OF dotted_hd])
  have "last (dec_digits p) \<in> set (dec_digits p)" by (rule last_in_set) simp
  then show "\<not> is_space (last (dotted n @ CHR ''/'' # dec_digits p))"
    using dec_digits_digit digit_not_space by (simp, blast)
qed simp

lemma ip_network_entry:
  assumes "n < 2 ^ 32" and "p \<le> 32"
  shows "ip_network (dotted n @ CHR ''/'' # dec_digits p) = Some (Net4 (clear_host (32 - p) n) (32 - p))"
proof -
  have "split_on CHR ''/'' (dotted n @ CHR ''/'' # dec_digits p) = [dotted n, dec_digits p]"
    by (simp add: split_on_append split_on_free dotted_free dec_digits_free)
  moreover have "prefix_text 32 (dec_digits p) = Some p"
    using assms(2) by (simp add: prefix_text_def list_all_iff dec_digits_digit)
  ultimately show ?thesis using parse_ipv4_dotted [OF assms(1)] by (simp add: ip_network_def host_bits4_def)
qed

lemma clear_host_eq: "clear_host h a = clear_host h b \<longleftrightarrow> a div 2 ^ h = b div 2 ^ h"
  by (simp add: clear_host_def)

text \<open>C29: An allow-list entry written as address and prefix length admits exactly the IPv4 peers that
  agree with it in the prefix, whether the listener reports them as IPv4 or, being dual-stack, as
  IPv4-mapped IPv6.\<close>

theorem allow_entry_is_prefix:
  assumes "n < 2 ^ 32" and "p \<le> 32" and "m < 2 ^ 32"
    and "host = dotted m \<or> host = ''::ffff:'' @ dotted m"
  shows "\<exists>nets. parse_allow_from (CList [CStr (dotted n @ CHR ''/'' # dec_digits p)]) = Inr nets \<and>
    (peer_allowed nets (Some host) \<longleftrightarrow> m div 2 ^ (32 - p) = n div 2 ^ (32 - p))"
proof -
  have "\<exists>a. ip_address host = Some a \<and> ipv4_mapped a = V4 m \<and> host \<noteq> []"
    using assms(4) ip_address_dotted [OF assms(3)] ip_address_mapped [OF assms(3)] mapped_back [OF assms(3)]
    by (auto simp: dotted_def)
  then show ?thesis
    using ip_network_entry [OF assms(1,2)]
    by (auto simp: allow_items_def py_strip_entry peer_allowed_def clear_host_eq)
qed

theorem allow_entry_is_prefix_witness:
  "\<exists>nets. parse_allow_from (CList [CStr (dotted 3232235776 @ CHR ''/'' # dec_digits 24)]) = Inr nets \<and>
    peer_allowed nets (Some (''::ffff:'' @ dotted 3232235786))"
  using allow_entry_is_prefix [of 3232235776 24 3232235786 "''::ffff:'' @ dotted 3232235786"] by simp

end
