(* ===== verification/Gateway_Port.thy ===== *)
theory Gateway_Port
  imports Effect Ip_Access
begin

text \<open>
  One port of the serial gateway (\<^verbatim>\<open>PortLock\<close>, \<^verbatim>\<open>PortGateway\<close> of \<^verbatim>\<open>serial_gateway.py\<close>): taking the
  UART lease, opening the device, starting the server, and the teardown, with every failure and
  every cancellation between the steps.  What the coordinator, the device and the network answer is
  the world, an argument of all steps; the steps that took effect are logged.  The texts of
  \<^verbatim>\<open>last_error\<close> are left out, and the delay between two attempts to get the lease.
\<close>

section \<open>State\<close>

datatype uart_event = Leased | Released | Opened | Closed | Serving | Unserving

text \<open>
  The calls of the code into the rest of the system: \<^verbatim>\<open>Lease.__enter__\<close> and \<^verbatim>\<open>close\<close>, the serial
  device, the server, the construction of worker and gateway from the configuration, and whether
  the task was cancelled while it waited for a thread.
\<close>

record 'w uart_calls =
  c_enter :: "'w \<Rightarrow> unit result \<times> 'w"
  c_leave :: "'w \<Rightarrow> unit result \<times> 'w"
  c_worker :: "'w \<Rightarrow> unit result \<times> 'w"
  c_open :: "'w \<Rightarrow> unit result \<times> 'w"
  c_close :: "'w \<Rightarrow> unit result \<times> 'w"
  c_gateway :: "'w \<Rightarrow> unit result \<times> 'w"
  c_serve :: "'w \<Rightarrow> unit result \<times> 'w"
  c_unserve :: "'w \<Rightarrow> 'w"
  c_cancelled :: "'w \<Rightarrow> bool \<times> 'w"

record 'w port =
  enabled :: bool
  mode :: string
  cfg_bind :: cfg_val
  cfg_allow :: cfg_val
  lease :: bool
  worker :: bool
  device_open :: bool
  running :: bool
  serving :: bool
  stop_task :: "unit result option"
  port_errors :: nat
  log :: "uart_event list"
  world :: 'w

definition new_port :: "bool \<Rightarrow> string \<Rightarrow> cfg_val \<Rightarrow> cfg_val \<Rightarrow> 'w \<Rightarrow> 'w port" where
  "new_port en md b al w =
     \<lparr>enabled = en, mode = md, cfg_bind = b, cfg_allow = al, lease = False, worker = False,
      device_open = False, running = False, serving = False, stop_task = None, port_errors = 0,
      log = [], world = w\<rparr>"

definition call :: "('w \<Rightarrow> 'a result \<times> 'w) \<Rightarrow> ('w port, 'a) proc" where
  "call c s = (case c (world s) of (r, w) \<Rightarrow> (r, s\<lparr>world := w\<rparr>))"

definition mark :: "uart_event \<Rightarrow> ('w port \<Rightarrow> 'w port) \<Rightarrow> ('w port, unit) proc" where
  "mark ev f = modM (\<lambda>s. (f s)\<lparr>log := log s @ [ev]\<rparr>)"

section \<open>The lease\<close>

definition RETRIES :: nat where "RETRIES = 10"

fun unavailable :: "exn \<Rightarrow> bool" where
  "unavailable (CoordinatorUnavailable _) = True"
| "unavailable _ = False"

text \<open>The attempts left; an outage is tried again, a refusal is final.\<close>

fun acquire_loop :: "'w uart_calls \<Rightarrow> nat \<Rightarrow> ('w port, bool) proc" where
  "acquire_loop c 0 = retM False"
| "acquire_loop c (Suc k) =
     catchM (bindM (call (c_enter c)) (\<lambda>_. bindM (mark Leased (\<lambda>s. s\<lparr>lease := True\<rparr>)) (\<lambda>_. retM True)))
       (\<lambda>e. if unavailable e then (if k = 0 then retM False else acquire_loop c k) else retM False)"

definition acquire :: "'w uart_calls \<Rightarrow> ('w port, bool) proc" where
  "acquire c = acquire_loop c (RETRIES + 1)"

definition release :: "'w uart_calls \<Rightarrow> ('w port, unit) proc" where
  "release c =
     bindM (getM lease) (\<lambda>l.
       if l then bindM (mark Released (\<lambda>s. s\<lparr>lease := False\<rparr>)) (\<lambda>_. call (c_leave c)) else retM ())"

section \<open>The device\<close>

definition open_device :: "'w uart_calls \<Rightarrow> ('w port, unit) proc" where
  "open_device c = bindM (call (c_open c)) (\<lambda>_. mark Opened (\<lambda>s. s\<lparr>device_open := True\<rparr>))"

definition close_device :: "'w uart_calls \<Rightarrow> ('w port, unit) proc" where
  "close_device c =
     bindM (getM device_open) (\<lambda>d.
       if d then bindM (call (c_close c)) (\<lambda>_. mark Closed (\<lambda>s. s\<lparr>device_open := False\<rparr>)) else retM ())"

section \<open>Starting and stopping\<close>

text \<open>
  A step in a worker thread runs to its end even when the waiting task is cancelled; then the
  cancellation is what the step comes to.
\<close>

definition drained :: "'w uart_calls \<Rightarrow> ('w port, 'a) proc \<Rightarrow> ('w port, 'a) proc" where
  "drained c m s =
     (case m s of (r, s1) \<Rightarrow>
        (case c_cancelled c (world s1) of (b, w) \<Rightarrow>
           (if b then Inl CancelledError else r, s1\<lparr>world := w\<rparr>)))"

definition record_error :: "('w port, unit) proc" where
  "record_error = modM (\<lambda>s. s\<lparr>port_errors := port_errors s + 1\<rparr>)"

definition stop_gateway :: "'w uart_calls \<Rightarrow> ('w port, unit) proc" where
  "stop_gateway c =
     bindM (modM (\<lambda>s. s\<lparr>world := c_unserve c (world s)\<rparr>)) (\<lambda>_.
     bindM (getM serving) (\<lambda>l. if l then mark Unserving (\<lambda>s. s\<lparr>serving := False\<rparr>) else retM ()))"

definition drop_worker :: "'w uart_calls \<Rightarrow> ('w port, unit) proc" where
  "drop_worker c =
     bindM (getM worker) (\<lambda>wk.
       if wk then bindM (close_device c) (\<lambda>_. modM (\<lambda>s. s\<lparr>worker := False\<rparr>)) else retM ())"

definition cleanup :: "'w uart_calls \<Rightarrow> bool \<Rightarrow> ('w port, unit) proc" where
  "cleanup c gateway =
     bindM (if gateway then stop_gateway c else retM ()) (\<lambda>_. bindM (drop_worker c) (\<lambda>_. release c))"

definition GATEWAY_CLASSES :: "string list" where
  "GATEWAY_CLASSES = [''modbus_tcp'', ''rtu_over_tcp'', ''transparent'']"

fun is_exception :: "exn \<Rightarrow> bool" where
  "is_exception CancelledError = False"
| "is_exception _ = True"

definition failed_start :: "'w uart_calls \<Rightarrow> bool \<Rightarrow> exn \<Rightarrow> ('w port, bool) proc" where
  "failed_start c gateway e =
     bindM (modM (\<lambda>s. s\<lparr>running := False\<rparr>)) (\<lambda>_.
     bindM record_error (\<lambda>_.
     bindM (drained c (cleanup c gateway)) (\<lambda>_.
       if is_exception e then retM False else raiseM e)))"

text \<open>\<^verbatim>\<open>start\<close> inside its \<^verbatim>\<open>try\<close>, before and after the gateway object exists.\<close>

definition worker_up :: "'w uart_calls \<Rightarrow> ('w port, bool) proc" where
  "worker_up c =
     bindM (call (c_worker c)) (\<lambda>_.
     bindM (modM (\<lambda>s. s\<lparr>worker := True\<rparr>)) (\<lambda>_.
     bindM (drained c (open_device c)) (\<lambda>_.
     bindM (call (c_gateway c)) (\<lambda>_. retM True))))"

definition prepare :: "'w uart_calls \<Rightarrow> ('w port, bool) proc" where
  "prepare c =
     bindM (drained c (acquire c)) (\<lambda>ok.
       if ok then worker_up c else bindM record_error (\<lambda>_. retM False))"

definition serve :: "'w uart_calls \<Rightarrow> ('w port, bool) proc" where
  "serve c =
     bindM (call (c_serve c)) (\<lambda>_.
     bindM (mark Serving (\<lambda>s. s\<lparr>serving := True\<rparr>)) (\<lambda>_.
     bindM (modM (\<lambda>s. s\<lparr>running := True\<rparr>)) (\<lambda>_. retM True)))"

definition bring_up :: "'w uart_calls \<Rightarrow> ('w port, bool) proc" where
  "bring_up c s =
     (case prepare c s of
        (Inl e, s1) \<Rightarrow> failed_start c False e s1
      | (Inr ok, s1) \<Rightarrow> if ok then catchM (serve c) (failed_start c True) s1 else (Inr False, s1))"

definition start :: "'w uart_calls \<Rightarrow> ('w port, bool) proc" where
  "start c s =
     (if running s then (Inr True, s)
      else if worker s then (Inl (RuntimeError ''teardown is incomplete''), s)
      else let s1 = s\<lparr>stop_task := None\<rparr> in
        if \<not> enabled s1 \<or> mode s1 \<notin> set GATEWAY_CLASSES then (Inr False, s1)
        else (case bindE (parse_bind (cfg_bind s1)) (\<lambda>_. parse_allow_from (cfg_allow s1)) of
            Inl e \<Rightarrow> bindM record_error (\<lambda>_. retM False) s1
          | Inr _ \<Rightarrow> bring_up c s1))"

text \<open>\<^verbatim>\<open>_stop\<close> and \<^verbatim>\<open>stop\<close>: the teardown is one task, whose outcome is kept until it failed.\<close>

definition teardown :: "'w uart_calls \<Rightarrow> ('w port, unit) proc" where
  "teardown c =
     bindM (getM running) (\<lambda>gateway.
     bindM (modM (\<lambda>s. s\<lparr>running := False\<rparr>)) (\<lambda>_.
       catchM (cleanup c gateway)
         (\<lambda>e. if is_exception e then bindM record_error (\<lambda>_. raiseM e) else raiseM e)))"

definition stop_outcome :: "'w uart_calls \<Rightarrow> ('w port, unit) proc" where
  "stop_outcome c s =
     (case stop_task s of
        Some r \<Rightarrow> (r, s)
      | None \<Rightarrow> (case teardown c s of (r, s1) \<Rightarrow> (r, s1\<lparr>stop_task := Some r\<rparr>)))"

definition stop :: "'w uart_calls \<Rightarrow> ('w port, unit) proc" where
  "stop c =
     catchM (drained c (stop_outcome c))
       (\<lambda>e. if is_exception e then bindM (modM (\<lambda>s. s\<lparr>stop_task := None\<rparr>)) (\<lambda>_. raiseM e) else raiseM e)"

section \<open>The protocol of a UART\<close>

text \<open>What may happen to a UART, in which order: the specification the log has to meet.\<close>

datatype phase = Idle | Reserved | Open | Served

fun uart_next :: "phase \<Rightarrow> uart_event \<Rightarrow> phase option" where
  "uart_next Idle Leased = Some Reserved"
| "uart_next Reserved Opened = Some Open"
| "uart_next Open Serving = Some Served"
| "uart_next Served Unserving = Some Open"
| "uart_next Open Closed = Some Reserved"
| "uart_next Reserved Released = Some Idle"
| "uart_next _ _ = None"

fun replay :: "phase \<Rightarrow> uart_event list \<Rightarrow> phase option" where
  "replay p [] = Some p"
| "replay p (e # es) = Option.bind (uart_next p e) (\<lambda>q. replay q es)"

lemma replay_append: "replay p (es @ fs) = Option.bind (replay p es) (\<lambda>q. replay q fs)"
proof (induction es arbitrary: p)
  case (Cons e es)
  then show ?case by (cases "uart_next p e") auto
qed simp

definition phase_of :: "'w port \<Rightarrow> phase" where
  "phase_of s = (if serving s then Served else if device_open s then Open else if lease s then Reserved else Idle)"

text \<open>What holds between the steps, and what holds between the calls.\<close>

definition consistent :: "'w port \<Rightarrow> bool" where
  "consistent s \<longleftrightarrow> replay Idle (log s) = Some (phase_of s) \<and> (serving s \<longrightarrow> device_open s) \<and>
     (device_open s \<longrightarrow> worker s) \<and> (worker s \<longrightarrow> lease s)"

definition port_inv :: "'w port \<Rightarrow> bool" where
  "port_inv s \<longleftrightarrow> consistent s \<and> (lease s \<longrightarrow> worker s) \<and> running s = serving s \<and>
     (stop_task s = Some (Inr ()) \<longrightarrow> \<not> lease s)"

section \<open>The steps\<close>

lemma acquire_loop_cases:
  "acquire_loop c k s = (r, s') \<Longrightarrow>
     (\<exists>w. r = Inr False \<and> s' = s\<lparr>world := w\<rparr>) \<or>
     (\<exists>w. r = Inr True \<and> s' = s\<lparr>world := w, lease := True, log := log s @ [Leased]\<rparr>)"
proof (induction k arbitrary: s)
  case 0
  then have "r = Inr False \<and> s' = s\<lparr>world := world s\<rparr>" by simp
  then show ?case by blast
next
  case (Suc k)
  obtain x w where e: "c_enter c (world s) = (x, w)" by (rule prod.exhaust)
  show ?case
  proof (cases x)
    case (Inr u)
    with Suc.prems e show ?thesis by (auto simp: effect_defs call_def mark_def)
  next
    case (Inl ex)
    have "s\<lparr>world := w\<rparr>\<lparr>world := v\<rparr> = s\<lparr>world := v\<rparr>" for v by simp
    with Suc.prems Suc.IH [of "s\<lparr>world := w\<rparr>"] e Inl show ?thesis
      by (auto simp: effect_defs call_def mark_def split: if_splits)
  qed
qed

lemma phase_Idle: "replay p es = Some q \<Longrightarrow> replay p (es @ [e]) = uart_next q e"
  by (cases "uart_next q e") (simp_all add: replay_append)

lemmas step_defs = hoare_def effect_defs call_def mark_def consistent_def phase_of_def

text \<open>In the postconditions \<open>k\<close> is what \<open>running\<close> was and \<open>t\<close> the state of the stop task.\<close>

definition mid :: "bool \<Rightarrow> unit result option \<Rightarrow> 'w port \<Rightarrow> bool" where
  "mid k t s \<longleftrightarrow> consistent s \<and> running s = k \<and> stop_task s = t"

lemma stop_gateway_triple:
  "hoare (mid k t) (stop_gateway c) (\<lambda>_ s. mid k t s \<and> \<not> serving s) (\<lambda>_ _. False)"
  by (auto simp: mid_def stop_gateway_def step_defs phase_Idle)

lemma close_device_triple:
  "hoare (\<lambda>s. mid k t s \<and> \<not> serving s \<and> worker s) (close_device c)
    (\<lambda>_ s. mid k t s \<and> \<not> serving s \<and> \<not> device_open s \<and> worker s)
    (\<lambda>_ s. mid k t s \<and> \<not> serving s \<and> worker s)"
  by (auto simp: mid_def close_device_def step_defs phase_Idle split: prod.splits sum.splits if_splits)

lemma drop_worker_triple:
  "hoare (\<lambda>s. mid k t s \<and> \<not> serving s) (drop_worker c)
    (\<lambda>_ s. mid k t s \<and> \<not> serving s \<and> \<not> worker s) (\<lambda>_ s. mid k t s \<and> \<not> serving s \<and> worker s)"
proof -
  have "hoare (\<lambda>s. mid k t s \<and> \<not> serving s \<and> worker s)
      (bindM (close_device c) (\<lambda>_. modM (\<lambda>s. s\<lparr>worker := False\<rparr>)))
      (\<lambda>_ s. mid k t s \<and> \<not> serving s \<and> \<not> worker s) (\<lambda>_ s. mid k t s \<and> \<not> serving s \<and> worker s)"
    by (rule hoare_bind [OF close_device_triple])
      (auto simp: mid_def consistent_def phase_of_def intro!: hoare_mod)
  then show ?thesis by (auto simp: drop_worker_def hoare_def)
qed

lemma release_triple:
  "hoare (\<lambda>s. mid k t s \<and> \<not> serving s \<and> \<not> worker s) (release c)
    (\<lambda>_ s. mid k t s \<and> \<not> serving s \<and> \<not> lease s) (\<lambda>_ s. mid k t s \<and> \<not> serving s \<and> \<not> lease s)"
  by (auto simp: mid_def release_def step_defs phase_Idle split: prod.splits sum.splits if_splits)

lemma cleanup_triple:
  "hoare (\<lambda>s. mid k t s \<and> (serving s \<longrightarrow> gw)) (cleanup c gw)
    (\<lambda>_ s. mid k t s \<and> \<not> serving s \<and> \<not> lease s)
    (\<lambda>_ s. mid k t s \<and> \<not> serving s \<and> (lease s \<longrightarrow> worker s))"
proof -
  have "hoare (\<lambda>s. mid k t s \<and> \<not> serving s) (bindM (drop_worker c) (\<lambda>_. release c))
      (\<lambda>_ s. mid k t s \<and> \<not> serving s \<and> \<not> lease s) (\<lambda>_ s. mid k t s \<and> \<not> serving s \<and> (lease s \<longrightarrow> worker s))"
    by (rule hoare_bind [OF hoare_weaken [OF drop_worker_triple] hoare_weaken [OF release_triple]]) auto
  moreover have "hoare (\<lambda>s. mid k t s \<and> (serving s \<longrightarrow> gw)) (if gw then stop_gateway c else retM ())
      (\<lambda>_ s. mid k t s \<and> \<not> serving s) (\<lambda>_ s. mid k t s \<and> \<not> serving s \<and> (lease s \<longrightarrow> worker s))"
    by (cases gw) (auto intro!: hoare_weaken [OF stop_gateway_triple] hoare_ret)
  ultimately show ?thesis unfolding cleanup_def by (rule hoare_bind [rotated])
qed

lemma consistent_world [simp]: "consistent (s\<lparr>world := w\<rparr>) = consistent s"
  by (simp add: consistent_def phase_of_def)

lemma mid_world [simp]: "mid k t (s\<lparr>world := w\<rparr>) = mid k t s"
  by (simp add: mid_def)

lemma hoare_drained:
  assumes "hoare P m Q E"
    and "\<And>x s w. Q x s \<Longrightarrow> Q x (s\<lparr>world := w\<rparr>) \<and> E CancelledError (s\<lparr>world := w\<rparr>)"
    and "\<And>e s w. E e s \<Longrightarrow> E e (s\<lparr>world := w\<rparr>) \<and> E CancelledError (s\<lparr>world := w\<rparr>)"
  shows "hoare P (drained c m) Q E"
  unfolding hoare_def
proof (intro allI impI)
  fix s assume P: "P s"
  obtain r s1 where m: "m s = (r, s1)" by (rule prod.exhaust)
  obtain b w where c: "c_cancelled c (world s1) = (b, w)" by (rule prod.exhaust)
  show "case drained c m s of (Inl e, s') \<Rightarrow> E e s' | (Inr x, s') \<Rightarrow> Q x s'"
  proof (cases r)
    case (Inl e)
    with hoareD_error [OF assms(1) P] m have "E e s1" by simp
    from assms(3) [OF this] Inl m c show ?thesis by (simp add: drained_def)
  next
    case (Inr x)
    with hoareD_ok [OF assms(1) P] m have "Q x s1" by simp
    from assms(2) [OF this] Inr m c show ?thesis by (simp add: drained_def)
  qed
qed

lemma hoare_call:
  "(\<And>x s w. P s \<Longrightarrow> Q x (s\<lparr>world := w\<rparr>)) \<Longrightarrow> (\<And>e s w. P s \<Longrightarrow> E e (s\<lparr>world := w\<rparr>)) \<Longrightarrow> hoare P (call c) Q E"
  by (auto simp: hoare_def call_def split: prod.splits sum.splits)

lemma mid_unserved: "mid k t s \<Longrightarrow> \<not> worker s \<Longrightarrow> \<not> serving s"
  by (auto simp: mid_def consistent_def)

lemma acquire_triple:
  "hoare (\<lambda>s. mid k t s \<and> \<not> lease s) (acquire c)
    (\<lambda>ok s. mid k t s \<and> \<not> worker s \<and> lease s = ok) (\<lambda>_ _. False)"
  unfolding hoare_def
proof (intro allI impI)
  fix s :: "'a port" assume s: "mid k t s \<and> \<not> lease s"
  obtain r s' where a: "acquire c s = (r, s')" by (rule prod.exhaust)
  have s_wf: "\<not> worker s" "\<not> device_open s" "\<not> serving s" using s by (auto simp: mid_def consistent_def)
  from acquire_loop_cases [OF a [unfolded acquire_def]]
  show "case acquire c s of (Inl e, s') \<Rightarrow> False | (Inr ok, s') \<Rightarrow> mid k t s' \<and> \<not> worker s' \<and> lease s' = ok"
  proof (elim disjE exE conjE)
    fix w assume "r = Inr False" "s' = s\<lparr>world := w\<rparr>"
    with s s_wf a show ?thesis by simp
  next
    fix w assume "r = Inr True" "s' = s\<lparr>world := w, lease := True, log := log s @ [Leased]\<rparr>"
    with s s_wf a show ?thesis by (simp add: mid_def consistent_def phase_of_def phase_Idle)
  qed
qed

lemma open_device_triple:
  "hoare (\<lambda>s. mid k t s \<and> worker s \<and> \<not> device_open s) (open_device c)
    (\<lambda>_ s. mid k t s \<and> device_open s \<and> \<not> serving s) (\<lambda>_ s. mid k t s \<and> \<not> serving s)"
  by (auto simp: mid_def open_device_def step_defs phase_Idle split: prod.splits sum.splits if_splits)

lemma worker_up_triple:
  "hoare (\<lambda>s. mid k t s \<and> \<not> worker s \<and> lease s) (worker_up c)
    (\<lambda>ok s. ok \<and> mid k t s \<and> \<not> serving s \<and> device_open s) (\<lambda>_ s. mid k t s \<and> \<not> serving s)"
proof -
  let ?E = "\<lambda>(_::exn) s. mid k t s \<and> \<not> serving s"
  have d: "hoare (\<lambda>s. mid k t s \<and> worker s \<and> \<not> device_open s) (drained c (open_device c))
      (\<lambda>_ s. mid k t s \<and> device_open s \<and> \<not> serving s) ?E"
    by (rule hoare_drained [OF open_device_triple]) auto
  have g: "hoare (\<lambda>s. mid k t s \<and> device_open s \<and> \<not> serving s) (bindM (call (c_gateway c)) (\<lambda>_. retM True))
      (\<lambda>ok s. ok \<and> mid k t s \<and> \<not> serving s \<and> device_open s) ?E"
    by (rule hoare_bind [OF hoare_call hoare_ret]) auto
  have w: "hoare (\<lambda>s. mid k t s \<and> \<not> worker s \<and> lease s) (modM (\<lambda>s. s\<lparr>worker := True\<rparr>))
      (\<lambda>_ s. mid k t s \<and> worker s \<and> \<not> device_open s) ?E"
    by (rule hoare_mod) (auto simp: mid_def consistent_def phase_of_def)
  have c: "hoare (\<lambda>s. mid k t s \<and> \<not> worker s \<and> lease s) (call (c_worker c))
      (\<lambda>_ s. mid k t s \<and> \<not> worker s \<and> lease s) ?E"
    by (rule hoare_call) (auto simp: mid_def consistent_def phase_of_def)
  show ?thesis unfolding worker_up_def by (intro hoare_bind [OF c] hoare_bind [OF w] hoare_bind [OF d] g)
qed

lemma prepare_triple:
  "hoare (\<lambda>s. mid k t s \<and> \<not> lease s) (prepare c)
    (\<lambda>ok s. mid k t s \<and> \<not> serving s \<and> (if ok then device_open s else \<not> lease s)) (\<lambda>_ s. mid k t s \<and> \<not> serving s)"
proof -
  have a: "hoare (\<lambda>s. mid k t s \<and> \<not> lease s) (drained c (acquire c))
      (\<lambda>ok s. mid k t s \<and> \<not> worker s \<and> lease s = ok) (\<lambda>_ s. mid k t s \<and> \<not> serving s)"
    by (rule hoare_drained [OF hoare_weaken [OF acquire_triple]]) (auto dest: mid_unserved)
  have b: "hoare (\<lambda>s. mid k t s \<and> \<not> worker s \<and> \<not> lease s) (bindM record_error (\<lambda>_. retM False))
      (\<lambda>ok s. \<not> ok \<and> mid k t s \<and> \<not> serving s \<and> \<not> lease s) (\<lambda>_ s. mid k t s \<and> \<not> serving s)"
    by (auto simp: hoare_def record_error_def mid_def consistent_def phase_of_def)
  show ?thesis
    unfolding prepare_def
  proof (rule hoare_bind [OF a])
    fix ok
    show "hoare (\<lambda>s. mid k t s \<and> \<not> worker s \<and> lease s = ok)
        (if ok then worker_up c else bindM record_error (\<lambda>_. retM False))
        (\<lambda>ok s. mid k t s \<and> \<not> serving s \<and> (if ok then device_open s else \<not> lease s)) (\<lambda>_ s. mid k t s \<and> \<not> serving s)"
      by (cases ok) (auto intro: hoare_weaken [OF worker_up_triple] hoare_weaken [OF b])
  qed
qed

lemma serve_triple:
  "hoare (\<lambda>s. mid k t s \<and> \<not> serving s \<and> device_open s) (serve c)
    (\<lambda>ok s. mid True t s \<and> serving s) (\<lambda>_ s. mid k t s \<and> \<not> serving s)"
  by (auto simp: mid_def serve_def step_defs phase_Idle split: prod.splits sum.splits)

lemma failed_start_triple:
  "hoare (\<lambda>s. mid k t s \<and> \<not> serving s) (failed_start c gw e)
    (\<lambda>_ s. mid False t s \<and> \<not> serving s \<and> (lease s \<longrightarrow> worker s))
    (\<lambda>_ s. mid False t s \<and> \<not> serving s \<and> (lease s \<longrightarrow> worker s))"
proof -
  let ?E = "\<lambda>(_::exn) s. mid False t s \<and> \<not> serving s \<and> (lease s \<longrightarrow> worker s)"
  have d: "hoare (\<lambda>s. mid False t s \<and> \<not> serving s) (drained c (cleanup c gw))
      (\<lambda>_ s. mid False t s \<and> \<not> serving s \<and> \<not> lease s) ?E"
    by (rule hoare_drained [OF hoare_weaken [OF cleanup_triple [of False t gw]]]) auto
  have r: "hoare (\<lambda>s. mid False t s \<and> \<not> serving s) record_error (\<lambda>_ s. mid False t s \<and> \<not> serving s) ?E"
    unfolding record_error_def by (rule hoare_mod) (auto simp: mid_def consistent_def phase_of_def)
  have m: "hoare (\<lambda>s. mid k t s \<and> \<not> serving s) (modM (\<lambda>s. s\<lparr>running := False\<rparr>)) (\<lambda>_ s. mid False t s \<and> \<not> serving s) ?E"
    by (rule hoare_mod) (auto simp: mid_def consistent_def phase_of_def)
  have e: "hoare (\<lambda>s. mid False t s \<and> \<not> serving s \<and> \<not> lease s) (if is_exception e then retM False else raiseM e)
      (\<lambda>_ s. mid False t s \<and> \<not> serving s \<and> (lease s \<longrightarrow> worker s)) ?E"
    by (cases "is_exception e") (auto intro: hoare_ret hoare_raise)
  show ?thesis unfolding failed_start_def by (intro hoare_bind [OF m] hoare_bind [OF r] hoare_bind [OF d] e)
qed

lemma bring_up_inv:
  assumes "mid False None s" and "\<not> lease s" and "bring_up c s = (r, s')"
  shows "port_inv s'"
proof -
  obtain r1 s1 where p: "prepare c s = (r1, s1)" by (rule prod.exhaust)
  have fin: "port_inv s'" if "failed_start c gw e s2 = (r, s')" "mid False None s2" "\<not> serving s2" for gw e s2
    using hoareD_ok [OF failed_start_triple [of False None c gw e], of s2] that
      hoareD_error [OF failed_start_triple [of False None c gw e], of s2]
    by (cases r) (auto simp: port_inv_def mid_def)
  show ?thesis
  proof (cases r1)
    case (Inl e)
    with hoareD_error [OF prepare_triple [of False None c], of s e s1] p assms have "mid False None s1" "\<not> serving s1"
      by auto
    with fin [of False e s1] assms(3) p Inl show ?thesis by (simp add: bring_up_def)
  next
    case (Inr ok)
    with hoareD_ok [OF prepare_triple [of False None c], of s ok s1] p assms(1,2)
    have s1: "mid False None s1" "\<not> serving s1" "if ok then device_open s1 else \<not> lease s1" by auto
    show ?thesis
    proof (cases ok)
      case False
      with s1 assms(3) p Inr show ?thesis by (auto simp: bring_up_def port_inv_def mid_def)
    next
      case True
      obtain r2 s2 where s2: "serve c s1 = (r2, s2)" by (rule prod.exhaust)
      show ?thesis
      proof (cases r2)
        case (Inl e)
        with hoareD_error [OF serve_triple [of False None c], of s1 e s2] s1 s2 True
        have "mid False None s2" "\<not> serving s2" by auto
        with fin [of True e s2] assms(3) p Inr True s2 Inl show ?thesis by (simp add: bring_up_def catchM_def)
      next
        case (Inr b)
        with hoareD_ok [OF serve_triple [of False None c], of s1 b s2] s1 s2 True
        have "mid True None s2" "serving s2" by auto
        with assms(3) p \<open>r1 = Inr ok\<close> True s2 Inr show ?thesis
          by (auto simp: bring_up_def catchM_def port_inv_def mid_def consistent_def)
      qed
    qed
  qed
qed

lemma start_inv: "port_inv s \<Longrightarrow> start c s = (r, s') \<Longrightarrow> port_inv s'"
proof -
  assume inv: "port_inv s" and st: "start c s = (r, s')"
  show "port_inv s'"
  proof (cases "running s \<or> worker s")
    case True
    with inv st show ?thesis by (auto simp: start_def split: if_splits)
  next
    case False
    let ?s = "s\<lparr>stop_task := None\<rparr>"
    have m: "mid False None ?s" "\<not> lease ?s"
      using inv False by (auto simp: port_inv_def mid_def consistent_def phase_of_def)
    then have "port_inv ?s" "port_inv (?s\<lparr>port_errors := port_errors s + 1\<rparr>)"
      by (auto simp: port_inv_def mid_def consistent_def phase_of_def)
    with st False bring_up_inv [OF m, of c r s'] show ?thesis
      by (auto simp: start_def Let_def record_error_def split: sum.splits if_splits)
  qed
qed

lemma stop_inv: "port_inv s \<Longrightarrow> stop c s = (r, s') \<Longrightarrow> port_inv s'"
proof -
  assume inv: "port_inv s" and st: "stop c s = (r, s')"
  obtain r1 s1 where o: "stop_outcome c s = (r1, s1)" by (rule prod.exhaust)
  have s1: "port_inv s1 \<and> (r1 = Inr () \<longrightarrow> \<not> lease s1) \<and> stop_task s1 = Some r1"
  proof (cases "stop_task s")
    case (Some x)
    with o inv show ?thesis by (auto simp: stop_outcome_def port_inv_def)
  next
    case None
    let ?s = "s\<lparr>running := False\<rparr>"
    obtain r2 s2 where cl: "cleanup c (running s) ?s = (r2, s2)" by (rule prod.exhaust)
    have pre: "mid False None ?s \<and> (serving ?s \<longrightarrow> running s)"
      using inv None by (auto simp: mid_def port_inv_def consistent_def phase_of_def)
    have "mid False None s2 \<and> \<not> serving s2 \<and> (lease s2 \<longrightarrow> worker s2) \<and> (r2 = Inr () \<longrightarrow> \<not> lease s2)"
      using hoareD_ok [OF cleanup_triple [of False None "running s" c] pre] cl
        hoareD_error [OF cleanup_triple [of False None "running s" c] pre] by (cases r2) auto
    with o cl None show ?thesis
      by (cases r2) (auto simp: stop_outcome_def teardown_def catchM_def record_error_def port_inv_def mid_def
          consistent_def phase_of_def split: if_splits)
  qed
  obtain b w where c: "c_cancelled c (world s1) = (b, w)" by (rule prod.exhaust)
  from s1 have "port_inv (s1\<lparr>world := w\<rparr>)" "port_inv (s1\<lparr>world := w, stop_task := None\<rparr>)"
    by (auto simp: port_inv_def consistent_def phase_of_def)
  with st o c show ?thesis
    by (cases r1; cases b) (auto simp: stop_def catchM_def drained_def split: if_splits)
qed

section \<open>Properties\<close>

text \<open>The states of a port under any sequence of starts and stops, in any world.\<close>

inductive port_reachable :: "'w uart_calls \<Rightarrow> 'w port \<Rightarrow> bool" for c where
  fresh: "port_reachable c (new_port en md b al w)"
| started: "port_reachable c s \<Longrightarrow> port_reachable c (snd (start c s))"
| stopped: "port_reachable c s \<Longrightarrow> port_reachable c (snd (stop c s))"

lemma port_reachable_inv: "port_reachable c s \<Longrightarrow> port_inv s"
proof (induction rule: port_reachable.induct)
  case (fresh en md b al w)
  show ?case by (simp add: new_port_def port_inv_def consistent_def phase_of_def)
next
  case (started s)
  then show ?case using start_inv by (metis surjective_pairing)
next
  case (stopped s)
  then show ?case using stop_inv by (metis surjective_pairing)
qed

text \<open>C28: Whatever the coordinator, the device and the network answer, and wherever a task is cancelled,
  the steps taken on a UART form a run of the protocol lease, open, serve, stop serving, close,
  release; so the lease is never given back while the device is open.  Between the calls the lease
  is held exactly when there is a worker, an open device is leased, and a running gateway is one
  that serves an open device.\<close>

theorem uart_protocol_kept:
  assumes "port_reachable c s"
  shows "replay Idle (log s) = Some (phase_of s) \<and> lease s = worker s \<and> (\<not> device_open s \<or> lease s) \<and>
    running s = serving s \<and> (\<not> serving s \<or> device_open s)"
  using port_reachable_inv [OF assms] by (auto simp: port_inv_def consistent_def)

definition calm :: "unit uart_calls" where
  "calm = \<lparr>c_enter = (\<lambda>w. (Inr (), w)), c_leave = (\<lambda>w. (Inr (), w)), c_worker = (\<lambda>w. (Inr (), w)),
     c_open = (\<lambda>w. (Inr (), w)), c_close = (\<lambda>w. (Inl (OSError ''close''), w)), c_gateway = (\<lambda>w. (Inr (), w)),
     c_serve = (\<lambda>w. (Inr (), w)), c_unserve = (\<lambda>w. w), c_cancelled = (\<lambda>w. (False, w))\<rparr>"

theorem uart_protocol_kept_witness:
  "let s = snd (stop calm (snd (start calm (new_port True ''modbus_tcp'' CNone CNone ())))) in
    replay Idle (log s) = Some (phase_of s) \<and> log s = [Leased, Opened, Serving, Unserving] \<and> lease s"
proof -
  let ?s = "snd (stop calm (snd (start calm (new_port True ''modbus_tcp'' CNone CNone ()))))"
  have "port_reachable calm ?s" by (intro port_reachable.intros)
  from uart_protocol_kept [OF this] have "replay Idle (log ?s) = Some (phase_of ?s)" by blast
  moreover have "log ?s = [Leased, Opened, Serving, Unserving] \<and> lease ?s" by code_simp
  ultimately show ?thesis unfolding Let_def by blast
qed

text \<open>A port with a malformed bind address or allow-list does not start, and nothing outside is
  touched: no lease is asked for, no device opened and no server started.\<close>

lemma malformed_access_refused:
  assumes "parse_bind b = Inl x \<or> parse_allow_from al = Inl x"
  shows "fst (start c (new_port en md b al w)) = Inr False \<and>
    log (snd (start c (new_port en md b al w))) = [] \<and> world (snd (start c (new_port en md b al w))) = w"
proof -
  have "\<exists>e. bindE (parse_bind b) (\<lambda>_. parse_allow_from al) = Inl e"
    using assms by (cases "parse_bind b") auto
  then show ?thesis by (auto simp: start_def new_port_def record_error_def Let_def)
qed

lemma malformed_access_refused_witness:
  "fst (start calm (new_port True ''modbus_tcp'' CNone (CList [CStr ''10.0.0'']) ())) = Inr False"
proof -
  have "py_strip ''10.0.0'' = ''10.0.0''" by (simp add: py_strip_def is_space_def)
  moreover have "ip_address ''10.0.0'' = None"
    by (simp add: ip_address_def parse_ipv4_def split_scope_def parse_ipv6_def hextet_parts_def)
  then have "ip_network ''10.0.0'' = None" by (simp add: ip_network_def)
  ultimately have "parse_allow_from (CList [CStr ''10.0.0'']) = Inl (AccessConfigError ''allow_from entry'')"
    by (simp add: allow_items_def)
  then show ?thesis by (intro malformed_access_refused [THEN conjunct1] disjI2)
qed

lemma acquire_loop_outages:
  assumes "c_enter c = (\<lambda>w. (hd w, tl w))" and "r = Inr () \<or> r = Inl x \<and> \<not> unavailable x"
  shows "acquire_loop c k (s\<lparr>world := replicate n (Inl (CoordinatorUnavailable t)) @ r # rest\<rparr>) =
    (if n < k then (if r = Inr () then (Inr True, s\<lparr>world := rest, lease := True, log := log s @ [Leased]\<rparr>)
                    else (Inr False, s\<lparr>world := rest\<rparr>))
     else (Inr False, s\<lparr>world := replicate (n - k) (Inl (CoordinatorUnavailable t)) @ r # rest\<rparr>))"
proof (induction k arbitrary: n)
  case 0
  show ?case by simp
next
  case (Suc k)
  show ?case
  proof (cases n)
    case 0
    with assms show ?thesis by (auto simp: effect_defs call_def mark_def)
  next
    case (Suc m)
    with Suc.IH [of m] assms(1) show ?thesis by (simp add: effect_defs call_def mark_def)
  qed
qed

text \<open>An outage of the coordinator is bridged by up to ten more attempts: with \<open>n\<close> attempts unanswered
  before the answer \<open>r\<close>, the lease is had exactly when \<open>n \<le> 10\<close> and the answer grants it; a refusal is
  not tried again, and after eleven attempts nothing more is asked.\<close>

lemma lease_outage_bridged:
  assumes "c_enter c = (\<lambda>w. (hd w, tl w))" and "r = Inr () \<or> r = Inl x \<and> \<not> unavailable x"
    and "world s = replicate n (Inl (CoordinatorUnavailable t)) @ r # rest"
  shows "case acquire c s of (ok, s') \<Rightarrow>
    ok = Inr (n \<le> 10 \<and> r = Inr ()) \<and>
    world s' = (if n \<le> 10 then rest else replicate (n - 11) (Inl (CoordinatorUnavailable t)) @ r # rest)"
proof -
  have "s = s\<lparr>world := replicate n (Inl (CoordinatorUnavailable t)) @ r # rest\<rparr>"
    using assms(3) by simp
  then have "acquire c s = acquire_loop c 11 (s\<lparr>world := replicate n (Inl (CoordinatorUnavailable t)) @ r # rest\<rparr>)"
    by (simp add: acquire_def RETRIES_def del: acquire_loop.simps)
  then show ?thesis using acquire_loop_outages [OF assms(1,2), where k = 11 and s = s and n = n and t = t and rest = rest]
    by (simp del: acquire_loop.simps split: prod.splits if_splits)
qed

lemma lease_outage_bridged_witness:
  "\<exists>c :: unit result list uart_calls. fst (acquire c (new_port True ''transparent'' CNone CNone
     (replicate 10 (Inl (CoordinatorUnavailable [])) @ [Inr ()]))) = Inr True"
proof -
  let ?n = "\<lambda>w. (Inr (), w)"
  let ?c = "\<lparr>c_enter = (\<lambda>w. (hd w, tl w)), c_leave = ?n, c_worker = ?n, c_open = ?n, c_close = ?n, c_gateway = ?n,
    c_serve = ?n, c_unserve = (\<lambda>w. w), c_cancelled = (\<lambda>w. (False, w))\<rparr> :: unit result list uart_calls"
  show ?thesis
    using lease_outage_bridged [where c = ?c and r = "Inr ()" and n = 10 and t = "[]" and rest = "[]"
      and s = "new_port True ''transparent'' CNone CNone (replicate 10 (Inl (CoordinatorUnavailable [])) @ [Inr ()])"]
    by (intro exI [of _ ?c]) (simp add: new_port_def split: prod.splits)
qed

end
