(* ===== verification/Broker.thy ===== *)
theory Broker
  imports Effect "HOL-Library.AList" "HOL-Library.List_Lexorder" "HOL-Library.Char_ord"
begin

text \<open>
  The broker of the port coordinator, class \<^verbatim>\<open>Broker\<close> of \<^verbatim>\<open>sa02m_ports/broker.py\<close>: who owns which
  UART, which services are stopped for it, and the journal that lets a restarted broker give both
  back.  Each method runs under the broker's mutex and is one operation; \<^verbatim>\<open>systemctl\<close>, the file
  locks, \<^verbatim>\<open>/proc\<close>, the clock and \<^verbatim>\<open>uuid4\<close> are the world.  A write of the journal that fails ends the
  process at once, so what follows it does not happen: a crash is a prefix of the event list.
\<close>

section \<open>State\<close>

datatype lease_phase = Preparing | Owned | Recovering
datatype service_phase = Stopping | Paused | Restore_failed

record lease =
  l_port :: string
  l_key :: string
  l_purpose :: string
  l_pid :: int
  l_services :: "string list"
  l_phase :: lease_phase
  l_error :: "exn option"

record obligation =
  o_phase :: service_phase
  o_error :: "exn option"

type_synonym saved = "(string \<times> lease) list \<times> (string \<times> obligation) list"

text \<open>What the broker did to the outside, in order.\<close>

datatype event = Saved saved | Stop_unit string | Start_unit string

text \<open>The dictionaries are association lists in insertion order; \<open>fds\<close> and \<open>holds\<close> name their tokens.\<close>

record 'w broker =
  ports :: "(string \<times> string list) list"
  leases :: "(string \<times> lease) list"
  services :: "(string \<times> obligation) list"
  connected :: "string list"
  fds :: "string list"
  holds :: "string list"
  events :: "event list"
  world :: 'w

record 'w system =
  y_key :: "string \<Rightarrow> 'w \<Rightarrow> string result \<times> 'w"
  y_active :: "string \<Rightarrow> 'w \<Rightarrow> bool result \<times> 'w"
  y_stop :: "string \<Rightarrow> 'w \<Rightarrow> unit result \<times> 'w"
  y_start :: "string \<Rightarrow> 'w \<Rightarrow> unit result \<times> 'w"
  y_pause :: "string \<Rightarrow> 'w \<Rightarrow> bool result \<times> 'w"
  y_occupants :: "string \<Rightarrow> 'w \<Rightarrow> nat list result \<times> 'w"
  y_lock :: "string \<Rightarrow> 'w \<Rightarrow> unit result \<times> 'w"
  y_close :: "string \<Rightarrow> 'w \<Rightarrow> 'w"
  y_gate :: "'w \<Rightarrow> unit result \<times> 'w"
  y_maintenance :: "'w \<Rightarrow> bool"
  y_service_lock :: "string \<Rightarrow> bool \<Rightarrow> 'w \<Rightarrow> unit result \<times> 'w"
  y_canonical :: "string \<Rightarrow> 'w \<Rightarrow> string result \<times> 'w"
  y_token :: "'w \<Rightarrow> string \<times> 'w"
  y_rounds :: "'w \<Rightarrow> nat"
  y_retry_due :: "'w \<Rightarrow> bool"

definition MQTT_UNIT :: string where "MQTT_UNIT = ''sa02m-modbus-mqtt.service''"

definition PURPOSES :: "string list" where
  "PURPOSES = [''operation'', ''flasher'', ''scan'', ''gateway'']"

section \<open>Steps\<close>

definition ask :: "('w \<Rightarrow> 'a result \<times> 'w) \<Rightarrow> ('w broker, 'a) proc" where
  "ask c s = (case c (world s) of (r, w) \<Rightarrow> (r, s\<lparr>world := w\<rparr>))"

definition log_event :: "('w broker \<Rightarrow> event) \<Rightarrow> ('w broker, unit) proc" where
  "log_event f = modM (\<lambda>s. s\<lparr>events := events s @ [f s]\<rparr>)"

definition save :: "('w broker, unit) proc" where
  "save = log_event (\<lambda>s. Saved (leases s, services s))"

definition set_lease :: "string \<Rightarrow> (lease \<Rightarrow> lease) \<Rightarrow> ('w broker, unit) proc" where
  "set_lease t f = modM (\<lambda>s. s\<lparr>leases := AList.map_entry t f (leases s)\<rparr>)"

definition set_service :: "string \<Rightarrow> (obligation \<Rightarrow> obligation) \<Rightarrow> ('w broker, unit) proc" where
  "set_service u f = modM (\<lambda>s. s\<lparr>services := AList.map_entry u f (services s)\<rparr>)"

fun is_os_error :: "exn \<Rightarrow> bool" where
  "is_os_error (OSError _) = True"
| "is_os_error (TimeoutError _) = True"
| "is_os_error (PermissionError _) = True"
| "is_os_error BlockingIOError = True"
| "is_os_error ConnectionResetError = True"
| "is_os_error _ = False"

fun is_port_error :: "exn \<Rightarrow> bool" where
  "is_port_error (PortError _) = True"
| "is_port_error (CoordinatorUnavailable _) = True"
| "is_port_error _ = False"

definition key_leased :: "string \<Rightarrow> 'w broker \<Rightarrow> bool" where
  "key_leased key s \<longleftrightarrow> list_ex (\<lambda>(t, v). l_key v = key) (leases s)"

definition unit_leased :: "string \<Rightarrow> 'w broker \<Rightarrow> bool" where
  "unit_leased u s \<longleftrightarrow> list_ex (\<lambda>(t, v). u \<in> set (l_services v)) (leases s)"

definition port_services :: "string \<Rightarrow> 'w broker \<Rightarrow> string list" where
  "port_services port s = (case map_of (ports s) port of Some us \<Rightarrow> us | None \<Rightarrow> [])"

definition resolve :: "'w system \<Rightarrow> string \<Rightarrow> ('w broker, string) proc" where
  "resolve y port =
     bindM (getM (\<lambda>s. map_of (ports s) port)) (\<lambda>p.
       if p = None then raiseM (PortError ''Port is not configured'') else ask (y_key y port))"

definition poll :: "'w system \<Rightarrow> string \<Rightarrow> ('w broker, unit) proc" where
  "poll y port =
     bindM (resolve y port) (\<lambda>key. bindM (getM (key_leased key)) (\<lambda>taken.
       if taken then raiseM (PortError ''UART paused by operation'') else retM ()))"

section \<open>Recovery\<close>

text \<open>One lease without a connection: dropped once nobody holds the device any more.\<close>

definition drop_lease :: "'w system \<Rightarrow> string \<Rightarrow> ('w broker, unit) proc" where
  "drop_lease y t =
     bindM (modM (\<lambda>s. s\<lparr>leases := AList.delete t (leases s)\<rparr>)) (\<lambda>_.
     bindM save (\<lambda>_.
       modM (\<lambda>s. if t \<in> set (holds s) then s\<lparr>holds := removeAll t (holds s), world := y_close y t (world s)\<rparr> else s)))"

text \<open>The checks inside the \<^verbatim>\<open>try\<close>: true when the lease may go.\<close>

definition lease_free :: "'w system \<Rightarrow> string \<Rightarrow> lease \<Rightarrow> ('w broker, bool) proc" where
  "lease_free y t l =
     bindM (ask (y_key y (l_port l))) (\<lambda>key.
       if key \<noteq> l_key l then
         bindM (set_lease t (\<lambda>v. v\<lparr>l_error := Some (PortError ''UART mapping changed during recovery'')\<rparr>)) (\<lambda>_.
         bindM save (\<lambda>_. retM False))
       else bindM (ask (y_occupants y (l_port l))) (\<lambda>occ.
         if occ \<noteq> [] then retM False
         else bindM (ask (y_lock y (l_port l))) (\<lambda>_. retM True)))"

definition recover_lease :: "'w system \<Rightarrow> string \<times> lease \<Rightarrow> ('w broker, unit) proc" where
  "recover_lease y entry =
     (case entry of (t, l) \<Rightarrow>
       bindM (getM (\<lambda>s. t \<in> set (connected s))) (\<lambda>c.
         if c then retM ()
         else bindM (catchM (lease_free y t l) (\<lambda>e. if is_os_error e \<or> is_port_error e then retM False else raiseM e)) (\<lambda>free.
           if free then bindM (modM (\<lambda>s. s\<lparr>world := y_close y t (world s)\<rparr>)) (\<lambda>_. drop_lease y t) else retM ())))"

text \<open>One obligation no lease covers any more: the unit runs again, or the failure is noted.\<close>

definition start_unit :: "'w system \<Rightarrow> string \<Rightarrow> ('w broker, unit) proc" where
  "start_unit y u =
     bindM (ask (y_active y u)) (\<lambda>a.
     bindM (if a then retM () else ask (y_start y u)) (\<lambda>_.
     bindM (log_event (\<lambda>s. Start_unit u)) (\<lambda>_.
       modM (\<lambda>s. s\<lparr>services := AList.delete u (services s)\<rparr>))))"

definition recover_service :: "'w system \<Rightarrow> string \<Rightarrow> ('w broker, unit) proc" where
  "recover_service y u =
     bindM (getM (unit_leased u)) (\<lambda>covered.
       if covered then retM ()
       else bindM (catchM (start_unit y u)
           (\<lambda>e. set_service u (\<lambda>v. v\<lparr>o_phase := Restore_failed, o_error := Some e\<rparr>))) (\<lambda>_. save))"

fun each :: "('a \<Rightarrow> ('s, unit) proc) \<Rightarrow> 'a list \<Rightarrow> ('s, unit) proc" where
  "each f [] = retM ()"
| "each f (x # xs) = bindM (f x) (\<lambda>_. each f xs)"

definition recover :: "'w system \<Rightarrow> bool \<Rightarrow> ('w broker, unit) proc" where
  "recover y force =
     bindM (getM (\<lambda>s. y_retry_due y (world s))) (\<lambda>due.
       if \<not> force \<and> \<not> due then retM ()
       else bindM (getM leases) (\<lambda>ls. bindM (each (recover_lease y) ls) (\<lambda>_.
            bindM (getM services) (\<lambda>os. each (recover_service y) (map fst os)))))"

definition release :: "'w system \<Rightarrow> string \<Rightarrow> ('w broker, bool) proc" where
  "release y t =
     bindM (getM (\<lambda>s. case map_of (leases s) t of Some l \<Rightarrow> l_services l | None \<Rightarrow> [])) (\<lambda>scope.
     bindM (modM (\<lambda>s. s\<lparr>connected := removeAll t (connected s)\<rparr>)) (\<lambda>_.
     bindM (modM (\<lambda>s. if t \<in> set (fds s) then s\<lparr>fds := removeAll t (fds s), world := y_close y t (world s)\<rparr> else s)) (\<lambda>_.
     bindM (getM (\<lambda>s. map_of (leases s) t \<noteq> None)) (\<lambda>known.
     bindM (if known then bindM (set_lease t (\<lambda>v. v\<lparr>l_phase := Recovering\<rparr>)) (\<lambda>_. save) else retM ()) (\<lambda>_.
     bindM (recover y True) (\<lambda>_.
       getM (\<lambda>s. map_of (leases s) t \<noteq> None \<or>
         list_ex (\<lambda>u. case map_of (services s) u of Some v \<Rightarrow> o_error v \<noteq> None | None \<Rightarrow> False) scope)))))))"

section \<open>Taking a UART\<close>

definition pause_unit :: "'w system \<Rightarrow> string \<Rightarrow> ('w broker, unit) proc" where
  "pause_unit y u =
     bindM (getM (\<lambda>s. map_of (services s) u \<noteq> None)) (\<lambda>known.
       if known then retM ()
       else bindM (ask (y_active y u)) (\<lambda>a.
         if \<not> a then retM ()
         else bindM (modM (\<lambda>s. s\<lparr>services := AList.update u \<lparr>o_phase = Stopping, o_error = None\<rparr> (services s)\<rparr>)) (\<lambda>_.
              bindM save (\<lambda>_.
              bindM (log_event (\<lambda>s. Stop_unit u)) (\<lambda>_.
              bindM (ask (y_stop y u)) (\<lambda>_.
              bindM (set_service u (\<lambda>v. v\<lparr>o_phase := Paused\<rparr>)) (\<lambda>_. save)))))))"

text \<open>The rounds until the deadline: the last one is not waited out.\<close>

fun wait_lock :: "'w system \<Rightarrow> string \<Rightarrow> string \<Rightarrow> nat \<Rightarrow> ('w broker, unit) proc" where
  "wait_lock y t port k =
     bindM (ask (y_occupants y port)) (\<lambda>occ.
     bindM (if occ \<noteq> [] then retM False
            else catchM (bindM (ask (y_lock y port)) (\<lambda>_. bindM (modM (\<lambda>s. s\<lparr>fds := t # fds s\<rparr>)) (\<lambda>_. retM True)))
              (\<lambda>e. if e = BlockingIOError then retM False else raiseM e)) (\<lambda>done.
       if done then retM ()
       else (case k of
           0 \<Rightarrow> raiseM (PortError ''UART has an unknown or uncooperative owner'')
         | Suc k' \<Rightarrow> wait_lock y t port k')))"

definition reserve :: "'w system \<Rightarrow> string \<Rightarrow> string \<Rightarrow> ('w broker, unit) proc" where
  "reserve y t port =
     bindM (ask (y_pause y port)) (\<lambda>held.
     bindM (modM (\<lambda>s. if held then s\<lparr>holds := t # holds s\<rparr> else s)) (\<lambda>_.
     bindM (getM (port_services port)) (\<lambda>us.
     bindM (each (pause_unit y) us) (\<lambda>_.
     bindM (getM (\<lambda>s. y_rounds y (world s))) (\<lambda>k.
     bindM (wait_lock y t port k) (\<lambda>_.
     bindM (ask (y_occupants y port)) (\<lambda>occ.
       if occ \<noteq> [] then raiseM (PortError ''UART owner appeared during reservation'')
       else bindM (set_lease t (\<lambda>v. v\<lparr>l_phase := Owned\<rparr>)) (\<lambda>_. save))))))))"

definition acquire_scope :: "'w system \<Rightarrow> string \<Rightarrow> string \<Rightarrow> int \<Rightarrow> ('w broker, string) proc" where
  "acquire_scope y port purpose pid =
     bindM (getM (\<lambda>s. y_maintenance y (world s))) (\<lambda>m.
       if m then raiseM (PortError ''Update recovery is pending'')
       else if purpose \<notin> set PURPOSES then raiseM (PortError ''Invalid operation purpose'')
       else bindM (resolve y port) (\<lambda>key. bindM (getM (key_leased key)) (\<lambda>taken.
         if taken then raiseM (PortError ''UART already leased'')
         else bindM (ask (\<lambda>w. case y_token y w of (t, w') \<Rightarrow> (Inr t, w'))) (\<lambda>t.
              bindM (getM (port_services port)) (\<lambda>us.
              bindM (modM (\<lambda>s. s\<lparr>leases := AList.update t
                  \<lparr>l_port = port, l_key = key, l_purpose = purpose, l_pid = pid, l_services = us,
                   l_phase = Preparing, l_error = None\<rparr> (leases s), connected := t # connected s\<rparr>)) (\<lambda>_.
              bindM save (\<lambda>_.
              bindM (catchM (reserve y t port) (\<lambda>e.
                  bindM (set_lease t (\<lambda>v. v\<lparr>l_error := Some e\<rparr>)) (\<lambda>_. bindM (release y t) (\<lambda>_. raiseM e)))) (\<lambda>_.
                retM t))))))))"

definition acquire :: "'w system \<Rightarrow> string \<Rightarrow> string \<Rightarrow> int \<Rightarrow> ('w broker, string) proc" where
  "acquire y port purpose pid =
     bindM (convertM (\<lambda>e. e = BlockingIOError) (PortError ''Update maintenance in progress'') (ask (y_gate y))) (\<lambda>_.
     bindM (resolve y port) (\<lambda>_.
     bindM (getM (port_services port)) (\<lambda>us.
       convertM (\<lambda>e. e = BlockingIOError) (PortError ''Service mutation in progress'')
         (bindM (each (\<lambda>u. ask (y_service_lock y u True)) (sort (remdups (MQTT_UNIT # us)))) (\<lambda>_.
            acquire_scope y port purpose pid)))))"

section \<open>Service changes and maintenance\<close>

definition service_mutation :: "'w system \<Rightarrow> string \<Rightarrow> ('w broker, string) proc" where
  "service_mutation y u =
     bindM (ask (y_canonical y u)) (\<lambda>canonical.
     bindM (ask (y_gate y)) (\<lambda>_.
     bindM (getM (\<lambda>s. y_maintenance y (world s))) (\<lambda>m.
       if m then raiseM (PortError ''Update recovery is pending'')
       else bindM (getM (\<lambda>s. map_of (services s) canonical \<noteq> None \<or>
              list_ex (\<lambda>(t, v). canonical \<in> set (l_services v) \<or> canonical = MQTT_UNIT) (leases s))) (\<lambda>reserved.
         if reserved then raiseM (PortError ''Service is reserved by a UART operation or restoration'')
         else bindM (ask (y_service_lock y canonical False)) (\<lambda>_. retM canonical)))))"

definition assert_idle :: "'w system \<Rightarrow> string list \<Rightarrow> ('w broker, unit) proc" where
  "assert_idle y locks =
     bindM (getM (\<lambda>s. leases s \<noteq> [] \<or> services s \<noteq> [])) (\<lambda>busy.
       if busy then raiseM (PortError ''UART operation or restoration is active'')
       else each (\<lambda>u. ask (y_service_lock y u True)) locks)"

section \<open>The journal\<close>

text \<open>What the event list says: the journal on disk, and the units stopped and not seen running since.\<close>

definition journal :: "event list \<Rightarrow> saved" where
  "journal es = foldl (\<lambda>j e. case e of Saved k \<Rightarrow> k | _ \<Rightarrow> j) ([], []) es"

definition stopped :: "event list \<Rightarrow> string set" where
  "stopped es = foldl (\<lambda>st e. case e of Stop_unit u \<Rightarrow> insert u st | Start_unit u \<Rightarrow> st - {u} | _ \<Rightarrow> st) {} es"

text \<open>
  A new process after a crash that left \<open>es\<close> behind: the journal is read back and saved, connections
  and descriptors are gone.
\<close>

definition restart :: "event list \<Rightarrow> 'w \<Rightarrow> 'w broker \<Rightarrow> 'w broker" where
  "restart es w s =
     s\<lparr>leases := fst (journal es), services := snd (journal es), connected := [], fds := [], holds := [],
       events := es @ [Saved (journal es)], world := w\<rparr>"

section \<open>Invariants\<close>

lemma journal_snoc [simp]:
  "journal [] = ([], [])" "journal (es @ [Saved k]) = k"
  "journal (es @ [Stop_unit u]) = journal es" "journal (es @ [Start_unit u]) = journal es"
  by (simp_all add: journal_def)

lemma stopped_snoc [simp]:
  "stopped [] = {}" "stopped (es @ [Saved k]) = stopped es"
  "stopped (es @ [Stop_unit u]) = insert u (stopped es)" "stopped (es @ [Start_unit u]) = stopped es - {u}"
  by (simp_all add: stopped_def)

text \<open>No two leases for one UART, and no token twice.\<close>

definition exclusive :: "(string \<times> lease) list \<Rightarrow> bool" where
  "exclusive ls \<longleftrightarrow> distinct (map fst ls) \<and> distinct (map (\<lambda>(t, l). l_key l) ls)"

definition covered :: "event list \<Rightarrow> bool" where
  "covered es \<longleftrightarrow> stopped es \<subseteq> fst ` set (snd (journal es)) \<and> exclusive (fst (journal es))"

text \<open>At every instant so far the journal covers what was stopped.\<close>

definition crash_safe :: "event list \<Rightarrow> bool" where
  "crash_safe es \<longleftrightarrow> (\<forall>n. covered (take n es))"

definition broker_inv :: "'w broker \<Rightarrow> bool" where
  "broker_inv s \<longleftrightarrow> crash_safe (events s) \<and> stopped (events s) \<subseteq> fst ` set (services s) \<and> exclusive (leases s)"

lemma crash_safe_snoc: "crash_safe (es @ [e]) \<longleftrightarrow> crash_safe es \<and> covered (es @ [e])"
proof
  assume a: "crash_safe (es @ [e])"
  have "covered (take n es)" for n
  proof -
    have "covered (take (min n (length es)) (es @ [e]))" using a unfolding crash_safe_def by blast
    then show ?thesis by (simp add: min_def split: if_splits)
  qed
  moreover have "covered (take (length (es @ [e])) (es @ [e]))" using a unfolding crash_safe_def by blast
  ultimately show "crash_safe es \<and> covered (es @ [e])" by (simp add: crash_safe_def)
next
  assume a: "crash_safe es \<and> covered (es @ [e])"
  have "covered (take n (es @ [e]))" for n
    using a by (cases "n \<le> length es") (simp_all add: crash_safe_def)
  then show "crash_safe (es @ [e])" by (simp add: crash_safe_def)
qed

lemma crash_safe_covered: "crash_safe es \<Longrightarrow> covered es"
  unfolding crash_safe_def by (metis order_refl take_all_iff)

lemma crash_safe_take: "crash_safe es \<Longrightarrow> crash_safe (take n es)"
  by (simp add: crash_safe_def take_take)

lemma keys_map_entry [simp]: "fst ` set (AList.map_entry k f al) = fst ` set al"
  by (induction al) auto

lemma keys_delete: "fst ` set (AList.delete k al) = fst ` set al - {k}"
  by (auto simp: AList.delete_eq)

lemma exclusive_map_entry:
  assumes "exclusive ls" and "\<And>l. l_key (f l) = l_key l"
  shows "exclusive (AList.map_entry t f ls)"
proof -
  have "map fst (AList.map_entry t f ls) = map fst ls" by (induction ls) auto
  moreover have "map (\<lambda>(t, l). l_key l) (AList.map_entry t f ls) = map (\<lambda>(t, l). l_key l) ls"
    using assms(2) by (induction ls) auto
  ultimately show ?thesis using assms(1) by (simp add: exclusive_def)
qed

lemma exclusive_filter: "exclusive ls \<Longrightarrow> exclusive (filter P ls)"
  by (simp add: exclusive_def distinct_map_filter)

lemma exclusive_delete: "exclusive ls \<Longrightarrow> exclusive (AList.delete t ls)"
  by (simp add: AList.delete_eq exclusive_filter)

lemma exclusive_update:
  assumes "exclusive ls" and "\<not> list_ex (\<lambda>(t, v). l_key v = l_key l) ls"
  shows "exclusive (AList.update t l ls)"
  using assms
proof (induction ls)
  case Nil
  show ?case by (simp add: exclusive_def)
next
  case (Cons a ls)
  obtain t' l' where a: "a = (t', l')" by (cases a)
  show ?case
  proof (cases "t' = t")
    case True
    with Cons.prems a show ?thesis by (auto simp: exclusive_def list_ex_iff)
  next
    case False
    have sub: "set (AList.update t l ls) \<subseteq> insert (t, l) (set ls)" by (induction ls) auto
    from Cons a have "exclusive (AList.update t l ls)" by (auto simp: exclusive_def)
    moreover have "t' \<notin> fst ` set (AList.update t l ls)"
      using Cons.prems(1) a False by (auto simp: exclusive_def AList.dom_update dest!: subsetD [OF sub])
    moreover have "l_key l' \<notin> (\<lambda>(t, l). l_key l) ` set (AList.update t l ls)"
      using Cons.prems a by (auto simp: exclusive_def list_ex_iff dest!: subsetD [OF sub])
    ultimately show ?thesis using a False by (simp add: exclusive_def)
  qed
qed

lemma keeps_ask [intro]: "keeps broker_inv (ask c)"
  by (auto simp: keeps_def ask_def broker_inv_def split: prod.splits)

lemma keeps_save [intro]: "keeps broker_inv save"
  by (auto simp: keeps_def save_def log_event_def broker_inv_def crash_safe_snoc covered_def)

lemma keeps_set_service [intro]: "keeps broker_inv (set_service u f)"
  unfolding set_service_def by (rule keeps_mod) (simp add: broker_inv_def)

lemma keeps_set_lease [intro]: "(\<And>l. l_key (f l) = l_key l) \<Longrightarrow> keeps broker_inv (set_lease t f)"
  unfolding set_lease_def by (rule keeps_mod) (simp add: broker_inv_def exclusive_map_entry)

text \<open>A step that touches neither leases, services nor events.\<close>

lemma keeps_frame:
  assumes "\<And>s. leases (f s) = leases s \<and> services (f s) = services s \<and> events (f s) = events s"
  shows "keeps broker_inv (modM f)"
  by (rule keeps_mod) (simp add: broker_inv_def assms)

lemma keeps_each: "(\<And>x. keeps I (f x)) \<Longrightarrow> keeps I (each f xs)"
  by (induction xs) (auto intro: keeps_bind)

lemma keeps_drop_lease [intro]: "keeps broker_inv (drop_lease y t)"
  unfolding drop_lease_def
  by (intro keeps_bind keeps_save keeps_frame keeps_mod) (simp_all add: broker_inv_def exclusive_delete)

lemma keeps_recover_lease [intro]: "keeps broker_inv (recover_lease y entry)"
  unfolding recover_lease_def lease_free_def
  by (intro keeps_case_prod keeps_bind keeps_if keeps_catch keeps_basic keeps_ask keeps_save keeps_set_lease
      keeps_drop_lease keeps_frame) simp_all

lemma keeps_start_unit [intro]:
  fixes y :: "'w system"
  shows "keeps broker_inv (start_unit y u)"
proof -
  have "broker_inv (s\<lparr>events := events s @ [Start_unit u], services := AList.delete u (services s)\<rparr>)"
    if "broker_inv s" for s :: "'w broker"
  proof -
    from that have "covered (events s)" by (simp add: broker_inv_def crash_safe_covered)
    then have "covered (events s @ [Start_unit u])" by (auto simp: covered_def)
    with that show ?thesis by (auto simp: broker_inv_def crash_safe_snoc keys_delete)
  qed
  then have k: "keeps broker_inv (bindM (log_event (\<lambda>s. Start_unit u)) (\<lambda>_. modM (\<lambda>s. s\<lparr>services := AList.delete u (services s)\<rparr>)) :: ('w broker, unit) proc)"
    by (simp add: keeps_def log_event_def)
  show ?thesis unfolding start_unit_def
    by (intro k keeps_bind keeps_if keeps_basic keeps_ask)
qed

lemma keeps_recover [intro]: "keeps broker_inv (recover y force)"
  unfolding recover_def recover_service_def
  by (intro keeps_bind keeps_if keeps_catch keeps_basic keeps_save keeps_set_service keeps_each
      keeps_recover_lease keeps_start_unit)

lemma journal_kept_release [intro]: "keeps broker_inv (release y t)"
  unfolding release_def
  by (intro keeps_bind keeps_if keeps_basic keeps_save keeps_set_lease keeps_recover keeps_frame) simp_all

lemma keeps_stop_unit:
  assumes m: "keeps broker_inv (m ())"
  shows "keeps broker_inv (bindM (modM (\<lambda>s. s\<lparr>services := AList.update u v (services s)\<rparr>)) (\<lambda>_.
      bindM save (\<lambda>_. bindM (log_event (\<lambda>s. Stop_unit u)) m)))"
proof (rule keepsI)
  fix s r s' assume s: "broker_inv s" and r: "bindM (modM (\<lambda>s. s\<lparr>services := AList.update u v (services s)\<rparr>)) (\<lambda>_.
    bindM save (\<lambda>_. bindM (log_event (\<lambda>s. Stop_unit u)) m)) s = (r, s')"
  let ?sv = "AList.update u v (services s)"
  define es where "es = events s @ [Saved (leases s, ?sv)]"
  let ?s = "s\<lparr>services := ?sv, events := es @ [Stop_unit u]\<rparr>"
  have k: "fst ` set ?sv = insert u (fst ` set (services s))" by (simp add: AList.dom_update)
  have j: "stopped es = stopped (events s)" "journal es = (leases s, ?sv)" by (simp_all add: es_def)
  have "crash_safe es" using s unfolding broker_inv_def es_def crash_safe_snoc covered_def by (auto simp: k)
  then have "broker_inv ?s"
    using s unfolding broker_inv_def by (auto simp: crash_safe_snoc covered_def j k)
  moreover have "m () ?s = (r, s')" using r by (simp add: save_def log_event_def bindM_def es_def)
  ultimately show "broker_inv s'" using keepsD [OF m] by blast
qed

lemma keeps_pause_unit [intro]: "keeps broker_inv (pause_unit y u)"
  unfolding pause_unit_def
  by (intro keeps_stop_unit keeps_bind keeps_if keeps_basic keeps_ask keeps_set_service keeps_save)

declare wait_lock.simps [simp del]

lemma keeps_wait_lock [intro]: "keeps broker_inv (wait_lock y t port k)"
proof (induction k)
  case 0
  show ?case by (subst wait_lock.simps)
      (intro keeps_bind keeps_if keeps_catch keeps_basic keeps_ask keeps_frame; simp)
next
  case (Suc k)
  show ?case by (subst wait_lock.simps)
      (intro keeps_bind keeps_if keeps_catch keeps_basic keeps_ask keeps_frame; simp add: Suc)
qed

lemma keeps_reserve [intro]: "keeps broker_inv (reserve y t port)"
  unfolding reserve_def
  by (intro keeps_bind keeps_if keeps_basic keeps_ask keeps_each keeps_pause_unit keeps_wait_lock keeps_save
      keeps_set_lease keeps_frame) simp_all

lemma keeps_acquire_scope [intro]: "keeps broker_inv (acquire_scope y port purpose pid)"
proof (rule keepsI)
  fix s r s' assume s: "broker_inv s" and a: "acquire_scope y port purpose pid s = (r, s')"
  have k: "keeps broker_inv (bindM save (\<lambda>_. bindM (catchM (reserve y t port) (\<lambda>e.
      bindM (set_lease t (\<lambda>v. v\<lparr>l_error := Some e\<rparr>)) (\<lambda>_. bindM (release y t) (\<lambda>_. raiseM e)))) (\<lambda>_. retM t)))" for t
    by (intro keeps_bind keeps_catch keeps_basic keeps_save keeps_reserve keeps_set_lease journal_kept_release) simp
  have res: "keeps broker_inv (resolve y port)"
    unfolding resolve_def by (intro keeps_bind keeps_if keeps_basic keeps_ask)
  show "broker_inv s'"
  proof (cases "y_maintenance y (world s) \<or> purpose \<notin> set PURPOSES")
    case True
    with a s show ?thesis by (auto simp: acquire_scope_def split: if_splits)
  next
    case False
    obtain rk s1 where rs: "resolve y port s = (rk, s1)" by (rule prod.exhaust)
    have s1: "broker_inv s1" by (rule keepsD [OF res rs s])
    show ?thesis
    proof (cases rk)
      case (Inl e)
      with a s1 rs False show ?thesis by (simp add: acquire_scope_def bindM_run_error)
    next
      case (Inr key)
      show ?thesis
      proof (cases "key_leased key s1")
        case True
        with a s1 rs False Inr show ?thesis by (simp add: acquire_scope_def bindM_run)
      next
        case nk: False
        obtain t w where t: "y_token y (world s1) = (t, w)" by (rule prod.exhaust)
        let ?l = "\<lparr>l_port = port, l_key = key, l_purpose = purpose, l_pid = pid, l_services = port_services port (s1\<lparr>world := w\<rparr>),
                   l_phase = Preparing, l_error = None\<rparr>"
        let ?s = "s1\<lparr>world := w, leases := AList.update t ?l (leases s1), connected := t # connected s1\<rparr>"
        have "exclusive (AList.update t ?l (leases s1))"
          using s1 nk by (intro exclusive_update) (simp_all add: broker_inv_def key_leased_def)
        then have "broker_inv ?s" using s1 by (simp add: broker_inv_def)
        moreover from a rs False Inr nk t have
          "bindM save (\<lambda>_. bindM (catchM (reserve y t port) (\<lambda>e.
            bindM (set_lease t (\<lambda>v. v\<lparr>l_error := Some e\<rparr>)) (\<lambda>_. bindM (release y t) (\<lambda>_. raiseM e)))) (\<lambda>_. retM t)) ?s = (r, s')"
          by (simp add: acquire_scope_def bindM_run ask_def)
        ultimately show ?thesis using keepsD [OF k] by blast
      qed
    qed
  qed
qed

lemma keeps_acquire [intro]: "keeps broker_inv (acquire y port purpose pid)"
  unfolding acquire_def resolve_def
  by (intro keeps_bind keeps_if keeps_convert keeps_basic keeps_ask keeps_each keeps_acquire_scope)

section \<open>Every history of the broker\<close>

text \<open>
  Operations in any order over any world, and a crash at any event of any of them, after which a new
  process starts from the journal.
\<close>

datatype operation = Acquire string string int | Release string | Recover bool | Poll string | Mutate string

fun perform :: "'w system \<Rightarrow> operation \<Rightarrow> 'w broker \<Rightarrow> 'w broker" where
  "perform y (Acquire port purpose pid) s = snd (acquire y port purpose pid s)"
| "perform y (Release t) s = snd (release y t s)"
| "perform y (Recover force) s = snd (recover y force s)"
| "perform y (Poll port) s = snd (poll y port s)"
| "perform y (Mutate u) s = snd (service_mutation y u s)"

definition new_broker :: "(string \<times> string list) list \<Rightarrow> 'w \<Rightarrow> 'w broker" where
  "new_broker ps w =
     \<lparr>ports = ps, leases = [], services = [], connected = [], fds = [], holds = [], events = [], world = w\<rparr>"

inductive broker_reachable :: "'w system \<Rightarrow> 'w broker \<Rightarrow> bool" for y where
  booted: "broker_reachable y (new_broker ps w)"
| performed: "broker_reachable y s \<Longrightarrow> broker_reachable y (perform y op s)"
| crashed: "broker_reachable y s \<Longrightarrow> broker_reachable y (restart (take n (events s)) w s)"

lemma keeps_run: "keeps I m \<Longrightarrow> I s \<Longrightarrow> I (snd (m s))"
  by (simp add: keeps_def)

lemma perform_inv: "broker_inv s \<Longrightarrow> broker_inv (perform y op s)"
proof -
  assume s: "broker_inv s"
  have r: "keeps broker_inv (poll y port)" "keeps broker_inv (service_mutation y u)" for port u
    unfolding poll_def resolve_def service_mutation_def by (intro keeps_bind keeps_if keeps_basic keeps_ask)+
  show ?thesis
    using s by (cases op) (auto intro: keeps_run r keeps_acquire journal_kept_release keeps_recover)
qed

lemma restart_inv: "crash_safe es \<Longrightarrow> broker_inv (restart es w s)"
  using crash_safe_covered [of es]
  by (cases "journal es") (auto simp: restart_def broker_inv_def crash_safe_snoc covered_def)

lemma broker_reachable_inv: "broker_reachable y s \<Longrightarrow> broker_inv s"
proof (induction rule: broker_reachable.induct)
  case (booted ps w)
  show ?case by (simp add: new_broker_def broker_inv_def crash_safe_def covered_def exclusive_def)
next
  case (performed s op)
  then show ?case by (intro perform_inv)
next
  case (crashed s n w)
  then show ?case by (intro restart_inv crash_safe_take) (simp add: broker_inv_def)
qed

text \<open>C30: At every instant of every history, crashes included, the journal on disk covers what the broker
  did: each unit it has told to stop and not seen running again since has an obligation in the
  journal, so a broker that starts from it will bring the unit back; and the journal names at most
  one lease for a UART.\<close>

theorem stopped_units_journalled:
  assumes "broker_reachable y s"
  shows "stopped (take n (events s)) \<subseteq> fst ` set (snd (journal (take n (events s)))) \<and>
    exclusive (fst (journal (take n (events s))))"
  using broker_reachable_inv [OF assms] by (simp add: broker_inv_def crash_safe_def covered_def)

text \<open>C31: In every history no UART is leased twice at a time, under whatever device names.\<close>

theorem one_lease_per_uart:
  assumes "broker_reachable y s"
    and "(t1, l1) \<in> set (leases s)" and "(t2, l2) \<in> set (leases s)" and "l_key l1 = l_key l2"
  shows "t1 = t2 \<and> l1 = l2"
proof -
  have "inj_on (\<lambda>(t, l). l_key l) (set (leases s))"
    using broker_reachable_inv [OF assms(1)] by (simp add: broker_inv_def exclusive_def distinct_map)
  from inj_onD [OF this _ assms(2,3)] assms(4) show ?thesis by simp
qed

section \<open>Recovery in a world that cooperates\<close>

definition cooperative :: "'w system \<Rightarrow> (string \<Rightarrow> string) \<Rightarrow> bool" where
  "cooperative y key \<longleftrightarrow>
     (\<forall>p w. fst (y_key y p w) = Inr (key p)) \<and> (\<forall>p w. fst (y_occupants y p w) = Inr []) \<and>
     (\<forall>p w. fst (y_lock y p w) = Inr ()) \<and> (\<forall>u w. \<exists>b. fst (y_active y u w) = Inr b) \<and>
     (\<forall>u w. fst (y_start y u w) = Inr ())"

text \<open>What a step leaves alone.\<close>

definition same_rest :: "'w broker \<Rightarrow> 'w broker \<Rightarrow> bool" where
  "same_rest s s' \<longleftrightarrow> connected s' = connected s \<and> ports s' = ports s"

lemma ask_Inr:
  assumes "fst (c (world s)) = Inr x"
  obtains w where "ask c s = (Inr x, s\<lparr>world := w\<rparr>)"
  using assms by (cases "c (world s)") (auto simp: ask_def)

lemma recover_lease_coop:
  assumes "cooperative y key" and "l_key l = key (l_port l)"
  shows "\<exists>s'. recover_lease y (t, l) s = (Inr (), s') \<and> connected s' = connected s \<and> services s' = services s \<and>
    leases s' = (if t \<in> set (connected s) then leases s else AList.delete t (leases s))"
proof (cases "t \<in> set (connected s)")
  case True
  then show ?thesis by (simp add: recover_lease_def)
next
  case False
  have c: "fst (y_key y (l_port l) w) = Inr (l_key l)" "fst (y_occupants y (l_port l) w) = Inr []"
    "fst (y_lock y (l_port l) w) = Inr ()" for w
    using assms by (auto simp: cooperative_def)
  obtain w1 where w1: "ask (y_key y (l_port l)) s = (Inr (l_key l), s\<lparr>world := w1\<rparr>)"
    using ask_Inr [of "y_key y (l_port l)" s, OF c(1)] .
  obtain w2 where w2: "ask (y_occupants y (l_port l)) (s\<lparr>world := w1\<rparr>) = (Inr [], s\<lparr>world := w2\<rparr>)"
    using ask_Inr [of "y_occupants y (l_port l)" "s\<lparr>world := w1\<rparr>", OF c(2)] by auto
  obtain w3 where w3: "ask (y_lock y (l_port l)) (s\<lparr>world := w2\<rparr>) = (Inr (), s\<lparr>world := w3\<rparr>)"
    using ask_Inr [of "y_lock y (l_port l)" "s\<lparr>world := w2\<rparr>", OF c(3)] by auto
  have "lease_free y t l s = (Inr True, s\<lparr>world := w3\<rparr>)"
    by (simp add: lease_free_def bindM_def w1 w2 w3)
  then show ?thesis
    using False by (simp add: recover_lease_def drop_lease_def save_def log_event_def catchM_def bindM_def)
qed

lemma recover_leases_coop:
  assumes "cooperative y key"
  shows "(\<forall>(t, l)\<in>set ls. l_key l = key (l_port l)) \<Longrightarrow>
    \<exists>s'. each (recover_lease y) ls s = (Inr (), s') \<and> connected s' = connected s \<and> services s' = services s \<and>
      leases s' = filter (\<lambda>(t, l). t \<in> set (connected s) \<or> t \<notin> fst ` set ls) (leases s)"
proof (induction ls arbitrary: s)
  case Nil
  show ?case by simp
next
  case (Cons a ls)
  obtain t l where a: "a = (t, l)" by (cases a)
  from recover_lease_coop [OF assms, of l t s] Cons.prems a obtain s1 where s1:
    "recover_lease y a s = (Inr (), s1)" "connected s1 = connected s" "services s1 = services s"
    "leases s1 = (if t \<in> set (connected s) then leases s else AList.delete t (leases s))" by auto
  from Cons.IH [of s1] Cons.prems obtain s2 where s2:
    "each (recover_lease y) ls s1 = (Inr (), s2)" "connected s2 = connected s1" "services s2 = services s1"
    "leases s2 = filter (\<lambda>(t, l). t \<in> set (connected s1) \<or> t \<notin> fst ` set ls) (leases s1)" by auto
  have "leases s2 = filter (\<lambda>(t', l). t' \<in> set (connected s) \<or> t' \<notin> fst ` set (a # ls)) (leases s)"
    using s1(4) unfolding s2(4) s1(2)
    by (cases "t \<in> set (connected s)") (simp_all add: AList.delete_eq a split_beta, (rule filter_cong, simp, force)+)
  with s1 s2 show ?case by (simp add: bindM_run)
qed

lemma recover_service_coop:
  assumes "cooperative y key"
  shows "\<exists>s'. recover_service y u s = (Inr (), s') \<and> leases s' = leases s \<and>
    services s' = (if unit_leased u s then services s else AList.delete u (services s))"
proof (cases "unit_leased u s")
  case True
  then show ?thesis by (simp add: recover_service_def)
next
  case False
  obtain b where b: "fst (y_active y u (world s)) = Inr b" using assms unfolding cooperative_def by blast
  obtain w1 where w1: "ask (y_active y u) s = (Inr b, s\<lparr>world := w1\<rparr>)"
    using ask_Inr [of "y_active y u" s, OF b] .
  have "fst (y_start y u (world (s\<lparr>world := w1\<rparr>))) = Inr ()" using assms by (simp add: cooperative_def)
  then obtain w2 where w2: "ask (y_start y u) (s\<lparr>world := w1\<rparr>) = (Inr (), s\<lparr>world := w2\<rparr>)"
    using ask_Inr [of "y_start y u" "s\<lparr>world := w1\<rparr>"] by auto
  show ?thesis
    using False by (cases b) (simp_all add: recover_service_def start_unit_def save_def log_event_def catchM_def bindM_def w1 w2)
qed

lemma recover_services_coop:
  assumes "cooperative y key"
  shows "\<exists>s'. each (recover_service y) us s = (Inr (), s') \<and> leases s' = leases s \<and>
      services s' = filter (\<lambda>(u, v). unit_leased u s \<or> u \<notin> set us) (services s)"
proof (induction us arbitrary: s)
  case Nil
  show ?case by simp
next
  case (Cons u us)
  from recover_service_coop [OF assms, of u s] obtain s1 where s1:
    "recover_service y u s = (Inr (), s1)" "leases s1 = leases s"
    "services s1 = (if unit_leased u s then services s else AList.delete u (services s))" by blast
  have l: "unit_leased v s1 = unit_leased v s" for v using s1(2) by (simp add: unit_leased_def)
  from Cons.IH [of s1] obtain s2 where s2: "each (recover_service y) us s1 = (Inr (), s2)"
    "leases s2 = leases s1" "services s2 = filter (\<lambda>(u, v). unit_leased u s1 \<or> u \<notin> set us) (services s1)" by blast
  have "services s2 = filter (\<lambda>(v, ob). unit_leased v s \<or> v \<notin> set (u # us)) (services s)"
    using s1(3) unfolding s2(3) l
    by (cases "unit_leased u s") (simp_all add: AList.delete_eq split_beta, (rule filter_cong, auto)+)
  with s1 s2 show ?case by (simp add: bindM_run)
qed


text \<open>A world for the examples: the units that run.\<close>

definition board :: "string list system" where
  "board = \<lparr>y_key = (\<lambda>p w. (Inr p, w)), y_active = (\<lambda>u w. (Inr (u \<in> set w), w)),
     y_stop = (\<lambda>u w. (Inr (), removeAll u w)), y_start = (\<lambda>u w. (Inr (), u # w)),
     y_pause = (\<lambda>p w. (Inr False, w)), y_occupants = (\<lambda>p w. (Inr [], w)), y_lock = (\<lambda>p w. (Inr (), w)),
     y_close = (\<lambda>t w. w), y_gate = (\<lambda>w. (Inr (), w)), y_maintenance = (\<lambda>w. False),
     y_service_lock = (\<lambda>u sh w. (Inr (), w)), y_canonical = (\<lambda>u w. (Inr u, w)),
     y_token = (\<lambda>w. (''t'', w)), y_rounds = (\<lambda>w. 3), y_retry_due = (\<lambda>w. True)\<rparr>"

definition paused_board :: "string list broker" where
  "paused_board = perform board (Acquire ''p'' ''scan'' 1) (new_broker [(''p'', [''u''])] [''u''])"

lemma paused_board_reachable: "broker_reachable board paused_board"
  unfolding paused_board_def by (intro broker_reachable.intros)

lemma paused_board_state: "stopped (events paused_board) = {''u''}" "length (events paused_board) = 5"
    "leases paused_board = [(''t'', \<lparr>l_port = ''p'', l_key = ''p'', l_purpose = ''scan'', l_pid = 1, l_services = [''u''],
      l_phase = Owned, l_error = None\<rparr>)]"
  by code_simp+

theorem stopped_units_journalled_witness:
  "stopped (take 5 (events paused_board)) = {''u''} \<and> ''u'' \<in> fst ` set (snd (journal (take 5 (events paused_board))))"
  using stopped_units_journalled [OF paused_board_reachable, of 5] paused_board_state by simp

theorem one_lease_per_uart_witness:
  "\<exists>l. (''t'', l) \<in> set (leases paused_board) \<and> (''t'', l) = (''t'', l)"
  using one_lease_per_uart [OF paused_board_reachable, of "''t''" _ "''t''"] by (simp add: paused_board_state)


section \<open>A unit that came up late\<close>

text \<open>A board whose units start, but only after \<^verbatim>\<open>systemctl start\<close> has run into its time limit.\<close>

definition slow_board :: "string list system" where
  "slow_board = board\<lparr>y_start := (\<lambda>u w. (Inl (TimeoutError ''systemctl start''), u # w))\<rparr>"

definition leased_again :: "string list broker" where
  "leased_again =
     perform slow_board (Acquire ''p'' ''scan'' 2)
       (perform slow_board (Release ''t'')
         (perform slow_board (Acquire ''p'' ''scan'' 1) (new_broker [(''p'', [''u''])] [''u''])))"

text \<open>A unit that has an obligation is not looked at when its UART is leased again: after a restart
  that succeeded behind its time limit, a second lease is granted with the unit running.\<close>

lemma late_unit_left_running:
  "broker_reachable slow_board leased_again \<and>
   map_option l_phase (map_of (leases leased_again) ''t'') = Some Owned \<and>
   map_option o_phase (map_of (services leased_again) ''u'') = Some Restore_failed \<and>
   ''u'' \<in> set (world leased_again)"
proof (intro conjI)
  show "broker_reachable slow_board leased_again"
    unfolding leased_again_def by (intro broker_reachable.intros)
qed code_simp+

end
