(* ===== verification/Semver.thy ===== *)
theory Semver
  imports Text
begin

text \<open>
  The version numbers of the update engine, \<^verbatim>\<open>sa02m-update/lib/semver.py\<close>: parsing, comparison and
  the gates an update has to pass.  Versions are a type of their own with Python's order on tuples
  as an instance of \<open>linorder\<close>.  Digits are the ASCII ones, and a text is not longer than the 4300
  digits up to which \<^verbatim>\<open>int\<close> converts.
\<close>

section \<open>Versions\<close>

datatype version = Version (major: nat) (minor: nat) (patch: nat) (build: nat)

instantiation version :: linorder
begin

definition less_version :: "version \<Rightarrow> version \<Rightarrow> bool" where
  "less_version v w \<longleftrightarrow>
     major v < major w \<or> major v = major w \<and>
       (minor v < minor w \<or> minor v = minor w \<and>
         (patch v < patch w \<or> patch v = patch w \<and> build v < build w))"

definition less_eq_version :: "version \<Rightarrow> version \<Rightarrow> bool" where
  "less_eq_version v w \<longleftrightarrow> v = w \<or> v < (w :: version)"

instance
proof
  fix u v w :: version
  show "v < w \<longleftrightarrow> v \<le> w \<and> \<not> w \<le> v"
    by (auto simp: less_eq_version_def less_version_def)
  show "v \<le> v" by (simp add: less_eq_version_def)
  show "u \<le> v \<Longrightarrow> v \<le> w \<Longrightarrow> u \<le> w"
    by (auto simp: less_eq_version_def less_version_def)
  show "v \<le> w \<Longrightarrow> w \<le> v \<Longrightarrow> v = w"
    by (auto simp: less_eq_version_def less_version_def)
  show "v \<le> w \<or> w \<le> v"
    by (cases v; cases w) (auto simp: less_eq_version_def less_version_def)
qed

end

text \<open>The texts: three or four fields of digits between dots, with blanks around them.\<close>

definition parse :: "string \<Rightarrow> version option" where
  "parse s =
     (let fields = split_on CHR ''.'' (py_strip s) in
      if list_all digits fields then
        (case map (number_in 10) fields of
           [a, b, c] \<Rightarrow> Some (Version a b c 0)
         | [a, b, c, d] \<Rightarrow> Some (Version a b c d)
         | _ \<Rightarrow> None)
      else None)"

definition is_valid :: "string \<Rightarrow> bool" where
  "is_valid s \<longleftrightarrow> parse s \<noteq> None"

definition compare :: "string \<Rightarrow> string \<Rightarrow> int option" where
  "compare a b =
     (case (parse a, parse b) of
        (Some v, Some w) \<Rightarrow> Some (if v < w then - 1 else if w < v then 1 else 0)
      | _ \<Rightarrow> None)"

definition ge :: "string \<Rightarrow> string \<Rightarrow> bool" where
  "ge a b = (case compare a b of None \<Rightarrow> False | Some c \<Rightarrow> 0 \<le> c)"

definition gt :: "string \<Rightarrow> string \<Rightarrow> bool" where
  "gt a b = (case compare a b of None \<Rightarrow> False | Some c \<Rightarrow> 0 < c)"

definition eq :: "string \<Rightarrow> string \<Rightarrow> bool" where
  "eq a b = (case compare a b of None \<Rightarrow> False | Some c \<Rightarrow> c = 0)"

definition lt :: "string \<Rightarrow> string \<Rightarrow> bool" where
  "lt a b = (case compare a b of None \<Rightarrow> False | Some c \<Rightarrow> c < 0)"

definition cmp :: "string \<Rightarrow> string \<Rightarrow> int result" where
  "cmp a b = (case compare a b of None \<Rightarrow> Inl (ValueError ''invalid semver compare'') | Some c \<Rightarrow> Inr c)"

section \<open>The gates of an update\<close>

text \<open>Which gate is shut; the source returns it as a sentence.\<close>

datatype gate = Invalid string | Below_minimum | Runner_too_old | Not_newer

definition first_invalid :: "(string \<times> string) list \<Rightarrow> string option" where
  "first_invalid vs = map_option fst (find (\<lambda>(l, v). parse v = None) vs)"

definition check_update_gates :: "string \<Rightarrow> string \<Rightarrow> string \<Rightarrow> string \<Rightarrow> string \<Rightarrow> gate option" where
  "check_update_gates installed target min_version runner_version min_updater =
     (case first_invalid [(''installed'', installed), (''target'', target), (''min_version'', min_version),
         (''runner_version'', runner_version), (''min_updater'', min_updater)] of
        Some l \<Rightarrow> Some (Invalid l)
      | None \<Rightarrow>
          if \<not> ge installed min_version then Some Below_minimum
          else if \<not> ge runner_version min_updater then Some Runner_too_old
          else if \<not> gt target installed then Some Not_newer
          else None)"

section \<open>Properties\<close>

definition dotted_version :: "version \<Rightarrow> string" where
  "dotted_version v = dec_digits (major v) @ ''.'' @ dec_digits (minor v) @ ''.'' @ dec_digits (patch v) @
     ''.'' @ dec_digits (build v)"

lemma compare_parsed:
  "parse a = Some v \<Longrightarrow> parse b = Some w \<Longrightarrow> compare a b = Some (if v < w then - 1 else if w < v then 1 else 0)"
  by (simp add: compare_def)

lemma ge_parsed: "parse a = Some v \<Longrightarrow> parse b = Some w \<Longrightarrow> ge a b \<longleftrightarrow> w \<le> v"
  by (auto simp: ge_def compare_parsed)

lemma gt_parsed: "parse a = Some v \<Longrightarrow> parse b = Some w \<Longrightarrow> gt a b \<longleftrightarrow> w < v"
  by (auto simp: gt_def compare_parsed)

text \<open>A printed version is read back, a missing fourth field counts as zero, and the comparison of two
  readable versions is the order of the versions.\<close>

lemma version_roundtrip:
  "parse (dotted_version v) = Some v \<and>
   parse (dec_digits a @ ''.'' @ dec_digits b @ ''.'' @ dec_digits c) = Some (Version a b c 0) \<and>
   compare (dotted_version v) (dotted_version w) = Some (if v < w then - 1 else if w < v then 1 else 0)"
proof -
  have strip: "py_strip (dec_digits n @ xs @ dec_digits m) = dec_digits n @ xs @ dec_digits m" for n m xs
  proof (rule py_strip_id)
    have "\<not> is_space (hd (dec_digits n))" "\<not> is_space (last (dec_digits m))"
      by (rule digit_not_space, rule dec_digits_digit [of _ n], simp)
        (rule digit_not_space, rule dec_digits_digit [of _ m], simp)
    then show "\<not> is_space (hd (dec_digits n @ xs @ dec_digits m))" "\<not> is_space (last (dec_digits n @ xs @ dec_digits m))"
      by simp_all
  qed simp
  have four: "parse (dotted_version v) = Some v" for v
    using strip [of "major v" "''.'' @ dec_digits (minor v) @ ''.'' @ dec_digits (patch v) @ ''.''" "build v"]
    by (cases v) (simp add: parse_def dotted_version_def split_on_append split_on_free dec_digits_free)
  moreover have "parse (dec_digits a @ ''.'' @ dec_digits b @ ''.'' @ dec_digits c) = Some (Version a b c 0)"
    using strip [of a "''.'' @ dec_digits b @ ''.''" c]
    by (simp add: parse_def split_on_append split_on_free dec_digits_free)
  ultimately show ?thesis by (simp add: compare_parsed)
qed

text \<open>The gates let an update pass exactly when all five versions can be read, the installed one is at
  least the minimum, the runner is at least the minimum updater, and the target is newer than what
  is installed.\<close>

lemma gates_pass:
  "check_update_gates installed target min_version runner_version min_updater = None \<longleftrightarrow>
   (\<exists>i t m r u. parse installed = Some i \<and> parse target = Some t \<and> parse min_version = Some m \<and>
      parse runner_version = Some r \<and> parse min_updater = Some u \<and> m \<le> i \<and> u \<le> r \<and> i < t)"
  unfolding check_update_gates_def
  by (cases "parse installed"; cases "parse target"; cases "parse min_version"; cases "parse runner_version";
      cases "parse min_updater")
    (simp_all add: first_invalid_def ge_parsed gt_parsed)

end
