(* ===== verification/Manifest.thy ===== *)
theory Manifest
  imports Semver
begin

text \<open>
  The manifest of an update package, \<^verbatim>\<open>sa02m-update/lib/validate_package.py\<close>: the allow-lists of
  destinations and deletions, the protected paths, and the hand-written validator.  Every check is
  one definition, in the order of the source; a failure keeps its code and names the field, the
  sentence around it is left out.  JSON objects are association lists with distinct keys, a number
  with a fraction is its decimal literal.
\<close>

section \<open>JSON\<close>

datatype json =
    JNull | JBool bool | JInt int | JDec int nat | JStr string | JList "json list"
  | JObj "(string \<times> json) list"

type_synonym obj = "(string \<times> json) list"

definition manifest_error :: "string \<Rightarrow> 'a result" where
  "manifest_error what = Inl (PackageError ''E_MANIFEST'' what)"

definition compat_error :: "string \<Rightarrow> 'a result" where
  "compat_error what = Inl (PackageError ''E_COMPAT'' what)"

definition check :: "bool \<Rightarrow> string \<Rightarrow> unit result" where
  "check ok what = (if ok then Inr () else manifest_error what)"

text \<open>\<^verbatim>\<open>obj[k]\<close> and \<^verbatim>\<open>obj.get(k)\<close>.\<close>

definition item :: "obj \<Rightarrow> string \<Rightarrow> json result" where
  "item ob k = (case map_of ob k of Some v \<Rightarrow> Inr v | None \<Rightarrow> Inl KeyError)"

definition get :: "obj \<Rightarrow> string \<Rightarrow> json" where
  "get ob k = (case map_of ob k of Some v \<Rightarrow> v | None \<Rightarrow> JNull)"

text \<open>\<^verbatim>\<open>v == 1\<close>, where Python counts \<^verbatim>\<open>True\<close> and \<^verbatim>\<open>1.0\<close>.\<close>

fun is_one :: "json \<Rightarrow> bool" where
  "is_one (JInt n) \<longleftrightarrow> n = 1"
| "is_one (JBool b) \<longleftrightarrow> b"
| "is_one (JDec n k) \<longleftrightarrow> n = 10 ^ k"
| "is_one _ \<longleftrightarrow> False"

fun is_str :: "(string \<Rightarrow> bool) \<Rightarrow> json \<Rightarrow> bool" where
  "is_str p (JStr s) \<longleftrightarrow> p s"
| "is_str p _ \<longleftrightarrow> False"

fun is_bool :: "json \<Rightarrow> bool" where
  "is_bool (JBool b) \<longleftrightarrow> True"
| "is_bool _ \<longleftrightarrow> False"

fun is_positive :: "json \<Rightarrow> bool" where
  "is_positive (JInt n) \<longleftrightarrow> 1 \<le> n"
| "is_positive _ \<longleftrightarrow> False"

fun list_all_json :: "(json \<Rightarrow> bool) \<Rightarrow> json \<Rightarrow> bool" where
  "list_all_json p (JList xs) \<longleftrightarrow> list_all p xs"
| "list_all_json p _ \<longleftrightarrow> False"

fun the_object :: "string \<Rightarrow> json \<Rightarrow> obj result" where
  "the_object what (JObj ob) = Inr ob"
| "the_object what _ = manifest_error what"

fun the_array :: "string \<Rightarrow> json \<Rightarrow> json list result" where
  "the_array what (JList xs) = Inr xs"
| "the_array what _ = manifest_error what"

definition reject_unknown :: "string \<Rightarrow> obj \<Rightarrow> string list \<Rightarrow> unit result" where
  "reject_unknown path ob allowed = check (list_all (\<lambda>(k, v). k \<in> set allowed) ob) path"

definition require_keys :: "string \<Rightarrow> obj \<Rightarrow> string list \<Rightarrow> unit result" where
  "require_keys path ob required = check (list_all (\<lambda>k. map_of ob k \<noteq> None) required) path"

section \<open>Patterns\<close>

text \<open>\<^verbatim>\<open>$\<close> matches at the end of the text and before a newline that ends it.\<close>

definition NL :: char where "NL = char_of (10 :: nat)"

definition to_end :: "(string \<Rightarrow> bool) \<Rightarrow> string \<Rightarrow> bool" where
  "to_end p s \<longleftrightarrow> p s \<or> (s \<noteq> [] \<and> last s = NL \<and> p (butlast s))"

definition lower_alpha :: "char \<Rightarrow> bool" where
  "lower_alpha c \<longleftrightarrow> (let n = of_char c :: nat in 97 \<le> n \<and> n \<le> 122)"

definition upper_alpha :: "char \<Rightarrow> bool" where
  "upper_alpha c \<longleftrightarrow> (let n = of_char c :: nat in 65 \<le> n \<and> n \<le> 90)"

definition hex_lower :: "char \<Rightarrow> bool" where
  "hex_lower c \<longleftrightarrow> (let n = of_char c :: nat in is_digit c \<or> 97 \<le> n \<and> n \<le> 102)"

definition octal :: "char \<Rightarrow> bool" where
  "octal c \<longleftrightarrow> (let n = of_char c :: nat in 48 \<le> n \<and> n \<le> 55)"

definition HEX64 :: "string \<Rightarrow> bool" where
  "HEX64 = to_end (\<lambda>s. length s = 64 \<and> list_all hex_lower s)"

definition HEX40 :: "string \<Rightarrow> bool" where
  "HEX40 = to_end (\<lambda>s. length s = 40 \<and> list_all hex_lower s)"

definition MODE :: "string \<Rightarrow> bool" where
  "MODE = to_end (\<lambda>s. (length s = 3 \<or> length s = 4) \<and> list_all octal s)"

definition account :: "string \<Rightarrow> bool" where
  "account s \<longleftrightarrow> s \<noteq> [] \<and> (lower_alpha (hd s) \<or> hd s = CHR ''_'') \<and>
     list_all (\<lambda>c. lower_alpha c \<or> is_digit c \<or> c = CHR ''_'' \<or> c = CHR ''-'') (tl s)"

definition OWNER :: "string \<Rightarrow> bool" where
  "OWNER = to_end (\<lambda>s. case split_on CHR '':'' s of [u, g] \<Rightarrow> account u \<and> account g | _ \<Rightarrow> False)"

definition KEY_ID :: "string \<Rightarrow> bool" where
  "KEY_ID = to_end (\<lambda>s. 1 \<le> length s \<and> length s \<le> 64 \<and>
     list_all (\<lambda>c. lower_alpha c \<or> upper_alpha c \<or> is_digit c \<or> c \<in> set ''._-'') s)"

text \<open>A shape: \<open>0\<close> stands for a digit, anything else for itself.\<close>

definition shaped :: "string \<Rightarrow> string \<Rightarrow> bool" where
  "shaped shape s \<longleftrightarrow> length s = length shape \<and>
     list_all (\<lambda>(p, c). if p = CHR ''0'' then is_digit c else c = p) (zip shape s)"

definition ISO8601 :: "string \<Rightarrow> bool" where
  "ISO8601 = to_end (shaped ''0000-00-00T00:00:00Z'')"

definition starts :: "string \<Rightarrow> string \<Rightarrow> bool" where
  "starts pre s \<longleftrightarrow> take (length pre) s = pre"

definition ends :: "string \<Rightarrow> string \<Rightarrow> bool" where
  "ends suf s \<longleftrightarrow> length suf \<le> length s \<and> drop (length s - length suf) s = suf"

definition package_char :: "char \<Rightarrow> bool" where
  "package_char c \<longleftrightarrow> lower_alpha c \<or> is_digit c \<or> c = CHR ''-''"

text \<open>\<^verbatim>\<open>^/opt/sa02m-[a-z0-9-]+/\<close>\<close>

definition opt_package :: "string \<Rightarrow> bool" where
  "opt_package s \<longleftrightarrow> starts ''/opt/sa02m-'' s \<and>
     (let r = drop 11 s; w = takeWhile package_char r in w \<noteq> [] \<and> starts ''/'' (drop (length w) r))"

section \<open>Destinations\<close>

definition DST_DIRECTORIES :: "string list" where
  "DST_DIRECTORIES = [''/var/www/network_config/'', ''/usr/local/sbin/'', ''/usr/local/lib/'',
     ''/usr/local/libexec/'', ''/etc/systemd/system/sa02m-'', ''/etc/nginx/'', ''/etc/tmpfiles.d/'',
     ''/etc/sudoers.d/'', ''/etc/default/sa02m-'', ''/etc/sa02m-update/trusted-keys/'']"

definition DST_FILES :: "string list" where
  "DST_FILES = [''/opt/mplc4/mplc_cyntron.so'', ''/opt/mplc4/mplc_protocol_fast_modbus.so'',
     ''/usr/local/bin/fix-eth.sh'', ''/etc/dhcp/dhclient-exit-hooks.d/eth1-default-route'']"

definition no_parent :: "string \<Rightarrow> bool" where
  "no_parent s \<longleftrightarrow> ''..'' \<notin> set (split_on CHR ''/'' s)"

definition dst_allowed :: "json \<Rightarrow> bool" where
  "dst_allowed = is_str (\<lambda>s. starts ''/'' s \<and> no_parent s \<and>
     (list_ex (\<lambda>d. starts d s) DST_DIRECTORIES \<or> opt_package s \<or> to_end (\<lambda>s. s \<in> set DST_FILES) s))"

definition delete_allowed :: "json \<Rightarrow> bool" where
  "delete_allowed = is_str (\<lambda>s. starts ''/'' s \<and> no_parent s \<and>
     (starts ''/var/www/network_config/'' s \<or> opt_package s \<or> starts ''/usr/local//'' s \<or>
      starts ''/etc/systemd/system/sa02m-/'' s))"

definition PRESERVE_PATHS :: "string list" where
  "PRESERVE_PATHS = [''/etc/sa02m_web.env'', ''/etc/sa02m_*.conf'', ''/etc/network/interfaces.d/'',
     ''/etc/nginx/.htpasswd'', ''/etc/nginx/sites-enabled/000-sa02m-network_config'',
     ''/etc/sa02m-device-templates/'', ''/etc/sa02m-cloud/'', ''/var/lib/sa02m-flasher/'',
     ''/var/lib/sa02m-update/'', ''/etc/sa02m-alice/'', ''/etc/sa02m-alice-client.conf'',
     ''/etc/sa02m-alice-devices.conf'', ''/var/lib/sa02m-alice/'', ''/etc/sa02m-homekit/'',
     ''/var/lib/sa02m-homekit/'', ''/etc/sa02m-homeconnect/'', ''/var/lib/sa02m-homeconnect/'',
     ''/etc/sa02m-audio/'', ''/var/lib/sa02m-audio/'']"

definition rstrip_slash :: "string \<Rightarrow> string" where
  "rstrip_slash s = rev (dropWhile (\<lambda>c. c = CHR ''/'') (rev s))"

definition preserved_by :: "string \<Rightarrow> string \<Rightarrow> bool" where
  "preserved_by dst rule \<longleftrightarrow>
     (if ends ''/'' rule then dst = rstrip_slash rule \<or> starts rule dst
      else (case split_on CHR ''*'' rule of
          [_] \<Rightarrow> dst = rule
        | pre # rest \<Rightarrow> starts pre dst \<and> ends (drop (length pre + 1) rule) dst \<and>
            count_list dst CHR ''/'' = count_list rule CHR ''/''
        | [] \<Rightarrow> False))"

definition path_is_preserved :: "string \<Rightarrow> bool" where
  "path_is_preserved dst \<longleftrightarrow> list_ex (preserved_by dst) PRESERVE_PATHS"

section \<open>The validator\<close>

definition TOP_KEYS :: "string list" where
  "TOP_KEYS = [''schema_version'', ''product'', ''model'', ''arch'', ''version'', ''repo_commit'', ''built_at'',
     ''signing_key_id'', ''min_updater'', ''min_version'', ''payload'', ''preflight'', ''deploy'', ''services'',
     ''delete'', ''migrations'']"

definition PAYLOAD_KEYS :: "string list" where
  "PAYLOAD_KEYS = [''size'', ''sha256'', ''uncompressed_size_max'']"

definition PREFLIGHT_KEYS :: "string list" where
  "PREFLIGHT_KEYS = [''commands'', ''free_bytes_min'', ''free_bytes_multiplier'']"

definition DEPLOY_KEYS :: "string list" where
  "DEPLOY_KEYS = [''src'', ''dst'', ''mode'', ''owner'']"

definition SERVICES_KEYS_REQUIRED :: "string list" where
  "SERVICES_KEYS_REQUIRED = [''daemon_reload'', ''stop_before_apply'', ''restart'', ''health'']"

definition SERVICES_KEYS_OPTIONAL :: "string list" where
  "SERVICES_KEYS_OPTIONAL = [''enable'', ''restart_if_active'', ''restart_if_changed'']"

definition HEALTH_KEYS :: "string list" where
  "HEALTH_KEYS = [''http_url'', ''units_active'', ''version_file'']"

definition MIGRATION_KEYS :: "string list" where
  "MIGRATION_KEYS = [''id'', ''min_from'', ''script'', ''sha256'', ''reversible'']"

definition field :: "obj \<Rightarrow> string \<Rightarrow> (json \<Rightarrow> bool) \<Rightarrow> unit result" where
  "field ob k p = bindE (item ob k) (\<lambda>v. check (p v) k)"

fun each_field :: "obj \<Rightarrow> (string \<times> (json \<Rightarrow> bool)) list \<Rightarrow> unit result" where
  "each_field ob [] = Inr ()"
| "each_field ob ((k, p) # ps) = bindE (field ob k p) (\<lambda>_. each_field ob ps)"

definition compat_field :: "obj \<Rightarrow> string \<Rightarrow> string \<Rightarrow> unit result" where
  "compat_field ob k s = bindE (item ob k) (\<lambda>v. if v \<noteq> JStr s then compat_error k else Inr ())"

definition check_header :: "obj \<Rightarrow> unit result" where
  "check_header ob =
     bindE (field ob ''schema_version'' is_one) (\<lambda>_.
     bindE (compat_field ob ''product'' ''SA-02m'') (\<lambda>_.
     bindE (compat_field ob ''model'' ''A40i'') (\<lambda>_.
     bindE (compat_field ob ''arch'' ''armv7l'') (\<lambda>_.
       each_field ob [(''version'', is_str is_valid), (''min_updater'', is_str is_valid), (''min_version'', is_str is_valid),
         (''repo_commit'', is_str HEX40), (''built_at'', is_str ISO8601), (''signing_key_id'', is_str KEY_ID)]))))"

text \<open>An object with exactly the given keys.\<close>

definition closed_object :: "string \<Rightarrow> string list \<Rightarrow> json \<Rightarrow> obj result" where
  "closed_object path keys v =
     bindE (the_object path v) (\<lambda>ob.
     bindE (reject_unknown path ob keys) (\<lambda>_. bindE (require_keys path ob keys) (\<lambda>_. Inr ob)))"

definition check_payload :: "json \<Rightarrow> unit result" where
  "check_payload v =
     bindE (closed_object ''payload'' PAYLOAD_KEYS v) (\<lambda>ob.
       each_field ob [(''size'', is_positive), (''sha256'', is_str HEX64), (''uncompressed_size_max'', is_positive)])"

definition check_preflight :: "json \<Rightarrow> unit result" where
  "check_preflight v =
     bindE (closed_object ''preflight'' PREFLIGHT_KEYS v) (\<lambda>ob.
       each_field ob [(''commands'', \<lambda>c. c \<noteq> JList [] \<and> list_all_json (is_str (starts ''/'')) c),
         (''free_bytes_min'', is_positive), (''free_bytes_multiplier'', is_positive)])"

definition relative :: "string \<Rightarrow> bool" where
  "relative s \<longleftrightarrow> s \<noteq> [] \<and> \<not> starts ''/'' s"

definition check_deploy_item :: "json \<Rightarrow> unit result" where
  "check_deploy_item v =
     bindE (closed_object ''deploy'' DEPLOY_KEYS v) (\<lambda>ob.
       each_field ob [(''src'', is_str relative), (''src'', is_str no_parent), (''dst'', dst_allowed),
         (''dst'', is_str (\<lambda>s. \<not> path_is_preserved s)), (''mode'', is_str MODE), (''owner'', is_str OWNER)])"

fun check_all :: "('a \<Rightarrow> unit result) \<Rightarrow> 'a list \<Rightarrow> unit result" where
  "check_all f [] = Inr ()"
| "check_all f (x # xs) = bindE (f x) (\<lambda>_. check_all f xs)"

definition check_deploy :: "json \<Rightarrow> unit result" where
  "check_deploy v = bindE (the_array ''deploy'' v) (check_all check_deploy_item)"

definition string_array :: "json \<Rightarrow> bool" where
  "string_array = list_all_json (is_str (\<lambda>s. s \<noteq> []))"

definition prefix_path :: "string \<Rightarrow> bool" where
  "prefix_path s \<longleftrightarrow> starts ''/'' s \<and> ends ''/'' s \<and> no_parent s"

definition check_restart_if_changed :: "json \<Rightarrow> unit result" where
  "check_restart_if_changed v =
     (if v = JNull then Inr ()
      else bindE (the_object ''services.restart_if_changed'' v) (check_all (\<lambda>(u, p).
        check (u \<noteq> [] \<and> is_str prefix_path p) ''services.restart_if_changed'')))"

definition check_health :: "json \<Rightarrow> unit result" where
  "check_health v =
     bindE (closed_object ''services.health'' HEALTH_KEYS v) (\<lambda>ob.
       each_field ob [(''http_url'', is_str (starts ''http'')), (''units_active'', string_array),
         (''version_file'', is_str (starts ''/''))])"

definition check_services :: "json \<Rightarrow> unit result" where
  "check_services v =
     bindE (the_object ''services'' v) (\<lambda>ob.
     bindE (reject_unknown ''services'' ob (SERVICES_KEYS_REQUIRED @ SERVICES_KEYS_OPTIONAL)) (\<lambda>_.
     bindE (require_keys ''services'' ob SERVICES_KEYS_REQUIRED) (\<lambda>_.
     bindE (field ob ''daemon_reload'' is_bool) (\<lambda>_.
     bindE (check_all (\<lambda>k. check (get ob k = JNull \<or> string_array (get ob k)) k)
         [''stop_before_apply'', ''restart'', ''enable'', ''restart_if_active'']) (\<lambda>_.
     bindE (check_restart_if_changed (get ob ''restart_if_changed'')) (\<lambda>_.
     bindE (item ob ''health'') check_health))))))"

definition check_delete :: "json \<Rightarrow> unit result" where
  "check_delete v = bindE (the_array ''delete'' v) (check_all (\<lambda>d. check (delete_allowed d) ''delete''))"

definition check_migration :: "json \<Rightarrow> unit result" where
  "check_migration v =
     bindE (closed_object ''migrations'' MIGRATION_KEYS v) (\<lambda>ob.
       each_field ob [(''id'', is_str (\<lambda>s. s \<noteq> [])), (''min_from'', is_str is_valid), (''script'', is_str relative),
         (''sha256'', is_str HEX64), (''reversible'', is_bool)])"

definition check_migrations :: "json \<Rightarrow> unit result" where
  "check_migrations v = bindE (the_array ''migrations'' v) (check_all check_migration)"

definition validate_manifest_object :: "json \<Rightarrow> obj result" where
  "validate_manifest_object v =
     bindE (closed_object ''manifest'' TOP_KEYS v) (\<lambda>ob.
     bindE (check_header ob) (\<lambda>_.
     bindE (bindE (item ob ''payload'') check_payload) (\<lambda>_.
     bindE (bindE (item ob ''preflight'') check_preflight) (\<lambda>_.
     bindE (bindE (item ob ''deploy'') check_deploy) (\<lambda>_.
     bindE (bindE (item ob ''services'') check_services) (\<lambda>_.
     bindE (bindE (item ob ''delete'') check_delete) (\<lambda>_.
     bindE (bindE (item ob ''migrations'') check_migrations) (\<lambda>_.
       Inr ob))))))))"

section \<open>Only package errors\<close>

text \<open>A check is tame when it succeeds or raises a \<open>PackageError\<close>.\<close>

definition tame :: "'a result \<Rightarrow> bool" where
  "tame r \<longleftrightarrow> (case r of Inl e \<Rightarrow> \<exists>c w. e = PackageError c w | Inr _ \<Rightarrow> True)"

lemma tame_simps [simp]: "tame (Inr x)" "tame (manifest_error w)" "tame (compat_error w)" "tame (check b w)"
  by (simp_all add: tame_def manifest_error_def compat_error_def check_def)

lemma tame_bind [intro]: "tame m \<Longrightarrow> (\<And>x. m = Inr x \<Longrightarrow> tame (f x)) \<Longrightarrow> tame (bindE m f)"
  by (cases m) (auto simp: tame_def)

lemma tame_check_all [intro]: "(\<And>x. tame (f x)) \<Longrightarrow> tame (check_all f xs)"
  by (induction xs) auto

lemma tame_the [simp]: "tame (the_object w v)" "tame (the_array w v)" "tame (reject_unknown w ob ks)" "tame (require_keys w ob ks)"
  by (cases v; simp add: reject_unknown_def require_keys_def)+

lemma closed_object_keys: "closed_object w ks v = Inr ob \<Longrightarrow> k \<in> set ks \<Longrightarrow> map_of ob k \<noteq> None"
  by (auto simp: closed_object_def require_keys_def check_def manifest_error_def bindE_Inr_conv list_all_iff
      split: if_splits)

lemma tame_closed [simp]: "tame (closed_object w ks v)"
  unfolding closed_object_def by (intro tame_bind) simp_all

lemma tame_item: "map_of ob k \<noteq> None \<Longrightarrow> tame (item ob k)"
  by (auto simp: item_def)

lemma tame_field: "map_of ob k \<noteq> None \<Longrightarrow> tame (field ob k p)"
  unfolding field_def by (intro tame_bind tame_item) simp_all

lemma tame_each_field: "\<forall>(k, p)\<in>set ps. map_of ob k \<noteq> None \<Longrightarrow> tame (each_field ob ps)"
  by (induction ps) (auto intro!: tame_bind tame_field)

lemma tame_closed_fields:
  assumes "list_all (\<lambda>(k, p). k \<in> set ks) ps"
  shows "tame (bindE (closed_object w ks v) (\<lambda>ob. each_field ob ps))"
  using assms by (intro tame_bind tame_each_field) (auto simp: list_all_iff dest: closed_object_keys)

lemma tame_parts [simp]:
  "tame (check_payload v)" "tame (check_preflight v)" "tame (check_deploy_item v)" "tame (check_health v)"
  "tame (check_migration v)"
  unfolding check_payload_def check_preflight_def check_deploy_item_def check_health_def check_migration_def
  by (rule tame_closed_fields; simp add: PAYLOAD_KEYS_def PREFLIGHT_KEYS_def DEPLOY_KEYS_def HEALTH_KEYS_def MIGRATION_KEYS_def)+

lemma require_keys_Inr: "require_keys w ob ks = Inr () \<Longrightarrow> k \<in> set ks \<Longrightarrow> map_of ob k \<noteq> None"
  by (auto simp: require_keys_def check_def manifest_error_def list_all_iff split: if_splits)

lemma tame_lists [simp]: "tame (check_deploy v)" "tame (check_delete v)" "tame (check_migrations v)"
  "tame (check_restart_if_changed v)"
  unfolding check_deploy_def check_delete_def check_migrations_def check_restart_if_changed_def
  by (auto intro!: tame_bind tame_check_all split: prod.split)

lemma tame_services [simp]: "tame (check_services v)"
  unfolding check_services_def
  by (intro tame_bind tame_check_all tame_field tame_item) (auto simp: SERVICES_KEYS_REQUIRED_def dest: require_keys_Inr)

lemma tame_header: "\<forall>k\<in>set TOP_KEYS. map_of ob k \<noteq> None \<Longrightarrow> tame (check_header ob)"
  unfolding check_header_def compat_field_def
  by (intro tame_bind tame_each_field tame_field tame_item) (auto simp: TOP_KEYS_def)


section \<open>What an accepted manifest may write and delete\<close>

lemma each_field_Inr: "each_field ob ps = Inr () \<Longrightarrow> (k, p) \<in> set ps \<Longrightarrow> \<exists>v. map_of ob k = Some v \<and> p v"
  by (induction ps)
    (auto simp: bindE_Inr_conv field_def item_def check_def manifest_error_def split: option.splits if_splits)

lemma check_all_Inr: "check_all f xs = Inr () \<longleftrightarrow> (\<forall>x\<in>set xs. f x = Inr ())"
  by (induction xs) (auto simp: bindE_Inr_conv)

lemma is_strE: "is_str p v \<Longrightarrow> \<exists>s. v = JStr s \<and> p s"
  by (cases v) auto

lemma closed_object_Inr: "closed_object w ks v = Inr ob \<Longrightarrow> v = JObj ob"
  by (cases v) (auto simp: closed_object_def bindE_Inr_conv manifest_error_def)

lemma the_array_Inr: "the_array w v = Inr xs \<Longrightarrow> v = JList xs"
  by (cases v) (auto simp: manifest_error_def)

lemma validate_parts:
  assumes "validate_manifest_object v = Inr ob"
  obtains ds dels where "map_of ob ''deploy'' = Some (JList ds)" "\<forall>d\<in>set ds. check_deploy_item d = Inr ()"
    "map_of ob ''delete'' = Some (JList dels)" "\<forall>d\<in>set dels. delete_allowed d"
proof -
  from assms obtain dv ev where "item ob ''deploy'' = Inr dv" "check_deploy dv = Inr ()"
    "item ob ''delete'' = Inr ev" "check_delete ev = Inr ()"
    by (auto simp: validate_manifest_object_def bindE_Inr_conv)
  moreover from this obtain ds es where "dv = JList ds" "ev = JList es"
    by (auto simp: check_deploy_def check_delete_def bindE_Inr_conv dest: the_array_Inr)
  ultimately show ?thesis
    by (intro that [of ds es])
      (auto simp: item_def check_deploy_def check_delete_def check_all_Inr check_def manifest_error_def
        split: option.splits if_splits)
qed

definition confined :: "string \<Rightarrow> bool" where
  "confined s \<longleftrightarrow> list_ex (\<lambda>d. starts d s) DST_DIRECTORIES \<or> opt_package s \<or> to_end (\<lambda>s. s \<in> set DST_FILES) s"


text \<open>The components of a path that count: no empty ones and no dots.\<close>

fun clean :: "string list \<Rightarrow> string list" where
  "clean [] = []"
| "clean (c # cs) = (if c = '''' \<or> c = ''.'' then clean cs else c # clean cs)"

text \<open>The protected list is compared with the destination as written: a destination with a dot
  component, which names the same file, passes both checks although the file is protected.\<close>

lemma protected_path_evaded:
  "path_is_preserved ''/etc/nginx/.htpasswd'' \<and> dst_allowed (JStr ''/etc/nginx/./.htpasswd'') \<and>
   \<not> path_is_preserved ''/etc/nginx/./.htpasswd'' \<and>
   clean (split_on CHR ''/'' ''/etc/nginx/./.htpasswd'') = clean (split_on CHR ''/'' ''/etc/nginx/.htpasswd'')"
  by (intro conjI; code_simp)

text \<open>Nothing below \<^verbatim>\<open>/usr/local\<close> and no unit file of the product can be deleted by a manifest, unless its
  path is written with a doubled slash: the pattern wants one more slash after its prefixes.\<close>

lemma deletions_refused:
  assumes "c \<noteq> CHR ''/''"
  shows "\<not> delete_allowed (JStr (''/usr/local/'' @ c # r)) \<and>
    \<not> delete_allowed (JStr (''/etc/systemd/system/sa02m-'' @ c # r))"
  using assms by (simp add: delete_allowed_def starts_def opt_package_def)

lemma deletions_refused_witness:
  "\<not> delete_allowed (JStr ''/usr/local/sbin/old'') \<and> \<not> delete_allowed (JStr ''/etc/systemd/system/sa02m-s'') \<and>
   delete_allowed (JStr ''/usr/local//sbin/old'')"
proof -
  have "\<not> delete_allowed (JStr (''/usr/local/'' @ CHR ''s'' # ''bin/old''))"
    using deletions_refused [of "CHR ''s''" "''bin/old''"] by blast
  moreover have "\<not> delete_allowed (JStr (''/etc/systemd/system/sa02m-'' @ CHR ''s'' # []))"
    using deletions_refused [of "CHR ''s''" "[]"] by blast
  moreover have "delete_allowed (JStr ''/usr/local//sbin/old'')"
    by (simp add: delete_allowed_def starts_def no_parent_def)
  ultimately show ?thesis by simp
qed

definition sample_manifest :: json where
  "sample_manifest = JObj [(''schema_version'', JInt 1), (''product'', JStr ''SA-02m''), (''model'', JStr ''A40i''),
     (''arch'', JStr ''armv7l''), (''version'', JStr ''1.0.8''), (''min_updater'', JStr ''1.0.5.66''),
     (''min_version'', JStr ''1.0.5''), (''repo_commit'', JStr (replicate 40 CHR ''a'')),
     (''built_at'', JStr ''2026-08-28T00:00:00Z''), (''signing_key_id'', JStr ''k1''),
     (''payload'', JObj [(''size'', JInt 1), (''sha256'', JStr (replicate 64 CHR ''0'')), (''uncompressed_size_max'', JInt 1)]),
     (''preflight'', JObj [(''commands'', JList [JStr ''/bin/true'']), (''free_bytes_min'', JInt 1), (''free_bytes_multiplier'', JInt 1)]),
     (''deploy'', JList [JObj [(''src'', JStr ''www/a''), (''dst'', JStr ''/var/www/network_config/a''),
        (''mode'', JStr ''644''), (''owner'', JStr ''root:root'')]]),
     (''services'', JObj [(''daemon_reload'', JBool False), (''stop_before_apply'', JNull), (''restart'', JList []),
        (''health'', JObj [(''http_url'', JStr ''http://x''), (''units_active'', JList []), (''version_file'', JStr ''/v'')])]),
     (''delete'', JList [JStr ''/var/www/network_config/b'']), (''migrations'', JList [])]"

lemma sample_manifest_accepted: "is_ok (validate_manifest_object sample_manifest)"
  by code_simp


end
