(* ===== verification/Package.thy ===== *)
theory Package
  imports Manifest
begin

text \<open>
  The update package around its manifest, \<^verbatim>\<open>sa02m-update/lib/validate_package.py\<close>: the trailer, the
  members of the outer and of the inner archive, the signature, the digests and the order in which
  \<^verbatim>\<open>validate_package\<close> checks them.  Reading an archive, JSON, base64, SHA-256 and Ed25519 are
  arguments; the archive arrives as the list of its members.  Unpacking to disk is left out.
\<close>

section \<open>The trailer\<close>

definition FOOTER :: bytes where
  "FOOTER = map (\<lambda>c. of_nat (of_char c)) ''SA02M_UPDATE_END_V1'' @ [0, 0]"

definition FOOTER_LEN :: nat where "FOOTER_LEN = 21"

definition package_error :: "string \<Rightarrow> string \<Rightarrow> 'a result" where
  "package_error code what = Inl (PackageError code what)"

definition validate_container :: "bytes \<Rightarrow> nat result" where
  "validate_container data =
     (let size = length data in
      if size < 1024 + FOOTER_LEN then package_error ''E_TRAILER'' ''size''
      else if drop (size - FOOTER_LEN) data \<noteq> FOOTER then package_error ''E_TRAILER'' ''trailer''
      else if (size - FOOTER_LEN) mod 512 \<noteq> 0 then package_error ''E_TAR'' ''alignment''
      else Inr (size - FOOTER_LEN))"

section \<open>Archive members\<close>

datatype kind = Regular | Directory | Symlink | Hardlink | Device | Fifo | Other_kind

record member =
  m_name :: string
  m_kind :: kind
  m_size :: int
  m_sparse :: bool
  m_data :: bytes

definition strip_dot :: "string \<Rightarrow> string" where
  "strip_dot name = (if starts ''./'' name then drop 2 name else name)"

definition OUTER_REQUIRED :: "string list" where
  "OUTER_REQUIRED = [''manifest.json'', ''manifest.sig'', ''payload.tar.gz'', ''payload.sha256'']"

definition outer_member :: "(string \<times> bytes) list \<Rightarrow> member \<Rightarrow> (string \<times> bytes) list result" where
  "outer_member seen m =
     (let name = strip_dot (m_name m) in
      if name \<notin> set OUTER_REQUIRED then package_error ''E_TAR'' ''unexpected''
      else if name \<in> fst ` set seen then package_error ''E_TAR'' ''duplicate''
      else if m_kind m = Symlink \<or> m_kind m = Hardlink then package_error ''E_TAR_SYMLINK'' ''outer''
      else if m_kind m \<noteq> Regular then package_error ''E_TAR'' ''regular''
      else if name \<noteq> ''payload.tar.gz'' \<and> 2 * 1024 * 1024 < m_size m then package_error ''E_TAR'' ''too large''
      else Inr (seen @ [(name, m_data m)]))"

fun outer_members :: "(string \<times> bytes) list \<Rightarrow> member list \<Rightarrow> (string \<times> bytes) list result" where
  "outer_members seen [] =
     (if set (map fst seen) = set OUTER_REQUIRED then Inr seen else package_error ''E_TAR'' ''missing'')"
| "outer_members seen (m # ms) = bindE (outer_member seen m) (\<lambda>seen'. outer_members seen' ms)"

section \<open>The inner archive\<close>

definition nested :: "string \<Rightarrow> bool" where
  "nested name \<longleftrightarrow> (let l = map lower_char name in
     ends ''.tar'' l \<or> ends ''.tar.gz'' l \<or> ends ''.sa02m'' l \<or> ends ''.tgz'' l)"

definition check_inner_member_name :: "string \<Rightarrow> string result" where
  "check_inner_member_name raw =
     (let name = strip_dot raw in
      if name = [] \<or> starts ''/'' name \<or> hd name = char_of (92 :: nat) then package_error ''E_TAR_TRAV'' ''absolute''
      else if \<not> no_parent name then package_error ''E_TAR_TRAV'' ''parent''
      else if nested name then package_error ''E_TAR'' ''nested archive''
      else Inr name)"

definition inner_kind :: "member \<Rightarrow> unit result" where
  "inner_kind m =
     (if m_kind m = Symlink \<or> m_kind m = Hardlink then package_error ''E_TAR_SYMLINK'' ''inner''
      else if m_kind m = Device \<or> m_kind m = Fifo then package_error ''E_TAR_DEVICE'' ''inner''
      else if m_sparse m then package_error ''E_TAR'' ''sparse''
      else if m_kind m \<noteq> Regular \<and> m_kind m \<noteq> Directory then package_error ''E_TAR'' ''type''
      else Inr ())"

definition TAR_BOMB_RATIO_MAX :: int where "TAR_BOMB_RATIO_MAX = 20"

definition counted :: "int \<Rightarrow> int \<Rightarrow> member \<Rightarrow> int result" where
  "counted limit acc m =
     (if m_kind m \<noteq> Regular then Inr acc
      else if m_size m < 0 then package_error ''E_TAR'' ''negative size''
      else if limit < acc + m_size m then package_error ''E_TAR_BOMB'' ''size''
      else Inr (acc + m_size m))"

fun inner_members :: "int \<Rightarrow> int \<Rightarrow> string list \<Rightarrow> member list \<Rightarrow> int result" where
  "inner_members limit acc seen [] = Inr acc"
| "inner_members limit acc seen (m # ms) =
     bindE (check_inner_member_name (m_name m)) (\<lambda>name.
       if name \<in> set seen then package_error ''E_TAR'' ''duplicate''
       else bindE (inner_kind m) (\<lambda>_. bindE (counted limit acc m) (\<lambda>acc'.
         inner_members limit acc' (name # seen) ms)))"

definition validate_safe_tar_members :: "int \<Rightarrow> int \<Rightarrow> member list \<Rightarrow> member list result" where
  "validate_safe_tar_members limit compressed ms =
     bindE (inner_members limit 0 [] ms) (\<lambda>uncompressed.
       if 0 < compressed \<and> compressed * TAR_BOMB_RATIO_MAX < uncompressed then package_error ''E_TAR_BOMB'' ''ratio''
       else Inr ms)"

section \<open>Signature and digests\<close>

text \<open>
  What the checks take from elsewhere: the members of an archive and whether it ended cleanly, JSON
  and its canonical text, base64, UTF-8 with replacement, SHA-256 in hexadecimal, Ed25519.
\<close>

record library =
  untar :: "bytes \<Rightarrow> member list \<times> bool"
  untargz :: "bytes \<Rightarrow> member list result"
  loads :: "bytes \<Rightarrow> json option"
  canonical :: "obj \<Rightarrow> bytes"
  b64decode :: "string \<Rightarrow> bytes option"
  utf8 :: "bytes \<Rightarrow> string"
  sha256 :: "bytes \<Rightarrow> string"
  ed25519 :: "bytes \<Rightarrow> bytes \<Rightarrow> bytes \<Rightarrow> bool"

definition SIG_DOMAIN :: bytes where
  "SIG_DOMAIN = map (\<lambda>c. of_nat (of_char c)) ''SA02M-MANIFEST-V1'' @ [0]"

definition signature_message :: "library \<Rightarrow> obj \<Rightarrow> bytes" where
  "signature_message lib ob = SIG_DOMAIN @ canonical lib ob"

definition MAX_FALLBACK_KEYS :: nat where "MAX_FALLBACK_KEYS = 8"

text \<open>The trusted keys: the stems of the \<^verbatim>\<open>.pem\<close> files in order, with their contents.\<close>

definition candidates :: "(string \<times> bytes) list \<Rightarrow> string \<Rightarrow> (string \<times> bytes) list" where
  "candidates keys key_id =
     (let preferred = filter (\<lambda>(stem, pem). stem = key_id) keys in
      preferred @ take (MAX_FALLBACK_KEYS - length preferred) (filter (\<lambda>(stem, pem). stem \<noteq> key_id) keys))"

definition key_text :: "json \<Rightarrow> string" where
  "key_text v = (case v of JStr s \<Rightarrow> s | _ \<Rightarrow> [])"

definition verify_manifest_signature :: "library \<Rightarrow> (string \<times> bytes) list option \<Rightarrow> obj \<Rightarrow> string \<Rightarrow> string result" where
  "verify_manifest_signature lib keys_dir ob sig_text =
     (case b64decode lib (py_strip sig_text) of
        None \<Rightarrow> package_error ''E_SIG'' ''base64''
      | Some signature \<Rightarrow>
          if length signature \<noteq> 64 then package_error ''E_SIG'' ''length''
          else (case keys_dir of
              None \<Rightarrow> package_error ''E_SIG'' ''no key directory''
            | Some keys \<Rightarrow>
                (let cs = candidates keys (key_text (get ob ''signing_key_id'')) in
                 if cs = [] then package_error ''E_SIG'' ''no keys''
                 else (case find (\<lambda>(stem, pem). ed25519 lib pem (signature_message lib ob) signature) cs of
                     Some (stem, pem) \<Rightarrow> Inr stem
                   | None \<Rightarrow> package_error ''E_SIG'' ''rejected''))))"

text \<open>\<^verbatim>\<open>splitlines()\<close> on the line ends a digest file has.\<close>

fun first_line :: "string \<Rightarrow> string" where
  "first_line [] = []"
| "first_line (c # cs) = (let n = of_char c :: nat in
     if (10 \<le> n \<and> n \<le> 13) \<or> (28 \<le> n \<and> n \<le> 30) \<or> n = 0x85 then [] else c # first_line cs)"

definition parse_sha256_sidecar :: "string \<Rightarrow> string result" where
  "parse_sha256_sidecar text =
     (let ws = split_space [] (first_line (py_strip text));
          token = map lower_char (case ws of [] \<Rightarrow> [] | w # _ \<Rightarrow> w) in
      if HEX64 token then Inr token else package_error ''E_HASH'' ''sidecar'')"

section \<open>The whole package\<close>

definition check_device_compat :: "obj \<Rightarrow> string \<Rightarrow> string \<Rightarrow> unit result" where
  "check_device_compat ob installed runner =
     (if get ob ''product'' \<noteq> JStr ''SA-02m'' then compat_error ''product''
      else if get ob ''model'' \<noteq> JStr ''A40i'' then compat_error ''model''
      else if get ob ''arch'' \<noteq> JStr ''armv7l'' then compat_error ''arch''
      else (case check_update_gates installed (key_text (get ob ''version'')) (key_text (get ob ''min_version''))
            runner (key_text (get ob ''min_updater'')) of
          None \<Rightarrow> Inr ()
        | Some g \<Rightarrow> compat_error ''gates''))"

record inspected =
  i_tar_size :: nat
  i_manifest :: obj
  i_key :: string
  i_digest :: string

definition the_bytes :: "(string \<times> bytes) list \<Rightarrow> string \<Rightarrow> bytes" where
  "the_bytes ms k = (case map_of ms k of Some b \<Rightarrow> b | None \<Rightarrow> [])"

fun int_field :: "json \<Rightarrow> int" where
  "int_field (JInt n) = n"
| "int_field _ = 0"

fun obj_field :: "json \<Rightarrow> obj" where
  "obj_field (JObj ob) = ob"
| "obj_field _ = []"

definition read_outer :: "library \<Rightarrow> bytes \<Rightarrow> (string \<times> bytes) list result" where
  "read_outer lib data =
     (case untar lib data of (ms, clean_end) \<Rightarrow>
        if clean_end then outer_members [] ms
        else bindE (foldl (\<lambda>r m. bindE r (\<lambda>seen. outer_member seen m)) (Inr []) ms)
          (\<lambda>_. package_error ''E_TAR'' ''outer tar error''))"

text \<open>From the manifest on.\<close>

definition validate_members :: "library \<Rightarrow> (string \<times> bytes) list option \<Rightarrow> (string \<times> string) option \<Rightarrow> nat
    \<Rightarrow> (string \<times> bytes) list \<Rightarrow> inspected result" where
  "validate_members lib keys device tar_size ms =
     bindE (case loads lib (the_bytes ms ''manifest.json'') of
         None \<Rightarrow> manifest_error ''parse'' | Some v \<Rightarrow> validate_manifest_object v) (\<lambda>ob.
     bindE (verify_manifest_signature lib keys ob (utf8 lib (the_bytes ms ''manifest.sig''))) (\<lambda>key.
       let payload = the_bytes ms ''payload.tar.gz''; po = obj_field (get ob ''payload'');
           digest = sha256 lib payload in
       if int (length payload) \<noteq> int_field (get po ''size'') then package_error ''E_HASH'' ''size''
       else if JStr digest \<noteq> get po ''sha256'' then package_error ''E_HASH'' ''manifest digest''
       else bindE (parse_sha256_sidecar (utf8 lib (the_bytes ms ''payload.sha256''))) (\<lambda>sidecar.
         if sidecar \<noteq> digest then package_error ''E_HASH'' ''sidecar digest''
         else bindE (untargz lib payload) (\<lambda>inner.
              bindE (validate_safe_tar_members (int_field (get po ''uncompressed_size_max'')) (int (length payload)) inner) (\<lambda>_.
              bindE (case device of
                  None \<Rightarrow> Inr ()
                | Some (installed, runner) \<Rightarrow>
                    if installed = [] \<or> runner = [] then package_error ''E_INTERNAL'' ''versions''
                    else check_device_compat ob installed runner) (\<lambda>_.
                Inr \<lparr>i_tar_size = tar_size, i_manifest = ob, i_key = key, i_digest = digest\<rparr>))))))"

definition validate_package :: "library \<Rightarrow> (string \<times> bytes) list option \<Rightarrow> (string \<times> string) option \<Rightarrow> bytes \<Rightarrow> inspected result" where
  "validate_package lib keys device data =
     bindE (validate_container data) (\<lambda>tar_size.
     bindE (read_outer lib (take tar_size data)) (\<lambda>ms. validate_members lib keys device tar_size ms))"

section \<open>Properties\<close>

lemma length_FOOTER: "length FOOTER = FOOTER_LEN"
  by (simp add: FOOTER_def FOOTER_LEN_def)

text \<open>The trailer check accepts exactly an archive of at least 1024 bytes in whole blocks of 512 with the
  trailer behind it, and returns the length of the archive.\<close>

lemma container_exactly:
  "validate_container data = Inr n \<longleftrightarrow>
     (\<exists>tar. data = tar @ FOOTER \<and> n = length tar \<and> 1024 \<le> length tar \<and> length tar mod 512 = 0)"
proof
  assume "validate_container data = Inr n"
  then have a: "1024 + FOOTER_LEN \<le> length data" "drop (length data - FOOTER_LEN) data = FOOTER"
    "(length data - FOOTER_LEN) mod 512 = 0" "n = length data - FOOTER_LEN"
    by (auto simp: validate_container_def package_error_def Let_def split: if_splits)
  then have "data = take n data @ FOOTER" by (metis append_take_drop_id)
  moreover have "length (take n data) = n" using a(4) by simp
  ultimately show "\<exists>tar. data = tar @ FOOTER \<and> n = length tar \<and> 1024 \<le> length tar \<and> length tar mod 512 = 0"
    using a by (intro exI [of _ "take n data"]) auto
next
  assume "\<exists>tar. data = tar @ FOOTER \<and> n = length tar \<and> 1024 \<le> length tar \<and> length tar mod 512 = 0"
  then show "validate_container data = Inr n"
    by (auto simp: validate_container_def length_FOOTER Let_def)
qed

definition payload_size :: "member list \<Rightarrow> int" where
  "payload_size ms = sum_list (map (\<lambda>m. if m_kind m = Regular then m_size m else 0) ms)"

definition safe_member :: "member \<Rightarrow> bool" where
  "safe_member m \<longleftrightarrow> (m_kind m = Regular \<and> 0 \<le> m_size m \<or> m_kind m = Directory) \<and> \<not> m_sparse m \<and>
     strip_dot (m_name m) \<noteq> [] \<and> \<not> starts ''/'' (strip_dot (m_name m)) \<and> no_parent (strip_dot (m_name m)) \<and>
     \<not> nested (strip_dot (m_name m))"

lemma check_name_Inr: "check_inner_member_name raw = Inr n \<Longrightarrow>
    n = strip_dot raw \<and> n \<noteq> [] \<and> \<not> starts ''/'' n \<and> no_parent n \<and> \<not> nested n"
  by (auto simp: check_inner_member_name_def package_error_def Let_def split: if_splits)

lemma inner_members_Inr:
  "inner_members limit acc seen ms = Inr t \<Longrightarrow> acc \<le> limit \<Longrightarrow>
     t = acc + payload_size ms \<and> t \<le> limit \<and> list_all safe_member ms \<and>
     distinct (map (\<lambda>m. strip_dot (m_name m)) ms) \<and> set (map (\<lambda>m. strip_dot (m_name m)) ms) \<inter> set seen = {}"
proof (induction ms arbitrary: acc seen)
  case Nil
  then show ?case by (simp add: payload_size_def)
next
  case (Cons m ms)
  let ?n = "strip_dot (m_name m)"
  from Cons.prems(1) obtain acc' where p: "check_inner_member_name (m_name m) = Inr ?n" "?n \<notin> set seen"
    "inner_kind m = Inr ()" "counted limit acc m = Inr acc'" "inner_members limit acc' (?n # seen) ms = Inr t"
    by (auto simp: bindE_Inr_conv package_error_def dest: check_name_Inr split: if_splits)
  have acc': "acc' = acc + payload_size [m] \<and> acc' \<le> limit \<and> (m_kind m = Regular \<longrightarrow> 0 \<le> m_size m)"
    using p(4) Cons.prems(2) by (auto simp: counted_def payload_size_def package_error_def split: if_splits)
  have k: "(m_kind m = Regular \<or> m_kind m = Directory) \<and> \<not> m_sparse m"
    using p(3) by (auto simp: inner_kind_def package_error_def split: if_splits)
  from Cons.IH [OF p(5)] acc' have ih: "t = acc' + payload_size ms" "t \<le> limit" "list_all safe_member ms"
    "distinct (map (\<lambda>m. strip_dot (m_name m)) ms)" "set (map (\<lambda>m. strip_dot (m_name m)) ms) \<inter> set (?n # seen) = {}"
    by auto
  have "safe_member m" using k acc' check_name_Inr [OF p(1)] by (auto simp: safe_member_def)
  moreover have "t = acc + payload_size (m # ms)" using ih(1) acc' by (simp add: payload_size_def)
  ultimately show ?case using ih p(2) by auto
qed

lemma inner_archive_Inr:
  assumes "validate_safe_tar_members limit compressed ms = Inr ms'"
  obtains t where "inner_members limit 0 [] ms = Inr t" and "ms' = ms" and "compressed \<le> 0 \<or> t \<le> compressed * TAR_BOMB_RATIO_MAX"
  using assms by (auto simp: validate_safe_tar_members_def bindE_Inr_conv package_error_def split: if_splits)

text \<open>C34: The members of an accepted inner archive are plain files and directories with relative names that
  do not climb and do not repeat, and all files together are no larger than the declared size and
  twenty times the compressed archive.\<close>

theorem inner_archive_safe:
  assumes "validate_safe_tar_members limit compressed ms = Inr ms'" and "0 \<le> limit"
  shows "ms' = ms \<and> list_all safe_member ms \<and> distinct (map (\<lambda>m. strip_dot (m_name m)) ms) \<and>
    payload_size ms \<le> limit \<and> (compressed \<le> 0 \<or> payload_size ms \<le> 20 * compressed)"
proof -
  from assms(1) obtain t where t: "inner_members limit 0 [] ms = Inr t" "ms' = ms"
    "compressed \<le> 0 \<or> t \<le> compressed * TAR_BOMB_RATIO_MAX" by (rule inner_archive_Inr)
  from inner_members_Inr [OF t(1)] assms(2) t(2,3) show ?thesis by (auto simp: TAR_BOMB_RATIO_MAX_def)
qed

theorem inner_archive_safe_witness:
  "let m = \<lparr>m_name = ''./www/a'', m_kind = Regular, m_size = 40, m_sparse = False, m_data = []\<rparr> in
    validate_safe_tar_members 40 2 [m] = Inr [m] \<and> safe_member m"
proof -
  let ?m = "\<lparr>m_name = ''./www/a'', m_kind = Regular, m_size = 40, m_sparse = False, m_data = []\<rparr>"
  have "validate_safe_tar_members 40 2 [?m] = Inr [?m]" by code_simp
  from inner_archive_safe [OF this] this show ?thesis by simp
qed

lemma signature_Inr:
  assumes "verify_manifest_signature lib keys ob sig = Inr stem"
  shows "\<exists>ks pem signature. keys = Some ks \<and> (stem, pem) \<in> set ks \<and> length signature = 64 \<and>
    ed25519 lib pem (SIG_DOMAIN @ canonical lib ob) signature"
proof -
  from assms obtain signature ks p where s: "length signature = 64" "keys = Some ks"
    "find (\<lambda>(stem, pem). ed25519 lib pem (signature_message lib ob) signature)
       (candidates ks (key_text (get ob ''signing_key_id''))) = Some p" "stem = fst p"
    by (auto simp: verify_manifest_signature_def package_error_def Let_def split: option.splits if_splits)
  from s(3) have "p \<in> set (candidates ks (key_text (get ob ''signing_key_id'')))"
    "ed25519 lib (snd p) (SIG_DOMAIN @ canonical lib ob) signature"
    by (auto simp: find_Some_iff signature_message_def split_beta)
  moreover have "set (candidates ks k) \<subseteq> set ks" for k
    by (auto simp: candidates_def Let_def dest: in_set_takeD)
  ultimately show ?thesis using s by (intro exI [of _ ks] exI [of _ "snd p"] exI [of _ signature]) auto
qed

lemma validated_limit:
  assumes "validate_manifest_object v = Inr ob"
  shows "1 \<le> int_field (get (obj_field (get ob ''payload'')) ''uncompressed_size_max'')"
proof -
  let ?ps = "[(''size'', is_positive), (''sha256'', is_str HEX64), (''uncompressed_size_max'', is_positive)]"
  from assms obtain pv where "item ob ''payload'' = Inr pv" "check_payload pv = Inr ()"
    by (auto simp: validate_manifest_object_def bindE_Inr_conv)
  then obtain e where e: "get ob ''payload'' = JObj e" "each_field e ?ps = Inr ()"
    by (auto simp: check_payload_def item_def get_def bindE_Inr_conv simp del: each_field.simps
        dest!: closed_object_Inr split: option.splits)
  from each_field_Inr [OF e(2), of "''uncompressed_size_max''" is_positive] obtain w where
    "map_of e ''uncompressed_size_max'' = Some w" "is_positive w" by auto
  then show ?thesis using e(1) by (cases w) (auto simp: get_def)
qed

lemma gates_hold: "check_update_gates a b c d e = None \<Longrightarrow> \<exists>v w. parse a = Some v \<and> parse b = Some w \<and> v < w"
  by (cases "parse a"; cases "parse b"; cases "parse c"; cases "parse d"; cases "parse e")
    (auto simp: check_update_gates_def first_invalid_def gt_parsed ge_parsed split: if_splits)

lemma device_gate_Inr:
  assumes "(case device of
      None \<Rightarrow> Inr ()
    | Some (installed, runner) \<Rightarrow>
        if installed = [] \<or> runner = [] then package_error ''E_INTERNAL'' ''versions''
        else check_device_compat ob installed runner) = Inr ()"
  shows "device = None \<or> (\<exists>installed runner a b. device = Some (installed, runner) \<and>
      parse installed = Some a \<and> parse (key_text (get ob ''version'')) = Some b \<and> a < b)"
proof (cases device)
  case (Some ir)
  obtain installed runner where ir: "ir = (installed, runner)" by (cases ir)
  with assms Some have "check_update_gates installed (key_text (get ob ''version'')) (key_text (get ob ''min_version''))
      runner (key_text (get ob ''min_updater'')) = None"
    by (auto simp: check_device_compat_def compat_error_def package_error_def split: option.splits if_splits)
  from gates_hold [OF this] show ?thesis using Some ir by blast
qed simp


definition toy_library :: library where
  "toy_library =
     \<lparr>untar = (\<lambda>b. (map (\<lambda>n. \<lparr>m_name = n, m_kind = Regular, m_size = 1, m_sparse = False, m_data = [7]\<rparr>) OUTER_REQUIRED, True)),
      untargz = (\<lambda>b. Inr []), loads = (\<lambda>b. Some sample_manifest), canonical = (\<lambda>ob. []),
      b64decode = (\<lambda>s. Some (replicate 64 0)), utf8 = (\<lambda>b. replicate 64 CHR ''0''),
      sha256 = (\<lambda>b. replicate 64 CHR ''0''), ed25519 = (\<lambda>pem m sg. True)\<rparr>"

lemma toy_package_accepted: "is_ok (validate_package toy_library (Some [(''k1'', [])]) None (replicate 1024 0 @ FOOTER))"
proof -
  have c: "validate_container (replicate 1024 0 @ FOOTER) = Inr 1024"
    unfolding container_exactly by (intro exI [of _ "replicate 1024 0"]) simp
  let ?ms = "map (\<lambda>n. (n, [7])) OUTER_REQUIRED"
  have "read_outer toy_library x = read_outer toy_library []" for x
    by (simp add: read_outer_def toy_library_def)
  moreover have "read_outer toy_library [] = Inr ?ms" by code_simp
  ultimately have "read_outer toy_library x = Inr ?ms" for x by simp
  moreover have "is_ok (validate_members toy_library (Some [(''k1'', [])]) None n ?ms)" for n by code_simp
  ultimately show ?thesis by (simp add: validate_package_def c)
qed


end
