(* ===== verification/Signatures.thy ===== *)
theory Signatures
  imports Text "HOL-Library.Sublist"
begin

text \<open>
  Which firmware a module takes, from the signature it reports
  (\<^verbatim>\<open>sa02m_flasher/module_profiles.py\<close>, with the alias lists of \<^verbatim>\<open>sa02m_led\<close> and \<^verbatim>\<open>sa02m_carel\<close>).
  Signatures are ASCII text, as the decoder of register 290 produces them: case is that of the
  ASCII letters, and the comparisons with the dash character never match.
\<close>

section \<open>Text of signatures\<close>

text \<open>\<^verbatim>\<open>s.upper()\<close>; \<^verbatim>\<open>key in s\<close>, \<^verbatim>\<open>s.startswith(p)\<close> and \<^verbatim>\<open>s.endswith(p)\<close> are the library's sublist, prefix and suffix.\<close>

definition upper :: "string \<Rightarrow> string" where "upper s = map upper_char s"

definition without :: "char \<Rightarrow> string \<Rightarrow> string" where "without c s = filter (\<lambda>x. x \<noteq> c) s"

definition normalize_signature :: "string \<Rightarrow> string" where
  "normalize_signature sig = without CHR '' '' (upper (py_strip sig))"

definition strip_bootloader_signature_suffix :: "string \<Rightarrow> string" where
  "strip_bootloader_signature_suffix signature =
     (let s = py_strip signature in
      if suffix ''_BL'' (upper s) then py_strip (take (length s - 3) s) else s)"

section \<open>Families\<close>

text \<open>Which of the two shared packages is deployed; without its package no device is of its family.\<close>

record deployed =
  has_carel :: bool
  has_led :: bool

definition SIG_CARELS :: "string list" where
  "SIG_CARELS = [''CRSTDRAHAQ'', ''CRKRFAHAQ'', ''CRSTDM_AHU'', ''CRSTDM'', ''UARIA'', ''C.PCOMINI'', ''CPCOMINI'', ''C.PCO'']"

definition signature_looks_like_carel :: "string \<Rightarrow> bool" where
  "signature_looks_like_carel signature =
     (let n = normalize_signature signature in
      n \<notin> {[], ''-'', ''NONE'', ''?''} \<and> list_ex (\<lambda>key. sublist key n) SIG_CARELS)"

definition LED_SIGNATURE_ALIASES :: "string list" where
  "LED_SIGNATURE_ALIASES = [''RGBW_WS2812'', ''RGBWWS2812'', ''RGBW'', ''LED'']"

definition LED_SIGNATURE_PREFIXES :: "string list" where
  "LED_SIGNATURE_PREFIXES = [''RGBW_WS2812'', ''RGBWWS2812'']"

definition signature_looks_like_led :: "string \<Rightarrow> bool" where
  "signature_looks_like_led signature =
     (let n = normalize_signature signature in
      n \<notin> {[], ''-'', ''NONE'', ''?''} \<and>
      (n \<in> set LED_SIGNATURE_ALIASES \<or> list_ex (\<lambda>p. prefix p n) LED_SIGNATURE_PREFIXES))"

definition signature_is_carel :: "deployed \<Rightarrow> string \<Rightarrow> bool" where
  "signature_is_carel d signature \<longleftrightarrow> has_carel d \<and> signature_looks_like_carel signature"

definition signature_is_led :: "deployed \<Rightarrow> string \<Rightarrow> bool" where
  "signature_is_led d signature \<longleftrightarrow> has_led d \<and> signature_looks_like_led signature"

definition MP02_CE02M3 :: int where "MP02_CE02M3 = 100"
definition DTV :: int where "DTV = 17"
definition CAREL_AHU :: int where "CAREL_AHU = 210"
definition RGBW_WS2812 :: int where "RGBW_WS2812 = 120"

definition SPECIAL_SIG_CODES :: "(string \<times> int) list" where
  "SPECIAL_SIG_CODES =
     [(''CE02M3'', MP02_CE02M3), (''CE-02M3'', MP02_CE02M3), (''CE-02M-3'', MP02_CE02M3),
      (''EN_METER'', MP02_CE02M3), (''ENMETER'', MP02_CE02M3),
      (''SENSOR'', DTV), (''SENS.'', DTV), (''SENS'', DTV),
      (''RGBW_WS2812'', RGBW_WS2812), (''RGBWWS2812'', RGBW_WS2812), (''RGBW'', RGBW_WS2812),
      (''LED'', RGBW_WS2812)]"

definition code_from_signature :: "deployed \<Rightarrow> string \<Rightarrow> int option" where
  "code_from_signature d signature =
     (if signature_is_carel d signature then Some CAREL_AHU
      else if signature_is_led d signature then Some RGBW_WS2812
      else let n = normalize_signature signature in
        map_option snd (List.find (\<lambda>(key, code). code \<noteq> RGBW_WS2812 \<and> (sublist key n \<or> prefix key n))
          SPECIAL_SIG_CODES))"

text \<open>Numbers of discrete outputs, discrete inputs, analogue outputs and analogue inputs.\<close>

type_synonym caps = "nat \<times> nat \<times> nat \<times> nat"

definition SIGNATURE_HINTS :: "(string \<times> caps) list" where
  "SIGNATURE_HINTS =
     [(''6DO8DI'', 6, 8, 0, 0), (''DO6DI8'', 6, 8, 0, 0), (''16DO'', 16, 0, 0, 0),
      (''12AO'', 0, 0, 12, 0), (''6DO'', 6, 0, 0, 0), (''14DI'', 0, 14, 0, 0),
      (''10DICON'', 0, 10, 0, 0), (''10DI'', 0, 10, 0, 0), (''6DO5DI2AO'', 6, 5, 2, 0),
      (''6AO6AI'', 0, 0, 6, 6), (''6AI6AO'', 0, 0, 6, 6), (''AO6AI6'', 0, 0, 6, 6),
      (''12AI'', 0, 0, 0, 12), (''4DO6DI'', 4, 6, 0, 0), (''DO4DI6'', 4, 6, 0, 0),
      (''4TO6DI'', 4, 6, 4, 0), (''TO4DI6'', 4, 6, 4, 0), (''CE02M3'', 0, 0, 0, 0)]"

text \<open>The longest hint is tried first; hints of one length keep their order.\<close>

definition caps_from_signature :: "string \<Rightarrow> caps option" where
  "caps_from_signature signature =
     (let n = normalize_signature signature in
      map_option snd (List.find (\<lambda>(key, c). sublist key n)
        (sort_key (\<lambda>(key, c). - int (length key)) SIGNATURE_HINTS)))"

definition EXTRA_SIG_TOKENS_FOR_BATCH :: "string list" where
  "EXTRA_SIG_TOKENS_FOR_BATCH = [''DO6DI8'', ''6DO5DI2AO'', ''DO4DI6'', ''TO4DI6'', ''4TO6DI'']"

definition is_mp_module_signature_for_batch_flash :: "deployed \<Rightarrow> string \<Rightarrow> bool" where
  "is_mp_module_signature_for_batch_flash d signature =
     (let s = strip_bootloader_signature_suffix signature; n = normalize_signature s in
      if n \<in> {[], ''NONE'', ''?''} then False
      else if caps_from_signature s \<noteq> None then True
      else if list_ex (\<lambda>tok. sublist tok n) EXTRA_SIG_TOKENS_FOR_BATCH then True
      else if signature_is_led d s then False
      else if code_from_signature d s \<in> {Some MP02_CE02M3, Some DTV} then True
      else let compact = without CHR ''_'' (without CHR ''-'' n) in
        list_ex (\<lambda>tok. sublist (without CHR ''_'' tok) compact) [''MP02M'', ''MR02M'', ''ENMETER'', ''EN_METER''])"

definition WB_MAO4_SIG_PREFIXES :: "string list" where "WB_MAO4_SIG_PREFIXES = [''MAO4'']"

definition WB_RELAY_SIG_PREFIXES :: "string list" where
  "WB_RELAY_SIG_PREFIXES = [''MR2M'', ''MR3'', ''MR6'', ''MRPS'', ''MRWL'', ''MRWM'', ''MRM2'']"

definition is_letter :: "char \<Rightarrow> bool" where
  "is_letter c \<longleftrightarrow> (let n = of_char c :: nat in (65 \<le> n \<and> n \<le> 90) \<or> (97 \<le> n \<and> n \<le> 122))"

definition is_wirenboard_module_signature :: "deployed \<Rightarrow> string \<Rightarrow> bool" where
  "is_wirenboard_module_signature d signature =
     (let s = strip_bootloader_signature_suffix (py_strip signature) in
      if s = [] \<or> upper s \<in> {''NONE'', ''?'', ''UNKNOWN''} then False
      else if is_mp_module_signature_for_batch_flash d s then False
      else if code_from_signature d s \<noteq> None then False
      else let n = normalize_signature s in
        if list_ex (\<lambda>p. prefix p n) WB_MAO4_SIG_PREFIXES then True
        else if list_ex (\<lambda>p. prefix p n) WB_RELAY_SIG_PREFIXES then True
        else if length s < 2 \<or> length s > 32 then False
        else if \<not> list_all (\<lambda>c. is_letter c \<or> is_digit c \<or> c \<in> {CHR ''.'', CHR ''_'', CHR ''-''}) s then False
        else list_ex is_letter s)"

section \<open>Routes\<close>

datatype route = Mp_mr | Wb | Unknown

definition device_flash_route :: "deployed \<Rightarrow> string \<Rightarrow> route" where
  "device_flash_route d signature =
     (let s = strip_bootloader_signature_suffix signature in
      if is_mp_module_signature_for_batch_flash d s then Mp_mr
      else if is_wirenboard_module_signature d s then Wb
      else Unknown)"

text \<open>The refusals, with the signature their messages carry.\<close>

datatype route_error =
    Not_recognised string | Bootloader_foreign string | Bootloader_is_wbfw | Wants_fw string | Wants_wbfw string
  | Unsupported string

definition named_signature :: "string \<Rightarrow> string" where
  "named_signature signature =
     (let s = strip_bootloader_signature_suffix (py_strip signature) in if s = [] then ''?'' else s)"

definition validate_firmware_device_route :: "deployed \<Rightarrow> string \<Rightarrow> bool \<Rightarrow> bool \<Rightarrow> route_error option" where
  "validate_firmware_device_route d signature firmware_is_wb is_bootloader_firmware =
     (let sig = named_signature signature; route = device_flash_route d sig in
      if route = Unknown then Some (Not_recognised sig)
      else if is_bootloader_firmware then
        if route \<noteq> Mp_mr then Some (Bootloader_foreign sig)
        else if firmware_is_wb then Some Bootloader_is_wbfw
        else None
      else if route = Mp_mr then (if firmware_is_wb then Some (Wants_fw sig) else None)
      else if route = Wb then (if \<not> firmware_is_wb then Some (Wants_wbfw sig) else None)
      else Some (Unsupported sig))"

datatype batch_error =
    No_targets | Carel_targets "string list" | Led_targets "string list"
  | Unknown_targets "string list" bool | Mixed_targets

definition validate_batch_flash_targets :: "deployed \<Rightarrow> string list \<Rightarrow> batch_error option" where
  "validate_batch_flash_targets d sigs =
     (let carels = filter (signature_is_carel d) sigs; leds = filter (signature_is_led d) sigs;
          unknowns = filter (\<lambda>s. device_flash_route d s = Unknown) sigs;
          named = map (\<lambda>s. strip_bootloader_signature_suffix (py_strip s)) in
      if sigs = [] then Some No_targets
      else if carels \<noteq> [] then Some (Carel_targets (take 4 (named carels)))
      else if leds \<noteq> [] then Some (Led_targets (take 4 (named leds)))
      else if unknowns \<noteq> [] then Some (Unknown_targets (take 4 (map named_signature unknowns)) (length unknowns > 4))
      else if list_ex (\<lambda>s. device_flash_route d s = Mp_mr) sigs \<and> list_ex (\<lambda>s. device_flash_route d s = Wb) sigs
      then Some Mixed_targets
      else None)"

text \<open>The type of a scanned device: its signature before its input register 0.\<close>

definition scan_type_code :: "deployed \<Rightarrow> string \<Rightarrow> int option \<Rightarrow> int option" where
  "scan_type_code d signature type_code =
     (let sig_code = code_from_signature d signature; tc = map_option (\<lambda>t. t AND 0xFFFF) type_code in
      if sig_code = Some RGBW_WS2812 then Some RGBW_WS2812
      else if tc = Some RGBW_WS2812 then Some RGBW_WS2812
      else if sig_code \<noteq> None then sig_code
      else tc)"

definition signature_is_known_module_family :: "deployed \<Rightarrow> string \<Rightarrow> bool" where
  "signature_is_known_module_family d signature \<longleftrightarrow>
     is_mp_module_signature_for_batch_flash d signature \<or> signature_is_led d signature"

definition manifest_device_for_signature :: "deployed \<Rightarrow> string \<Rightarrow> string option" where
  "manifest_device_for_signature d signature =
     (let code = code_from_signature d signature in
      if code = Some MP02_CE02M3 then Some ''CE-02m-3''
      else if code = Some DTV then Some ''RTU-Sensor''
      else if is_mp_module_signature_for_batch_flash d signature then Some ''MR-02m''
      else None)"

definition manifest_device_family :: "string \<Rightarrow> string option" where
  "manifest_device_family device =
     (let n = map (\<lambda>c. if c = CHR ''_'' then CHR ''-'' else c) (without CHR '' '' (upper (py_strip device))) in
      if n = [] then None
      else if prefix ''RTU-SENSOR'' n \<or> prefix ''DTV'' n \<or> sublist ''SENSOR'' n \<or> prefix ''SENS'' n then Some ''RTU-Sensor''
      else if prefix ''CE-02M'' n then Some ''CE-02m-3''
      else if prefix ''MR-02M'' n \<or> prefix ''MP-02M'' n \<or> prefix ''MR02M'' n \<or> prefix ''MP02M'' n then Some ''MR-02m''
      else None)"

section \<open>Line settings\<close>

record line_profile =
  lp_baud :: int
  lp_parity :: string
  lp_stopbits :: int

text \<open>What a scan row may say of the line; an absent field is \<open>None\<close>.\<close>

record scan_row =
  r_baud :: "int option"
  r_parity :: "string option"
  r_stopbits :: "int option"
  r_app_baud :: "int option"
  r_app_parity :: "string option"
  r_app_stopbits :: "int option"

definition PROFILE_MP_MR :: line_profile where
  "PROFILE_MP_MR = \<lparr>lp_baud = 115200, lp_parity = ''N'', lp_stopbits = 1\<rparr>"

definition PROFILE_WB_APP :: line_profile where
  "PROFILE_WB_APP = \<lparr>lp_baud = 19200, lp_parity = ''N'', lp_stopbits = 2\<rparr>"

text \<open>\<^verbatim>\<open>x or y\<close> of a field: absent, zero and empty count as false.\<close>

fun or_int :: "int option \<Rightarrow> int \<Rightarrow> int" where
  "or_int None y = y" | "or_int (Some x) y = (if x = 0 then y else x)"

fun or_str :: "string option \<Rightarrow> string \<Rightarrow> string" where
  "or_str None y = y" | "or_str (Some x) y = (if x = [] then y else x)"

definition norm_parity :: "string \<Rightarrow> string \<Rightarrow> string" where
  "norm_parity p dflt =
     (let pr = upper (if p = [] then dflt else p) in if pr \<in> {''N'', ''E'', ''O''} then pr else dflt)"

definition norm_stopbits :: "int \<Rightarrow> int \<Rightarrow> int" where
  "norm_stopbits v dflt = (let sb = (if v = 0 then dflt else v) in if sb \<in> {1, 2} then sb else dflt)"

definition profile_from_device_scan :: "scan_row option \<Rightarrow> line_profile \<Rightarrow> line_profile" where
  "profile_from_device_scan row dflt =
     (case row of
        None \<Rightarrow> dflt
      | Some r \<Rightarrow> \<lparr>lp_baud = or_int (r_baud r) (lp_baud dflt),
          lp_parity = norm_parity (or_str (r_parity r) (lp_parity dflt)) (lp_parity dflt),
          lp_stopbits = norm_stopbits (or_int (r_stopbits r) 0) (lp_stopbits dflt)\<rparr>)"

definition application_line_profile :: "deployed \<Rightarrow> string \<Rightarrow> scan_row option \<Rightarrow> bool \<Rightarrow> line_profile" where
  "application_line_profile d signature row is_wb_firmware =
     (case row of
        Some r \<Rightarrow>
          if or_int (r_app_baud r) 0 > 0
          then \<lparr>lp_baud = or_int (r_app_baud r) 0, lp_parity = norm_parity (or_str (r_app_parity r) ''N'') ''N'',
                lp_stopbits = norm_stopbits (or_int (r_app_stopbits r) 1) 1\<rparr>
          else if is_wb_firmware \<or> is_wirenboard_module_signature d signature
          then profile_from_device_scan row PROFILE_WB_APP
          else PROFILE_MP_MR
      | None \<Rightarrow>
          if is_wb_firmware \<or> is_wirenboard_module_signature d signature then PROFILE_WB_APP else PROFILE_MP_MR)"

section \<open>What the routes promise\<close>

text \<open>A firmware file is let through to a device exactly when it is a \<^verbatim>\<open>.fw\<close> for a module of the own
  line, or a \<^verbatim>\<open>.wbfw\<close> application image for a foreign one; a device without a known signature gets
  nothing.\<close>

lemma firmware_route_exactly:
  "validate_firmware_device_route d signature firmware_is_wb is_bootloader_firmware = None \<longleftrightarrow>
   (case device_flash_route d (named_signature signature) of
      Mp_mr \<Rightarrow> \<not> firmware_is_wb | Wb \<Rightarrow> firmware_is_wb \<and> \<not> is_bootloader_firmware | Unknown \<Rightarrow> False)"
  by (cases "device_flash_route d (named_signature signature)")
    (simp_all add: validate_firmware_device_route_def Let_def)

lemma one_route: "R \<noteq> {} \<and> Unknown \<notin> R \<and> \<not> (Mp_mr \<in> R \<and> Wb \<in> R) \<longleftrightarrow> R \<in> {{Mp_mr}, {Wb}}"
proof
  assume r: "R \<noteq> {} \<and> Unknown \<notin> R \<and> \<not> (Mp_mr \<in> R \<and> Wb \<in> R)"
  then obtain x where "x \<in> R" by blast
  moreover from this r have "y = x" if "y \<in> R" for y using that by (cases x; cases y) auto
  ultimately have "R = {x}" by blast
  with r show "R \<in> {{Mp_mr}, {Wb}}" by (cases x) auto
qed auto

text \<open>A batch is accepted exactly when it is not empty, holds no air-handling controller and no LED
  strip, and all of its devices are of one family.\<close>

lemma batch_of_one_family:
  "validate_batch_flash_targets d sigs = None \<longleftrightarrow>
   device_flash_route d ` set sigs \<in> {{Mp_mr}, {Wb}} \<and>
   set sigs \<inter> {s. signature_is_carel d s \<or> signature_is_led d s} = {}"
proof -
  have none: "validate_batch_flash_targets d sigs = None \<longleftrightarrow>
      sigs \<noteq> [] \<and> \<not> list_ex (signature_is_carel d) sigs \<and> \<not> list_ex (signature_is_led d) sigs \<and>
      \<not> list_ex (\<lambda>s. device_flash_route d s = Unknown) sigs \<and>
      \<not> (list_ex (\<lambda>s. device_flash_route d s = Mp_mr) sigs \<and> list_ex (\<lambda>s. device_flash_route d s = Wb) sigs)"
    by (simp add: validate_batch_flash_targets_def Let_def filter_empty_conv list_ex_iff)
  have route: "list_ex (\<lambda>s. device_flash_route d s = r) sigs \<longleftrightarrow> r \<in> device_flash_route d ` set sigs" for r
    by (auto simp: list_ex_iff)
  have foreign: "\<not> list_ex (signature_is_carel d) sigs \<and> \<not> list_ex (signature_is_led d) sigs \<longleftrightarrow>
      set sigs \<inter> {s. signature_is_carel d s \<or> signature_is_led d s} = {}"
    by (auto simp: list_ex_iff)
  have some: "sigs \<noteq> [] \<longleftrightarrow> device_flash_route d ` set sigs \<noteq> {}" by simp
  show ?thesis unfolding none route foreign [symmetric] some one_route [symmetric] by blast
qed

text \<open>No test but the last one recognises these signatures, whatever packages are deployed.\<close>

lemma recognised_by_letters_only:
  assumes "s \<in> {''TENZO2'', ''6AI2AO''}"
  shows "device_flash_route d s = Wb" and "named_signature s = s"
proof -
  have strip: "strip_bootloader_signature_suffix s = s" "py_strip s = s" "normalize_signature s = s" "upper s = s"
    using assms by (elim insertE emptyE; simp; code_simp)+
  have looks: "\<not> signature_looks_like_carel s" "\<not> signature_looks_like_led s"
    using assms by (elim insertE emptyE; simp; code_simp)+
  have code: "code_from_signature d s = None"
  proof -
    have "List.find (\<lambda>(key, code). code \<noteq> RGBW_WS2812 \<and> (sublist key s \<or> prefix key s)) SPECIAL_SIG_CODES = None"
      using assms by (elim insertE emptyE; simp; code_simp)
    then show ?thesis
      using looks by (simp add: code_from_signature_def signature_is_carel_def signature_is_led_def strip Let_def)
  qed
  have caps: "caps_from_signature s = None" using assms by (elim insertE emptyE; simp; code_simp)
  have tokens: "\<not> list_ex (\<lambda>tok. sublist tok s) EXTRA_SIG_TOKENS_FOR_BATCH"
    "\<not> list_ex (\<lambda>tok. sublist (without CHR ''_'' tok) (without CHR ''_'' (without CHR ''-'' s))) [''MP02M'', ''MR02M'', ''ENMETER'', ''EN_METER'']"
    "\<not> list_ex (\<lambda>p. prefix p s) WB_MAO4_SIG_PREFIXES" "\<not> list_ex (\<lambda>p. prefix p s) WB_RELAY_SIG_PREFIXES"
    "list_all (\<lambda>c. is_letter c \<or> is_digit c \<or> c \<in> {CHR ''.'', CHR ''_'', CHR ''-''}) s" "list_ex is_letter s"
    using assms by (elim insertE emptyE; simp only:; code_simp)+
  have len: "length s = 6" "s \<notin> {[], ''NONE'', ''?'', ''UNKNOWN''}" using assms by auto
  have own: "\<not> is_mp_module_signature_for_batch_flash d s"
    using looks tokens(1,2) len(2)
    by (simp add: is_mp_module_signature_for_batch_flash_def Let_def strip code caps signature_is_led_def)
  then show "device_flash_route d s = Wb"
    using tokens(3-6) len
    by (simp add: device_flash_route_def Let_def strip code is_wirenboard_module_signature_def)
  show "named_signature s = s" using len(2) by (simp add: named_signature_def Let_def strip)
qed

text \<open>Two modules of the own line are not recognised by their signatures: \<^verbatim>\<open>TENZO2\<close> (which the table of
  own signatures lists) and \<^verbatim>\<open>6AI2AO\<close> pass for foreign devices, and only a \<^verbatim>\<open>.wbfw\<close> image is let through to
  them.\<close>

lemma own_modules_taken_for_foreign:
  "device_flash_route d ''TENZO2'' = Wb \<and> device_flash_route d ''6AI2AO'' = Wb \<and>
   validate_firmware_device_route d ''TENZO2'' False False = Some (Wants_wbfw ''TENZO2'') \<and>
   validate_firmware_device_route d ''TENZO2'' True False = None"
  by (simp add: recognised_by_letters_only validate_firmware_device_route_def)

end
