(* ===== verification/Flash_Image.thy ===== *)
theory Flash_Image
  imports Modbus_Rtu Signatures "HOL-Library.Product_Lexorder"
begin

text \<open>
  Firmware images on the line: the info block, the vector table, the two register orders, what
  the flasher reads out of the identification registers, and its time limits
  (\<^verbatim>\<open>sa02m_flasher/flash_protocol.py\<close>, with the decoders of \<^verbatim>\<open>modbus_io.py\<close> and the version
  tuples of \<^verbatim>\<open>firmware_repo.py\<close>).
\<close>

section \<open>Constants\<close>

definition INFO_BLOCK_REG :: int where "INFO_BLOCK_REG = 0x1000"
definition INFO_BLOCK_BYTES :: nat where "INFO_BLOCK_BYTES = 32"
definition DATA_BLOCK_REG :: int where "DATA_BLOCK_REG = 0x2000"
definition DATA_BLOCK_IDX_REG :: int where "DATA_BLOCK_IDX_REG = 0x2100"
definition DATA_BLOCK_BYTES :: nat where "DATA_BLOCK_BYTES = 246"
definition DATA_BLOCK_BYTES_WB :: nat where "DATA_BLOCK_BYTES_WB = 136"
definition REG_FIRMWARE_TYPE :: int where "REG_FIRMWARE_TYPE = 0x1001"
definition FIRMWARE_TYPE_BOOTLOADER :: int where "FIRMWARE_TYPE_BOOTLOADER = 0x424C"
definition REG_COMMIT_BOOTLOADER :: int where "REG_COMMIT_BOOTLOADER = 0x1006"
definition DATA_BLOCK_BYTES_BOOTLOADER :: nat where "DATA_BLOCK_BYTES_BOOTLOADER = 244"
definition DATA_BLOCK_LAST_BYTES_BOOTLOADER :: nat where "DATA_BLOCK_LAST_BYTES_BOOTLOADER = 168"
definition BL_IMAGE_TOTAL_BYTES :: nat where "BL_IMAGE_TOTAL_BYTES = 2048 + 32768"
definition BL_BLOCKS_FULL_COUNT :: nat where "BL_BLOCKS_FULL_COUNT = 142"
definition DATA_BLOCK_IDX_REG_BOOTLOADER :: int where "DATA_BLOCK_IDX_REG_BOOTLOADER = 0x2600"
definition REG_ENTER_BOOTLOADER :: int where "REG_ENTER_BOOTLOADER = 129"
definition REG_JUMP_APP :: int where "REG_JUMP_APP = 1004"
definition REG_PROGRAM_SERIAL :: int where "REG_PROGRAM_SERIAL = 1005"
definition REG_SELECT_SERIAL :: int where "REG_SELECT_SERIAL = 0xF0"
definition REG_LAST_INFO_REJECT :: int where "REG_LAST_INFO_REJECT = 0xF1"
definition REG_LAST_DATA_REJECT :: int where "REG_LAST_DATA_REJECT = 0xF2"
definition REG_SIGNATURE :: int where "REG_SIGNATURE = 290"
definition REG_SIGNATURE_COUNT :: int where "REG_SIGNATURE_COUNT = 12"
definition REG_BOOTLOADER_VERSION :: int where "REG_BOOTLOADER_VERSION = 330"
definition REG_BOOTLOADER_VERSION_COUNT :: int where "REG_BOOTLOADER_VERSION_COUNT = 8"
definition REG_DIAG_STATE :: int where "REG_DIAG_STATE = 0xF3"
definition FLASH_APP_START :: int where "FLASH_APP_START = 0x08000800"
definition FLASH_APP_END :: int where "FLASH_APP_END = 0x0802F800"
definition MAX_FIRMWARE_SIZE_BYTES :: int where "MAX_FIRMWARE_SIZE_BYTES = FLASH_APP_END - FLASH_APP_START"

lemmas flash_registers =
  INFO_BLOCK_REG_def DATA_BLOCK_REG_def DATA_BLOCK_IDX_REG_def REG_FIRMWARE_TYPE_def
  FIRMWARE_TYPE_BOOTLOADER_def REG_COMMIT_BOOTLOADER_def DATA_BLOCK_IDX_REG_BOOTLOADER_def
  REG_ENTER_BOOTLOADER_def REG_JUMP_APP_def REG_PROGRAM_SERIAL_def REG_SELECT_SERIAL_def
  REG_LAST_INFO_REJECT_def REG_LAST_DATA_REJECT_def REG_SIGNATURE_def REG_SIGNATURE_COUNT_def
  REG_BOOTLOADER_VERSION_def REG_BOOTLOADER_VERSION_COUNT_def REG_DIAG_STATE_def

lemmas block_sizes =
  INFO_BLOCK_BYTES_def DATA_BLOCK_BYTES_def DATA_BLOCK_BYTES_WB_def DATA_BLOCK_BYTES_BOOTLOADER_def
  DATA_BLOCK_LAST_BYTES_BOOTLOADER_def BL_IMAGE_TOTAL_BYTES_def BL_BLOCKS_FULL_COUNT_def

section \<open>Words of an img\<close>

text \<open>\<^verbatim>\<open>struct.pack("<I", n)\<close> and \<^verbatim>\<open>struct.unpack_from("<I", bs, off)\<close>; \<open>reg16\<close> is \<^verbatim>\<open>(bs[i] << 8) | bs[i + 1]\<close>.\<close>

definition pack_u32 :: "int \<Rightarrow> bytes" where "pack_u32 n = rev (be_bytes 4 n)"

definition u32_at :: "bytes \<Rightarrow> nat \<Rightarrow> int" where "u32_at bs off = from_be (rev (slice off (off + 4) bs))"

definition reg16 :: "bytes \<Rightarrow> nat \<Rightarrow> int" where "reg16 bs i = uint (word16 (bs ! i) (bs ! (i + 1)))"

text \<open>\<^verbatim>\<open>bs.ljust(n, fill)\<close>.\<close>

definition ljust :: "nat \<Rightarrow> byte \<Rightarrow> bytes \<Rightarrow> bytes" where
  "ljust n fill bs = bs @ replicate (n - length bs) fill"

definition fw_payload_first_8_bytes_to_le :: "bytes \<Rightarrow> bytes" where
  "fw_payload_first_8_bytes_to_le fw_data =
     (if length fw_data < 8 then []
      else pack_u32 (reg16 fw_data 0 + reg16 fw_data 2 * 2 ^ 16) @ pack_u32 (reg16 fw_data 4 + reg16 fw_data 6 * 2 ^ 16))"

section \<open>The vector table and the header of a \<^verbatim>\<open>.fw\<close> file\<close>

datatype vector_error =
    Vt_short | Sp_blank int | Sp_not_ram int | Reset_blank int | Reset_not_flash int | Reset_outside int
  | Reset_even int

definition check_app_vector_table :: "bytes \<Rightarrow> vector_error option" where
  "check_app_vector_table img =
     (if length img < 8 then Some Vt_short
      else let sp = u32_at img 0; res = u32_at img 4 in
        if sp = 0 \<or> sp = 0xFFFFFFFF then Some (Sp_blank sp)
        else if sp AND 0x2FFE0000 \<noteq> 0x20000000 then Some (Sp_not_ram sp)
        else if res = 0 \<or> res = 0xFFFFFFFF then Some (Reset_blank res)
        else if res AND 0x08000000 = 0 then Some (Reset_not_flash res)
        else if res < FLASH_APP_START \<or> res \<ge> FLASH_APP_END then Some (Reset_outside res)
        else if res AND 1 = 0 then Some (Reset_even res)
        else None)"

definition image_starts_like_appboot_vector_table :: "bytes \<Rightarrow> bool" where
  "image_starts_like_appboot_vector_table img =
     (if length img < 8 then False
      else let sp = u32_at img 0 in
        if sp = 0 \<or> sp = 0xFFFFFFFF then False else sp AND 0x2FFE0000 = 0x20000000)"

definition CRC2 :: bytes where "CRC2 = [0x43, 0x52, 0x43, 0x32]"

definition image_has_embedded_fw_header :: "bytes \<Rightarrow> bool" where
  "image_has_embedded_fw_header img =
     (if length img < INFO_BLOCK_BYTES then False
      else if \<not> (1 \<le> u32_at img 12 \<and> u32_at img 12 \<le> MAX_FIRMWARE_SIZE_BYTES) then False
      else if slice 16 20 img = CRC2 then True
      else if image_starts_like_appboot_vector_table img then False
      else let sig_raw = takeWhile (\<lambda>b. b \<noteq> 0) (take 12 img) in
        if length sig_raw < 2 then False else list_all (\<lambda>b. 0x20 \<le> b \<and> b \<le> 0x7E) sig_raw)"

section \<open>The info block\<close>

text \<open>\<^verbatim>\<open>zlib.crc32\<close>.\<close>

definition crc32_bit :: "32 word \<Rightarrow> 32 word" where
  "crc32_bit r = (if bit r 0 then drop_bit 1 r XOR 0xEDB88320 else drop_bit 1 r)"

definition crc32_byte :: "32 word \<Rightarrow> byte \<Rightarrow> 32 word" where
  "crc32_byte r b = (crc32_bit ^^ 8) (r XOR ucast b)"

definition crc32 :: "bytes \<Rightarrow> 32 word" where
  "crc32 bs = NOT (foldl crc32_byte (NOT 0) bs)"

text \<open>\<^verbatim>\<open>s.encode("ascii", errors="replace")\<close>.\<close>

definition encode_ascii :: "string \<Rightarrow> bytes" where
  "encode_ascii s = map (\<lambda>c. let n = of_char c :: nat in if n < 128 then of_nat n else 0x3F) s"

definition sig_field :: "string \<Rightarrow> bytes" where
  "sig_field signature = ljust 12 0 (take 12 (encode_ascii signature))"

definition build_info_block :: "string \<Rightarrow> int \<Rightarrow> bytes \<Rightarrow> bytes result" where
  "build_info_block signature firmware_size payload =
     (let n = int (length payload) in
      if firmware_size \<noteq> n then Inl (ValueError ''build_info_block: firmware_size must equal len(payload)'')
      else if n \<ge> 2 ^ 32 then Inl StructError
      else Inr (sig_field signature @ pack_u32 n @ CRC2 @ pack_u32 (uint (crc32 payload)) @ replicate 8 0))"

section \<open>Blocks as registers\<close>

fun regs_be :: "bytes \<Rightarrow> int list" where
  "regs_be (a # b # bs) = uint (word16 a b) # regs_be bs" | "regs_be _ = []"

fun regs_le :: "bytes \<Rightarrow> int list" where
  "regs_le (a # b # bs) = uint (word16 b a) # regs_le bs" | "regs_le _ = []"

definition info_block_to_registers :: "bytes \<Rightarrow> int list result" where
  "info_block_to_registers info =
     (if length info \<noteq> INFO_BLOCK_BYTES then Inl (ValueError ''info must be 32 bytes'') else Inr (regs_be info))"

definition payload_block_to_registers :: "bytes \<Rightarrow> int list result" where
  "payload_block_to_registers block =
     (if length block \<noteq> DATA_BLOCK_BYTES then Inl (ValueError ''block must be 246 bytes'') else Inr (regs_be block))"

definition payload_block_to_registers_app_le :: "bytes \<Rightarrow> int list result" where
  "payload_block_to_registers_app_le block =
     (if length block \<noteq> DATA_BLOCK_BYTES then Inl (ValueError ''block must be 246 bytes'') else Inr (regs_le block))"

definition payload_bytes_to_registers_le :: "bytes \<Rightarrow> int list result" where
  "payload_bytes_to_registers_le block =
     (if length block mod 2 \<noteq> 0 then Inl (ValueError ''block length must be even'') else Inr (regs_le block))"

definition info_block_to_registers_le :: "bytes \<Rightarrow> int list" where
  "info_block_to_registers_le info = regs_le (take INFO_BLOCK_BYTES (ljust INFO_BLOCK_BYTES 0 info))"

definition payload_block_to_registers_wb :: "bytes \<Rightarrow> int list" where
  "payload_block_to_registers_wb block = regs_be (take DATA_BLOCK_BYTES_WB (ljust DATA_BLOCK_BYTES_WB 0xFF block))"

section \<open>What the identification registers say\<close>

fun evens :: "'a list \<Rightarrow> 'a list" where
  "evens [] = []" | "evens [a] = [a]" | "evens (a # b # xs) = a # evens xs"

definition odds :: "'a list \<Rightarrow> 'a list" where "odds xs = evens (drop 1 xs)"

definition char_of_byte :: "byte \<Rightarrow> char" where "char_of_byte b = char_of (unat b)"

text \<open>Printable bytes as text, others as dots, without the dots and blanks at the end.\<close>

definition display :: "bytes \<Rightarrow> string" where
  "display raw =
     rev (dropWhile (\<lambda>c. c \<in> {CHR ''.'', CHR '' ''})
       (rev (map (\<lambda>b. if 0x20 \<le> b \<and> b \<le> 0x7E then char_of_byte b else CHR ''.'') raw)))"

definition decode_signature_from_holding_290_payload :: "bytes option \<Rightarrow> string" where
  "decode_signature_from_holding_290_payload payload =
     (case payload of
        None \<Rightarrow> []
      | Some p \<Rightarrow>
          if length p < 24 then []
          else let raw = take 12 (odds p); disp = take 12 (display raw) in
            if raw ! 0 = 0xA8 \<and> raw ! 1 \<in> {1, 2} then ''4TO6DI''
            else if disp \<noteq> [] \<and> list_ex (\<lambda>c. is_letter c \<or> is_digit c) disp then disp
            else [])"

text \<open>\<^verbatim>\<open>^\d{1,4}(?:\.-?\d{1,4}){2,5}$\<close> on the whole text.\<close>

definition short_digits :: "string \<Rightarrow> bool" where "short_digits s \<longleftrightarrow> digits s \<and> length s \<le> 4"

definition BL_VER_DISPLAY_OK :: "string \<Rightarrow> bool" where
  "BL_VER_DISPLAY_OK t =
     (case split_on CHR ''.'' t of
        [] \<Rightarrow> False
      | p # ps \<Rightarrow> short_digits p \<and> 2 \<le> length ps \<and> length ps \<le> 5 \<and>
          list_all (\<lambda>q. short_digits (case q of c # r \<Rightarrow> (if c = CHR ''-'' then r else q) | [] \<Rightarrow> q)) ps)"

text \<open>The dash that stands for no version is \<open>None\<close>.\<close>

definition normalize_bootloader_version_display :: "string \<Rightarrow> string option" where
  "normalize_bootloader_version_display s =
     (let t = py_strip s in
      if t = [] then Some []
      else if t \<in> {''-'', ''.''} then None
      else if prefix ''0x'' t then Some t
      else let u = (if hd t \<in> {CHR ''v'', CHR ''V''} \<and> length t > 1 \<and> is_digit (t ! 1) then py_strip (tl t) else t) in
        if BL_VER_DISPLAY_OK u then Some u else None)"

definition version_in :: "bytes \<Rightarrow> string option" where
  "version_in raw =
     (let rb = takeWhile (\<lambda>b. b \<noteq> 0) raw; disp = display rb in
      if rb = [] then None
      else if disp = [] \<or> py_strip disp \<in> {''-'', ''.'', []} then None
      else (case normalize_bootloader_version_display disp of
          None \<Rightarrow> None | Some out \<Rightarrow> if out = [] then None else Some out))"

fun first_some :: "('a \<Rightarrow> 'b option) \<Rightarrow> 'a list \<Rightarrow> 'b option" where
  "first_some f [] = None"
| "first_some f (x # xs) = (case f x of Some y \<Rightarrow> Some y | None \<Rightarrow> first_some f xs)"

definition decode_bootloader_version_registers_8 :: "bytes \<Rightarrow> string" where
  "decode_bootloader_version_registers_8 payload =
     (if length payload < 16 then []
      else let blobs = take 16 payload # (if length payload \<ge> 18 then [slice 2 18 payload] else []) in
        (case first_some version_in (concat (map (\<lambda>b. [take 8 (odds b), take 8 (evens b)]) blobs)) of
           None \<Rightarrow> [] | Some v \<Rightarrow> v))"

type_synonym bl_version = "nat \<times> nat \<times> nat \<times> nat"

definition version_tuple :: "string \<Rightarrow> bl_version option" where
  "version_tuple version =
     (let v = py_strip version; segs = take 4 (split_on CHR ''.'' v); n = (\<lambda>i. number_in 10 ((segs @ replicate 4 ''0'') ! i)) in
      if v = [] \<or> v = ''?'' then None
      else if \<not> list_all digits segs then None
      else Some (n 0, n 1, n 2, n 3))"

definition BL_INDEXED_BLOCKS_MIN_VERSION :: bl_version where "BL_INDEXED_BLOCKS_MIN_VERSION = (0, 0, 0, 11)"
definition BL_INDEXED_BL_BLOCKS_MIN_VERSION :: bl_version where "BL_INDEXED_BL_BLOCKS_MIN_VERSION = (0, 0, 0, 21)"

text \<open>The application's version, registers 320 to 323; \<open>None\<close> is the dash.\<close>

definition parse_app_version_from_holding_payload :: "bytes option \<Rightarrow> string option" where
  "parse_app_version_from_holding_payload payload =
     (case payload of
        None \<Rightarrow> None
      | Some p \<Rightarrow>
          if length p < 8 then None
          else let suf = reg16 p 6; suf' = (if suf AND 0x8000 \<noteq> 0 then suf - 0x10000 else suf) in
            Some (dec_of_int (reg16 p 0) @ ''.'' @ dec_of_int (reg16 p 2) @ ''.'' @ dec_of_int (reg16 p 4)
              @ ''.'' @ dec_of_int suf'))"

definition app_version_indicates_bootloader :: "string option \<Rightarrow> bool" where
  "app_version_indicates_bootloader v \<longleftrightarrow> v \<in> {None, Some [], Some ''0.0.0.0''}"

definition read_u16_from_payload :: "bytes option \<Rightarrow> int option" where
  "read_u16_from_payload payload =
     (case payload of None \<Rightarrow> None | Some p \<Rightarrow> if length p < 2 then None else Some (reg16 p 0))"

definition u32_swap_halfwords :: "int \<Rightarrow> int" where
  "u32_swap_halfwords v = (v AND 0xFFFF) * 2 ^ 16 + (v div 2 ^ 16 AND 0xFFFF)"

definition canonical_serial_u32_from_holding_regs_merge :: "int \<Rightarrow> int" where
  "canonical_serial_u32_from_holding_regs_merge raw0 =
     (let raw = raw0 AND 0xFFFFFFFF; lo = raw AND 0xFFFF; hi = raw div 2 ^ 16 AND 0xFFFF in
      if raw = 0 \<or> raw = 0xFFFFFFFF then raw
      else if lo = 0 \<or> hi = 0 then raw
      else if lo < 0x1000 \<and> hi \<ge> 0x1000 then u32_swap_halfwords raw
      else raw)"

definition read_u32_regs_from_payload :: "bytes option \<Rightarrow> int option" where
  "read_u32_regs_from_payload payload =
     (case payload of
        None \<Rightarrow> None
      | Some p \<Rightarrow>
          if length p < 4 then None
          else Some (canonical_serial_u32_from_holding_regs_merge (reg16 p 2 * 2 ^ 16 + reg16 p 0)))"

definition bootloader_ready_for_data :: "int option \<Rightarrow> int option \<Rightarrow> bool" where
  "bootloader_ready_for_data state_flags data_reject =
     (let flags = (case state_flags of None \<Rightarrow> 0 | Some f \<Rightarrow> f) in
      if flags AND (2 OR 4) \<noteq> 0 then False
      else if data_reject \<in> {Some 4, Some 5} then False
      else True)"

section \<open>Time limits\<close>

definition bootloader_profiled_response_timeout_ms :: "bytes \<Rightarrow> bool \<Rightarrow> int" where
  "bootloader_profiled_response_timeout_ms request is_wb =
     (let n = length request in
      if n < 2 then 500
      else if request ! 0 = 0xFD \<and> request ! 1 = 0x46 then
        let to_ms = (if n > 100 then 5000 else 3500) in
        if n \<ge> 10 \<and> request ! 2 = 0x08 \<and> request ! 7 = 0x10 then
          let inner_start = reg16 request 8 in
          if inner_start = REG_PROGRAM_SERIAL then max to_ms 8000
          else if inner_start = INFO_BLOCK_REG then
            (if is_wb then max to_ms (max 6000 5000) else max to_ms 6000)
          else if inner_start = DATA_BLOCK_REG then max to_ms 5000
          else to_ms
        else to_ms
      else if request ! 1 = 0x03 then 6000
      else if request ! 1 = 0x10 \<and> n \<ge> 6 then
        if reg16 request 2 = REG_PROGRAM_SERIAL then 8000
        else if request ! 2 = 0x10 \<and> request ! 3 = 0 then (if is_wb then max 6000 5000 else 6000)
        else if request ! 2 = 0x20 \<and> request ! 3 = 0 then 5000
        else 500
      else 500)"

section \<open>Numbers in frames\<close>

lemma u16_be16: "u16 n = be16 (word_of_int n)"
proof -
  have d: "(n AND mask 16) div 256 = drop_bit 8 (n AND mask 16)" by (simp add: drop_bit_eq_div)
  have m: "(0xFFFF::int) = mask 16" by (simp add: mask_eq_exp_minus_1)
  show ?thesis
    unfolding u16_def be_bytes_2 m d be16_def
    by (auto intro!: bit_word_eqI simp: bit_simps)
qed

lemma reg16_u16: "reg16 (a # b # u16 n @ rest) 2 = n mod 2 ^ 16"
proof -
  have "reg16 (a # b # u16 n @ rest) 2 = uint (word_of_int n :: 16 word)"
    by (simp add: reg16_def u16_be16 be16_def word16_split)
  then show ?thesis by (simp add: uint_word_of_int)
qed

lemma regs_be_u16: "set vs \<subseteq> {0 ..< 2 ^ 16} \<Longrightarrow> regs_be (concat (map u16 vs)) = vs"
  by (induction vs) (auto simp: u16_be16 be16_def word16_split uint_word_of_int)

text \<open>A register of the indexed window gets the time limit of an ordinary write, 0.5 s, although the
  device writes its flash for as long as for the plain data register, which gets 5 s.\<close>

lemma data_block_time_limits:
  assumes "build_write_multiple_registers a start vs = Inr req" and "1 \<le> a" and "a \<le> 247"
  shows "start = DATA_BLOCK_REG \<Longrightarrow> bootloader_profiled_response_timeout_ms req is_wb = 5000"
    and "\<exists>i < 1280. start = DATA_BLOCK_IDX_REG + int i \<Longrightarrow> bootloader_profiled_response_timeout_ms req is_wb = 500"
proof -
  obtain rest where req: "req = word_of_int a # 0x10 # u16 start @ rest"
    using assms(1) by (auto simp: build_write_multiple_registers_def bindE_Inr_conv rtu_frame_Inr with_crc_def
        build_write_multiple_registers_body_def Let_def split: if_splits)
  have n: "6 \<le> length req" using write_multiple_length [OF assms(1)] by simp
  have a: "(word_of_int a :: byte) \<noteq> 0xFD"
    using assms(2,3) by (auto simp: uint_word_of_int dest: arg_cong [where f = uint])
  have parts: "req ! 0 = word_of_int a" "req ! 1 = 0x10" "req ! 2 = u16 start ! 0" "req ! 3 = u16 start ! 1" "reg16 req 2 = start mod 2 ^ 16"
    by (simp_all only: req reg16_u16) (simp_all add: nth_append numeral_2_eq_2 numeral_3_eq_3)
  have "u16 0x2000 = [0x20, 0]" by code_simp
  then show "start = DATA_BLOCK_REG \<Longrightarrow> bootloader_profiled_response_timeout_ms req is_wb = 5000"
    using parts n a by (simp add: bootloader_profiled_response_timeout_ms_def Let_def flash_registers)
  show "bootloader_profiled_response_timeout_ms req is_wb = 500" if "\<exists>i < 1280. start = DATA_BLOCK_IDX_REG + int i"
  proof -
    from that have s: "0x2100 \<le> start" "start < 0x2600" by (auto simp: DATA_BLOCK_IDX_REG_def)
    have "start AND 0xFFFF = start mod 2 ^ 16" using take_bit_eq_mod [of 16 start] by (simp add: take_bit_eq_mask mask_eq_exp_minus_1)
    then have "uint (u16 start ! 0) = start div 256" using s by (simp add: u16_def be_bytes_2 uint_word_of_int)
    then have "u16 start ! 0 \<noteq> 0x10" "u16 start ! 0 \<noteq> 0x20" using s by auto
    then show ?thesis
      using parts n a s by (simp add: bootloader_profiled_response_timeout_ms_def Let_def flash_registers)
  qed
qed

text \<open>The mask leaves bits 31, 30 and 28 of the stack pointer alone.\<close>

lemma stack_pointer_outside_ram:
  "check_app_vector_table (pack_u32 0xF0001000 @ pack_u32 0x08000901) = None"
  by code_simp

end
