(* ===== verification/Flash_Protocol.thy ===== *)
theory Flash_Protocol
  imports Flash_Image Effect
begin

text \<open>
  The exchanges of a flashing session (\<^verbatim>\<open>class FlasherProtocol\<close> and its helpers in
  \<^verbatim>\<open>sa02m_flasher/flash_protocol.py\<close>): requests by Modbus address and by serial number, the
  identification of the board, the wait for the erased flash, and the gate that stops a
  cancellation once the device has begun to erase.
\<close>

section \<open>The session\<close>

text \<open>
  What the code is given or calls: \<^verbatim>\<open>send_receive\<close> (which may raise), the clock and \<^verbatim>\<open>sleep\<close> in
  milliseconds, the cancellation callback, whether a log callback is set, and which shared
  packages are deployed.  \<open>'w\<close> is the state of the world they act on.
\<close>

record 'w line_calls =
  l_exchange :: "bytes \<Rightarrow> 'w \<Rightarrow> bytes option result \<times> 'w"
  l_now :: "'w \<Rightarrow> int"
  l_sleep :: "int \<Rightarrow> 'w \<Rightarrow> 'w"
  l_cancelled :: "'w \<Rightarrow> bool \<times> 'w"
  l_logging :: bool
  l_deployed :: deployed

text \<open>The object, with the gate's flag and the requests handed to \<^verbatim>\<open>send_receive\<close> so far.\<close>

record 'w flasher =
  line :: 'w
  requested :: "bytes list"
  use_indexed_data_blocks :: bool
  use_indexed_bl_blocks :: bool
  irreversible :: bool

definition new_flasher :: "'w \<Rightarrow> 'w flasher" where
  "new_flasher w = \<lparr>line = w, requested = [], use_indexed_data_blocks = False,
     use_indexed_bl_blocks = False, irreversible = False\<rparr>"

text \<open>The error texts of an exchange: no answer, an answer the parser rejects, no target given.\<close>

datatype link_error = No_answer | Answer rtu_error | No_target | No_data

fun modbus_inner_exception_code :: "link_error option \<Rightarrow> int option" where
  "modbus_inner_exception_code (Some (Answer (Exception_code n))) = Some n"
| "modbus_inner_exception_code _ = None"

definition is_timeout_err :: "link_error option \<Rightarrow> bool" where "is_timeout_err e \<longleftrightarrow> e = Some No_answer"

definition now :: "'w line_calls \<Rightarrow> ('w flasher, int) proc" where
  "now c = getM (\<lambda>s. l_now c (line s))"

definition pause :: "'w line_calls \<Rightarrow> int \<Rightarrow> ('w flasher, unit) proc" where
  "pause c ms = modM (\<lambda>s. s\<lparr>line := l_sleep c ms (line s)\<rparr>)"

definition send_receive :: "'w line_calls \<Rightarrow> bytes \<Rightarrow> ('w flasher, bytes option) proc" where
  "send_receive c request =
     (\<lambda>s. case l_exchange c request (line s) of
        (r, w) \<Rightarrow> (r, s\<lparr>line := w, requested := requested s @ [request]\<rparr>))"

section \<open>The cancellation gate\<close>

definition should_abort :: "'w line_calls \<Rightarrow> ('w flasher, bool) proc" where
  "should_abort c =
     (\<lambda>s. case l_cancelled c (line s) of
        (b, w) \<Rightarrow> (Inr (b \<and> \<not> irreversible s), s\<lparr>line := w\<rparr>))"

definition mark_irreversible :: "('w flasher, unit) proc" where
  "mark_irreversible = modM (\<lambda>s. s\<lparr>irreversible := True\<rparr>)"

fun gate_loop :: "nat \<Rightarrow> 'w line_calls \<Rightarrow> int \<Rightarrow> ('w flasher, bool) proc" where
  "gate_loop 0 c until = raiseM (OutOfModel ''clock'')"
| "gate_loop (Suc n) c until =
     bindM (now c) (\<lambda>t.
       if \<not> t < until then retM False
       else bindM (should_abort c) (\<lambda>a.
         if a then retM True
         else bindM (now c) (\<lambda>t'. bindM (pause c (min 120 (max 0 (until - t')))) (\<lambda>_. gate_loop n c until))))"

definition gate_sleep :: "'w line_calls \<Rightarrow> int \<Rightarrow> ('w flasher, bool) proc" where
  "gate_sleep c ms = bindM (now c) (\<lambda>t. gate_loop (nat (ms div 120) + 3) c (t + ms))"

section \<open>Exchanges\<close>

definition exchange :: "'w line_calls \<Rightarrow> bytes \<Rightarrow> ('w flasher, int option \<times> bytes option \<times> link_error option) proc" where
  "exchange c request =
     bindM (send_receive c request) (\<lambda>response.
       retM (case response of
           None \<Rightarrow> (None, None, Some No_answer)
         | Some data \<Rightarrow> (case parse_response data None of
             (slave, payload, err) \<Rightarrow> (slave, payload, map_option Answer err))))"

definition exchange_by_serial :: "'w line_calls \<Rightarrow> int \<Rightarrow> bytes \<Rightarrow> ('w flasher, bytes option \<times> link_error option) proc" where
  "exchange_by_serial c serial inner_pdu =
     bindM (send_receive c (build_fast_modbus_request serial inner_pdu)) (\<lambda>response.
       case response of
         None \<Rightarrow> retM (None, Some No_answer)
       | Some data \<Rightarrow>
           (case parse_fast_modbus_response data (Some serial) of
             (_, payload, err) \<Rightarrow>
               bindM (if err = None \<and> payload \<noteq> None \<and> inner_pdu \<noteq> [] \<and> hd inner_pdu = 0x03 then pause c 12 else retM ())
                 (\<lambda>_. retM (payload, map_option Answer err))))"

definition write_single_register :: "'w line_calls \<Rightarrow> int \<Rightarrow> int \<Rightarrow> int \<Rightarrow> ('w flasher, link_error option) proc" where
  "write_single_register c slave reg v =
     bindM (liftM (build_write_single_register slave reg v)) (\<lambda>req.
     bindM (exchange c req) (\<lambda>(_, _, err). retM err))"

definition read_holding_registers :: "'w line_calls \<Rightarrow> int \<Rightarrow> int \<Rightarrow> int \<Rightarrow> ('w flasher, bytes option \<times> link_error option) proc" where
  "read_holding_registers c slave start count =
     bindM (liftM (build_read_holding_registers slave start count)) (\<lambda>req.
     bindM (exchange c req) (\<lambda>(_, payload, err).
       retM (if err \<noteq> None then (None, err) else (payload, None))))"

definition write_multiple_registers :: "'w line_calls \<Rightarrow> int \<Rightarrow> int \<Rightarrow> int list \<Rightarrow> ('w flasher, link_error option) proc" where
  "write_multiple_registers c slave start values =
     bindM (liftM (build_write_multiple_registers slave start values)) (\<lambda>req.
     bindM (exchange c req) (\<lambda>(_, _, err). retM err))"

definition read_holding_registers_by_serial :: "'w line_calls \<Rightarrow> int \<Rightarrow> int \<Rightarrow> int \<Rightarrow> ('w flasher, bytes option \<times> link_error option) proc" where
  "read_holding_registers_by_serial c serial start count =
     bindM (liftM (build_read_holding_registers_body start count)) (\<lambda>body. exchange_by_serial c serial body)"

definition write_multiple_registers_by_serial :: "'w line_calls \<Rightarrow> int \<Rightarrow> int \<Rightarrow> int list \<Rightarrow> ('w flasher, link_error option) proc" where
  "write_multiple_registers_by_serial c serial start values =
     bindM (liftM (build_write_multiple_registers_body start values)) (\<lambda>body.
     bindM (exchange_by_serial c serial body) (\<lambda>(_, err). retM err))"

definition enter_bootloader :: "'w line_calls \<Rightarrow> int \<Rightarrow> ('w flasher, link_error option) proc" where
  "enter_bootloader c slave = write_single_register c slave REG_ENTER_BOOTLOADER 1"

definition enter_bootloader_wb :: "'w line_calls \<Rightarrow> int \<Rightarrow> ('w flasher, link_error option) proc" where
  "enter_bootloader_wb c slave = write_multiple_registers c slave REG_ENTER_BOOTLOADER [1]"

definition jump_to_app :: "'w line_calls \<Rightarrow> int \<Rightarrow> ('w flasher, link_error option) proc" where
  "jump_to_app c slave = write_multiple_registers c slave REG_JUMP_APP [1]"

definition jump_to_app_by_serial :: "'w line_calls \<Rightarrow> int \<Rightarrow> ('w flasher, link_error option) proc" where
  "jump_to_app_by_serial c serial = write_multiple_registers_by_serial c serial REG_JUMP_APP [1]"

text \<open>The two halves of a 32-bit number, the low one first.\<close>

definition halves :: "int \<Rightarrow> int list" where "halves v = [v AND 0xFFFF, v div 2 ^ 16 AND 0xFFFF]"

definition write_serial_number :: "'w line_calls \<Rightarrow> int \<Rightarrow> int \<Rightarrow> ('w flasher, link_error option) proc" where
  "write_serial_number c slave serial = write_multiple_registers c slave REG_PROGRAM_SERIAL (halves serial)"

definition write_serial_number_by_serial :: "'w line_calls \<Rightarrow> int \<Rightarrow> int \<Rightarrow> ('w flasher, link_error option) proc" where
  "write_serial_number_by_serial c target new = write_multiple_registers_by_serial c target REG_PROGRAM_SERIAL (halves new)"

definition send_select_by_serial :: "'w line_calls \<Rightarrow> int \<Rightarrow> int \<Rightarrow> ('w flasher, link_error option) proc" where
  "send_select_by_serial c slave serial = write_multiple_registers c slave REG_SELECT_SERIAL (halves serial)"

text \<open>\<^verbatim>\<open>range(first, min(last, 248))\<close>, in order, up to the first address that answers.\<close>

fun scan_addresses :: "'w line_calls \<Rightarrow> int list \<Rightarrow> ('w flasher, int option) proc" where
  "scan_addresses c [] = retM None"
| "scan_addresses c (a # as) =
     bindM (read_holding_registers c a REG_SIGNATURE 1) (\<lambda>(payload, err).
       if err = None \<and> payload \<noteq> None \<and> payload \<noteq> Some [] then retM (Some a) else scan_addresses c as)"

definition discover_bootloader_address_scan :: "'w line_calls \<Rightarrow> int \<Rightarrow> int \<Rightarrow> ('w flasher, int option) proc" where
  "discover_bootloader_address_scan c lo hi = scan_addresses c [lo .. min hi 248 - 1]"

section \<open>Who is there\<close>

text \<open>Signature, version and error; \<open>None\<close> is also the dash that stands for no version.\<close>

definition nonempty :: "string \<Rightarrow> string option" where "nonempty s = (if s = [] then None else Some s)"

definition read_info :: "(int \<Rightarrow> int \<Rightarrow> ('w flasher, bytes option \<times> link_error option) proc)
    \<Rightarrow> ('w flasher, string option \<times> string option \<times> link_error option) proc" where
  "read_info read =
     bindM (read REG_SIGNATURE REG_SIGNATURE_COUNT) (\<lambda>(payload, err).
       if err \<noteq> None then retM (None, None, err)
       else let sig = nonempty (decode_signature_from_holding_290_payload payload) in
         bindM (read REG_BOOTLOADER_VERSION REG_BOOTLOADER_VERSION_COUNT) (\<lambda>(payload2, err2).
           if err2 \<noteq> None then retM (sig, None, err2)
           else retM (sig, nonempty (decode_bootloader_version_registers_8 (case payload2 of None \<Rightarrow> [] | Some p \<Rightarrow> p)), None)))"

definition read_bootloader_info :: "'w line_calls \<Rightarrow> int \<Rightarrow> ('w flasher, string option \<times> string option \<times> link_error option) proc" where
  "read_bootloader_info c slave = read_info (read_holding_registers c slave)"

definition read_bootloader_info_by_serial :: "'w line_calls \<Rightarrow> int \<Rightarrow> ('w flasher, string option \<times> string option \<times> link_error option) proc" where
  "read_bootloader_info_by_serial c serial = read_info (read_holding_registers_by_serial c serial)"

definition apply_indexed_block_windows :: "string option \<Rightarrow> link_error option \<Rightarrow> ('w flasher, unit) proc" where
  "apply_indexed_block_windows ver err =
     (let vt = (if err \<noteq> None then None else version_tuple (case ver of None \<Rightarrow> [] | Some v \<Rightarrow> v)) in
      modM (\<lambda>s. s\<lparr>use_indexed_data_blocks := (case vt of None \<Rightarrow> False | Some v \<Rightarrow> v \<ge> BL_INDEXED_BLOCKS_MIN_VERSION),
                  use_indexed_bl_blocks := (case vt of None \<Rightarrow> False | Some v \<Rightarrow> v \<ge> BL_INDEXED_BL_BLOCKS_MIN_VERSION)\<rparr>))"

definition detect_indexed_block_windows_by_serial :: "'w line_calls \<Rightarrow> int \<Rightarrow> ('w flasher, unit) proc" where
  "detect_indexed_block_windows_by_serial c serial =
     bindM (read_bootloader_info_by_serial c serial) (\<lambda>(_, ver, err). apply_indexed_block_windows ver err)"

definition detect_indexed_block_windows_by_address :: "'w line_calls \<Rightarrow> int \<Rightarrow> ('w flasher, unit) proc" where
  "detect_indexed_block_windows_by_address c slave =
     bindM (read_bootloader_info c slave) (\<lambda>(_, ver, err). apply_indexed_block_windows ver err)"

text \<open>A first read of the signature is thrown away, then the board is read again.\<close>

definition warmup :: "'w line_calls \<Rightarrow> ('w flasher, bytes option \<times> link_error option) proc
    \<Rightarrow> ('w flasher, string option \<times> string option \<times> link_error option) proc
    \<Rightarrow> ('w flasher, string option \<times> link_error option) proc" where
  "warmup c first info =
     bindM first (\<lambda>_. bindM (pause c 30) (\<lambda>_. bindM info (\<lambda>(sig, _, err).
       retM (if err \<noteq> None then (None, err) else (map_option py_strip sig, None)))))"

definition read_board_signature_bootloader_warmup ::
    "'w line_calls \<Rightarrow> int option \<Rightarrow> int option \<Rightarrow> ('w flasher, string option \<times> link_error option) proc" where
  "read_board_signature_bootloader_warmup c slave serial =
     (case (serial, slave) of
        (Some sn, a) \<Rightarrow>
          if sn AND 0xFFFFFFFF \<notin> {0, 0xFFFFFFFF}
          then warmup c (read_holding_registers_by_serial c (sn AND 0xFFFFFFFF) REG_SIGNATURE REG_SIGNATURE_COUNT)
                 (read_bootloader_info_by_serial c (sn AND 0xFFFFFFFF))
          else (case a of
              Some a' \<Rightarrow>
                if 1 \<le> a' \<and> a' \<le> 247
                then warmup c (read_holding_registers c a' REG_SIGNATURE REG_SIGNATURE_COUNT) (read_bootloader_info c a')
                else retM (None, Some No_target)
            | None \<Rightarrow> retM (None, Some No_target))
      | (None, Some a') \<Rightarrow>
          if 1 \<le> a' \<and> a' \<le> 247
          then warmup c (read_holding_registers c a' REG_SIGNATURE REG_SIGNATURE_COUNT) (read_bootloader_info c a')
          else retM (None, Some No_target)
      | (None, None) \<Rightarrow> retM (None, Some No_target))"

datatype signature_refusal = Signature_unread | Signature_unsupported string

definition validate_bootloader_board_signature_for_bin_flash :: "deployed \<Rightarrow> string option \<Rightarrow> signature_refusal option" where
  "validate_bootloader_board_signature_for_bin_flash d board_sig =
     (let s = py_strip (case board_sig of None \<Rightarrow> [] | Some b \<Rightarrow> b) in
      if s = [] then Some Signature_unread
      else if \<not> is_mp_module_signature_for_batch_flash d s then Some (Signature_unsupported s)
      else None)"

text \<open>The signature an info block carries, as the code reads it before deciding to replace it.\<close>

definition embedded_signature :: "bytes \<Rightarrow> string" where
  "embedded_signature info32 =
     py_strip (takeWhile (\<lambda>ch. ch \<noteq> CHR 0x00) (map (\<lambda>b. if b < 0x80 then char_of_byte b else CHR ''?'') (take 12 info32)))"

definition fw_info_with_reg290_signature ::
    "'w line_calls \<Rightarrow> bytes \<Rightarrow> int option \<Rightarrow> int option \<Rightarrow> ('w flasher, bytes) proc" where
  "fw_info_with_reg290_signature c info32 slave serial =
     (if length info32 < INFO_BLOCK_BYTES then retM info32
      else if embedded_signature info32 \<noteq> [] \<and> upper (embedded_signature info32) \<noteq> ''NONE'' then retM info32
      else bindM (read_board_signature_bootloader_warmup c slave serial) (\<lambda>(board_sig, read_err).
        retM (case (read_err, validate_bootloader_board_signature_for_bin_flash (l_deployed c) board_sig, board_sig) of
            (None, None, Some b) \<Rightarrow> sig_field b @ drop 12 info32
          | _ \<Rightarrow> info32)))"

end
