(* ===== verification/Flash_Run.thy ===== *)
theory Flash_Run
  imports Flash_Protocol
begin

text \<open>
  The flashing sequences of \<^verbatim>\<open>sa02m_flasher/flash_protocol.py\<close>: the application by Modbus address
  and by serial number, the Wiren Board image, and the bootloader's own image.
\<close>

section \<open>Waiting for the erased flash\<close>

datatype not_ready =
    Erase_failed int "int option"
  | Ready_timeout "int option" "int option" "link_error option"

definition unsupported :: "link_error option \<Rightarrow> bool" where
  "unsupported e \<longleftrightarrow> modbus_inner_exception_code e = Some 2 \<or> is_timeout_err e"

text \<open>
  One pass reads the state and the last refusal.  \<open>legacy\<close> is set for good once the state register is
  missing or the device does not answer; \<open>seen\<close> is the last state, refusal and error.  The
  code's loop ends by the clock: at most 85 passes fit into its 15 s.
\<close>

fun ready_loop :: "nat \<Rightarrow> 'w line_calls \<Rightarrow> (int \<Rightarrow> int \<Rightarrow> ('w flasher, bytes option \<times> link_error option) proc)
    \<Rightarrow> int \<Rightarrow> int \<Rightarrow> bool \<Rightarrow> int option \<times> int option \<times> link_error option \<Rightarrow> ('w flasher, not_ready option) proc" where
  "ready_loop 0 c read started deadline legacy seen = raiseM (OutOfModel ''clock'')"
| "ready_loop (Suc n) c read started deadline legacy (last_state, last_reject, last_err) =
     bindM (now c) (\<lambda>t.
       if \<not> t < deadline then retM (Some (Ready_timeout last_state last_reject last_err))
       else
         bindM (read REG_DIAG_STATE 1) (\<lambda>(payload_state, err_state).
         bindM (read REG_LAST_DATA_REJECT 1) (\<lambda>(payload_f2, err_f2).
           let legacy' = legacy \<or> unsupported err_state;
               again = (\<lambda>seen. bindM (pause c 180) (\<lambda>_. ready_loop n c read started deadline legacy' seen));
               es = (if unsupported err_state then None else err_state);
               ef = (if unsupported err_f2 then None else err_f2);
               state = (if unsupported err_state then None else read_u16_from_payload payload_state);
               reject = (if unsupported err_f2 then None else read_u16_from_payload payload_f2) in
           if es \<noteq> None then again (last_state, last_reject, es)
           else if ef \<noteq> None then again (last_state, last_reject, ef)
           else (case state of
               Some f \<Rightarrow>
                 if f AND 8 \<noteq> 0 then retM (Some (Erase_failed f reject))
                 else if bootloader_ready_for_data state reject then retM None
                 else again (state, reject, last_err)
             | None \<Rightarrow>
                 if legacy' then
                   if reject \<in> {Some 4, Some 5} then again (state, reject, last_err)
                   else bindM (now c) (\<lambda>t'. if t' - started < 2800 then again (state, reject, last_err) else retM None)
                 else if bootloader_ready_for_data state reject then retM None
                 else again (state, reject, last_err)))))"

definition wait_bootloader_ready_for_data ::
    "'w line_calls \<Rightarrow> (int \<Rightarrow> int \<Rightarrow> ('w flasher, bytes option \<times> link_error option) proc) \<Rightarrow> ('w flasher, not_ready option) proc" where
  "wait_bootloader_ready_for_data c read =
     bindM (now c) (\<lambda>started. ready_loop 85 c read started (started + 15000) False (None, None, None))"

section \<open>Sending a block, and again\<close>

text \<open>The pause before a block is sent again, in milliseconds.\<close>

definition sleep_before_retry_flash_data_block ::
    "'w line_calls \<Rightarrow> (int \<Rightarrow> int \<Rightarrow> ('w flasher, bytes option \<times> link_error option) proc) \<Rightarrow> link_error option \<Rightarrow> ('w flasher, unit) proc" where
  "sleep_before_retry_flash_data_block c read err =
     (if err = Some No_answer then pause c 2000
      else if modbus_inner_exception_code err = Some 4 then
        bindM (read REG_LAST_DATA_REJECT 1) (\<lambda>(pl, re).
          case (if re = None then read_u16_from_payload pl else None) of
            Some rej \<Rightarrow> pause c (if rej = 4 then 1000 else if rej = 5 then 550 else 300)
          | None \<Rightarrow> pause c 1000)
      else pause c 300)"

definition data_register :: "int \<Rightarrow> int \<Rightarrow> bool \<Rightarrow> nat \<Rightarrow> int" where
  "data_register legacy window indexed i = (if indexed then window + int i else legacy)"

definition app_registers :: "bool \<Rightarrow> bytes \<Rightarrow> int list result" where
  "app_registers app_from_fw block =
     (let b = ljust DATA_BLOCK_BYTES 0xFF block in
      if app_from_fw then payload_block_to_registers_app_le b else payload_block_to_registers b)"

definition send_data_block :: "'w line_calls \<Rightarrow> int \<Rightarrow> nat \<Rightarrow> bytes \<Rightarrow> bool \<Rightarrow> ('w flasher, link_error option) proc" where
  "send_data_block c slave i block app_from_fw =
     bindM (liftM (app_registers app_from_fw block)) (\<lambda>regs.
     bindM (getM use_indexed_data_blocks) (\<lambda>ix.
       write_multiple_registers c slave (data_register DATA_BLOCK_REG DATA_BLOCK_IDX_REG ix i) regs))"

definition send_data_block_by_serial :: "'w line_calls \<Rightarrow> int \<Rightarrow> nat \<Rightarrow> bytes \<Rightarrow> bool \<Rightarrow> ('w flasher, link_error option) proc" where
  "send_data_block_by_serial c serial i block app_from_fw =
     bindM (liftM (app_registers app_from_fw block)) (\<lambda>regs.
     bindM (getM use_indexed_data_blocks) (\<lambda>ix.
       write_multiple_registers_by_serial c serial (data_register DATA_BLOCK_REG DATA_BLOCK_IDX_REG ix i) regs))"

definition send_info_block :: "'w line_calls \<Rightarrow> int \<Rightarrow> string \<Rightarrow> bytes \<Rightarrow> ('w flasher, link_error option) proc" where
  "send_info_block c slave signature payload =
     bindM (liftM (bindE (build_info_block signature (int (length payload)) payload) info_block_to_registers))
       (write_multiple_registers c slave INFO_BLOCK_REG)"

definition send_info_block_by_serial :: "'w line_calls \<Rightarrow> int \<Rightarrow> string \<Rightarrow> bytes \<Rightarrow> ('w flasher, link_error option) proc" where
  "send_info_block_by_serial c serial signature payload =
     bindM (liftM (bindE (build_info_block signature (int (length payload)) payload) info_block_to_registers))
       (write_multiple_registers_by_serial c serial INFO_BLOCK_REG)"

definition send_info_block_wb :: "'w line_calls \<Rightarrow> int \<Rightarrow> bytes \<Rightarrow> ('w flasher, link_error option) proc" where
  "send_info_block_wb c slave info =
     bindM (liftM (info_block_to_registers (ljust INFO_BLOCK_BYTES 0 info))) (write_multiple_registers c slave INFO_BLOCK_REG)"

definition send_info_block_bytes_by_serial :: "'w line_calls \<Rightarrow> int \<Rightarrow> bytes \<Rightarrow> ('w flasher, link_error option) proc" where
  "send_info_block_bytes_by_serial c serial info =
     bindM (liftM (info_block_to_registers (ljust INFO_BLOCK_BYTES 0 info))) (write_multiple_registers_by_serial c serial INFO_BLOCK_REG)"

definition send_data_block_wb :: "'w line_calls \<Rightarrow> int \<Rightarrow> bytes \<Rightarrow> ('w flasher, link_error option) proc" where
  "send_data_block_wb c slave block = write_multiple_registers c slave DATA_BLOCK_REG (payload_block_to_registers_wb block)"

text \<open>Up to \<open>n\<close> attempts, with a pause between two; the error of the last one.\<close>

fun attempts :: "nat \<Rightarrow> ('w flasher, link_error option) proc \<Rightarrow> (link_error option \<Rightarrow> ('w flasher, unit) proc)
    \<Rightarrow> ('w flasher, link_error option) proc" where
  "attempts 0 send between = retM None"
| "attempts (Suc n) send between =
     bindM send (\<lambda>err.
       if err = None then retM None
       else if n = 0 then retM err
       else bindM (between err) (\<lambda>_. attempts n send between))"

section \<open>The results of a sequence\<close>

datatype flash_error =
    Cancelled | No_serial | Bad_vectors vector_error | Bad_size int | Unread link_error
  | Bad_signature signature_refusal | Info_failed link_error | Info_refused link_error "(int \<times> int) option"
  | Not_ready not_ready | Block_failed nat nat link_error | Line_error link_error
  | Wb_too_short nat | Wb_block_failed nat nat link_error nat
  | Bl_bad_length nat | Mode_failed link_error | Commit_failed link_error

text \<open>The info block: three attempts, three seconds apart, and the gate before each and each pause.\<close>

fun info_attempts :: "nat \<Rightarrow> 'w line_calls \<Rightarrow> ('w flasher, link_error option) proc \<Rightarrow> ('w flasher, flash_error option) proc" where
  "info_attempts 0 c send = retM None"
| "info_attempts (Suc n) c send =
     bindM (should_abort c) (\<lambda>a. if a then retM (Some Cancelled)
       else bindM send (\<lambda>err. case err of
           None \<Rightarrow> retM None
         | Some e \<Rightarrow>
             if n = 0 then retM (Some (Info_failed e))
             else bindM (should_abort c) (\<lambda>a'. if a' then retM (Some Cancelled)
               else bindM (pause c 3000) (\<lambda>_. info_attempts n c send))))"

text \<open>The data blocks \<open>is\<close> of \<open>count\<close> in all.\<close>

fun data_blocks :: "'w line_calls \<Rightarrow> (nat \<Rightarrow> ('w flasher, link_error option) proc) \<Rightarrow> (link_error option \<Rightarrow> ('w flasher, unit) proc)
    \<Rightarrow> int \<Rightarrow> nat \<Rightarrow> nat list \<Rightarrow> ('w flasher, flash_error option) proc" where
  "data_blocks c send between delay count [] = retM None"
| "data_blocks c send between delay count (i # is) =
     bindM (should_abort c) (\<lambda>a. if a then retM (Some Cancelled)
       else bindM (attempts 3 (send i) between) (\<lambda>err. case err of
           Some e \<Rightarrow> retM (Some (Block_failed (i + 1) count e))
         | None \<Rightarrow> bindM (pause c delay) (\<lambda>_. data_blocks c send between delay count is)))"

definition block_of :: "nat \<Rightarrow> bytes \<Rightarrow> nat \<Rightarrow> nat \<Rightarrow> bytes" where
  "block_of n img start i = slice (start + i * n) (start + i * n + n) img"

definition block_count :: "nat \<Rightarrow> nat \<Rightarrow> nat" where "block_count n len = (len + n - 1) div n"

text \<open>After the info block: no way back, wait for the erased flash, then all blocks.\<close>

definition write_blocks :: "'w line_calls \<Rightarrow> (int \<Rightarrow> int \<Rightarrow> ('w flasher, bytes option \<times> link_error option) proc)
    \<Rightarrow> (nat \<Rightarrow> ('w flasher, link_error option) proc) \<Rightarrow> int \<Rightarrow> nat \<Rightarrow> ('w flasher, flash_error option) proc" where
  "write_blocks c read send delay count =
     bindM mark_irreversible (\<lambda>_.
     bindM (wait_bootloader_ready_for_data c read) (\<lambda>r. case r of
         Some e \<Rightarrow> retM (Some (Not_ready e))
       | None \<Rightarrow>
           bindM (gate_sleep c 0) (\<lambda>_.
             data_blocks c send (sleep_before_retry_flash_data_block c read) delay count [0..<count])))"

text \<open>The refusal of an info block is looked up in register \<^verbatim>\<open>0xF1\<close>: for a code that is written 4 or 40 to 49,
  by address for any exception.\<close>

definition code_4 :: "link_error \<Rightarrow> bool" where
  "code_4 e \<longleftrightarrow> (case modbus_inner_exception_code (Some e) of None \<Rightarrow> False | Some n \<Rightarrow> n = 4 \<or> (40 \<le> n \<and> n \<le> 49))"

definition refusal_of :: "bytes option \<Rightarrow> (int \<times> int) option" where
  "refusal_of p = (case p of None \<Rightarrow> None | Some d \<Rightarrow> if length d \<ge> 4 then Some (reg16 d 0, reg16 d 2) else None)"

definition info_refusal_by_address :: "'w line_calls \<Rightarrow> int \<Rightarrow> flash_error \<Rightarrow> ('w flasher, flash_error option) proc" where
  "info_refusal_by_address c slave r =
     (case r of
        Info_failed e \<Rightarrow>
          if modbus_inner_exception_code (Some e) \<noteq> None
          then bindM (read_holding_registers c slave REG_LAST_INFO_REJECT 2) (\<lambda>(p, err).
            retM (Some (Info_refused e (if err = None then refusal_of p else None))))
          else retM (Some r)
      | _ \<Rightarrow> retM (Some r))"

definition info_refusal_by_serial :: "'w line_calls \<Rightarrow> int \<Rightarrow> flash_error \<Rightarrow> ('w flasher, flash_error option) proc" where
  "info_refusal_by_serial c serial r =
     (case r of
        Info_failed e \<Rightarrow>
          if code_4 e
          then bindM (read_holding_registers_by_serial c serial REG_LAST_INFO_REJECT 2) (\<lambda>(p, err).
            retM (Some (Info_refused e (refusal_of p))))
          else retM (Some r)
      | _ \<Rightarrow> retM (Some r))"

definition bare_error :: "flash_error \<Rightarrow> flash_error" where
  "bare_error r = (case r of Info_failed e \<Rightarrow> Line_error e | _ \<Rightarrow> r)"

section \<open>The application\<close>

definition run_fw_by_address :: "'w line_calls \<Rightarrow> int \<Rightarrow> bytes \<Rightarrow> ('w flasher, flash_error option) proc" where
  "run_fw_by_address c slave img =
     (let len = nat (u32_at img 12); vt_le = fw_payload_first_8_bytes_to_le (slice INFO_BLOCK_BYTES (INFO_BLOCK_BYTES + 8) img) in
      case (if vt_le = [] then None else check_app_vector_table vt_le) of
        Some e \<Rightarrow> retM (Some (Bad_vectors e))
      | None \<Rightarrow>
          bindM (fw_info_with_reg290_signature c (take INFO_BLOCK_BYTES img) (Some slave) None) (\<lambda>info.
          bindM (info_attempts 3 c (send_info_block_wb c slave info)) (\<lambda>r. case r of
              Some e \<Rightarrow> retM (Some e)
            | None \<Rightarrow>
                write_blocks c (read_holding_registers c slave)
                  (\<lambda>i. send_data_block c slave i (ljust DATA_BLOCK_BYTES 0xFF (block_of DATA_BLOCK_BYTES img INFO_BLOCK_BYTES i)) True)
                  5 (block_count DATA_BLOCK_BYTES len))))"

definition run_bin_by_address :: "'w line_calls \<Rightarrow> int \<Rightarrow> bytes \<Rightarrow> ('w flasher, flash_error option) proc" where
  "run_bin_by_address c slave img =
     (case check_app_vector_table img of
        Some e \<Rightarrow> retM (Some (Bad_vectors e))
      | None \<Rightarrow>
          let len = length img in
          if len = 0 \<or> int len > MAX_FIRMWARE_SIZE_BYTES then retM (Some (Bad_size (int len)))
          else bindM (read_board_signature_bootloader_warmup c (Some slave) None) (\<lambda>(board_sig, read_err).
            case (read_err, validate_bootloader_board_signature_for_bin_flash (l_deployed c) board_sig) of
              (Some e, _) \<Rightarrow> retM (Some (Unread e))
            | (None, Some e) \<Rightarrow> retM (Some (Bad_signature e))
            | (None, None) \<Rightarrow>
                let info_sig = take 12 (py_strip (case board_sig of None \<Rightarrow> [] | Some b \<Rightarrow> b)) in
                bindM (should_abort c) (\<lambda>a. if a then retM (Some Cancelled)
                else bindM (gate_sleep c 250) (\<lambda>a'. if a' then retM (Some Cancelled)
                else bindM (info_attempts 3 c (send_info_block c slave (if info_sig = [] then ''NONE'' else info_sig) img)) (\<lambda>r. case r of
                    Some e \<Rightarrow> info_refusal_by_address c slave e
                  | None \<Rightarrow>
                      write_blocks c (read_holding_registers c slave)
                        (\<lambda>i. send_data_block c slave i (ljust DATA_BLOCK_BYTES 0xFF (block_of DATA_BLOCK_BYTES img 0 i)) False)
                        5 (block_count DATA_BLOCK_BYTES len))))))"

definition run_flash_sequence_by_address :: "'w line_calls \<Rightarrow> int \<Rightarrow> bytes \<Rightarrow> ('w flasher, flash_error option) proc" where
  "run_flash_sequence_by_address c slave img =
     bindM (detect_indexed_block_windows_by_address c slave) (\<lambda>_.
       if image_has_embedded_fw_header img then run_fw_by_address c slave img else run_bin_by_address c slave img)"

text \<open>By serial number: the same steps over the other exchange.  A raw image is not checked for its
  vector table here, and a failed info block of a \<^verbatim>\<open>.fw\<close> file is reported as the bare error.\<close>

definition run_fw_by_serial :: "'w line_calls \<Rightarrow> int \<Rightarrow> bytes \<Rightarrow> ('w flasher, flash_error option) proc" where
  "run_fw_by_serial c serial img =
     (let len = nat (u32_at img 12); vt_le = fw_payload_first_8_bytes_to_le (slice INFO_BLOCK_BYTES (INFO_BLOCK_BYTES + 8) img) in
      case (if vt_le = [] then None else check_app_vector_table vt_le) of
        Some e \<Rightarrow> retM (Some (Bad_vectors e))
      | None \<Rightarrow>
          bindM (fw_info_with_reg290_signature c (take INFO_BLOCK_BYTES img) None (Some serial)) (\<lambda>info.
          bindM (info_attempts 3 c (send_info_block_bytes_by_serial c serial info)) (\<lambda>r. case r of
              Some e \<Rightarrow> retM (Some (bare_error e))
            | None \<Rightarrow>
                write_blocks c (read_holding_registers_by_serial c serial)
                  (\<lambda>i. send_data_block_by_serial c serial i (ljust DATA_BLOCK_BYTES 0xFF (block_of DATA_BLOCK_BYTES img INFO_BLOCK_BYTES i)) True)
                  0 (block_count DATA_BLOCK_BYTES len))))"

definition run_bin_by_serial :: "'w line_calls \<Rightarrow> int \<Rightarrow> bytes \<Rightarrow> ('w flasher, flash_error option) proc" where
  "run_bin_by_serial c serial img =
     (let len = length img in
      if len = 0 \<or> int len > MAX_FIRMWARE_SIZE_BYTES then retM (Some (Bad_size (int len)))
      else bindM (read_board_signature_bootloader_warmup c None (Some serial)) (\<lambda>(board_sig, read_err).
        case (read_err, validate_bootloader_board_signature_for_bin_flash (l_deployed c) board_sig) of
          (Some e, _) \<Rightarrow> retM (Some (Unread e))
        | (None, Some e) \<Rightarrow> retM (Some (Bad_signature e))
        | (None, None) \<Rightarrow>
            let info_sig = take 12 (py_strip (case board_sig of None \<Rightarrow> [] | Some b \<Rightarrow> b)) in
            bindM (should_abort c) (\<lambda>a. if a then retM (Some Cancelled)
            else bindM (gate_sleep c 250) (\<lambda>a'. if a' then retM (Some Cancelled)
            else bindM (info_attempts 3 c (send_info_block_by_serial c serial (if info_sig = [] then ''NONE'' else info_sig) img)) (\<lambda>r. case r of
                Some e \<Rightarrow> info_refusal_by_serial c serial e
              | None \<Rightarrow>
                  write_blocks c (read_holding_registers_by_serial c serial)
                    (\<lambda>i. send_data_block_by_serial c serial i (ljust DATA_BLOCK_BYTES 0xFF (block_of DATA_BLOCK_BYTES img 0 i)) False)
                    0 (block_count DATA_BLOCK_BYTES len))))))"

definition run_flash_sequence :: "'w line_calls \<Rightarrow> int \<Rightarrow> bytes \<Rightarrow> ('w flasher, flash_error option) proc" where
  "run_flash_sequence c serial img =
     (if serial = 0 \<or> serial = 0xFFFFFFFF then retM (Some No_serial)
      else bindM (detect_indexed_block_windows_by_serial c serial) (\<lambda>_.
        if image_has_embedded_fw_header img then run_fw_by_serial c serial img else run_bin_by_serial c serial img))"

section \<open>A Wiren Board image\<close>

text \<open>A first attempt and up to three more.\<close>

fun wb_info_retries :: "nat \<Rightarrow> 'w line_calls \<Rightarrow> ('w flasher, link_error option) proc \<Rightarrow> link_error option \<Rightarrow> ('w flasher, flash_error option) proc" where
  "wb_info_retries 0 c send err = retM (map_option Info_failed err)"
| "wb_info_retries (Suc n) c send err =
     (if err = None then retM None
      else bindM (should_abort c) (\<lambda>a. if a then retM (Some Cancelled)
        else bindM (pause c 3000) (\<lambda>_. bindM send (wb_info_retries n c send))))"

text \<open>Up to three attempts of a block, counting the errors in a row.\<close>

fun wb_attempts :: "nat \<Rightarrow> ('w flasher, link_error option) proc \<Rightarrow> nat \<Rightarrow> link_error option \<Rightarrow> ('w flasher, bool \<times> nat \<times> link_error option) proc" where
  "wb_attempts 0 send errors err = retM (False, errors, err)"
| "wb_attempts (Suc n) send errors err =
     bindM send (\<lambda>e. if e = None then retM (True, 0, None) else wb_attempts n send (errors + 1) e)"

text \<open>\<open>done\<close> collects which blocks were taken; the code only counts them for its progress bar.\<close>

fun wb_blocks :: "'w line_calls \<Rightarrow> (nat \<Rightarrow> ('w flasher, link_error option) proc) \<Rightarrow> nat \<Rightarrow> nat \<Rightarrow> nat list \<Rightarrow> bool list
    \<Rightarrow> ('w flasher, flash_error option \<times> bool list) proc" where
  "wb_blocks c send count errors [] taken = retM (None, taken)"
| "wb_blocks c send count errors (i # is) taken =
     bindM (should_abort c) (\<lambda>a. if a then retM (Some Cancelled, taken)
       else bindM (wb_attempts 3 (send i) errors None) (\<lambda>(ok, errors', err).
         if ok then bindM (pause c 0) (\<lambda>_. wb_blocks c send count errors' is (taken @ [True]))
         else if errors' \<ge> 6 then
           retM (Some (Wb_block_failed (i + 1) count (case err of Some e \<Rightarrow> e | None \<Rightarrow> No_data) errors'), taken @ [False])
         else bindM (pause c 0) (\<lambda>_. wb_blocks c send count errors' is (taken @ [False]))))"

definition read_wb_free_space :: "'w line_calls \<Rightarrow> int \<Rightarrow> ('w flasher, int option \<times> link_error option) proc" where
  "read_wb_free_space c slave =
     bindM (read_holding_registers c slave 1003 1) (\<lambda>(payload, err).
       retM (if err \<noteq> None then (None, err)
             else (case read_u16_from_payload payload of None \<Rightarrow> (None, Some No_data) | Some v \<Rightarrow> (Some v, None))))"

definition run_flash_sequence_wb :: "'w line_calls \<Rightarrow> int \<Rightarrow> bytes \<Rightarrow> ('w flasher, flash_error option \<times> bool list) proc" where
  "run_flash_sequence_wb c slave img =
     (if length img < INFO_BLOCK_BYTES then retM (Some (Wb_too_short (length img)), [])
      else let count = block_count DATA_BLOCK_BYTES_WB (length img - INFO_BLOCK_BYTES);
               info = send_info_block_wb c slave (take INFO_BLOCK_BYTES img) in
        bindM (if l_logging c then bindM (read_wb_free_space c slave) (\<lambda>_. retM ()) else retM ()) (\<lambda>_.
        bindM (should_abort c) (\<lambda>a. if a then retM (Some Cancelled, [])
        else bindM info (\<lambda>err. bindM (wb_info_retries 3 c info err) (\<lambda>r. case r of
            Some e \<Rightarrow> retM (Some e, [])
          | None \<Rightarrow>
              bindM mark_irreversible (\<lambda>_. bindM (gate_sleep c 0) (\<lambda>_.
                wb_blocks c (\<lambda>i. send_data_block_wb c slave (block_of DATA_BLOCK_BYTES_WB img INFO_BLOCK_BYTES i)) count 0
                  [0..<count] [])))))))"

section \<open>The bootloader's own image\<close>

definition bootloader_registers :: "bool \<Rightarrow> bytes \<Rightarrow> int list result" where
  "bootloader_registers from_fw block =
     (let n = length block;
          m = (if n \<in> {DATA_BLOCK_BYTES_BOOTLOADER, DATA_BLOCK_LAST_BYTES_BOOTLOADER} then n
               else if n < DATA_BLOCK_LAST_BYTES_BOOTLOADER then DATA_BLOCK_LAST_BYTES_BOOTLOADER
               else DATA_BLOCK_BYTES_BOOTLOADER);
          b = ljust m 0xFF block in
      if from_fw then payload_bytes_to_registers_le b else Inr (regs_be (take m b)))"

definition send_data_block_bootloader :: "'w line_calls \<Rightarrow> int \<Rightarrow> bytes \<Rightarrow> bool \<Rightarrow> nat \<Rightarrow> ('w flasher, link_error option) proc" where
  "send_data_block_bootloader c slave block from_fw i =
     bindM (liftM (bootloader_registers from_fw block)) (\<lambda>regs.
     bindM (getM use_indexed_bl_blocks) (\<lambda>ix.
       write_multiple_registers c slave (data_register DATA_BLOCK_REG DATA_BLOCK_IDX_REG_BOOTLOADER ix i) regs))"

definition send_data_block_bootloader_by_serial :: "'w line_calls \<Rightarrow> int \<Rightarrow> bytes \<Rightarrow> bool \<Rightarrow> nat \<Rightarrow> ('w flasher, link_error option) proc" where
  "send_data_block_bootloader_by_serial c serial block from_fw i =
     bindM (liftM (bootloader_registers from_fw block)) (\<lambda>regs.
     bindM (getM use_indexed_bl_blocks) (\<lambda>ix.
       write_multiple_registers_by_serial c serial (data_register DATA_BLOCK_REG DATA_BLOCK_IDX_REG_BOOTLOADER ix i) regs))"

text \<open>After a first attempt, up to three more while the device does not answer.\<close>

fun bl_info_retries :: "nat \<Rightarrow> 'w line_calls \<Rightarrow> ('w flasher, link_error option) proc \<Rightarrow> link_error option \<Rightarrow> ('w flasher, flash_error option) proc" where
  "bl_info_retries 0 c send err = retM (map_option Info_failed err)"
| "bl_info_retries (Suc n) c send err =
     (if err = Some No_answer
      then bindM (should_abort c) (\<lambda>a. if a then retM (Some Cancelled)
        else bindM (pause c 3000) (\<lambda>_. bindM send (bl_info_retries n c send)))
      else retM (map_option Info_failed err))"

fun bl_blocks :: "'w line_calls \<Rightarrow> (nat \<Rightarrow> ('w flasher, link_error option) proc) \<Rightarrow> nat \<Rightarrow> nat \<Rightarrow> nat list \<Rightarrow> ('w flasher, flash_error option) proc" where
  "bl_blocks c send retries count [] = retM None"
| "bl_blocks c send retries count (i # is) =
     bindM (should_abort c) (\<lambda>a. if a then retM (Some Cancelled)
       else bindM (attempts retries (send i) (\<lambda>_. pause c 300)) (\<lambda>err. case err of
           Some e \<Rightarrow> retM (Some (Block_failed (i + 1) count e))
         | None \<Rightarrow> bindM (if i + 1 < count then pause c 5 else retM ()) (\<lambda>_. bl_blocks c send retries count is)))"

definition bl_block :: "bytes \<Rightarrow> nat \<Rightarrow> bytes" where
  "bl_block img i =
     (if i < BL_BLOCKS_FULL_COUNT then block_of DATA_BLOCK_BYTES_BOOTLOADER img 0 i
      else slice (BL_BLOCKS_FULL_COUNT * DATA_BLOCK_BYTES_BOOTLOADER) BL_IMAGE_TOTAL_BYTES img)"

text \<open>The info block and the image of a file: a \<^verbatim>\<open>.fw\<close> container is told by its length.\<close>

definition bl_parts :: "bytes \<Rightarrow> bytes option \<times> bytes" where
  "bl_parts img =
     (if length img = BL_IMAGE_TOTAL_BYTES + INFO_BLOCK_BYTES then (Some (take INFO_BLOCK_BYTES img), drop INFO_BLOCK_BYTES img)
      else (None, img))"

text \<open>From the firmware type to the commit, over the operations of either exchange.\<close>

definition bl_session :: "'w line_calls \<Rightarrow> ('w flasher, link_error option) proc \<Rightarrow> ('w flasher, link_error option) proc
    \<Rightarrow> (nat \<Rightarrow> ('w flasher, link_error option) proc) \<Rightarrow> ('w flasher, link_error option) proc \<Rightarrow> nat \<Rightarrow> ('w flasher, flash_error option) proc" where
  "bl_session c set_mode send_info send_block commit retries =
     bindM (should_abort c) (\<lambda>a. if a then retM (Some Cancelled)
     else bindM set_mode (\<lambda>err. if err \<noteq> None then retM (map_option Mode_failed err)
     else bindM (gate_sleep c 200) (\<lambda>a'. if a' then retM (Some Cancelled)
     else bindM send_info (\<lambda>err. bindM (bl_info_retries 3 c send_info err) (\<lambda>r. case r of
         Some e \<Rightarrow> retM (Some e)
       | None \<Rightarrow>
           bindM mark_irreversible (\<lambda>_. bindM (gate_sleep c 2800) (\<lambda>_.
           bindM (bl_blocks c send_block retries (BL_BLOCKS_FULL_COUNT + 1) [0..<BL_BLOCKS_FULL_COUNT + 1]) (\<lambda>r. case r of
               Some e \<Rightarrow> retM (Some e)
             | None \<Rightarrow> bindM commit (\<lambda>err. retM (map_option Commit_failed err))))))))))"

definition run_flash_bootloader_sequence_by_address ::
    "'w line_calls \<Rightarrow> int \<Rightarrow> bytes \<Rightarrow> string \<Rightarrow> nat \<Rightarrow> ('w flasher, flash_error option) proc" where
  "run_flash_bootloader_sequence_by_address c slave img0 signature retries =
     bindM (detect_indexed_block_windows_by_address c slave) (\<lambda>_.
       case bl_parts img0 of (fw_info, img) \<Rightarrow>
         if length img \<noteq> BL_IMAGE_TOTAL_BYTES then retM (Some (Bl_bad_length (length img)))
         else bindM (case fw_info of
             None \<Rightarrow> retM None
           | Some b \<Rightarrow> bindM (fw_info_with_reg290_signature c b (Some slave) None) (\<lambda>b'. retM (Some b'))) (\<lambda>info.
           bl_session c (write_multiple_registers c slave REG_FIRMWARE_TYPE [FIRMWARE_TYPE_BOOTLOADER])
             (case info of None \<Rightarrow> send_info_block c slave signature img | Some b \<Rightarrow> send_info_block_wb c slave b)
             (\<lambda>i. send_data_block_bootloader c slave (bl_block img i) (fw_info \<noteq> None) i)
             (write_multiple_registers c slave REG_COMMIT_BOOTLOADER [1]) retries))"

definition run_flash_sequence_bootloader ::
    "'w line_calls \<Rightarrow> int \<Rightarrow> bytes \<Rightarrow> string \<Rightarrow> nat \<Rightarrow> ('w flasher, flash_error option) proc" where
  "run_flash_sequence_bootloader c serial img0 signature retries =
     (case bl_parts img0 of (fw_info, img) \<Rightarrow>
       if length img \<noteq> BL_IMAGE_TOTAL_BYTES then retM (Some (Bl_bad_length (length img)))
       else if serial = 0 \<or> serial = 0xFFFFFFFF then retM (Some No_serial)
       else bindM (detect_indexed_block_windows_by_serial c serial) (\<lambda>_.
         bindM (case fw_info of
             None \<Rightarrow> retM None
           | Some b \<Rightarrow> bindM (fw_info_with_reg290_signature c b None (Some serial)) (\<lambda>b'. retM (Some b'))) (\<lambda>info.
           bl_session c (write_multiple_registers_by_serial c serial REG_FIRMWARE_TYPE [FIRMWARE_TYPE_BOOTLOADER])
             (case info of None \<Rightarrow> send_info_block_by_serial c serial signature img | Some b \<Rightarrow> send_info_block_bytes_by_serial c serial b)
             (\<lambda>i. send_data_block_bootloader_by_serial c serial (bl_block img i) (fw_info \<noteq> None) i)
             (write_multiple_registers_by_serial c serial REG_COMMIT_BOOTLOADER [1]) retries)))"

end
