(* ===== verification/Flash_Safety.thy ===== *)
theory Flash_Safety
  imports Flash_Run
begin

text \<open>
  When a flashing sequence may still be cancelled: the invariants of a session as a locale, and the
  gate as its first instance.
\<close>

section \<open>What every step keeps\<close>

text \<open>
  The interface of an invariant of a session: it survives the requests that are \<open>harmless\<close> (all reads
  are), the passing of time and the cancellation callback.  \<open>session_inv_windows\<close> adds the choice of the block windows.
\<close>

locale session_inv =
  fixes c :: "'w line_calls" and I :: "'w flasher \<Rightarrow> bool" and harmless :: "bytes \<Rightarrow> bool"
  assumes sends: "harmless req \<Longrightarrow> keeps I (send_receive c req)"
    and sleeps: "I s \<Longrightarrow> I (s\<lparr>line := l_sleep c ms (line s)\<rparr>)"
    and asks: "I s \<Longrightarrow> I (s\<lparr>line := snd (l_cancelled c (line s))\<rparr>)"
    and reads: "build_read_holding_registers a start n = Inr req \<Longrightarrow> harmless req"
    and fast_reads: "build_read_holding_registers_body start n = Inr body \<Longrightarrow> harmless (build_fast_modbus_request sn body)"
begin

lemma kept_basic:
  "keeps I (now c)" "keeps I (pause c ms)" "keeps I (should_abort c)"
  by (auto simp: now_def pause_def intro: keeps_mod sleeps)
    (auto simp: keeps_def should_abort_def split: prod.split dest: asks)

lemma kept_exchange:
  "harmless req \<Longrightarrow> keeps I (exchange c req)"
  "harmless (build_fast_modbus_request sn pdu) \<Longrightarrow> keeps I (exchange_by_serial c sn pdu)"
  unfolding exchange_def exchange_by_serial_def by (intro keeps_rules kept_basic sends, assumption)+

lemma keeps_liftM_bind: "(\<And>x. r = Inr x \<Longrightarrow> keeps I (f x)) \<Longrightarrow> keeps I (bindM (liftM r) f)"
  by (cases r) auto

lemma kept_read:
  "keeps I (read_holding_registers c slave start n)"
  "keeps I (read_holding_registers_by_serial c sn start n)"
  unfolding read_holding_registers_def read_holding_registers_by_serial_def
  by (intro keeps_liftM_bind keeps_rules kept_exchange; erule reads fast_reads)+

lemma kept_gate_loop: "keeps I (gate_loop n c u)"
  by (induction n) (simp_all only: gate_loop.simps, (intro keeps_rules kept_basic; assumption)+)

lemma kept_gate_sleep: "keeps I (gate_sleep c ms)"
  unfolding gate_sleep_def by (intro keeps_rules kept_basic kept_gate_loop)

lemma kept_read_info: "(\<And>a n. keeps I (read a n)) \<Longrightarrow> keeps I (read_info read)"
  unfolding read_info_def Let_def by (intro keeps_rules)

lemma kept_identify:
  "keeps I (read_bootloader_info c slave)" "keeps I (read_bootloader_info_by_serial c sn)"
  unfolding read_bootloader_info_def read_bootloader_info_by_serial_def
  by (intro keeps_rules kept_read_info kept_read)+

lemma kept_warmup: "keeps I (read_board_signature_bootloader_warmup c slave sn)"
  unfolding read_board_signature_bootloader_warmup_def warmup_def
  by (intro keeps_rules kept_identify kept_read kept_basic)

lemma kept_fw_info: "keeps I (fw_info_with_reg290_signature c info slave sn)"
  unfolding fw_info_with_reg290_signature_def by (intro keeps_rules kept_warmup)

lemma kept_ready_loop:
  "(\<And>a n. keeps I (read a n)) \<Longrightarrow> keeps I (ready_loop n c read started deadline legacy seen)"
proof (induction n arbitrary: legacy seen)
  case (Suc n)
  obtain st rj er where seen: "seen = (st, rj, er)" by (cases seen)
  show ?case unfolding seen ready_loop.simps Let_def by (intro keeps_rules kept_basic Suc)
qed simp

lemma kept_wait: "(\<And>a n. keeps I (read a n)) \<Longrightarrow> keeps I (wait_bootloader_ready_for_data c read)"
  unfolding wait_bootloader_ready_for_data_def by (intro keeps_rules kept_basic kept_ready_loop)

lemma kept_retry_sleep: "(\<And>a n. keeps I (read a n)) \<Longrightarrow> keeps I (sleep_before_retry_flash_data_block c read err)"
  unfolding sleep_before_retry_flash_data_block_def by (intro keeps_rules kept_basic)

lemma kept_attempts:
  assumes send: "keeps I send"
  shows "keeps I (info_attempts n c send)" and "keeps I (wb_info_retries n c send e)"
    and "keeps I (bl_info_retries n c send e)" and "keeps I (wb_attempts n send k e)"
proof -
  show "keeps I (info_attempts n c send)"
    by (induction n) (simp_all only: info_attempts.simps, (intro keeps_rules kept_basic send; assumption)+)
  show "keeps I (wb_info_retries n c send e)"
    by (induction n arbitrary: e) (simp_all only: wb_info_retries.simps, (intro keeps_rules kept_basic send; assumption)+)
  show "keeps I (bl_info_retries n c send e)"
    by (induction n arbitrary: e) (simp_all only: bl_info_retries.simps, (intro keeps_rules kept_basic send; assumption)+)
  show "keeps I (wb_attempts n send k e)"
    by (induction n arbitrary: k e) (simp_all only: wb_attempts.simps, (intro keeps_rules kept_basic send; assumption)+)
qed

end

locale session_inv_windows = session_inv +
  assumes windows: "I s \<Longrightarrow> I (s\<lparr>use_indexed_data_blocks := p, use_indexed_bl_blocks := q\<rparr>)"
begin

lemma kept_detect:
  "keeps I (detect_indexed_block_windows_by_address c slave)" "keeps I (detect_indexed_block_windows_by_serial c sn)"
  unfolding detect_indexed_block_windows_by_address_def detect_indexed_block_windows_by_serial_def
    apply_indexed_block_windows_def Let_def
  by (intro keeps_rules keeps_mod kept_identify windows; assumption)+

end

section \<open>The gate\<close>

interpretation gate: session_inv_windows c "\<lambda>s. irreversible s = b" "\<lambda>_. True" for c :: "'w line_calls" and b
  by unfold_locales (auto simp: keeps_def send_receive_def split: prod.splits)

lemma gate_write:
  "keeps (\<lambda>s. irreversible s = b) (write_multiple_registers c slave start values)"
  "keeps (\<lambda>s. irreversible s = b) (write_multiple_registers_by_serial c sn start values)"
  unfolding write_multiple_registers_def write_multiple_registers_by_serial_def
  by (intro keeps_rules gate.kept_exchange TrueI)+

lemma gate_sends:
  "keeps (\<lambda>s. irreversible s = b) (send_data_block c slave i block fw)"
  "keeps (\<lambda>s. irreversible s = b) (send_data_block_by_serial c sn i block fw)"
  "keeps (\<lambda>s. irreversible s = b) (send_info_block c slave sig img)"
  "keeps (\<lambda>s. irreversible s = b) (send_info_block_by_serial c sn sig img)"
  "keeps (\<lambda>s. irreversible s = b) (send_info_block_wb c slave info)"
  "keeps (\<lambda>s. irreversible s = b) (send_info_block_bytes_by_serial c sn info)"
  "keeps (\<lambda>s. irreversible s = b) (send_data_block_wb c slave block)"
  "keeps (\<lambda>s. irreversible s = b) (send_data_block_bootloader c slave block fw i)"
  "keeps (\<lambda>s. irreversible s = b) (send_data_block_bootloader_by_serial c sn block fw i)"
  unfolding send_data_block_def send_data_block_by_serial_def send_info_block_def send_info_block_by_serial_def
    send_info_block_wb_def send_info_block_bytes_by_serial_def send_data_block_wb_def send_data_block_bootloader_def
    send_data_block_bootloader_by_serial_def
  by (intro keeps_rules gate_write)+

lemma keeps_attempts: "keeps I send \<Longrightarrow> (\<And>e. keeps I (between e)) \<Longrightarrow> keeps I (attempts n send between)"
proof (induction n)
  case (Suc n)
  show ?case unfolding attempts.simps by (intro keeps_rules Suc)
qed simp

text \<open>
  A result that \<open>stops\<close> the sequence by the operator's wish: \<open>before\<close> says that it only comes while the gate
  is open, \<open>after\<close> that it never comes once the gate is closed.
\<close>

definition before :: "('a \<Rightarrow> bool) \<Rightarrow> ('w flasher, 'a) proc \<Rightarrow> bool" where
  "before stops m \<longleftrightarrow> hoare (\<lambda>s. \<not> irreversible s) m (\<lambda>r s. stops r \<longrightarrow> \<not> irreversible s) (\<lambda>_ _. True)"

definition after :: "('a \<Rightarrow> bool) \<Rightarrow> ('w flasher, 'a) proc \<Rightarrow> bool" where
  "after stops m \<longleftrightarrow> hoare irreversible m (\<lambda>r s. \<not> stops r \<and> irreversible s) (\<lambda>_ _. True)"

lemma hoare_keeps: "keeps I m \<Longrightarrow> hoare I m (\<lambda>_. I) (\<lambda>_ _. True)"
  by (auto simp: hoare_def keeps_def split: prod.splits sum.splits)

lemma after_rules:
  "\<not> stops r \<Longrightarrow> after stops (retM r)"
  "keeps (\<lambda>s. irreversible s = True) l \<Longrightarrow> (\<And>x. after stops (f x)) \<Longrightarrow> after stops (bindM l f)"
  "after stops g \<Longrightarrow> (\<And>x. after stops (f' x)) \<Longrightarrow> after stops (case p of None \<Rightarrow> g | Some x \<Rightarrow> f' x)"
  "(\<And>x y. after stops (h x y)) \<Longrightarrow> after stops (case q of (x, y) \<Rightarrow> h x y)"
  "after stops m \<Longrightarrow> after stops n \<Longrightarrow> after stops (if b then m else n)"
  unfolding after_def
  by (auto intro!: hoare_ret hoare_bind [OF hoare_keeps] split: option.split prod.split)

lemma after_gate:
  "after stops m \<Longrightarrow> after stops (bindM (should_abort c) (\<lambda>a. if a then retM r else m))"
  unfolding after_def
  by (rule hoare_bind [where R = "\<lambda>a s. \<not> a \<and> irreversible s"])
    (auto simp: hoare_def should_abort_def split: prod.splits)

lemma before_rules:
  "before stops (retM r)"
  "keeps (\<lambda>s. irreversible s = False) l \<Longrightarrow> (\<And>x. before stops (f x)) \<Longrightarrow> before stops (bindM l f)"
  "before stops g \<Longrightarrow> (\<And>x. before stops (f' x)) \<Longrightarrow> before stops (case p of None \<Rightarrow> g | Some x \<Rightarrow> f' x)"
  "(\<And>x y. before stops (h x y)) \<Longrightarrow> before stops (case q of (x, y) \<Rightarrow> h x y)"
  "before stops m \<Longrightarrow> before stops n \<Longrightarrow> before stops (if b then m else n)"
  unfolding before_def after_def
  by (auto intro!: hoare_ret hoare_bind [OF hoare_keeps] split: option.split prod.split)

lemma before_mark: "(\<And>x. after stops (f x)) \<Longrightarrow> before stops (bindM mark_irreversible f)"
  unfolding before_def after_def
  by (rule hoare_bind [where R = "\<lambda>_. irreversible"])
    (auto simp: mark_irreversible_def intro: hoare_mod elim!: hoare_weaken)

abbreviation "cancels r \<equiv> r = Some Cancelled"

lemma data_blocks_after:
  assumes "\<And>i. keeps (\<lambda>s. irreversible s = True) (send i)" and "\<And>e. keeps (\<lambda>s. irreversible s = True) (between e)"
  shows "after (\<lambda>r. cancels r) (data_blocks c send between delay n is)"
proof (induction "is")
  case (Cons i "is")
  show ?case unfolding data_blocks.simps
    by (intro after_gate after_rules keeps_attempts assms gate.kept_basic Cons) simp
qed (simp only: data_blocks.simps, intro after_rules, simp)

lemma write_blocks_before:
  assumes "\<And>b i. keeps (\<lambda>s. irreversible s = b) (send i)" and "\<And>b a n. keeps (\<lambda>s. irreversible s = b) (read a n)"
  shows "before (\<lambda>r. cancels r) (write_blocks c read send delay n)"
  unfolding write_blocks_def
  by (intro before_mark after_rules data_blocks_after gate.kept_wait gate.kept_gate_sleep gate.kept_retry_sleep assms) simp

lemma bl_blocks_after:
  assumes "\<And>i. keeps (\<lambda>s. irreversible s = True) (send i)"
  shows "after (\<lambda>r. cancels r) (bl_blocks c send retries n is)"
proof (induction "is")
  case (Cons i "is")
  show ?case unfolding bl_blocks.simps
    by (intro after_gate after_rules keeps_attempts keeps_if assms gate.kept_basic keeps_basic Cons) simp
qed (simp only: bl_blocks.simps, intro after_rules, simp)

lemma bl_session_before:
  assumes "\<And>b. keeps (\<lambda>s. irreversible s = b) set_mode" and "\<And>b. keeps (\<lambda>s. irreversible s = b) send_info"
    and "\<And>b i. keeps (\<lambda>s. irreversible s = b) (send_block i)" and "\<And>b. keeps (\<lambda>s. irreversible s = b) commit"
  shows "before (\<lambda>r. cancels r) (bl_session c set_mode send_info send_block commit retries)"
proof -
  have last: "after (\<lambda>r. cancels r) (bindM (bl_blocks c send_block retries n is) (\<lambda>r. case r of
      Some e \<Rightarrow> retM (Some e) | None \<Rightarrow> bindM commit (\<lambda>err. retM (map_option Commit_failed err))))" for n "is"
  proof -
    have "hoare irreversible (bl_blocks c send_block retries n is) (\<lambda>r s. r \<noteq> Some Cancelled \<and> irreversible s) (\<lambda>_ _. True)"
      using bl_blocks_after [OF assms(3)] unfolding after_def .
    moreover have "hoare (\<lambda>s. r \<noteq> Some Cancelled \<and> irreversible s) (case r of
        Some e \<Rightarrow> retM (Some e) | None \<Rightarrow> bindM commit (\<lambda>err. retM (map_option Commit_failed err)))
      (\<lambda>r s. r \<noteq> Some Cancelled \<and> irreversible s) (\<lambda>_ _. True)" for r
      using assms(4) [of True]
      by (auto intro!: hoare_ret hoare_bind [OF hoare_keeps] hoare_weaken [where P' = "\<lambda>s. irreversible s = True"] split: option.split)
    ultimately show ?thesis unfolding after_def by (rule hoare_bind)
  qed
  show ?thesis
    unfolding bl_session_def
    by (intro before_mark before_rules after_rules last gate.kept_basic gate.kept_gate_sleep gate.kept_attempts assms)
qed

lemma wb_blocks_after:
  assumes "\<And>i. keeps (\<lambda>s. irreversible s = True) (send i)"
  shows "after (\<lambda>r. cancels (fst r)) (wb_blocks c send n errors is taken)"
proof (induction "is" arbitrary: errors taken)
  case (Cons i "is")
  show ?case unfolding wb_blocks.simps
    by (intro after_gate after_rules gate.kept_attempts assms gate.kept_basic Cons) simp
qed (simp only: wb_blocks.simps, intro after_rules, simp)

lemma refusal_before:
  "before (\<lambda>r. cancels r) (info_refusal_by_address c slave e)" "before (\<lambda>r. cancels r) (info_refusal_by_serial c sn e)"
  unfolding info_refusal_by_address_def info_refusal_by_serial_def
  by (cases e; simp only: flash_error.case; intro before_rules gate.kept_read)+

lemmas gate_kept = gate.kept_basic gate.kept_gate_sleep gate.kept_attempts gate.kept_identify gate.kept_detect gate.kept_warmup
  gate.kept_fw_info gate.kept_read gate_sends gate_write keeps_rules

lemma by_address_before: "before (\<lambda>r. cancels r) (run_flash_sequence_by_address c slave img)"
  unfolding run_flash_sequence_by_address_def run_fw_by_address_def run_bin_by_address_def Let_def
  by (intro before_rules write_blocks_before refusal_before gate_kept)

lemma by_serial_before: "before (\<lambda>r. cancels r) (run_flash_sequence c sn img)"
  unfolding run_flash_sequence_def run_fw_by_serial_def run_bin_by_serial_def Let_def
  by (intro before_rules write_blocks_before refusal_before gate_kept)

lemma bl_by_address_before: "before (\<lambda>r. cancels r) (run_flash_bootloader_sequence_by_address c slave img sig n)"
  unfolding run_flash_bootloader_sequence_by_address_def
  by (intro before_rules bl_session_before gate_kept)

lemma bl_by_serial_before: "before (\<lambda>r. cancels r) (run_flash_sequence_bootloader c sn img sig n)"
  unfolding run_flash_sequence_bootloader_def
  by (intro before_rules bl_session_before gate_kept)

lemma wb_before: "before (\<lambda>r. cancels (fst r)) (run_flash_sequence_wb c slave img)"
  unfolding run_flash_sequence_wb_def read_wb_free_space_def Let_def
  by (intro before_mark before_rules after_rules wb_blocks_after gate_kept)


text \<open>An operator who cancels at once.\<close>

definition halted_calls :: "unit line_calls" where
  "halted_calls = \<lparr>l_exchange = \<lambda>_ w. (Inr None, w), l_now = \<lambda>_. 0, l_sleep = \<lambda>_ w. w, l_cancelled = \<lambda>w. (True, w),
     l_logging = False, l_deployed = \<lparr>has_carel = True, has_led = True\<rparr>\<rparr>"


end
