(* ===== verification/Flash_Device.thy ===== *)
theory Flash_Device
  imports Flash_Safety
begin

text \<open>
  What a flashing sequence leaves in the device: the contract of a bootloader that numbers its
  blocks, and the proof that a reported success means the image is in the flash.
\<close>

lemma hoare_if:
  "(b \<Longrightarrow> hoare P m Q E) \<Longrightarrow> (\<not> b \<Longrightarrow> hoare P n Q E) \<Longrightarrow> hoare P (if b then m else n) Q E"
  by simp

lemma hoare_option:
  "(r = None \<Longrightarrow> hoare P m Q E) \<Longrightarrow> (\<And>x. r = Some x \<Longrightarrow> hoare P (f x) Q E) \<Longrightarrow> hoare P (case r of None \<Rightarrow> m | Some x \<Rightarrow> f x) Q E"
  by (cases r) simp_all

lemma hoare_case_prod: "(\<And>a b. hoare P (f a b) Q E) \<Longrightarrow> hoare P (case x of (a, b) \<Rightarrow> f a b) Q E"
  by (cases x) simp

section \<open>What the device is said to do\<close>

text \<open>The two ways a device is addressed, the frame of a write to it, and what counts as its acknowledgement.\<close>

datatype target = By_address int | By_serial int

fun write_frame :: "target \<Rightarrow> int \<Rightarrow> int list \<Rightarrow> bytes result" where
  "write_frame (By_address a) start values = build_write_multiple_registers a start values"
| "write_frame (By_serial sn) start values =
     bindE (build_write_multiple_registers_body start values) (\<lambda>body. Inr (build_fast_modbus_request sn body))"

fun acknowledged :: "target \<Rightarrow> bytes option result \<Rightarrow> bool" where
  "acknowledged (By_address a) (Inr (Some d)) \<longleftrightarrow> snd (snd (parse_response d None)) = None"
| "acknowledged (By_serial sn) (Inr (Some d)) \<longleftrightarrow> snd (snd (parse_fast_modbus_response d (Some sn))) = None"
| "acknowledged _ _ \<longleftrightarrow> False"

definition read_frame :: "bytes \<Rightarrow> bool" where
  "read_frame req \<longleftrightarrow>
     (\<exists>a start n. build_read_holding_registers a start n = Inr req) \<or>
     (\<exists>sn start n body. build_read_holding_registers_body start n = Inr body \<and> req = build_fast_modbus_request sn body)"

text \<open>
  A bootloader from version 0.0.0.11 on, as the comments of the source describe it: block \<open>i\<close> of the window
  at \<^verbatim>\<open>0x2100\<close> is stored when it is the one expected, is left alone when it was stored before, and is only
  acknowledged when it is stored; the info block starts an empty image.  The line may lose any
  request and any answer.  \<open>stored\<close> are the blocks in the flash, as registers.
\<close>

definition block_registers :: "int list \<Rightarrow> bool" where
  "block_registers regs \<longleftrightarrow> length regs = 123 \<and> set regs \<subseteq> {0 ..< 2 ^ 16}"

definition indexed_bootloader :: "'w line_calls \<Rightarrow> target \<Rightarrow> ('w \<Rightarrow> int list list) \<Rightarrow> bool" where
  "indexed_bootloader c t stored \<longleftrightarrow>
     (\<forall>w i regs req. write_frame t (DATA_BLOCK_IDX_REG + int i) regs = Inr req \<and> block_registers regs \<and> i < 1280 \<longrightarrow>
        (case l_exchange c req w of (r, w') \<Rightarrow>
           (stored w' = stored w \<or> i = length (stored w) \<and> stored w' = stored w @ [regs]) \<and>
           (acknowledged t r \<longrightarrow> i < length (stored w')))) \<and>
     (\<forall>w regs req. write_frame t INFO_BLOCK_REG regs = Inr req \<longrightarrow>
        (case l_exchange c req w of (r, w') \<Rightarrow> stored w' = [] \<or> stored w' = stored w \<and> \<not> acknowledged t r)) \<and>
     (\<forall>w req. read_frame req \<longrightarrow> stored (snd (l_exchange c req w)) = stored w) \<and>
     (\<forall>w ms. stored (l_sleep c ms w) = stored w) \<and>
     (\<forall>w. stored (snd (l_cancelled c w)) = stored w)"

lemma device_inv:
  assumes "indexed_bootloader c t stored"
  shows "session_inv c (\<lambda>s. P (stored (line s)) (use_indexed_data_blocks s)) read_frame"
  using assms
  by unfold_locales
    (auto simp: indexed_bootloader_def keeps_def send_receive_def read_frame_def split: prod.splits,
     (metis snd_conv)+)

section \<open>One block\<close>

definition write_to :: "'w line_calls \<Rightarrow> target \<Rightarrow> int \<Rightarrow> int list \<Rightarrow> ('w flasher, link_error option) proc" where
  "write_to c t start values =
     (case t of By_address a \<Rightarrow> write_multiple_registers c a start values
      | By_serial sn \<Rightarrow> write_multiple_registers_by_serial c sn start values)"

fun answer_error :: "target \<Rightarrow> bytes option \<Rightarrow> link_error option" where
  "answer_error t None = Some No_answer"
| "answer_error (By_address a) (Some d) = map_option Answer (snd (snd (parse_response d None)))"
| "answer_error (By_serial sn) (Some d) = map_option Answer (snd (snd (parse_fast_modbus_response d (Some sn))))"

lemma answer_error_None: "answer_error t d = None \<longleftrightarrow> acknowledged t (Inr d)"
  by (cases t; cases d) simp_all

lemma write_body_head: "build_write_multiple_registers_body start values = Inr body \<Longrightarrow> hd body = 0x10"
  by (auto simp: build_write_multiple_registers_body_def Let_def split: if_splits)

lemma write_to_run:
  "write_to c t start values s =
     (case write_frame t start values of
        Inl x \<Rightarrow> (Inl x, s)
      | Inr req \<Rightarrow> (case l_exchange c req (line s) of
          (r, w) \<Rightarrow> (map_sum id (answer_error t) r, s\<lparr>line := w, requested := requested s @ [req]\<rparr>)))"
proof (cases t)
  case (By_address a)
  then show ?thesis
    by (auto simp: write_to_def write_multiple_registers_def exchange_def send_receive_def effect_defs
        split: sum.splits prod.splits option.splits)
next
  case (By_serial sn)
  then show ?thesis
    by (cases "build_write_multiple_registers_body start values")
      (auto simp: write_to_def write_multiple_registers_by_serial_def exchange_by_serial_def send_receive_def effect_defs
        dest!: write_body_head split: sum.splits prod.splits option.splits)
qed

lemma bootloader_laws:
  assumes "indexed_bootloader c t stored" and "l_exchange c req w = (r, w')"
  shows "write_frame t (DATA_BLOCK_IDX_REG + int i) regs = Inr req \<Longrightarrow> block_registers regs \<Longrightarrow> i < 1280 \<Longrightarrow>
      (stored w' = stored w \<or> i = length (stored w) \<and> stored w' = stored w @ [regs]) \<and> (acknowledged t r \<longrightarrow> i < length (stored w'))"
    and "write_frame t INFO_BLOCK_REG regs' = Inr req \<Longrightarrow> stored w' = [] \<or> stored w' = stored w \<and> \<not> acknowledged t r"
proof -
  show "(stored w' = stored w \<or> i = length (stored w) \<and> stored w' = stored w @ [regs]) \<and> (acknowledged t r \<longrightarrow> i < length (stored w'))"
    if "write_frame t (DATA_BLOCK_IDX_REG + int i) regs = Inr req" "block_registers regs" "i < 1280"
    using assms(1) [unfolded indexed_bootloader_def, THEN conjunct1, rule_format, OF conjI, OF that(1) conjI, OF that(2,3), of w]
      assms(2) by simp
  show "stored w' = [] \<or> stored w' = stored w \<and> \<not> acknowledged t r"
    if "write_frame t INFO_BLOCK_REG regs' = Inr req"
    using assms(1) [unfolded indexed_bootloader_def, THEN conjunct2, THEN conjunct1, rule_format, OF that, of w] assms(2) by simp
qed

text \<open>One write of block \<open>i\<close> of the image \<open>B\<close>, while the blocks before it are stored.\<close>

definition at_block :: "('w \<Rightarrow> int list list) \<Rightarrow> int list list \<Rightarrow> nat \<Rightarrow> 'w flasher \<Rightarrow> bool" where
  "at_block stored B i s \<longleftrightarrow> use_indexed_data_blocks s \<and> stored (line s) \<in> {take i B, take (Suc i) B}"

lemma write_block:
  assumes dev: "indexed_bootloader c t stored" and i: "i < length B" "i < 1280" and B: "block_registers (B ! i)"
    and at: "at_block stored B i s"
    and run: "write_to c t (DATA_BLOCK_IDX_REG + int i) (B ! i) s = (r, s')"
  shows "at_block stored B i s'" and "r = Inr None \<Longrightarrow> stored (line s') = take (Suc i) B"
proof -
  have both: "at_block stored B i s' \<and> (r = Inr None \<longrightarrow> stored (line s') = take (Suc i) B)"
  proof (cases "write_frame t (DATA_BLOCK_IDX_REG + int i) (B ! i)")
    case (Inl x)
    with run at show ?thesis by (auto simp: write_to_run)
  next
    case (Inr req)
    obtain x w where ex: "l_exchange c req (line s) = (x, w)" by fastforce
    with run Inr have s': "s' = s\<lparr>line := w, requested := requested s @ [req]\<rparr>" and r: "r = map_sum id (answer_error t) x"
      by (auto simp: write_to_run)
    have law: "(stored w = stored (line s) \<or> i = length (stored (line s)) \<and> stored w = stored (line s) @ [B ! i]) \<and>
        (acknowledged t x \<longrightarrow> i < length (stored w))"
      by (rule bootloader_laws(1) [OF dev ex Inr B i(2)])
    have nxt: "take (Suc i) B = take i B @ [B ! i]" using i(1) by (rule take_Suc_conv_app_nth)
    have "r = Inr None \<longleftrightarrow> acknowledged t x \<and> (\<exists>d. x = Inr d)"
      by (cases x) (auto simp: r answer_error_None)
    moreover have "stored w \<in> {take i B, take (Suc i) B} \<and> (acknowledged t x \<longrightarrow> stored w = take (Suc i) B)"
    proof (cases "stored (line s) = take i B")
      case True
      with law i(1) nxt show ?thesis by auto
    next
      case False
      with at have "stored (line s) = take (Suc i) B" by (simp add: at_block_def)
      moreover from this i(1) have "i \<noteq> length (stored (line s))" by simp
      ultimately show ?thesis using law by auto
    qed
    ultimately show ?thesis using at by (simp add: at_block_def s')
  qed
  from both show "at_block stored B i s'" by simp
  from both show "r = Inr None \<Longrightarrow> stored (line s') = take (Suc i) B" by simp
qed

text \<open>The info block: once it is acknowledged the flash is empty.\<close>

lemma write_info:
  assumes dev: "indexed_bootloader c t stored"
    and run: "write_to c t INFO_BLOCK_REG regs s = (Inr None, s')"
  shows "stored (line s') = []"
proof (cases "write_frame t INFO_BLOCK_REG regs")
  case (Inl x)
  with run show ?thesis by (simp add: write_to_run)
next
  case (Inr req)
  obtain x w where ex: "l_exchange c req (line s) = (x, w)" by fastforce
  with run Inr have s': "line s' = w" and r: "map_sum id (answer_error t) x = Inr None"
    by (auto simp: write_to_run)
  have "acknowledged t x" using r by (cases x) (auto simp: answer_error_None)
  then show ?thesis using bootloader_laws(2) [OF dev ex Inr] s' by simp
qed

section \<open>All blocks\<close>

text \<open>\<open>sends\<close> of a way to send block \<open>i\<close>: the write of its registers, given the window is in use.\<close>

definition sends :: "'w line_calls \<Rightarrow> target \<Rightarrow> int list list \<Rightarrow> nat \<Rightarrow> ('w flasher, link_error option) proc \<Rightarrow> bool" where
  "sends c t B i send \<longleftrightarrow>
     (\<forall>s. use_indexed_data_blocks s \<longrightarrow> send s = write_to c t (DATA_BLOCK_IDX_REG + int i) (B ! i) s)"

lemma attempts_block:
  assumes dev: "indexed_bootloader c t stored" and i: "i < length B" "i < 1280" and B: "block_registers (B ! i)"
    and send: "sends c t B i send" and between: "\<And>e. keeps (at_block stored B i) (between e)"
  shows "hoare (at_block stored B i) (attempts n send between)
    (\<lambda>e s. at_block stored B i s \<and> (e = None \<and> 0 < n \<longrightarrow> stored (line s) = take (Suc i) B)) (\<lambda>_ _. True)"
proof (induction n)
  case 0
  show ?case by (simp add: hoare_def)
next
  case (Suc n)
  have one: "hoare (at_block stored B i) send (\<lambda>e s. at_block stored B i s \<and> (e = None \<longrightarrow> stored (line s) = take (Suc i) B)) (\<lambda>_ _. True)"
    unfolding hoare_def
  proof (intro allI impI)
    fix s assume at: "at_block stored B i s"
    then have run: "write_to c t (DATA_BLOCK_IDX_REG + int i) (B ! i) s = (fst (send s), snd (send s))"
      using send by (simp add: sends_def at_block_def)
    show "case send s of (Inl e, s') \<Rightarrow> True
      | (Inr x, s') \<Rightarrow> at_block stored B i s' \<and> (x = None \<longrightarrow> stored (line s') = take (Suc i) B)"
      using write_block [OF dev i B at run] by (auto split: prod.splits sum.splits)
  qed
  have more: "hoare (\<lambda>s. at_block stored B i s \<and> e \<noteq> None) (bindM (between e) (\<lambda>_. attempts n send between))
      (\<lambda>e s. at_block stored B i s \<and> (e = None \<and> 0 < n \<longrightarrow> stored (line s) = take (Suc i) B)) (\<lambda>_ _. True)" for e
    by (rule hoare_weaken [OF hoare_bind [OF hoare_keeps [OF between] Suc]]) auto
  show ?case
    unfolding attempts.simps
  proof (rule hoare_bind [OF one])
    fix e :: "link_error option"
    show "hoare (\<lambda>s. at_block stored B i s \<and> (e = None \<longrightarrow> stored (line s) = take (Suc i) B))
      (if e = None then retM None else if n = 0 then retM e else bindM (between e) (\<lambda>_. attempts n send between))
      (\<lambda>e s. at_block stored B i s \<and> (e = None \<and> 0 < Suc n \<longrightarrow> stored (line s) = take (Suc i) B)) (\<lambda>_ _. True)"
      using hoare_weaken [OF more [of e]] by (auto intro!: hoare_ret)
  qed
qed

text \<open>Between two blocks: the blocks before \<open>i\<close> are stored, and no other.\<close>

definition up_to_block :: "('w \<Rightarrow> int list list) \<Rightarrow> int list list \<Rightarrow> nat \<Rightarrow> 'w flasher \<Rightarrow> bool" where
  "up_to_block stored B i s \<longleftrightarrow> use_indexed_data_blocks s \<and> stored (line s) = take i B"

definition target_read :: "'w line_calls \<Rightarrow> target \<Rightarrow> int \<Rightarrow> int \<Rightarrow> ('w flasher, bytes option \<times> link_error option) proc" where
  "target_read c t =
     (case t of By_address a \<Rightarrow> read_holding_registers c a | By_serial sn \<Rightarrow> read_holding_registers_by_serial c sn)"

lemma up_to_block_inv:
  assumes "indexed_bootloader c t stored"
  shows "session_inv c (up_to_block stored B i) read_frame" and "session_inv c (at_block stored B i) read_frame"
    and "session_inv c use_indexed_data_blocks read_frame"
  using device_inv [OF assms, of "\<lambda>x ix. ix \<and> x = take i B"] device_inv [OF assms, of "\<lambda>x ix. ix \<and> x \<in> {take i B, take (Suc i) B}"]
    device_inv [OF assms, of "\<lambda>x ix. ix"]
  by (simp_all only: up_to_block_def [abs_def] at_block_def [abs_def])

lemma target_read_keeps: "session_inv c I harmless \<Longrightarrow> keeps I (target_read c t a n)"
  by (cases t) (simp_all add: target_read_def session_inv.kept_read)

lemma hoare_data_blocks:
  assumes dev: "indexed_bootloader c t stored" and B: "list_all block_registers B" "length B \<le> 1280"
    and send: "\<And>i. i < length B \<Longrightarrow> sends c t B i (send i)" and n: "n \<le> length B" and "i \<le> n"
  shows "hoare (up_to_block stored B i)
    (data_blocks c send (sleep_before_retry_flash_data_block c (target_read c t)) delay cnt [i..<n])
    (\<lambda>r s. r = None \<longrightarrow> stored (line s) = take n B) (\<lambda>_ _. True)"
  using \<open>i \<le> n\<close>
proof (induction "n - i" arbitrary: i)
  case 0
  then show ?case by (simp add: hoare_def up_to_block_def)
next
  case (Suc k)
  then have i: "i < n" "i < length B" "i < 1280" using n B(2) by simp_all
  let ?between = "sleep_before_retry_flash_data_block c (target_read c t)"
  have regs: "block_registers (B ! i)" using B(1) i(2) by (simp add: list_all_length)
  have one: "hoare (at_block stored B i) (attempts 3 (send i) ?between)
      (\<lambda>e s. at_block stored B i s \<and> (e = None \<and> 0 < (3::nat) \<longrightarrow> stored (line s) = take (Suc i) B)) (\<lambda>_ _. True)"
    by (rule attempts_block [OF dev i(2,3) regs send [OF i(2)]])
      (intro session_inv.kept_retry_sleep [OF up_to_block_inv(2) [OF dev]] target_read_keeps [OF up_to_block_inv(2) [OF dev]])
  have rest: "hoare (up_to_block stored B (Suc i)) (data_blocks c send ?between delay cnt [Suc i..<n])
      (\<lambda>r s. r = None \<longrightarrow> stored (line s) = take n B) (\<lambda>_ _. True)"
    using Suc.hyps(1) [of "Suc i"] Suc.hyps(2) i(1) by simp
  have paused: "hoare (\<lambda>s. at_block stored B i s \<and> (e = None \<and> 0 < (3::nat) \<longrightarrow> stored (line s) = take (Suc i) B))
      (case e of Some x \<Rightarrow> retM (Some (Block_failed (i + 1) cnt x))
       | None \<Rightarrow> bindM (pause c delay) (\<lambda>_. data_blocks c send ?between delay cnt [Suc i..<n]))
      (\<lambda>r s. r = None \<longrightarrow> stored (line s) = take n B) (\<lambda>_ _. True)" for e
  proof (cases e)
    case None
    have "hoare (up_to_block stored B (Suc i)) (bindM (pause c delay) (\<lambda>_. data_blocks c send ?between delay cnt [Suc i..<n]))
      (\<lambda>r s. r = None \<longrightarrow> stored (line s) = take n B) (\<lambda>_ _. True)"
      by (rule hoare_bind [OF hoare_keeps rest]) (rule session_inv.kept_basic [OF up_to_block_inv(1) [OF dev]])
    then show ?thesis unfolding None option.case
      by (rule hoare_weaken) (auto simp: at_block_def up_to_block_def)
  qed (auto intro: hoare_ret)
  have gate: "hoare (up_to_block stored B i) (should_abort c) (\<lambda>_. at_block stored B i) (\<lambda>_ _. True)"
    by (rule hoare_weaken [OF hoare_keeps [OF session_inv.kept_basic(3) [OF up_to_block_inv(1) [OF dev]]]])
      (auto simp: at_block_def up_to_block_def)
  have list: "[i..<n] = i # [Suc i..<n]" using i(1) by (rule upt_conv_Cons)
  show ?case
    unfolding list data_blocks.simps
    by (rule hoare_bind [OF gate]) (intro hoare_if hoare_ret hoare_bind [OF one paused]; simp)
qed

lemma hoare_write_blocks:
  assumes dev: "indexed_bootloader c t stored" and B: "list_all block_registers B" "length B \<le> 1280"
    and send: "\<And>i. i < length B \<Longrightarrow> sends c t B i (send i)"
  shows "hoare (up_to_block stored B 0) (write_blocks c (target_read c t) send delay (length B))
    (\<lambda>r s. r = None \<longrightarrow> stored (line s) = B) (\<lambda>_ _. True)"
proof -
  note inv = up_to_block_inv(1) [OF dev, of B 0]
  have mark: "hoare (up_to_block stored B 0) mark_irreversible (\<lambda>_. up_to_block stored B 0) (\<lambda>_ _. True)"
    by (auto simp: mark_irreversible_def up_to_block_def intro: hoare_mod)
  have blocks: "hoare (up_to_block stored B 0)
      (data_blocks c send (sleep_before_retry_flash_data_block c (target_read c t)) delay (length B) [0..<length B])
      (\<lambda>r s. r = None \<longrightarrow> stored (line s) = B) (\<lambda>_ _. True)"
    using hoare_data_blocks [OF dev B send order_refl, of 0 delay "length B"] by simp
  show ?thesis
    unfolding write_blocks_def
    by (rule hoare_bind [OF mark], rule hoare_bind [OF hoare_keeps [OF session_inv.kept_wait [OF inv]]])
      (auto intro!: target_read_keeps [OF inv] hoare_ret hoare_bind [OF hoare_keeps [OF session_inv.kept_gate_sleep [OF inv]] blocks]
        split: option.split)
qed

text \<open>What one info block that is acknowledged brings about, the attempts bring about.\<close>

lemma info_attempts_rule:
  assumes inv: "session_inv c I harmless"
    and one: "hoare I send (\<lambda>e s. I s \<and> (e = None \<longrightarrow> P s)) (\<lambda>_ _. True)"
  shows "hoare I (info_attempts (Suc n) c send) (\<lambda>r s. r = None \<longrightarrow> P s) (\<lambda>_ _. True)"
proof (induction n)
  let ?Q = "\<lambda>r s. r = None \<longrightarrow> P s"
  note gate = hoare_keeps [OF session_inv.kept_basic(3) [OF inv]]
  have again: "hoare I (bindM (should_abort c) (\<lambda>a'. if a' then retM (Some Cancelled)
      else bindM (pause c 3000) (\<lambda>_. m))) ?Q (\<lambda>_ _. True)"
    if "hoare I m ?Q (\<lambda>_ _. True)" for m
    by (rule hoare_bind [OF gate]) (auto intro!: hoare_ret hoare_bind [OF hoare_keeps that] session_inv.kept_basic [OF inv])
  have step: "hoare I (info_attempts (Suc k) c send) ?Q (\<lambda>_ _. True)"
    if more: "k \<noteq> 0 \<Longrightarrow> hoare I (info_attempts k c send) ?Q (\<lambda>_ _. True)" for k
    unfolding info_attempts.simps
  proof (rule hoare_bind [OF gate])
    fix a
    have "hoare (\<lambda>s. I s \<and> (e = None \<longrightarrow> P s))
        (case e of None \<Rightarrow> retM None
         | Some x \<Rightarrow> if k = 0 then retM (Some (Info_failed x))
             else bindM (should_abort c) (\<lambda>a'. if a' then retM (Some Cancelled)
               else bindM (pause c 3000) (\<lambda>_. info_attempts k c send))) ?Q (\<lambda>_ _. True)" for e
      using hoare_weaken [OF again [OF more]] by (auto intro!: hoare_ret split: option.split)
    then show "hoare I (if a then retM (Some Cancelled)
        else bindM send (\<lambda>err. case err of None \<Rightarrow> retM None
          | Some x \<Rightarrow> if k = 0 then retM (Some (Info_failed x))
              else bindM (should_abort c) (\<lambda>a'. if a' then retM (Some Cancelled)
                else bindM (pause c 3000) (\<lambda>_. info_attempts k c send)))) ?Q (\<lambda>_ _. True)"
      by (auto intro!: hoare_ret hoare_bind [OF one])
  qed
  show "hoare I (info_attempts (Suc 0) c send) ?Q (\<lambda>_ _. True)" by (rule step) simp
  fix n assume "hoare I (info_attempts (Suc n) c send) ?Q (\<lambda>_ _. True)"
  then show "hoare I (info_attempts (Suc (Suc n)) c send) ?Q (\<lambda>_ _. True)" by (rule step)
qed

lemma hoare_info:
  assumes dev: "indexed_bootloader c t stored" and send: "send = bindM (liftM r) (write_to c t INFO_BLOCK_REG)"
  shows "hoare use_indexed_data_blocks (info_attempts (Suc n) c send) (\<lambda>r s. r = None \<longrightarrow> up_to_block stored B 0 s) (\<lambda>_ _. True)"
proof (rule info_attempts_rule [OF up_to_block_inv(3) [OF dev]])
  show "hoare use_indexed_data_blocks send (\<lambda>e s. use_indexed_data_blocks s \<and> (e = None \<longrightarrow> up_to_block stored B 0 s)) (\<lambda>_ _. True)"
  proof (cases r)
    case (Inr regs)
    show ?thesis
      unfolding send Inr bindM_simps hoare_def
    proof (intro allI impI)
      fix s :: "'a flasher" assume ix: "use_indexed_data_blocks s"
      obtain x s' where run: "write_to c t INFO_BLOCK_REG regs s = (x, s')" by fastforce
      from run ix have "use_indexed_data_blocks s'" by (auto simp: write_to_run split: sum.splits prod.splits)
      moreover have "x = Inr None \<Longrightarrow> stored (line s') = []" using write_info [OF dev] run by simp
      ultimately show "case write_to c t INFO_BLOCK_REG regs s of (Inl e, s') \<Rightarrow> True
        | (Inr x, s') \<Rightarrow> use_indexed_data_blocks s' \<and> (x = None \<longrightarrow> up_to_block stored B 0 s')"
        using run by (auto simp: up_to_block_def split: sum.splits)
    qed
  qed (simp add: send hoare_raise)
qed

section \<open>The image in the flash\<close>

text \<open>The bytes the device writes for its registers, the high one first.\<close>

definition flash_bytes :: "int list list \<Rightarrow> bytes" where
  "flash_bytes regs = concat (map (\<lambda>r. concat (map (\<lambda>v. be16 (word_of_int v)) r)) regs)"

fun swap_pairs :: "bytes \<Rightarrow> bytes" where
  "swap_pairs (a # b # bs) = b # a # swap_pairs bs" | "swap_pairs bs = bs"

text \<open>The data of an image from \<open>d\<close> on, cut or filled with \<^verbatim>\<open>0xFF\<close> to whole blocks.\<close>

definition whole_blocks :: "nat \<Rightarrow> bytes \<Rightarrow> bytes" where
  "whole_blocks len d = (let m = DATA_BLOCK_BYTES * block_count DATA_BLOCK_BYTES len in ljust m 0xFF (take m d))"

lemma be16_word16 [simp]: "be16 (word16 a b) = [a, b]"
  using word16_split [of "word16 a b"] by (simp add: word16_inj be16_def)

lemma regs_bytes:
  "even (length bs) \<Longrightarrow> concat (map (\<lambda>v. be16 (word_of_int v)) (regs_be bs)) = bs"
  "even (length bs) \<Longrightarrow> concat (map (\<lambda>v. be16 (word_of_int v)) (regs_le bs)) = swap_pairs bs"
  by (induction bs rule: regs_be.induct) simp_all

lemma regs_block: "length bs = 246 \<Longrightarrow> block_registers (regs_be bs) \<and> block_registers (regs_le bs)"
proof -
  have "length (regs_be bs) = length bs div 2 \<and> length (regs_le bs) = length bs div 2"
    by (induction bs rule: regs_be.induct) simp_all
  moreover have "set (regs_be bs) \<subseteq> {0 ..< 2 ^ 16} \<and> set (regs_le bs) \<subseteq> {0 ..< 2 ^ 16}"
    by (induction bs rule: regs_be.induct) (simp_all add: uint_lt2p [where 'a = 16, simplified])
  ultimately show "length bs = 246 \<Longrightarrow> ?thesis" by (simp add: block_registers_def)
qed

lemma swap_pairs_append: "even (length xs) \<Longrightarrow> swap_pairs (xs @ ys) = swap_pairs xs @ swap_pairs ys"
  by (induction xs rule: swap_pairs.induct) simp_all

text \<open>The blocks of an image side by side.\<close>

lemma length_ljust: "length (ljust n f bs) = max n (length bs)"
  by (simp add: ljust_def)

lemma length_block_of [simp]: "length (block_of n img start i) \<le> n"
  by (simp add: block_of_def slice_def)

lemma blocks_concat:
  "concat (map (\<lambda>i. ljust n f (block_of n img start i)) [0..<k]) = ljust (n * k) f (take (n * k) (drop start img))"
proof (induction k)
  case 0
  show ?case by (simp add: ljust_def)
next
  case (Suc k)
  let ?d = "drop start img"
  have block: "block_of n img start k = take n (drop (n * k) ?d)"
    by (simp add: block_of_def slice_def algebra_simps drop_take)
  have split: "take (n * Suc k) ?d = take (n * k) ?d @ take n (drop (n * k) ?d)"
    using take_add [of "n * k" n ?d] by (simp add: add.commute)
  have "concat (map (\<lambda>i. ljust n f (block_of n img start i)) [0..<Suc k]) =
      ljust (n * k) f (take (n * k) ?d) @ ljust n f (take n (drop (n * k) ?d))"
    by (simp add: Suc block)
  also have "\<dots> = ljust (n * Suc k) f (take (n * Suc k) ?d)"
  proof (cases "length ?d \<le> n * k")
    case True
    then show ?thesis by (simp add: ljust_def replicate_add [symmetric])
  next
    case False
    then show ?thesis unfolding split ljust_def by simp
  qed
  finally show ?case .
qed

section \<open>The sequences\<close>

text \<open>The application sequence for either target.\<close>

definition flash_application :: "'w line_calls \<Rightarrow> target \<Rightarrow> bytes \<Rightarrow> ('w flasher, flash_error option) proc" where
  "flash_application c t img =
     (case t of By_address a \<Rightarrow> run_flash_sequence_by_address c a img | By_serial sn \<Rightarrow> run_flash_sequence c sn img)"

definition detect_windows :: "'w line_calls \<Rightarrow> target \<Rightarrow> ('w flasher, unit) proc" where
  "detect_windows c t =
     (case t of By_address a \<Rightarrow> detect_indexed_block_windows_by_address c a
      | By_serial sn \<Rightarrow> detect_indexed_block_windows_by_serial c sn)"

definition blocks_sent :: "bytes \<Rightarrow> int list list" where
  "blocks_sent img =
     (if image_has_embedded_fw_header img
      then map (\<lambda>i. regs_le (ljust DATA_BLOCK_BYTES 0xFF (block_of DATA_BLOCK_BYTES img INFO_BLOCK_BYTES i)))
        [0..<block_count DATA_BLOCK_BYTES (nat (u32_at img 12))]
      else map (\<lambda>i. regs_be (ljust DATA_BLOCK_BYTES 0xFF (block_of DATA_BLOCK_BYTES img 0 i)))
        [0..<block_count DATA_BLOCK_BYTES (length img)])"

definition flashed :: "bytes \<Rightarrow> bytes" where
  "flashed img =
     (if image_has_embedded_fw_header img then swap_pairs (whole_blocks (nat (u32_at img 12)) (drop INFO_BLOCK_BYTES img))
      else whole_blocks (length img) img)"

lemma length_padded: "length (ljust DATA_BLOCK_BYTES 0xFF (block_of DATA_BLOCK_BYTES img start i)) = 246"
  using length_block_of [of 246 img start i] by (simp add: DATA_BLOCK_BYTES_def length_ljust del: length_block_of)

lemma flash_bytes_blocks: "flash_bytes (blocks_sent img) = flashed img"
proof -
  let ?b = "\<lambda>start i. ljust DATA_BLOCK_BYTES 0xFF (block_of DATA_BLOCK_BYTES img start i)"
  have even: "even (length (?b start i))" for start i by (simp only: length_padded) simp
  have "concat (map (\<lambda>i. swap_pairs (?b start i)) is) = swap_pairs (concat (map (?b start) is))" for start "is"
    by (induction "is") (simp_all add: swap_pairs_append even)
  then show ?thesis
    by (simp add: flash_bytes_def blocks_sent_def flashed_def o_def regs_bytes even blocks_concat whole_blocks_def Let_def)
qed

lemma block_count_small: "int n \<le> MAX_FIRMWARE_SIZE_BYTES \<Longrightarrow> block_count DATA_BLOCK_BYTES n \<le> 1280"
  by (simp add: block_count_def DATA_BLOCK_BYTES_def MAX_FIRMWARE_SIZE_BYTES_def FLASH_APP_START_def FLASH_APP_END_def)

lemma send_data_block_sends:
  assumes "i < length B" and "length b = 246" and "B ! i = (if fw then regs_le b else regs_be b)"
  shows "sends c (By_address a) B i (send_data_block c a i b fw)"
    and "sends c (By_serial sn) B i (send_data_block_by_serial c sn i b fw)"
  using assms
  by (auto simp: sends_def send_data_block_def send_data_block_by_serial_def app_registers_def Let_def ljust_def
      payload_block_to_registers_def payload_block_to_registers_app_le_def DATA_BLOCK_BYTES_def data_register_def
      write_to_def fun_eq_iff)

lemma write_to_apply [simp]:
  "write_to c (By_address a) start = write_multiple_registers c a start"
  "write_to c (By_serial sn) start = write_multiple_registers_by_serial c sn start"
  by (auto simp: write_to_def)

lemma target_read_apply [simp]:
  "target_read c (By_address a) = read_holding_registers c a"
  "target_read c (By_serial sn) = read_holding_registers_by_serial c sn"
  by (simp_all add: target_read_def)

text \<open>What is sent after a successful info block ends in the flash.\<close>

definition fails :: "('w flasher, flash_error option) proc \<Rightarrow> bool" where
  "fails m \<longleftrightarrow> hoare (\<lambda>_. True) m (\<lambda>r _. r \<noteq> None) (\<lambda>_ _. True)"

lemma fails_rules:
  "fails (retM (Some e))" "fails (info_refusal_by_address c a e)" "fails (info_refusal_by_serial c sn e)"
  unfolding fails_def info_refusal_by_address_def info_refusal_by_serial_def
  by (auto intro!: hoare_ret split: flash_error.split)
    (auto simp: hoare_def bindM_def split: prod.splits sum.splits)

lemma info_then_blocks:
  assumes dev: "indexed_bootloader c t stored" and info: "info = bindM (liftM r) (write_to c t INFO_BLOCK_REG)"
    and B: "list_all block_registers B" "length B \<le> 1280" and send: "\<And>i. i < length B \<Longrightarrow> sends c t B i (send i)"
    and n: "n = length B" and f: "\<And>e. fails (f e)"
  shows "hoare use_indexed_data_blocks (bindM (info_attempts 3 c info) (\<lambda>r. case r of
      Some e \<Rightarrow> f e | None \<Rightarrow> write_blocks c (target_read c t) send delay n))
    (\<lambda>r s. r = None \<longrightarrow> stored (line s) = B) (\<lambda>_ _. True)"
proof (rule hoare_bind)
  show "hoare use_indexed_data_blocks (info_attempts 3 c info) (\<lambda>r s. r = None \<longrightarrow> up_to_block stored B 0 s) (\<lambda>_ _. True)"
    using hoare_info [OF dev info, of 2] by (simp add: numeral_3_eq_3)
  have "hoare (\<lambda>_. True) (f e) (\<lambda>r s. r = None \<longrightarrow> stored (line s) = B) (\<lambda>_ _. True)" for e
    using f [of e, unfolded fails_def] by (rule hoare_weaken) auto
  then show "hoare (\<lambda>s. r = None \<longrightarrow> up_to_block stored B 0 s) (case r of
      Some e \<Rightarrow> f e | None \<Rightarrow> write_blocks c (target_read c t) send delay n)
    (\<lambda>r s. r = None \<longrightarrow> stored (line s) = B) (\<lambda>_ _. True)" for r
    using hoare_write_blocks [OF dev B send, of delay] n by (cases r) simp_all
qed

lemma blocks_sent_ok:
  assumes "int (if image_has_embedded_fw_header img then nat (u32_at img 12) else length img) \<le> MAX_FIRMWARE_SIZE_BYTES"
  shows "list_all block_registers (blocks_sent img)" and "length (blocks_sent img) \<le> 1280"
    and "length (blocks_sent img) = block_count DATA_BLOCK_BYTES (if image_has_embedded_fw_header img then nat (u32_at img 12) else length img)"
  using assms block_count_small by (auto simp: blocks_sent_def list_all_iff regs_block length_padded)

lemma fw_header_size:
  "image_has_embedded_fw_header img \<Longrightarrow> int (nat (u32_at img 12)) \<le> MAX_FIRMWARE_SIZE_BYTES"
  by (auto simp: image_has_embedded_fw_header_def split: if_splits)

lemma fw_sends:
  assumes "image_has_embedded_fw_header img" and "i < length (blocks_sent img)"
  shows "sends c (By_address a) (blocks_sent img) i
      (send_data_block c a i (ljust DATA_BLOCK_BYTES 0xFF (block_of DATA_BLOCK_BYTES img INFO_BLOCK_BYTES i)) True)"
    and "sends c (By_serial sn) (blocks_sent img) i
      (send_data_block_by_serial c sn i (ljust DATA_BLOCK_BYTES 0xFF (block_of DATA_BLOCK_BYTES img INFO_BLOCK_BYTES i)) True)"
  using assms by (auto intro!: send_data_block_sends simp: blocks_sent_def length_padded)

lemma bin_sends:
  assumes "\<not> image_has_embedded_fw_header img" and "i < length (blocks_sent img)"
  shows "sends c (By_address a) (blocks_sent img) i
      (send_data_block c a i (ljust DATA_BLOCK_BYTES 0xFF (block_of DATA_BLOCK_BYTES img 0 i)) False)"
    and "sends c (By_serial sn) (blocks_sent img) i
      (send_data_block_by_serial c sn i (ljust DATA_BLOCK_BYTES 0xFF (block_of DATA_BLOCK_BYTES img 0 i)) False)"
  using assms by (auto intro!: send_data_block_sends simp: blocks_sent_def length_padded)

lemma info_sends:
  "send_info_block_wb c a info =
     bindM (liftM (info_block_to_registers (ljust INFO_BLOCK_BYTES 0 info))) (write_to c (By_address a) INFO_BLOCK_REG)"
  "send_info_block_bytes_by_serial c sn info =
     bindM (liftM (info_block_to_registers (ljust INFO_BLOCK_BYTES 0 info))) (write_to c (By_serial sn) INFO_BLOCK_REG)"
  "send_info_block c a sig img =
     bindM (liftM (bindE (build_info_block sig (int (length img)) img) info_block_to_registers)) (write_to c (By_address a) INFO_BLOCK_REG)"
  "send_info_block_by_serial c sn sig img =
     bindM (liftM (bindE (build_info_block sig (int (length img)) img) info_block_to_registers)) (write_to c (By_serial sn) INFO_BLOCK_REG)"
  by (simp_all add: send_info_block_wb_def send_info_block_bytes_by_serial_def send_info_block_def send_info_block_by_serial_def)

lemma fw_stores:
  assumes dev: "indexed_bootloader c (By_address a) stored" and fw: "image_has_embedded_fw_header img"
  shows "hoare use_indexed_data_blocks (run_fw_by_address c a img) (\<lambda>r s. r = None \<longrightarrow> stored (line s) = blocks_sent img) (\<lambda>_ _. True)"
proof -
  note inv = up_to_block_inv(3) [OF dev]
  note ok = blocks_sent_ok [of img, unfolded if_P [OF fw], OF fw_header_size [OF fw]]
  show ?thesis
    unfolding run_fw_by_address_def Let_def
    by (intro hoare_option hoare_bind [OF hoare_keeps [OF session_inv.kept_fw_info [OF inv]]]
        info_then_blocks [OF dev info_sends(1) ok(1,2) fw_sends(1) [OF fw], unfolded target_read_apply] fails_rules)
      (auto intro: hoare_ret simp: ok(3))
qed

lemma fw_stores_by_serial:
  assumes dev: "indexed_bootloader c (By_serial sn) stored" and fw: "image_has_embedded_fw_header img"
  shows "hoare use_indexed_data_blocks (run_fw_by_serial c sn img) (\<lambda>r s. r = None \<longrightarrow> stored (line s) = blocks_sent img) (\<lambda>_ _. True)"
proof -
  note inv = up_to_block_inv(3) [OF dev]
  note ok = blocks_sent_ok [of img, unfolded if_P [OF fw], OF fw_header_size [OF fw]]
  show ?thesis
    unfolding run_fw_by_serial_def Let_def
    by (intro hoare_option hoare_bind [OF hoare_keeps [OF session_inv.kept_fw_info [OF inv]]]
        info_then_blocks [OF dev info_sends(2) ok(1,2) fw_sends(2) [OF fw], unfolded target_read_apply] fails_rules)
      (auto intro: hoare_ret simp: ok(3))
qed

lemma bin_stores:
  assumes dev: "indexed_bootloader c (By_address a) stored" and bin: "\<not> image_has_embedded_fw_header img"
  shows "hoare use_indexed_data_blocks (run_bin_by_address c a img) (\<lambda>r s. r = None \<longrightarrow> stored (line s) = blocks_sent img) (\<lambda>_ _. True)"
proof (cases "int (length img) \<le> MAX_FIRMWARE_SIZE_BYTES")
  case True
  note inv = up_to_block_inv(3) [OF dev]
  note ok = blocks_sent_ok [of img, unfolded if_not_P [OF bin], OF True]
  show ?thesis
    unfolding run_bin_by_address_def Let_def prod.case
    by (intro hoare_option hoare_if hoare_case_prod hoare_bind [OF hoare_keeps [OF session_inv.kept_warmup [OF inv]]]
        hoare_bind [OF hoare_keeps [OF session_inv.kept_basic(3) [OF inv]]]
        hoare_bind [OF hoare_keeps [OF session_inv.kept_gate_sleep [OF inv]]]
        info_then_blocks [OF dev info_sends(3) ok(1,2) bin_sends(1) [OF bin], unfolded target_read_apply] fails_rules)
      (auto intro: hoare_ret simp: ok(3))
qed (auto simp: run_bin_by_address_def hoare_def split: option.split)

lemma bin_stores_by_serial:
  assumes dev: "indexed_bootloader c (By_serial sn) stored" and bin: "\<not> image_has_embedded_fw_header img"
  shows "hoare use_indexed_data_blocks (run_bin_by_serial c sn img) (\<lambda>r s. r = None \<longrightarrow> stored (line s) = blocks_sent img) (\<lambda>_ _. True)"
proof (cases "int (length img) \<le> MAX_FIRMWARE_SIZE_BYTES")
  case True
  note inv = up_to_block_inv(3) [OF dev]
  note ok = blocks_sent_ok [of img, unfolded if_not_P [OF bin], OF True]
  show ?thesis
    unfolding run_bin_by_serial_def Let_def prod.case
    by (intro hoare_option hoare_if hoare_case_prod hoare_bind [OF hoare_keeps [OF session_inv.kept_warmup [OF inv]]]
        hoare_bind [OF hoare_keeps [OF session_inv.kept_basic(3) [OF inv]]]
        hoare_bind [OF hoare_keeps [OF session_inv.kept_gate_sleep [OF inv]]]
        info_then_blocks [OF dev info_sends(4) ok(1,2) bin_sends(2) [OF bin], unfolded target_read_apply] fails_rules)
      (auto intro: hoare_ret simp: ok(3))
qed (auto simp: run_bin_by_serial_def hoare_def)

section \<open>A device and a line\<close>

text \<open>
  A module at address 247 with bootloader 0.0.0.11, an idle clock, and a line that loses the next answers
  to data blocks as a list says.  The world is the flash and that list.
\<close>

type_synonym toy = "int list list \<times> bool list"

definition toy_payload :: "int \<Rightarrow> bytes" where
  "toy_payload reg =
     (if reg = REG_BOOTLOADER_VERSION then concat (map (\<lambda>c. [0, of_char c]) ''0.0.0.11'')
      else if reg = REG_SIGNATURE then replicate 24 0 else [0, 0])"

definition toy_exchange :: "bytes \<Rightarrow> toy \<Rightarrow> bytes option result \<times> toy" where
  "toy_exchange req w =
     (let reg = reg16 req 2; ack = Inr (Some (with_crc [247, 0x10, 0x20, 0, 0, 1])) in
      if req ! 1 = 0x10 then
        if reg = INFO_BLOCK_REG then (ack, [], snd w)
        else let i = nat (reg - DATA_BLOCK_IDX_REG);
                 bs = (if i = length (fst w) then fst w @ [regs_be (slice 7 253 req)] else fst w) in
          (if snd w \<noteq> [] \<and> hd (snd w) \<or> length bs \<le> i then Inr None else ack, bs, drop 1 (snd w))
      else if req ! 1 = 3 then (Inr (Some (with_crc (247 # 3 # of_nat (length (toy_payload reg)) # toy_payload reg))), w)
      else (Inr None, w))"

definition toy_calls :: "toy line_calls" where
  "toy_calls = \<lparr>l_exchange = toy_exchange, l_now = \<lambda>_. 0, l_sleep = \<lambda>_ w. w, l_cancelled = \<lambda>w. (False, w),
     l_logging = False, l_deployed = \<lparr>has_carel = True, has_led = True\<rparr>\<rparr>"

definition toy_image :: bytes where
  "toy_image = [0x31, 0x36, 0x44, 0x4F, 0, 0, 0, 0, 0, 0, 0, 0, 8, 0, 0, 0] @ CRC2 @ replicate 12 0
     @ [0x10, 0, 0x20, 0, 0x09, 0x01, 0x08, 0]"

lemma toy_write_frame:
  assumes "write_frame (By_address a) start vs = Inr req"
  shows "req ! 1 = 0x10" and "reg16 req 2 = start mod 2 ^ 16" and "length vs = 123 \<Longrightarrow> slice 7 253 req = concat (map u16 vs)"
proof -
  from assms obtain f where req: "req = word_of_int a # 0x10 # u16 start @ u16 (int (length vs)) @ f # concat (map u16 vs) @
      le16 (crc16_modbus (word_of_int a # 0x10 # u16 start @ u16 (int (length vs)) @ f # concat (map u16 vs)))"
    by (auto simp: build_write_multiple_registers_def bindE_Inr_conv rtu_frame_Inr with_crc_def
        build_write_multiple_registers_body_def Let_def split: if_splits)
  show "req ! 1 = 0x10" "reg16 req 2 = start mod 2 ^ 16" unfolding req by (simp_all only: reg16_u16) simp
  have "length (concat (map u16 vs)) = 2 * length vs" by (induction vs) auto
  then show "length vs = 123 \<Longrightarrow> slice 7 253 req = concat (map u16 vs)"
    unfolding req by (simp add: slice_def u16_be16 be16_def)
qed

lemma toy_read_frame: "read_frame req \<Longrightarrow> req ! 1 \<noteq> 0x10"
  by (auto simp: read_frame_def build_read_holding_registers_def rtu_frame_Inr build_fast_modbus_request_def with_crc_def
      split: if_splits)

lemma toy_is_bootloader: "indexed_bootloader toy_calls (By_address 247) fst"
proof -
  have data: "reg16 req 2 = DATA_BLOCK_IDX_REG + int i \<and> regs_be (slice 7 253 req) = regs"
    if "write_frame (By_address 247) (DATA_BLOCK_IDX_REG + int i) regs = Inr req" "block_registers regs" "i < 1280" for i regs req
    using toy_write_frame(2,3) [OF that(1)] that(2,3)
    by (simp add: block_registers_def regs_be_u16 DATA_BLOCK_IDX_REG_def)
  have info: "reg16 req 2 = INFO_BLOCK_REG" if "write_frame (By_address 247) INFO_BLOCK_REG regs = Inr req" for regs req
    using toy_write_frame(2) [OF that] by (simp add: INFO_BLOCK_REG_def)
  show ?thesis
    unfolding indexed_bootloader_def
  proof (intro conjI allI impI; (elim conjE)?)
    fix w i regs req
    assume req: "write_frame (By_address 247) (DATA_BLOCK_IDX_REG + int i) regs = Inr req" "block_registers regs" "i < 1280"
    show "case l_exchange toy_calls req w of (r, w') \<Rightarrow>
        (fst w' = fst w \<or> i = length (fst w) \<and> fst w' = fst w @ [regs]) \<and> (acknowledged (By_address 247) r \<longrightarrow> i < length (fst w'))"
      using data [OF req] toy_write_frame(1) [OF req(1)]
      by (auto simp: toy_calls_def toy_exchange_def Let_def DATA_BLOCK_IDX_REG_def INFO_BLOCK_REG_def)
  next
    fix w regs req
    assume req: "write_frame (By_address 247) INFO_BLOCK_REG regs = Inr req"
    show "case l_exchange toy_calls req w of (r, w') \<Rightarrow> fst w' = [] \<or> fst w' = fst w \<and> \<not> acknowledged (By_address 247) r"
      using info [OF req] toy_write_frame(1) [OF req] by (simp add: toy_calls_def toy_exchange_def Let_def)
  next
    fix w :: toy and req
    assume "read_frame req"
    then show "fst (snd (l_exchange toy_calls req w)) = fst w"
      using toy_read_frame [of req] by (simp add: toy_calls_def toy_exchange_def Let_def)
  qed (simp_all add: toy_calls_def)
qed

text \<open>What it answers.\<close>

lemma toy_read:
  assumes "1 \<le> n" and "n \<le> 125" and "0 \<le> reg" and "reg < 2 ^ 16"
  shows "\<exists>req. read_holding_registers toy_calls 247 reg n s =
    (Inr (Some (toy_payload reg), None), s\<lparr>requested := requested s @ [req]\<rparr>)"
proof -
  obtain req where b: "build_read_holding_registers 247 reg n = Inr req" and req: "req = with_crc (247 # 3 # u16 reg @ u16 n)"
    using assms(1,2) by (simp add: build_read_holding_registers_def rtu_frame_def octet_def)
  have "length (toy_payload reg) < 256" by (simp add: toy_payload_def)
  note answer = parse_counted [of 3 "toy_payload reg" None 247 "[]", simplified, OF this]
  have "req ! 1 = 3" "reg16 req 2 = reg"
    using assms(3,4) by (simp_all add: req with_crc_def reg16_u16 del: numeral_2_eq_2)
  then have "l_exchange toy_calls req w = (Inr (Some (with_crc (247 # 3 # of_nat (length (toy_payload reg)) # toy_payload reg))), w)" for w
    by (simp add: toy_calls_def toy_exchange_def Let_def)
  then show ?thesis using answer
    by (auto simp: read_holding_registers_def b exchange_def send_receive_def effect_defs expects_def)
qed

lemma toy_detect:
  "\<exists>rq. detect_indexed_block_windows_by_address toy_calls 247 s =
    (Inr (), s\<lparr>requested := rq, use_indexed_data_blocks := True, use_indexed_bl_blocks := False\<rparr>)"
proof -
  obtain a where a: "read_holding_registers toy_calls 247 REG_SIGNATURE REG_SIGNATURE_COUNT s =
      (Inr (Some (toy_payload REG_SIGNATURE), None), s\<lparr>requested := requested s @ [a]\<rparr>)"
    using toy_read [of REG_SIGNATURE_COUNT REG_SIGNATURE s] by (auto simp: flash_registers)
  let ?s = "s\<lparr>requested := requested s @ [a]\<rparr>"
  obtain b where b: "read_holding_registers toy_calls 247 REG_BOOTLOADER_VERSION REG_BOOTLOADER_VERSION_COUNT ?s =
      (Inr (Some (toy_payload REG_BOOTLOADER_VERSION), None), ?s\<lparr>requested := requested ?s @ [b]\<rparr>)"
    using toy_read [of REG_BOOTLOADER_VERSION_COUNT REG_BOOTLOADER_VERSION ?s] by (auto simp: flash_registers)
  have v: "decode_bootloader_version_registers_8 (toy_payload REG_BOOTLOADER_VERSION) = ''0.0.0.11''"
    "version_tuple ''0.0.0.11'' = Some (0, 0, 0, 11)"
    by code_simp+
  have "read_bootloader_info toy_calls 247 s =
      (Inr (nonempty (decode_signature_from_holding_290_payload (Some (toy_payload REG_SIGNATURE))), Some ''0.0.0.11'', None),
       ?s\<lparr>requested := requested ?s @ [b]\<rparr>)"
    using a b by (simp add: read_bootloader_info_def read_info_def bindM_def v nonempty_def retM_def Let_def)
  then show ?thesis
    by (auto simp: bindM_def detect_indexed_block_windows_by_address_def apply_indexed_block_windows_def v Let_def
        BL_INDEXED_BLOCKS_MIN_VERSION_def BL_INDEXED_BL_BLOCKS_MIN_VERSION_def less_eq_prod_def)
qed

lemma toy_info:
  assumes "1 \<le> length regs" and "length regs \<le> 127"
  shows "\<exists>rq. write_multiple_registers toy_calls 247 INFO_BLOCK_REG regs s = (Inr None, s\<lparr>line := ([], snd (line s)), requested := rq\<rparr>)"
proof -
  obtain req where req: "write_frame (By_address 247) INFO_BLOCK_REG regs = Inr req"
    using assms by (simp add: build_write_multiple_registers_def build_write_multiple_registers_body_def rtu_frame_def octet_def Let_def)
  have "l_exchange toy_calls req w = (Inr (Some (with_crc [247, 0x10, 0x20, 0, 0, 1])), [], snd w)" for w
    using toy_write_frame(1,2) [OF req] by (simp add: toy_calls_def toy_exchange_def Let_def INFO_BLOCK_REG_def)
  then show ?thesis
    using parse_write_ack [of "0x10" "[0x20, 0, 0, 1]" None 247 "[]"] write_to_run [of toy_calls "By_address 247" INFO_BLOCK_REG regs s]
    by (simp add: req [simplified] expects_def) blast
qed

text \<open>A block, when the line loses the answer (\<open>b\<close>) or not.\<close>

lemma toy_data:
  assumes "block_registers regs" and "i < 1280" and "i \<le> length (fst (line s))"
  shows "\<exists>rq. write_multiple_registers toy_calls 247 (DATA_BLOCK_IDX_REG + int i) regs s =
    (Inr (if snd (line s) \<noteq> [] \<and> hd (snd (line s)) then Some No_answer else None),
     s\<lparr>line := (if i = length (fst (line s)) then fst (line s) @ [regs] else fst (line s), drop 1 (snd (line s))), requested := rq\<rparr>)"
proof -
  have n: "length regs = 123" and small: "set regs \<subseteq> {0 ..< 2 ^ 16}" using assms(1) by (simp_all add: block_registers_def)
  then obtain req where req: "write_frame (By_address 247) (DATA_BLOCK_IDX_REG + int i) regs = Inr req"
    by (simp add: build_write_multiple_registers_def build_write_multiple_registers_body_def rtu_frame_def octet_def Let_def)
  have r: "req ! 1 = 0x10" "reg16 req 2 = DATA_BLOCK_IDX_REG + int i" "regs_be (slice 7 253 req) = regs"
    using toy_write_frame [OF req] n assms(2) by (simp_all add: DATA_BLOCK_IDX_REG_def regs_be_u16 [OF small])
  have "l_exchange toy_calls req (line s) =
      (if snd (line s) \<noteq> [] \<and> hd (snd (line s)) then Inr None else Inr (Some (with_crc [247, 0x10, 0x20, 0, 0, 1])),
       if i = length (fst (line s)) then fst (line s) @ [regs] else fst (line s), drop 1 (snd (line s)))"
    using assms(3) r by (simp add: toy_calls_def toy_exchange_def Let_def DATA_BLOCK_IDX_REG_def INFO_BLOCK_REG_def)
  then show ?thesis
    using parse_write_ack [of "0x10" "[0x20, 0, 0, 1]" None 247 "[]"]
      write_to_run [of toy_calls "By_address 247" "DATA_BLOCK_IDX_REG + int i" regs s]
    by (cases "snd (line s) \<noteq> [] \<and> hd (snd (line s))") (simp_all add: req [simplified] expects_def, blast+)
qed

definition toy_blocks :: "int list list" where "toy_blocks = [regs_le (ljust DATA_BLOCK_BYTES 0xFF (drop INFO_BLOCK_BYTES toy_image))]"

lemma toy_facts:
  "image_has_embedded_fw_header toy_image"
  "check_app_vector_table (fw_payload_first_8_bytes_to_le (slice INFO_BLOCK_BYTES (INFO_BLOCK_BYTES + 8) toy_image)) = None"
  "fw_payload_first_8_bytes_to_le (slice INFO_BLOCK_BYTES (INFO_BLOCK_BYTES + 8) toy_image) \<noteq> []"
  "embedded_signature (take INFO_BLOCK_BYTES toy_image) = ''16DO''" "length (take INFO_BLOCK_BYTES toy_image) = INFO_BLOCK_BYTES"
  "block_count DATA_BLOCK_BYTES (nat (u32_at toy_image 12)) = 1"
  "block_of DATA_BLOCK_BYTES toy_image INFO_BLOCK_BYTES 0 = drop INFO_BLOCK_BYTES toy_image"
  "length (drop INFO_BLOCK_BYTES toy_image) = 8"
  "upper ''16DO'' = ''16DO''"
  by code_simp+

lemma toy_ready:
  "\<exists>rq. wait_bootloader_ready_for_data toy_calls (read_holding_registers toy_calls 247) s = (Inr None, s\<lparr>requested := rq\<rparr>)"
proof -
  obtain a where a: "read_holding_registers toy_calls 247 REG_DIAG_STATE 1 s = (Inr (Some [0, 0], None), s\<lparr>requested := requested s @ [a]\<rparr>)"
    using toy_read [of 1 REG_DIAG_STATE s] by (auto simp: flash_registers toy_payload_def)
  let ?s = "s\<lparr>requested := requested s @ [a]\<rparr>"
  obtain b where b: "read_holding_registers toy_calls 247 REG_LAST_DATA_REJECT 1 ?s = (Inr (Some [0, 0], None), ?s\<lparr>requested := requested ?s @ [b]\<rparr>)"
    using toy_read [of 1 REG_LAST_DATA_REJECT ?s] by (auto simp: flash_registers toy_payload_def)
  have pay: "read_u16_from_payload (Some [0, 0]) = Some 0" "bootloader_ready_for_data (Some 0) (Some 0)" by code_simp+
  have clock: "l_now toy_calls w = 0" for w by (simp add: toy_calls_def)
  have "ready_loop (Suc n) toy_calls (read_holding_registers toy_calls 247) 0 15000 False (None, None, None) s =
      (Inr None, ?s\<lparr>requested := requested ?s @ [b]\<rparr>)" for n
    using a b by (simp add: now_def bindM_def Let_def unsupported_def is_timeout_err_def retM_def pay clock)
  from this [of 84] show ?thesis by (auto simp: wait_bootloader_ready_for_data_def now_def clock)
qed

lemma toy_quiet:
  "should_abort toy_calls s = (Inr False, s)" "gate_sleep toy_calls 0 s = (Inr False, s)" "pause toy_calls n s = (Inr (), s)"
proof -
  show a: "should_abort toy_calls s = (Inr False, s)" for s by (simp add: should_abort_def toy_calls_def)
  show "pause toy_calls n s = (Inr (), s)" by (simp add: pause_def toy_calls_def)
  have "l_now toy_calls w = 0" for w by (simp add: toy_calls_def)
  then show "gate_sleep toy_calls 0 s = (Inr False, s)"
    by (simp add: gate_sleep_def now_def numeral_3_eq_3)
qed

lemma toy_info_sent:
  assumes "length info = INFO_BLOCK_BYTES"
  shows "\<exists>rq. info_attempts 3 toy_calls (send_info_block_wb toy_calls 247 info) s =
    (Inr None, s\<lparr>line := ([], snd (line s)), requested := rq\<rparr>)"
proof -
  have "length (regs_be bs) = length bs div 2" for bs by (induction bs rule: regs_be.induct) simp_all
  then have "length (regs_be info) = 16" using assms by (simp add: INFO_BLOCK_BYTES_def)
  then obtain rq where "write_multiple_registers toy_calls 247 INFO_BLOCK_REG (regs_be info) s =
      (Inr None, s\<lparr>line := ([], snd (line s)), requested := rq\<rparr>)"
    using toy_info [of "regs_be info" s] by auto
  then have "send_info_block_wb toy_calls 247 info s = (Inr None, s\<lparr>line := ([], snd (line s)), requested := rq\<rparr>)"
    using assms by (simp add: send_info_block_wb_def info_block_to_registers_def ljust_def)
  then show ?thesis by (auto simp: numeral_3_eq_3 bindM_def toy_quiet retM_def)
qed

text \<open>The answer to the only block is lost once.\<close>

lemma toy_block_sent:
  assumes "use_indexed_data_blocks s" and "line s = ([], [True])" and "length (b 0) = DATA_BLOCK_BYTES"
  shows "\<exists>s'. data_blocks toy_calls (\<lambda>i. send_data_block toy_calls 247 i (b i) True)
    (sleep_before_retry_flash_data_block toy_calls read) 5 1 [0..<1] s = (Inr None, s')"
proof -
  have regs: "block_registers (regs_le (b 0))" using assms(3) regs_block by (simp add: DATA_BLOCK_BYTES_def)
  have send: "send_data_block toy_calls 247 0 (b 0) True t = write_multiple_registers toy_calls 247 (DATA_BLOCK_IDX_REG + int 0) (regs_le (b 0)) t"
    if "use_indexed_data_blocks t" for t :: "toy flasher"
    using assms(3) that by (simp add: send_data_block_def app_registers_def payload_block_to_registers_app_le_def ljust_def data_register_def)
  obtain rq where first: "send_data_block toy_calls 247 0 (b 0) True s =
      (Inr (Some No_answer), s\<lparr>line := ([regs_le (b 0)], []), requested := rq\<rparr>)"
    using toy_data [OF regs, of 0 s] assms(1,2) by (auto simp: send)
  let ?s = "s\<lparr>line := ([regs_le (b 0)], []), requested := rq\<rparr>"
  obtain rq' where second: "send_data_block toy_calls 247 0 (b 0) True ?s = (Inr None, ?s\<lparr>line := ([regs_le (b 0)], []), requested := rq'\<rparr>)"
    using toy_data [OF regs, of 0 ?s] assms(1) by (auto simp: send)
  show ?thesis
    using first second
    by (simp add: numeral_3_eq_3 bindM_def toy_quiet retM_def sleep_before_retry_flash_data_block_def)
qed

lemma toy_run: "\<exists>s'. flash_application toy_calls (By_address 247) toy_image (new_flasher ([], [True])) = (Inr None, s')"
proof -
  let ?b = "\<lambda>i. ljust DATA_BLOCK_BYTES 0xFF (block_of DATA_BLOCK_BYTES toy_image INFO_BLOCK_BYTES i)"
  let ?send = "\<lambda>i. send_data_block toy_calls 247 i (?b i) True" and ?read = "read_holding_registers toy_calls 247"
  obtain rq where detect: "detect_indexed_block_windows_by_address toy_calls 247 (new_flasher ([], [True])) =
      (Inr (), new_flasher ([], [True])\<lparr>requested := rq, use_indexed_data_blocks := True, use_indexed_bl_blocks := False\<rparr>)"
    using toy_detect by blast
  let ?s1 = "new_flasher ([], [True])\<lparr>requested := rq, use_indexed_data_blocks := True, use_indexed_bl_blocks := False\<rparr>"
  have fw: "fw_info_with_reg290_signature toy_calls (take INFO_BLOCK_BYTES toy_image) (Some 247) None s = (Inr (take INFO_BLOCK_BYTES toy_image), s)" for s
    by (simp only: fw_info_with_reg290_signature_def toy_facts less_irrefl if_False) (simp add: toy_facts)
  obtain rq2 where info: "info_attempts 3 toy_calls (send_info_block_wb toy_calls 247 (take INFO_BLOCK_BYTES toy_image)) ?s1 =
      (Inr None, ?s1\<lparr>line := ([], [True]), requested := rq2\<rparr>)"
    using toy_info_sent [OF toy_facts(5), of ?s1] by (auto simp: new_flasher_def)
  let ?s2 = "?s1\<lparr>line := ([], [True]), requested := rq2, irreversible := True\<rparr>"
  obtain rq3 where ready: "wait_bootloader_ready_for_data toy_calls (read_holding_registers toy_calls 247) ?s2 = (Inr None, ?s2\<lparr>requested := rq3\<rparr>)"
    using toy_ready by blast
  have ix: "use_indexed_data_blocks (?s2\<lparr>requested := rq3\<rparr>)" "line (?s2\<lparr>requested := rq3\<rparr>) = ([], [True])" by simp_all
  obtain s' where blocks: "data_blocks toy_calls ?send (sleep_before_retry_flash_data_block toy_calls ?read) 5 1 [0..<1]
      (?s2\<lparr>requested := rq3\<rparr>) = (Inr None, s')"
    using toy_block_sent [of _ ?b, OF ix, of ?read] length_padded [of toy_image INFO_BLOCK_BYTES 0] unfolding DATA_BLOCK_BYTES_def by blast
  have "write_blocks toy_calls ?read ?send 5 1 (?s1\<lparr>line := ([], [True]), requested := rq2\<rparr>) = (Inr None, s')"
    unfolding write_blocks_def mark_irreversible_def bindM_simps
    using ready blocks by (simp only: bindM_def) (simp add: toy_quiet)
  with detect info fw have "run_flash_sequence_by_address toy_calls 247 toy_image (new_flasher ([], [True])) = (Inr None, s')"
    unfolding run_flash_sequence_by_address_def run_fw_by_address_def toy_facts(1,2,6) Let_def
    by (simp only: bindM_def) (simp add: toy_facts)
  then show ?thesis by (auto simp: flash_application_def)
qed

section \<open>Success means flashed\<close>

text \<open>C5: With a bootloader that numbers its blocks, as its authors describe it, a sequence that reports
  success has left exactly the image in the flash, filled up with \<^verbatim>\<open>0xFF\<close> to whole blocks, whatever
  requests and answers the line lost on the way: every retry is harmless.  For a \<^verbatim>\<open>.fw\<close> file these are its
  words with their bytes swapped.\<close>

theorem reported_image_is_flashed:
  assumes "indexed_bootloader c t stored"
    and "use_indexed_data_blocks (snd (detect_windows c t s))"
    and "flash_application c t img s = (Inr None, s')"
  shows "flash_bytes (stored (line s')) = flashed img"
proof -
  let ?run = "case t of
      By_address a \<Rightarrow> if image_has_embedded_fw_header img then run_fw_by_address c a img else run_bin_by_address c a img
    | By_serial sn \<Rightarrow> if image_has_embedded_fw_header img then run_fw_by_serial c sn img else run_bin_by_serial c sn img"
  have "hoare use_indexed_data_blocks ?run (\<lambda>r s. r = None \<longrightarrow> stored (line s) = blocks_sent img) (\<lambda>_ _. True)"
    using assms(1) fw_stores fw_stores_by_serial bin_stores bin_stores_by_serial by (cases t) auto
  moreover obtain s1 where "detect_windows c t s = (Inr (), s1)" and "?run s1 = (Inr None, s')"
    using assms(3)
    by (cases t) (auto simp: flash_application_def detect_windows_def run_flash_sequence_by_address_def run_flash_sequence_def
        bindM_Inr split: if_splits)
  ultimately have "stored (line s') = blocks_sent img"
    using assms(2) by (auto dest: hoareD_ok)
  then show ?thesis by (simp add: flash_bytes_blocks)
qed

theorem reported_image_is_flashed_witness:
  "case flash_application toy_calls (By_address 247) toy_image (new_flasher ([], [True])) of
    (r, s') \<Rightarrow> r = Inr None \<and> flash_bytes (fst (line s')) = flashed toy_image"
proof -
  have "use_indexed_data_blocks (snd (detect_windows toy_calls (By_address 247) (new_flasher ([], [True]))))"
    using toy_detect [of "new_flasher ([], [True])"] by (auto simp: detect_windows_def)
  with reported_image_is_flashed [OF toy_is_bootloader this] toy_run show ?thesis by auto
qed

end
