(* ===== verification/Flash_Wb.thy ===== *)
theory Flash_Wb
  imports Flash_Device
begin

text \<open>
  What the tolerant loop of the Wiren Board sequence lets through.
\<close>

lemma wb_attempts_result:
  "wb_attempts n send errors err s = (Inr (ok, errors', err'), s') \<Longrightarrow> errors' = (if ok then 0 else errors + n)"
  by (induction n arbitrary: errors err s) (simp, fastforce simp: bindM_Inr split: if_splits)

text \<open>The errors counted when a block begins: three after a block that was not taken, none else.\<close>

definition errors_before :: "bool list \<Rightarrow> nat" where
  "errors_before taken = (if taken = [] \<or> last taken then 0 else 3)"

lemma wb_blocks_result:
  assumes "wb_blocks c send count errors is taken s = (Inr (None, out), s')"
    and "errors = errors_before taken" and "successively (\<or>) taken"
  shows "length out = length taken + length is \<and> successively (\<or>) out"
  using assms
proof (induction "is" arbitrary: errors taken s)
  case (Cons i "is")
  obtain s1 where gate: "should_abort c s = (Inr False, s1)"
    using Cons.prems(1) by (auto simp: bindM_Inr split: if_splits)
  obtain ok errors' err s2 where block: "wb_attempts 3 (send i) errors None s1 = (Inr (ok, errors', err), s2)"
    using Cons.prems(1) gate by (auto simp: bindM_Inr)
  have count: "errors' = (if ok then 0 else errors + 3)" by (rule wb_attempts_result [OF block])
  have "ok \<or> errors_before taken = 0"
    using Cons.prems(1,2) gate block count by (auto simp: bindM_def errors_before_def retM_def split: if_splits)
  then have good: "successively (\<or>) (taken @ [ok])" and e: "errors' = errors_before (taken @ [ok])"
    using Cons.prems(2,3) count by (auto simp: errors_before_def successively_append_iff split: if_splits)
  obtain s3 where rest: "wb_blocks c send count errors' is (taken @ [ok]) s3 = (Inr (None, out), s')"
    using Cons.prems(1) gate block by (cases ok) (auto simp: bindM_def pause_def retM_def split: if_splits)
  from Cons.IH [OF rest e good] show ?case by simp
qed simp

text \<open>C11: When the Wiren Board sequence reports success, of every two neighbouring blocks at least one was
  acknowledged.  More it does not promise: a single block, the last one too, can be lost for good.\<close>

theorem wb_success_without_gaps:
  assumes "run_flash_sequence_wb c slave img s = (Inr (None, taken), s')"
  shows "length taken = block_count DATA_BLOCK_BYTES_WB (length img - INFO_BLOCK_BYTES) \<and> successively (\<or>) taken"
proof -
  let ?n = "block_count DATA_BLOCK_BYTES_WB (length img - INFO_BLOCK_BYTES)"
  from assms obtain send s1 where "wb_blocks c send ?n 0 [0..<?n] [] s1 = (Inr (None, taken), s')"
    by (auto simp: run_flash_sequence_wb_def Let_def bindM_Inr split: if_splits option.splits)
  from wb_blocks_result [OF this] show ?thesis by (simp add: errors_before_def)
qed

text \<open>A device that takes the info block and is never heard of again.\<close>

definition deaf_calls :: "unit line_calls" where
  "deaf_calls = \<lparr>l_exchange = \<lambda>req w. (Inr (if reg16 req 2 = INFO_BLOCK_REG then Some (with_crc [247, 0x10, 0x10, 0, 0, 16]) else None), w),
     l_now = \<lambda>_. 0, l_sleep = \<lambda>_ w. w, l_cancelled = \<lambda>w. (False, w),
     l_logging = False, l_deployed = \<lparr>has_carel = True, has_led = True\<rparr>\<rparr>"

lemma deaf_write:
  assumes "1 \<le> length regs" and "length regs \<le> 127" and "start \<in> {INFO_BLOCK_REG, DATA_BLOCK_REG}"
  shows "\<exists>rq. write_multiple_registers deaf_calls 247 start regs s =
    (Inr (if start = INFO_BLOCK_REG then None else Some No_answer), s\<lparr>requested := rq\<rparr>)"
proof -
  obtain req where req: "write_frame (By_address 247) start regs = Inr req"
    using assms by (simp add: build_write_multiple_registers_def build_write_multiple_registers_body_def rtu_frame_def octet_def Let_def)
  have "reg16 req 2 = start" using toy_write_frame(2) [OF req] assms(3) by (auto simp: flash_registers)
  then show ?thesis
    using parse_write_ack [of "0x10" "[0x10, 0, 0, 16]" None 247 "[]"] write_to_run [of deaf_calls "By_address 247" start regs s]
    by (cases s) (auto simp add: req [simplified] expects_def deaf_calls_def)
qed

text \<open>One data block, and none arrives.\<close>

lemma deaf_run: "\<exists>s'. run_flash_sequence_wb deaf_calls 247 (replicate 33 0) (new_flasher ()) = (Inr (None, [False]), s')"
proof -
  have len: "length (regs_be bs) = length bs div 2" for bs by (induction bs rule: regs_be.induct) simp_all
  have info: "\<exists>rq. send_info_block_wb deaf_calls 247 (replicate 32 0) s = (Inr None, s\<lparr>requested := rq\<rparr>)" for s
    using deaf_write [of "regs_be (replicate 32 0)" INFO_BLOCK_REG s]
    by (simp add: send_info_block_wb_def info_block_to_registers_def ljust_def INFO_BLOCK_BYTES_def len)
  have data: "\<exists>rq. send_data_block_wb deaf_calls 247 b s = (Inr (Some No_answer), s\<lparr>requested := rq\<rparr>)" for b s
    using deaf_write [of "payload_block_to_registers_wb b" DATA_BLOCK_REG s]
    by (simp add: send_data_block_wb_def payload_block_to_registers_wb_def ljust_def DATA_BLOCK_BYTES_WB_def len flash_registers)
  have lost: "\<exists>rq e'. wb_attempts n (send_data_block_wb deaf_calls 247 b) k e s = (Inr (False, k + n, e'), s\<lparr>requested := rq\<rparr>)" for n b k e s
  proof (induction n arbitrary: k e s)
    case 0
    show ?case by (cases s) auto
  next
    case (Suc n)
    obtain rq where one: "send_data_block_wb deaf_calls 247 b s = (Inr (Some No_answer), s\<lparr>requested := rq\<rparr>)" using data by blast
    then show ?case using Suc [of "k + 1" "Some No_answer" "s\<lparr>requested := rq\<rparr>"] by (auto simp: bindM_def)
  qed
  obtain rq where a: "send_info_block_wb deaf_calls 247 (replicate 32 0) (new_flasher ()) = (Inr None, new_flasher ()\<lparr>requested := rq\<rparr>)"
    using info by blast
  let ?s = "new_flasher ()\<lparr>requested := rq, irreversible := True\<rparr>"
  obtain rq' e where b: "wb_attempts 3 (send_data_block_wb deaf_calls 247 (block_of DATA_BLOCK_BYTES_WB (replicate 33 0) INFO_BLOCK_BYTES 0)) 0 None ?s =
      (Inr (False, 3, e), ?s\<lparr>requested := rq'\<rparr>)"
    using lost [of 3 _ 0 None ?s] by (simp only: add_0) blast
  have quiet: "should_abort deaf_calls s = (Inr False, s)" "gate_sleep deaf_calls 0 s = (Inr False, s)" "pause deaf_calls n s = (Inr (), s)" for s n
    by (simp_all add: should_abort_def gate_sleep_def now_def pause_def deaf_calls_def numeral_3_eq_3)
  have one: "block_count DATA_BLOCK_BYTES_WB (length (replicate 33 0 :: bytes) - INFO_BLOCK_BYTES) = 1"
    "take INFO_BLOCK_BYTES (replicate 33 0 :: bytes) = replicate 32 0" "l_logging deaf_calls = False"
    by (simp_all add: block_sizes block_count_def deaf_calls_def)
  have blocks: "\<exists>s'. wb_blocks deaf_calls (\<lambda>i. send_data_block_wb deaf_calls 247 (block_of DATA_BLOCK_BYTES_WB (replicate 33 0) INFO_BLOCK_BYTES i))
      1 0 [0..<1] [] ?s = (Inr (None, [False]), s')"
    using b by (simp add: bindM_def quiet retM_def)
  have "length (replicate 33 0 :: bytes) \<ge> INFO_BLOCK_BYTES" by (simp add: block_sizes)
  then show ?thesis
    using a blocks unfolding run_flash_sequence_wb_def one Let_def
    by (simp only: bindM_def) (simp add: quiet retM_def mark_irreversible_def numeral_3_eq_3)
qed

theorem wb_success_without_gaps_witness:
  "case run_flash_sequence_wb deaf_calls 247 (replicate 33 0) (new_flasher ()) of
    (r, s') \<Rightarrow> r = Inr (None, [False]) \<and> length [False] = block_count DATA_BLOCK_BYTES_WB 1 \<and> successively (\<or>) [False]"
proof -
  obtain s' where run: "run_flash_sequence_wb deaf_calls 247 (replicate 33 0) (new_flasher ()) = (Inr (None, [False]), s')"
    using deaf_run by blast
  from wb_success_without_gaps [OF this] run show ?thesis by (simp add: INFO_BLOCK_BYTES_def)
qed

end
