(* ===== verification/Flash_Time.thy ===== *)
theory Flash_Time
  imports Flash_Device
begin

text \<open>
  Every flashing sequence ends: the two loops that wait by the clock stop within the passes the model
  gives them, as soon as the clock runs.
\<close>

section \<open>A running clock\<close>

text \<open>
  Time does not go back while the line works or the operator is asked, and \<^verbatim>\<open>sleep(ms)\<close> lasts at least
  \<open>ms\<close>.  \<open>OutOfModel ''clock''\<close> is the model's own mark for a loop that runs out of passes, so
  \<^verbatim>\<open>send_receive\<close> does not raise it.
\<close>

definition out_of_passes :: exn where "out_of_passes = OutOfModel ''clock''"

definition clock_runs :: "'w line_calls \<Rightarrow> bool" where
  "clock_runs c \<longleftrightarrow>
     (\<forall>w ms. l_now c w + max 0 ms \<le> l_now c (l_sleep c ms w)) \<and>
     (\<forall>w req. l_now c w \<le> l_now c (snd (l_exchange c req w)) \<and> fst (l_exchange c req w) \<noteq> Inl out_of_passes) \<and>
     (\<forall>w. l_now c w \<le> l_now c (snd (l_cancelled c w)))"

lemma clock_inv:
  assumes "clock_runs c"
  shows "session_inv_windows c (\<lambda>s. t \<le> l_now c (line s)) (\<lambda>_. True)"
proof
  show "keeps (\<lambda>s. t \<le> l_now c (line s)) (send_receive c req)" for req
    using assms by (auto simp: clock_runs_def keeps_def send_receive_def split: prod.splits intro: order_trans) (metis order_trans snd_conv)
  show "t \<le> l_now c (line s) \<Longrightarrow> t \<le> l_now c (line (s\<lparr>line := l_sleep c ms (line s)\<rparr>))" for s :: "'a flasher" and ms
    using assms by (simp add: clock_runs_def) (smt (verit))
  show "t \<le> l_now c (line s) \<Longrightarrow> t \<le> l_now c (line (s\<lparr>line := snd (l_cancelled c (line s))\<rparr>))" for s :: "'a flasher"
    using assms by (simp add: clock_runs_def) (metis order_trans)
qed simp_all

lemma clock_facts:
  assumes "clock_runs c"
  shows "l_now c w + max 0 ms \<le> l_now c (l_sleep c ms w)" and "l_now c w \<le> l_now c (snd (l_cancelled c w))"
  using assms unfolding clock_runs_def by blast+

lemmas clock_kept = session_inv_windows.axioms(1) [OF clock_inv]

section \<open>Ending\<close>

definition ends :: "('s, 'a) proc \<Rightarrow> bool" where
  "ends m \<longleftrightarrow> (\<forall>s. fst (m s) \<noteq> Inl out_of_passes)"

lemma ends_rules:
  "ends (retM r)" "ends (getM f)" "ends (modM h)"
  "ends m \<Longrightarrow> (\<And>x. ends (f' x)) \<Longrightarrow> ends (bindM m f')"
  "ends n \<Longrightarrow> ends k \<Longrightarrow> ends (if b then n else k)"
  "ends n \<Longrightarrow> (\<And>x. ends (g x)) \<Longrightarrow> ends (case p of None \<Rightarrow> n | Some x \<Rightarrow> g x)"
  "(\<And>x y. ends (g' x y)) \<Longrightarrow> ends (case q of (x, y) \<Rightarrow> g' x y)"
  by (auto simp: ends_def effect_defs split: prod.splits sum.splits option.splits) (metis fst_conv)+

lemma ends_liftM: "r \<noteq> Inl out_of_passes \<Longrightarrow> ends (liftM r)"
  by (simp add: ends_def effect_defs)

lemma ends_basic:
  "ends (now c)" "ends (pause c ms)" "ends (should_abort c)" "ends mark_irreversible"
  "clock_runs c \<Longrightarrow> ends (send_receive c req)"
  by (auto simp: ends_def now_def pause_def should_abort_def mark_irreversible_def send_receive_def clock_runs_def
      effect_defs split: prod.splits) (metis fst_conv)+

text \<open>\<open>gate_sleep\<close>: every pass but the last takes 120 ms of what is left.\<close>

lemma gate_loop_ends:
  assumes run: "clock_runs c" and "u \<le> l_now c (line s) + 120 * int n"
  shows "fst (gate_loop (Suc n) c u s) \<noteq> Inl out_of_passes"
  using assms(2)
proof (induction n arbitrary: s)
  case 0
  then show ?case by (simp add: now_def)
next
  case (Suc n)
  obtain b w where ask: "l_cancelled c (line s) = (b, w)" by fastforce
  let ?t = "l_now c w"
  let ?s = "s\<lparr>line := l_sleep c (min 120 (max 0 (u - ?t))) w\<rparr>"
  have "l_now c (line s) \<le> ?t" using clock_facts(2) [OF run, of "line s"] by (simp add: ask)
  moreover have "?t + max 0 (min 120 (max 0 (u - ?t))) \<le> l_now c (line ?s)" using clock_facts(1) [OF run, of w "min 120 (max 0 (u - ?t))"] by simp
  ultimately have "u \<le> l_now c (line ?s) + 120 * int n" using Suc.prems by simp
  from Suc.IH [OF this] show ?case
    by (subst gate_loop.simps) (simp add: now_def should_abort_def ask pause_def bindM_def retM_def del: gate_loop.simps)
qed

lemma gate_sleep_ends: "clock_runs c \<Longrightarrow> ends (gate_sleep c ms)"
proof -
  assume run: "clock_runs c"
  have "ms < 120 * (ms div 120) + 120" by presburger
  then have "ms \<le> 120 * int (nat (ms div 120) + 2)" by simp
  then have "l_now c (line s) + ms \<le> l_now c (line s) + 120 * int (nat (ms div 120) + 2)" for s :: "'a flasher" by simp
  from gate_loop_ends [OF run this] show ?thesis
    by (simp add: ends_def gate_sleep_def now_def numeral_3_eq_3 numeral_2_eq_2 del: gate_loop.simps)
qed

text \<open>The wait for the erased flash: every pass takes 180 ms.\<close>

lemma ready_loop_ends:
  assumes run: "clock_runs c" and read: "\<And>a k. ends (read a k)" "\<And>t a k. keeps (\<lambda>s. t \<le> l_now c (line s)) (read a k)"
    and "u \<le> l_now c (line s) + 180 * int n"
  shows "fst (ready_loop (Suc n) c read started u legacy seen s) \<noteq> Inl out_of_passes"
  using assms(4)
proof (induction n arbitrary: s legacy seen)
  case 0
  then show ?case by (cases seen) (simp add: now_def)
next
  case (Suc n)
  obtain st rj er where seen: "seen = (st, rj, er)" by (cases seen)
  let ?t = "l_now c (line s)"
  have again: "hoare (\<lambda>s. ?t \<le> l_now c (line s)) (bindM (pause c 180) (\<lambda>_. ready_loop (Suc n) c read started u l x))
      (\<lambda>_ _. True) (\<lambda>e _. e \<noteq> out_of_passes)" for l x
    unfolding hoare_def
  proof (intro allI impI)
    fix s' :: "'a flasher" assume "?t \<le> l_now c (line s')"
    moreover have "l_now c (line s') + 180 \<le> l_now c (l_sleep c 180 (line s'))"
      using clock_facts(1) [OF run, of "line s'" 180] by simp
    ultimately have "u \<le> l_now c (line (s'\<lparr>line := l_sleep c 180 (line s')\<rparr>)) + 180 * int n"
      using Suc.prems by simp
    from Suc.IH [OF this, of l x] show "case bindM (pause c 180) (\<lambda>_. ready_loop (Suc n) c read started u l x) s' of
        (Inl e, s') \<Rightarrow> e \<noteq> out_of_passes | (Inr _, s') \<Rightarrow> True"
      by (auto simp: pause_def simp del: ready_loop.simps split: prod.splits sum.splits)
  qed
  have hoare: "hoare (\<lambda>s. ?t \<le> l_now c (line s)) (read a k) (\<lambda>_ s. ?t \<le> l_now c (line s)) (\<lambda>e _. e \<noteq> out_of_passes)" for a k
    using read(1) [of a k] read(2) [of ?t a k]
    by (auto simp: hoare_def ends_def keeps_def split: prod.splits sum.splits) (metis fst_conv snd_conv)+
  have ret: "hoare P (retM x) (\<lambda>_ _. True) (\<lambda>e _. e \<noteq> out_of_passes)" for P :: "'a flasher \<Rightarrow> bool" and x :: "not_ready option"
    by (simp add: hoare_def)
  have clock: "hoare P (now c) (\<lambda>_. P) (\<lambda>e _. e \<noteq> out_of_passes)" for P by (simp add: hoare_def now_def)
  have "hoare (\<lambda>s. ?t \<le> l_now c (line s)) (ready_loop (Suc (Suc n)) c read started u legacy seen) (\<lambda>_ _. True) (\<lambda>e _. e \<noteq> out_of_passes)"
    unfolding seen ready_loop.simps(2) [of "Suc n"] Let_def
    by (intro hoare_bind [OF clock] hoare_bind [OF hoare] hoare_if hoare_option hoare_case_prod again ret)
  from hoareD_error [OF this order_refl] show ?case by (metis prod.collapse)
qed

lemma wait_ends:
  assumes "clock_runs c" and "\<And>a k. ends (read a k)" and "\<And>t a k. keeps (\<lambda>s. t \<le> l_now c (line s)) (read a k)"
  shows "ends (wait_bootloader_ready_for_data c read)"
proof -
  have "fst (ready_loop (Suc 84) c read (l_now c (line s)) (l_now c (line s) + 15000) False (None, None, None) s) \<noteq> Inl out_of_passes" for s
    by (rule ready_loop_ends [OF assms]) simp
  then show ?thesis by (simp add: ends_def wait_bootloader_ready_for_data_def now_def del: ready_loop.simps)
qed

text \<open>Everything else is straight-line code over the line.\<close>

lemma builders_end:
  "build_write_single_register a r v \<noteq> Inl out_of_passes" "build_read_holding_registers a r k \<noteq> Inl out_of_passes"
  "build_write_multiple_registers a r vs \<noteq> Inl out_of_passes" "build_read_holding_registers_body r k \<noteq> Inl out_of_passes"
  "build_write_multiple_registers_body r vs \<noteq> Inl out_of_passes" "app_registers fw b \<noteq> Inl out_of_passes"
  "bindE (build_info_block sig n b) info_block_to_registers \<noteq> Inl out_of_passes"
  "info_block_to_registers b \<noteq> Inl out_of_passes" "bootloader_registers fw b \<noteq> Inl out_of_passes"
  by (auto simp: build_write_single_register_def build_read_holding_registers_def build_write_multiple_registers_def
      build_read_holding_registers_body_def build_write_multiple_registers_body_def app_registers_def build_info_block_def
      info_block_to_registers_def bootloader_registers_def payload_block_to_registers_def payload_block_to_registers_app_le_def
      payload_bytes_to_registers_le_def rtu_frame_def octet_def out_of_passes_def Let_def bindE_Inl_conv split: if_splits)

lemma exchanges_end:
  assumes run: "clock_runs c"
  shows "ends (exchange c req)" "ends (exchange_by_serial c sn pdu)"
    "ends (read_holding_registers c a r k)" "ends (read_holding_registers_by_serial c sn r k)"
    "ends (write_multiple_registers c a r vs)" "ends (write_multiple_registers_by_serial c sn r vs)"
  unfolding exchange_def exchange_by_serial_def read_holding_registers_def read_holding_registers_by_serial_def
    write_multiple_registers_def write_multiple_registers_by_serial_def
  by (intro ends_rules ends_liftM builders_end ends_basic run)+

lemma identification_ends:
  assumes run: "clock_runs c"
  shows "ends (read_bootloader_info c a)" "ends (read_bootloader_info_by_serial c sn)"
    "ends (read_board_signature_bootloader_warmup c slave serial)" "ends (fw_info_with_reg290_signature c info slave serial)"
    "ends (detect_indexed_block_windows_by_address c a)" "ends (detect_indexed_block_windows_by_serial c sn)"
proof -
  have info: "ends (read_info read)" if "\<And>a k. ends (read a k)" for read :: "int \<Rightarrow> int \<Rightarrow> ('a flasher, bytes option \<times> link_error option) proc"
    unfolding read_info_def Let_def by (intro ends_rules that)
  show id: "ends (read_bootloader_info c a)" "ends (read_bootloader_info_by_serial c sn)" for a sn
    unfolding read_bootloader_info_def read_bootloader_info_by_serial_def by (intro info exchanges_end run)+
  show warm: "ends (read_board_signature_bootloader_warmup c slave serial)" for slave serial
    unfolding read_board_signature_bootloader_warmup_def warmup_def
    by (intro ends_rules exchanges_end run id ends_basic)
  show "ends (fw_info_with_reg290_signature c info slave serial)"
    unfolding fw_info_with_reg290_signature_def by (intro ends_rules warm)
  show "ends (detect_indexed_block_windows_by_address c a)" "ends (detect_indexed_block_windows_by_serial c sn)"
    unfolding detect_indexed_block_windows_by_address_def detect_indexed_block_windows_by_serial_def
      apply_indexed_block_windows_def Let_def
    by (intro ends_rules id)+
qed

lemma sends_end:
  assumes run: "clock_runs c"
  shows "ends (send_data_block c a i b fw)" "ends (send_data_block_by_serial c sn i b fw)"
    "ends (send_info_block c a sig b)" "ends (send_info_block_by_serial c sn sig b)"
    "ends (send_info_block_wb c a b)" "ends (send_info_block_bytes_by_serial c sn b)" "ends (send_data_block_wb c a b)"
    "ends (send_data_block_bootloader c a b fw i)" "ends (send_data_block_bootloader_by_serial c sn b fw i)"
  unfolding send_data_block_def send_data_block_by_serial_def send_info_block_def send_info_block_by_serial_def
    send_info_block_wb_def send_info_block_bytes_by_serial_def send_data_block_wb_def send_data_block_bootloader_def
    send_data_block_bootloader_by_serial_def
  by (intro ends_rules ends_liftM builders_end exchanges_end run)+

lemma attempts_end:
  assumes send: "ends send"
  shows "(\<And>e. ends (between e)) \<Longrightarrow> ends (attempts n send between)" and "ends (info_attempts n c send)"
    and "ends (wb_info_retries n c send e)" and "ends (bl_info_retries n c send e)" and "ends (wb_attempts n send k e)"
proof -
  show "ends (attempts n send between)" if "\<And>e. ends (between e)"
    by (induction n) (simp_all only: attempts.simps, (intro ends_rules send that; assumption)+)
  show "ends (info_attempts n c send)"
    by (induction n) (simp_all only: info_attempts.simps, (intro ends_rules ends_basic send; assumption)+)
  show "ends (wb_info_retries n c send e)"
    by (induction n arbitrary: e) (simp_all only: wb_info_retries.simps, (intro ends_rules ends_basic send; assumption)+)
  show "ends (bl_info_retries n c send e)"
    by (induction n arbitrary: e) (simp_all only: bl_info_retries.simps, (intro ends_rules ends_basic send; assumption)+)
  show "ends (wb_attempts n send k e)"
    by (induction n arbitrary: k e) (simp_all only: wb_attempts.simps, (intro ends_rules ends_basic send; assumption)+)
qed

lemma block_loops_end:
  assumes send: "\<And>i. ends (send i)"
  shows "(\<And>e. ends (between e)) \<Longrightarrow> ends (data_blocks c send between delay count is)"
    and "ends (wb_blocks c send count errors is taken)" and "ends (bl_blocks c send retries count is)"
proof -
  show "ends (data_blocks c send between delay count is)" if "\<And>e. ends (between e)"
    by (induction "is") (simp_all only: data_blocks.simps, (intro ends_rules ends_basic attempts_end send that; assumption)+)
  show "ends (wb_blocks c send count errors is taken)"
    by (induction "is" arbitrary: errors taken)
      (simp_all only: wb_blocks.simps, (intro ends_rules ends_basic attempts_end send; assumption)+)
  show "ends (bl_blocks c send retries count is)"
    by (induction "is") (simp_all only: bl_blocks.simps, (intro ends_rules ends_basic attempts_end send; assumption)+)
qed

lemma write_blocks_end:
  assumes run: "clock_runs c" and send: "\<And>i. ends (send i)"
    and read: "\<And>a k. ends (read a k)" "\<And>t a k. keeps (\<lambda>s. t \<le> l_now c (line s)) (read a k)"
  shows "ends (write_blocks c read send delay count)"
proof -
  have "ends (sleep_before_retry_flash_data_block c read e)" for e
    unfolding sleep_before_retry_flash_data_block_def by (intro ends_rules ends_basic read)
  then show ?thesis
    unfolding write_blocks_def
    by (intro ends_rules ends_basic block_loops_end send gate_sleep_ends wait_ends run read)
qed

lemma reads_keep_time:
  assumes run: "clock_runs c"
  shows "keeps (\<lambda>s. t \<le> l_now c (line s)) (read_holding_registers c a r k)"
    and "keeps (\<lambda>s. t \<le> l_now c (line s)) (read_holding_registers_by_serial c sn r k)"
  using session_inv.kept_read [OF clock_kept [OF run]] by blast+

lemma refusals_end:
  assumes run: "clock_runs c"
  shows "ends (info_refusal_by_address c a e)" "ends (info_refusal_by_serial c sn e)"
  unfolding info_refusal_by_address_def info_refusal_by_serial_def
  by (cases e; simp only: flash_error.case; intro ends_rules exchanges_end run)+

lemmas straight = ends_rules ends_basic exchanges_end identification_ends sends_end attempts_end block_loops_end
  write_blocks_end reads_keep_time refusals_end gate_sleep_ends

lemma bl_session_ends:
  assumes "clock_runs c" and "ends mode" and "ends info" and "\<And>i. ends (block i)" and "ends commit"
  shows "ends (bl_session c mode info block commit retries)"
  unfolding bl_session_def by (intro straight assms)

text \<open>C10: With a clock that runs and a \<^verbatim>\<open>sleep\<close> that sleeps, every flashing sequence ends, whatever the device
  answers and for as long as it likes to be busy: the waiting loops stop after at most 85 passes.\<close>

theorem sequences_end:
  assumes run: "clock_runs c"
  shows "fst (run_flash_sequence_by_address c a img s) \<noteq> Inl (OutOfModel ''clock'') \<and>
    fst (run_flash_sequence c sn img s) \<noteq> Inl (OutOfModel ''clock'') \<and>
    fst (run_flash_sequence_wb c a img s) \<noteq> Inl (OutOfModel ''clock'') \<and>
    fst (run_flash_bootloader_sequence_by_address c a img sig n s) \<noteq> Inl (OutOfModel ''clock'') \<and>
    fst (run_flash_sequence_bootloader c sn img sig n s) \<noteq> Inl (OutOfModel ''clock'')"
proof -
  have "ends (run_flash_sequence_by_address c a img)"
    unfolding run_flash_sequence_by_address_def run_fw_by_address_def run_bin_by_address_def Let_def by (intro straight run)
  moreover have "ends (run_flash_sequence c sn img)"
    unfolding run_flash_sequence_def run_fw_by_serial_def run_bin_by_serial_def Let_def by (intro straight run)
  moreover have "ends (run_flash_sequence_wb c a img)"
    unfolding run_flash_sequence_wb_def read_wb_free_space_def Let_def by (intro straight run)
  moreover have "ends (run_flash_bootloader_sequence_by_address c a img sig n)"
    unfolding run_flash_bootloader_sequence_by_address_def by (intro bl_session_ends straight run)
  moreover have "ends (run_flash_sequence_bootloader c sn img sig n)"
    unfolding run_flash_sequence_bootloader_def by (intro bl_session_ends straight run)
  ultimately show ?thesis by (simp add: ends_def out_of_passes_def)
qed

text \<open>A dead line: only sleeping takes time.\<close>

definition silent_calls :: "int line_calls" where
  "silent_calls = \<lparr>l_exchange = \<lambda>_ w. (Inr None, w), l_now = \<lambda>w. w, l_sleep = \<lambda>ms w. w + max 0 ms, l_cancelled = \<lambda>w. (False, w),
     l_logging = True, l_deployed = \<lparr>has_carel = False, has_led = True\<rparr>\<rparr>"

theorem sequences_end_witness:
  "clock_runs silent_calls \<and> fst (run_flash_sequence silent_calls 4242 (replicate 40 1) (new_flasher 0)) \<noteq> Inl (OutOfModel ''clock'')"
proof -
  have "clock_runs silent_calls" by (simp add: clock_runs_def silent_calls_def)
  with sequences_end [OF this] show ?thesis by blast
qed

end
