(* ===== verification/Flash_Cancel.thy ===== *)
theory Flash_Cancel
  imports Flash_Device
begin

text \<open>
  Cancelling while the info block is on the line (\<^verbatim>\<open>runner.py\<close>, \<^verbatim>\<open>_bootloader_send_receive_profiled\<close>).
\<close>

section \<open>The line of the runner\<close>

text \<open>\<^verbatim>\<open>sr\<close> does not touch the line any more once the operator has cancelled.\<close>

definition bootloader_send_receive_profiled :: "'w line_calls \<Rightarrow> 'w line_calls" where
  "bootloader_send_receive_profiled c =
     c\<lparr>l_exchange := \<lambda>req w. case l_cancelled c w of
         (True, w') \<Rightarrow> (Inr None, w')
       | (False, w') \<Rightarrow> l_exchange c req w'\<rparr>"

text \<open>An operator who cancels while an info block is being answered; what he has asked for is the second part of the world.\<close>

definition info_write :: "bytes \<Rightarrow> bool" where
  "info_write req \<longleftrightarrow> reg16 req 2 = INFO_BLOCK_REG \<or> reg16 req 8 = INFO_BLOCK_REG"

definition impatient :: "'w line_calls \<Rightarrow> ('w \<times> bool) line_calls" where
  "impatient c = \<lparr>l_exchange = \<lambda>req (w, b). case l_exchange c req w of (r, w') \<Rightarrow> (r, (w', b \<or> info_write req)),
     l_now = \<lambda>(w, b). l_now c w, l_sleep = \<lambda>ms (w, b). (l_sleep c ms w, b), l_cancelled = \<lambda>(w, b). (b, (w, b)),
     l_logging = l_logging c, l_deployed = l_deployed c\<rparr>"

definition hurried :: "'w line_calls \<Rightarrow> ('w \<times> bool) line_calls" where
  "hurried c = bootloader_send_receive_profiled (impatient c)"

lemma hurried_exchange:
  "l_exchange (hurried c) req w =
    (if snd w then (Inr None, w) else case l_exchange c req (fst w) of (r, w') \<Rightarrow> (r, (w', info_write req)))"
  by (cases w) (simp add: hurried_def bootloader_send_receive_profiled_def impatient_def)

lemma hurried_rest:
  "snd (l_sleep (hurried c) ms w) = snd w" "l_cancelled (hurried c) w = (snd w, w)"
  by (cases w; simp add: hurried_def bootloader_send_receive_profiled_def impatient_def)+

text \<open>Once he has cancelled, he stays so, and no exchange succeeds.\<close>

lemma cancelled_inv: "session_inv_windows (hurried c) (\<lambda>s. snd (line s)) (\<lambda>_. True)"
  by unfold_locales (auto simp: keeps_def send_receive_def hurried_exchange hurried_rest)

lemmas cancelled_kept = session_inv_windows.axioms(1) [OF cancelled_inv]

lemma hurried_write_fails: "hoare (\<lambda>s. snd (line s)) (write_to (hurried c) t start vs) (\<lambda>r s. r \<noteq> None \<and> snd (line s)) (\<lambda>_ _. True)"
  by (auto simp: hoare_def write_to_run hurried_exchange split: sum.splits prod.splits if_splits)

lemma deaf_attempts:
  assumes send: "hoare (\<lambda>s. snd (line s)) send (\<lambda>r s. r \<noteq> None \<and> snd (line s)) (\<lambda>_ _. True)"
    and between: "\<And>e. keeps (\<lambda>s. snd (line s)) (between e)"
  shows "hoare (\<lambda>s. snd (line s)) (attempts (Suc n) send between) (\<lambda>r _. r \<noteq> None) (\<lambda>_ _. True)"
proof (induction n)
  case 0
  show ?case unfolding attempts.simps by (rule hoare_bind [OF send]) (auto intro: hoare_ret)
next
  case (Suc n)
  have more: "hoare (\<lambda>s. e \<noteq> None \<and> snd (line s)) (bindM (between e) (\<lambda>_. attempts (Suc n) send between)) (\<lambda>r _. r \<noteq> None) (\<lambda>_ _. True)" for e
    by (rule hoare_weaken [OF hoare_bind [OF hoare_keeps [OF between] Suc]]) auto
  show ?case
    unfolding attempts.simps(2) [of "Suc n"]
  proof (rule hoare_bind [OF send], intro hoare_if)
    fix e :: "link_error option"
    show "hoare (\<lambda>s. e \<noteq> None \<and> snd (line s)) (retM None) (\<lambda>r _. r \<noteq> None) (\<lambda>_ _. True)" if "e = None"
      using that by (intro hoare_ret) simp
    show "hoare (\<lambda>s. e \<noteq> None \<and> snd (line s)) (retM e) (\<lambda>r _. r \<noteq> None) (\<lambda>_ _. True)"
      by (intro hoare_ret) simp
  qed (rule more)
qed

text \<open>After the info block no block is written any more, so the sequence fails.\<close>

lemma deaf_write_blocks:
  assumes send: "\<And>i. hoare (\<lambda>s. snd (line s)) (send i) (\<lambda>r s. r \<noteq> None \<and> snd (line s)) (\<lambda>_ _. True)"
    and read: "\<And>a n. keeps (\<lambda>s. snd (line s)) (read a n)" and "0 < count"
  shows "hoare (\<lambda>s. snd (line s)) (write_blocks (hurried c) read send delay count) (\<lambda>r _. r \<noteq> None) (\<lambda>_ _. True)"
proof -
  note kept = session_inv.kept_basic [OF cancelled_kept [of c]] session_inv.kept_wait [OF cancelled_kept [of c] read]
    session_inv.kept_gate_sleep [OF cancelled_kept [of c]] session_inv.kept_retry_sleep [OF cancelled_kept [of c] read]
  have count: "[0..<count] = 0 # [1..<count]" using \<open>0 < count\<close> upt_conv_Cons by simp
  have mark: "hoare (\<lambda>s. snd (line s)) mark_irreversible (\<lambda>_ s. snd (line s)) (\<lambda>_ _. True)"
    by (auto simp: mark_irreversible_def intro: hoare_mod)
  have blocks: "hoare (\<lambda>s. snd (line s)) (data_blocks (hurried c) send (sleep_before_retry_flash_data_block (hurried c) read) delay count [0..<count])
      (\<lambda>r _. r \<noteq> None) (\<lambda>_ _. True)"
    unfolding count data_blocks.simps
  proof (intro hoare_bind [OF hoare_keeps [OF kept(3)]] hoare_if hoare_ret)
    have "hoare (\<lambda>s. snd (line s)) (attempts 3 (send 0) (sleep_before_retry_flash_data_block (hurried c) read)) (\<lambda>r _. r \<noteq> None) (\<lambda>_ _. True)"
      using deaf_attempts [OF send kept(6), of 2] by (simp add: numeral_3_eq_3 numeral_2_eq_2 del: attempts.simps)
    then show "hoare (\<lambda>s. snd (line s)) (bindM (attempts 3 (send 0) (sleep_before_retry_flash_data_block (hurried c) read))
        (\<lambda>err. case err of None \<Rightarrow> bindM (pause (hurried c) delay) (\<lambda>_. data_blocks (hurried c) send
              (sleep_before_retry_flash_data_block (hurried c) read) delay count [1..<count])
          | Some e \<Rightarrow> retM (Some (Block_failed (0 + 1) count e)))) (\<lambda>r _. r \<noteq> None) (\<lambda>_ _. True)"
      by (rule hoare_bind) (auto simp: hoare_def split: option.split)
  qed simp
  show ?thesis
    unfolding write_blocks_def
    by (intro hoare_bind [OF mark] hoare_bind [OF hoare_keeps [OF kept(4)]] hoare_option
        hoare_bind [OF hoare_keeps [OF kept(5)] blocks] hoare_ret) simp
qed

section \<open>The info block and the rest\<close>

lemma info_frame: "write_frame t INFO_BLOCK_REG vs = Inr req \<Longrightarrow> info_write req"
proof (cases t)
  case (By_address a)
  then show "write_frame t INFO_BLOCK_REG vs = Inr req \<Longrightarrow> ?thesis"
    using toy_write_frame(2) [of a INFO_BLOCK_REG vs req] by (simp add: info_write_def INFO_BLOCK_REG_def)
next
  case (By_serial sn)
  assume "write_frame t INFO_BLOCK_REG vs = Inr req"
  with By_serial obtain rest where req: "req = [0xFD, 0x46, 0x08] @ be_bytes 4 (sn AND 0xFFFFFFFF) @ 0x10 # u16 INFO_BLOCK_REG @ rest"
    by (auto simp: bindE_Inr_conv build_fast_modbus_request_def with_crc_def build_write_multiple_registers_body_def Let_def split: if_splits)
  obtain a b c d where four: "be_bytes 4 (sn AND 0xFFFFFFFF) = [a, b, c, d]"
    using length_be_bytes [of 4 "sn AND 0xFFFFFFFF"] by (auto simp: numeral_eq_Suc length_Suc_conv)
  have "req ! 8 = u16 INFO_BLOCK_REG ! 0" "req ! 9 = u16 INFO_BLOCK_REG ! 1" by (simp_all add: req four nth_append)
  moreover have "reg16 (x # y # u16 INFO_BLOCK_REG @ rest) 2 = INFO_BLOCK_REG" for x y
    by (simp only: reg16_u16) (simp add: INFO_BLOCK_REG_def)
  ultimately show ?thesis by (simp add: info_write_def reg16_def nth_append)
qed

lemma info_written:
  "hoare (\<lambda>_. True) (write_to (hurried c) t INFO_BLOCK_REG vs) (\<lambda>r s. r = None \<longrightarrow> snd (line s)) (\<lambda>_ _. True)"
  using info_frame [of t vs]
  by (auto simp: hoare_def write_to_run hurried_exchange split: sum.splits prod.splits if_splits)

lemma any_inv: "session_inv c (\<lambda>_. True) (\<lambda>_. True)"
  by unfold_locales (simp_all add: keeps_def)

lemma info_attempts_written:
  assumes "info = bindM (liftM r) (write_to (hurried c) t INFO_BLOCK_REG)"
  shows "hoare (\<lambda>_. True) (info_attempts 3 (hurried c) info) (\<lambda>r s. r = None \<longrightarrow> snd (line s)) (\<lambda>_ _. True)"
proof -
  have "hoare (\<lambda>_. True) info (\<lambda>e s. True \<and> (e = None \<longrightarrow> snd (line s))) (\<lambda>_ _. True)"
    unfolding assms using info_written by (cases r) (auto intro: hoare_raise)
  from info_attempts_rule [OF any_inv this, of 2] show ?thesis by (simp add: numeral_3_eq_3 numeral_2_eq_2)
qed

text \<open>Both ways to address the device, both kinds of file.\<close>

lemma fails_result: "fails m \<Longrightarrow> fst (m s) \<noteq> Inr None"
  by (cases "m s") (auto simp: fails_def hoare_def dest!: spec [of _ s])

lemma fails_bind: "(\<And>x. fails (f x)) \<Longrightarrow> fails (bindM m f)"
  unfolding fails_def by (rule hoare_bind [where R = "\<lambda>_ _. True"]) (simp_all add: hoare_def split: prod.split sum.split)

lemma fails_split:
  "(b \<Longrightarrow> fails p) \<Longrightarrow> (\<not> b \<Longrightarrow> fails q) \<Longrightarrow> fails (if b then p else q)"
  "(\<And>x y. fails (g x y)) \<Longrightarrow> fails (case z of (x, y) \<Rightarrow> g x y)"
  "(r = None \<Longrightarrow> fails p) \<Longrightarrow> (\<And>x. fails (h x)) \<Longrightarrow> fails (case r of None \<Rightarrow> p | Some x \<Rightarrow> h x)"
  by (simp_all split: prod.split option.split)

lemma hurried_blocks_fail:
  assumes info: "info = bindM (liftM r) (write_to (hurried c) t INFO_BLOCK_REG)" and f: "\<And>e. fails (f e)"
    and send: "\<And>i. hoare (\<lambda>s. snd (line s)) (send i) (\<lambda>r s. r \<noteq> None \<and> snd (line s)) (\<lambda>_ _. True)" and "0 < count"
  shows "fails (bindM (info_attempts 3 (hurried c) info) (\<lambda>r. case r of
      Some e \<Rightarrow> f e | None \<Rightarrow> write_blocks (hurried c) (target_read (hurried c) t) send delay count))"
  unfolding fails_def
proof (rule hoare_bind [OF info_attempts_written [OF info]])
  fix e :: "flash_error option"
  have "hoare (\<lambda>s. snd (line s)) (write_blocks (hurried c) (target_read (hurried c) t) send delay count) (\<lambda>r _. r \<noteq> None) (\<lambda>_ _. True)"
    by (intro deaf_write_blocks send target_read_keeps [OF cancelled_kept] \<open>0 < count\<close>)
  moreover have "hoare (\<lambda>_. True) (f x) (\<lambda>r _. r \<noteq> None) (\<lambda>_ _. True)" for x using f [of x] by (simp add: fails_def)
  ultimately show "hoare (\<lambda>s. e = None \<longrightarrow> snd (line s)) (case e of
      Some x \<Rightarrow> f x | None \<Rightarrow> write_blocks (hurried c) (target_read (hurried c) t) send delay count) (\<lambda>r _. r \<noteq> None) (\<lambda>_ _. True)"
    by (cases e) (auto intro: hoare_weaken)
qed

lemma deaf_sends:
  "hoare (\<lambda>s. snd (line s)) (send_data_block (hurried c) a i b fw) (\<lambda>r s. r \<noteq> None \<and> snd (line s)) (\<lambda>_ _. True)"
  "hoare (\<lambda>s. snd (line s)) (send_data_block_by_serial (hurried c) sn i b fw) (\<lambda>r s. r \<noteq> None \<and> snd (line s)) (\<lambda>_ _. True)"
proof -
  have lift: "hoare P (bindM (liftM r) f) Q (\<lambda>_ _. True)" if "\<And>x. hoare P (f x) Q (\<lambda>_ _. True)" for P :: "('a \<times> bool) flasher \<Rightarrow> bool" and r f Q
    using that by (cases r) (auto intro: hoare_raise)
  have get: "hoare P (bindM (getM g) f) Q (\<lambda>_ _. True)" if "\<And>x. hoare P (f x) Q (\<lambda>_ _. True)" for P :: "('a \<times> bool) flasher \<Rightarrow> bool" and g f Q
    using that by (auto simp: hoare_def)
  show "hoare (\<lambda>s. snd (line s)) (send_data_block (hurried c) a i b fw) (\<lambda>r s. r \<noteq> None \<and> snd (line s)) (\<lambda>_ _. True)"
    unfolding send_data_block_def by (intro lift get hurried_write_fails [of c "By_address a", unfolded write_to_apply])
  show "hoare (\<lambda>s. snd (line s)) (send_data_block_by_serial (hurried c) sn i b fw) (\<lambda>r s. r \<noteq> None \<and> snd (line s)) (\<lambda>_ _. True)"
    unfolding send_data_block_by_serial_def by (intro lift get hurried_write_fails [of c "By_serial sn", unfolded write_to_apply])
qed

lemma block_count_pos: "0 < len \<Longrightarrow> 0 < block_count DATA_BLOCK_BYTES len"
  by (simp add: block_count_def DATA_BLOCK_BYTES_def)


end
