(* ===== verification/Jobs.thy ===== *)
theory Jobs
  imports Prelude "HOL-Library.AList"
begin

text \<open>
  The jobs of the flasher service (\<^verbatim>\<open>sa02m_flasher/jobs.py\<close>): one worker thread a job, at most one active job
  a port, cancellation by an event, the point of no return, and the event streams of the subscribers.
  An operation is one critical section under \<^verbatim>\<open>_lock\<close>, or what happens between two of them.
\<close>

section \<open>Jobs\<close>

datatype job_state = Pending | Running | Done | Cancelled_job | Failed

datatype job_kind = Scan | Flash | Flash_batch | Bacnet_verify | Bacnet_recover

text \<open>An event without its time stamp; \<open>e_text\<close> stands for the message.\<close>

record job_event =
  e_kind :: string
  e_level :: string
  e_text :: string

record job =
  j_kind :: job_kind
  j_port :: string
  j_state :: job_state
  j_progress :: int
  j_message :: string
  j_error :: "string option"
  j_irreversible :: bool
  j_devices :: "string list"
  j_events :: "job_event list"

type_synonym job_id = nat
type_synonym sub_id = nat

definition new_job :: "job_kind \<Rightarrow> string \<Rightarrow> job" where
  "new_job k p = \<lparr>j_kind = k, j_port = p, j_state = Pending, j_progress = 0, j_message = [], j_error = None,
     j_irreversible = False, j_devices = [], j_events = []\<rparr>"

definition MAX_EVENTS_RETAIN :: nat where "MAX_EVENTS_RETAIN = 500"
definition SUBSCRIBER_QUEUE_MAX :: nat where "SUBSCRIBER_QUEUE_MAX = 1000"

definition active :: "job \<Rightarrow> bool" where "active j \<longleftrightarrow> j_state j \<in> {Pending, Running}"

text \<open>A subscriber's queue; \<open>None\<close> ends the stream.  When it is full the oldest entry goes.\<close>

type_synonym stream_queue = "job_event option list"

definition push :: "job_event option \<Rightarrow> stream_queue \<Rightarrow> stream_queue" where
  "push e q = (if length q < SUBSCRIBER_QUEUE_MAX then q @ [e] else tl q @ [e])"

record manager =
  jobs :: "job_id \<Rightarrow> job option"
  cancel_events :: "job_id set"
  subs :: "job_id \<Rightarrow> sub_id list"
  queues :: "sub_id \<Rightarrow> stream_queue"
  port_jobs :: "(string \<times> job_id) list"

definition new_manager :: manager where
  "new_manager = \<lparr>jobs = Map.empty, cancel_events = {}, subs = \<lambda>_. [], queues = \<lambda>_. [], port_jobs = []\<rparr>"

definition upd_job :: "job_id \<Rightarrow> (job \<Rightarrow> job) \<Rightarrow> manager \<Rightarrow> manager" where
  "upd_job i f m = m\<lparr>jobs := (jobs m)(i := map_option f (jobs m i))\<rparr>"

section \<open>Operations\<close>

datatype submit_error = Port_busy string job_id

definition submit :: "job_id \<Rightarrow> job_kind \<Rightarrow> string \<Rightarrow> manager \<Rightarrow> submit_error + manager" where
  "submit i k p m =
     (case map_of (port_jobs m) p of
        Some b \<Rightarrow>
          if (case jobs m b of None \<Rightarrow> True | Some j \<Rightarrow> active j) then Inl (Port_busy p b)
          else Inr (m\<lparr>jobs := (jobs m)(i \<mapsto> new_job k p), subs := (subs m)(i := []), port_jobs := AList.update p i (port_jobs m)\<rparr>)
      | None \<Rightarrow> Inr (m\<lparr>jobs := (jobs m)(i \<mapsto> new_job k p), subs := (subs m)(i := []), port_jobs := AList.update p i (port_jobs m)\<rparr>))"

text \<open>The worker: it starts, \<^verbatim>\<open>run_fn\<close> returns or raises, the port is given back, the streams are closed.\<close>

definition worker_start :: "job_id \<Rightarrow> manager \<Rightarrow> manager" where
  "worker_start i = upd_job i (\<lambda>j. j\<lparr>j_state := Running\<rparr>)"

definition worker_returned :: "job_id \<Rightarrow> manager \<Rightarrow> manager" where
  "worker_returned i m =
     upd_job i (\<lambda>j. if j_state j = Running
       then j\<lparr>j_state := (if i \<in> cancel_events m then Cancelled_job else Done)\<rparr> else j) m"

definition worker_raised :: "job_id \<Rightarrow> string \<Rightarrow> manager \<Rightarrow> manager" where
  "worker_raised i e = upd_job i (\<lambda>j. j\<lparr>j_state := Failed, j_error := Some e\<rparr>)"

definition worker_release :: "job_id \<Rightarrow> string \<Rightarrow> manager \<Rightarrow> manager" where
  "worker_release i p m =
     (if map_of (port_jobs m) p = Some i then m\<lparr>port_jobs := AList.delete p (port_jobs m)\<rparr> else m)"

definition deliver :: "sub_id list \<Rightarrow> job_event option \<Rightarrow> manager \<Rightarrow> manager" where
  "deliver ss e m = m\<lparr>queues := fold (\<lambda>s qs. qs(s := push e (qs s))) ss (queues m)\<rparr>"

definition worker_close :: "job_id \<Rightarrow> manager \<Rightarrow> manager" where
  "worker_close i m = deliver (subs m i) None m"

text \<open>\<^verbatim>\<open>_emit\<close>: the event is kept and its receivers are chosen under the lock, then it is handed out.\<close>

definition retain :: "job_event \<Rightarrow> job_event list \<Rightarrow> job_event list" where
  "retain e es = (let es' = es @ [e] in drop (length es' - MAX_EVENTS_RETAIN) es')"

definition emit :: "job_id \<Rightarrow> job_event \<Rightarrow> manager \<Rightarrow> manager" where
  "emit i e m = deliver (subs m i) (Some e) (upd_job i (\<lambda>j. j\<lparr>j_events := retain e (j_events j)\<rparr>) m)"

text \<open>\<^verbatim>\<open>cancel\<close>: the test under the lock, and, after it, the event.\<close>

definition cancel_test :: "job_id \<Rightarrow> manager \<Rightarrow> bool" where
  "cancel_test i m \<longleftrightarrow> (case jobs m i of None \<Rightarrow> False | Some j \<Rightarrow> \<not> j_irreversible j)"

definition cancel_set :: "job_id \<Rightarrow> manager \<Rightarrow> manager" where
  "cancel_set i m = m\<lparr>cancel_events := insert i (cancel_events m)\<rparr>"

definition job_mark_irreversible :: "job_id \<Rightarrow> manager \<Rightarrow> bool \<times> manager" where
  "job_mark_irreversible i m =
     (jobs m i \<noteq> None, upd_job i (\<lambda>j. j\<lparr>j_irreversible := True\<rparr>) m)"

definition job_progress :: "job_id \<Rightarrow> int \<Rightarrow> string \<Rightarrow> manager \<Rightarrow> manager" where
  "job_progress i v msg =
     upd_job i (\<lambda>j. let j' = j\<lparr>j_progress := max 0 (min 100 v)\<rparr> in if msg = [] then j' else j'\<lparr>j_message := msg\<rparr>)"

definition device_found :: "job_id \<Rightarrow> string \<Rightarrow> manager \<Rightarrow> manager" where
  "device_found i d = upd_job i (\<lambda>j. j\<lparr>j_devices := j_devices j @ [d]\<rparr>)"

definition active_job_on_port :: "string \<Rightarrow> manager \<Rightarrow> job_id option" where
  "active_job_on_port p m = map_of (port_jobs m) p"

definition any_active_job :: "manager \<Rightarrow> bool" where
  "any_active_job m \<longleftrightarrow> list_ex (\<lambda>(p, i). case jobs m i of None \<Rightarrow> False | Some j \<Rightarrow> active j) (port_jobs m)"

definition list_active_jobs :: "manager \<Rightarrow> job_id list" where
  "list_active_jobs m =
     filter (\<lambda>i. case jobs m i of None \<Rightarrow> False | Some j \<Rightarrow> active j) (rev (remdups (rev (map snd (port_jobs m)))))"

definition subscribe :: "job_id \<Rightarrow> sub_id \<Rightarrow> manager \<Rightarrow> manager option" where
  "subscribe i s m =
     (case jobs m i of
        None \<Rightarrow> None
      | Some j \<Rightarrow>
          let q = fold push (map Some (j_events j)) [];
              q' = (if j_state j \<in> {Done, Cancelled_job, Failed} then push None q else q) in
          Some (m\<lparr>subs := (subs m)(i := subs m i @ [s]), queues := (queues m)(s := q')\<rparr>))"

definition unsubscribe :: "job_id \<Rightarrow> sub_id \<Rightarrow> manager \<Rightarrow> manager" where
  "unsubscribe i s m = m\<lparr>subs := (subs m)(i := remove1 s (subs m i))\<rparr>"

section \<open>Threads\<close>

text \<open>Where the worker of a job stands; \<open>asked\<close> are the jobs for which a \<^verbatim>\<open>cancel\<close> has passed its test and has
  not set the event yet.\<close>

datatype worker_at = Before_start | In_run | After_run | Port_free | Gone

record job_world =
  mgr :: manager
  worker :: "job_id \<Rightarrow> worker_at"
  asked :: "job_id set"

inductive job_step :: "job_world \<Rightarrow> job_world \<Rightarrow> bool" where
  submitted: "jobs (mgr w) i = None \<Longrightarrow> submit i k p (mgr w) = Inr m \<Longrightarrow>
    job_step w (w\<lparr>mgr := m, worker := (worker w)(i := Before_start)\<rparr>)"
| started: "worker w i = Before_start \<Longrightarrow>
    job_step w (w\<lparr>mgr := worker_start i (mgr w), worker := (worker w)(i := In_run)\<rparr>)"
| marked: "worker w i = In_run \<Longrightarrow> job_step w (w\<lparr>mgr := snd (job_mark_irreversible i (mgr w))\<rparr>)"
| progressed: "worker w i = In_run \<Longrightarrow> job_step w (w\<lparr>mgr := job_progress i v msg (mgr w)\<rparr>)"
| found: "worker w i = In_run \<Longrightarrow> job_step w (w\<lparr>mgr := device_found i d (mgr w)\<rparr>)"
| emitted: "job_step w (w\<lparr>mgr := emit i e (mgr w)\<rparr>)"
| returned: "worker w i = In_run \<Longrightarrow> job_step w (w\<lparr>mgr := worker_returned i (mgr w), worker := (worker w)(i := After_run)\<rparr>)"
| raised: "worker w i = In_run \<Longrightarrow> job_step w (w\<lparr>mgr := worker_raised i e (mgr w), worker := (worker w)(i := After_run)\<rparr>)"
| released: "worker w i = After_run \<Longrightarrow> jobs (mgr w) i = Some j \<Longrightarrow>
    job_step w (w\<lparr>mgr := worker_release i (j_port j) (mgr w), worker := (worker w)(i := Port_free)\<rparr>)"
| closed: "worker w i = Port_free \<Longrightarrow> job_step w (w\<lparr>mgr := worker_close i (mgr w), worker := (worker w)(i := Gone)\<rparr>)"
| asks: "cancel_test i (mgr w) \<Longrightarrow> job_step w (w\<lparr>asked := insert i (asked w)\<rparr>)"
| cancels: "i \<in> asked w \<Longrightarrow> job_step w (w\<lparr>mgr := cancel_set i (mgr w), asked := asked w - {i}\<rparr>)"
| subscribed: "subscribe i s (mgr w) = Some m \<Longrightarrow> job_step w (w\<lparr>mgr := m\<rparr>)"
| unsubscribed: "job_step w (w\<lparr>mgr := unsubscribe i s (mgr w)\<rparr>)"

definition job_world0 :: job_world where
  "job_world0 = \<lparr>mgr = new_manager, worker = \<lambda>_. Gone, asked = {}\<rparr>"

inductive job_reachable :: "job_world \<Rightarrow> bool" where
  job_start: "job_reachable job_world0"
| job_more: "job_reachable w \<Longrightarrow> job_step w w' \<Longrightarrow> job_reachable w'"

inductive_cases job_stepE: "job_step w w'"

section \<open>One active job a port\<close>

text \<open>The states a job can be in while its worker stands somewhere.\<close>

fun states_at :: "worker_at \<Rightarrow> job_state set" where
  "states_at Before_start = {Pending}" | "states_at In_run = {Running}" | "states_at _ = {Done, Cancelled_job, Failed}"

definition job_inv :: "job_world \<Rightarrow> bool" where
  "job_inv w \<longleftrightarrow>
     (\<forall>i j. jobs (mgr w) i = Some j \<longrightarrow> j_state j \<in> states_at (worker w i) \<and>
        (active j \<longrightarrow> map_of (port_jobs (mgr w)) (j_port j) = Some i) \<and>
        (j_state j = Cancelled_job \<longrightarrow> i \<in> cancel_events (mgr w)))"

lemma job_invD:
  assumes "job_inv w" and "jobs (mgr w) i = Some j"
  shows "j_state j \<in> states_at (worker w i)" and "active j \<Longrightarrow> map_of (port_jobs (mgr w)) (j_port j) = Some i"
    and "j_state j = Cancelled_job \<Longrightarrow> i \<in> cancel_events (mgr w)"
  using assms by (simp_all add: job_inv_def)

lemma job_inv_port:
  assumes "job_inv w" and "jobs (mgr w) i = Some j" and "worker w i = Before_start"
  shows "map_of (port_jobs (mgr w)) (j_port j) = Some i"
  using job_invD(1,2) [OF assms(1,2)] assms(3) by (simp add: active_def)

lemma deliver_rest [simp]:
  "jobs (deliver ss e m) = jobs m" "cancel_events (deliver ss e m) = cancel_events m" "port_jobs (deliver ss e m) = port_jobs m"
  by (simp_all add: deliver_def)

lemma upd_job_rest [simp]:
  "cancel_events (upd_job i f m) = cancel_events m" "port_jobs (upd_job i f m) = port_jobs m" "subs (upd_job i f m) = subs m"
  "jobs (upd_job i f m) k = (if k = i then map_option f (jobs m i) else jobs m k)"
  by (simp_all add: upd_job_def)

text \<open>A change of one job that leaves its state and port alone keeps the invariant.\<close>

lemma job_inv_quiet:
  assumes inv: "job_inv w" and jobs: "jobs m = jobs (upd_job i f (mgr w))"
    and f: "\<And>j. j_state (f j) = j_state j \<and> j_port (f j) = j_port j"
    and rest: "cancel_events (mgr w) \<subseteq> cancel_events m" "port_jobs m = port_jobs (mgr w)"
  shows "job_inv (w\<lparr>mgr := m\<rparr>)"
  unfolding job_inv_def
proof (intro allI impI)
  fix k j assume "jobs (mgr (w\<lparr>mgr := m\<rparr>)) k = Some j"
  then obtain j0 where j0: "jobs (mgr w) k = Some j0" "j_state j = j_state j0" "j_port j = j_port j0"
    using f by (auto simp: jobs split: if_splits)
  then show "j_state j \<in> states_at (worker (w\<lparr>mgr := m\<rparr>) k) \<and>
        (active j \<longrightarrow> map_of (port_jobs (mgr (w\<lparr>mgr := m\<rparr>))) (j_port j) = Some k) \<and>
        (j_state j = Cancelled_job \<longrightarrow> k \<in> cancel_events (mgr (w\<lparr>mgr := m\<rparr>)))"
    using job_invD [OF inv j0(1)] rest by (auto simp: active_def)
qed

lemma upd_job_id: "jobs m = jobs (upd_job i (\<lambda>j. j) m)"
  by (auto simp: option.map_ident)

lemma submit_Inr:
  assumes "submit i k p m = Inr m'"
  shows "m' = m\<lparr>jobs := (jobs m)(i \<mapsto> new_job k p), subs := (subs m)(i := []), port_jobs := AList.update p i (port_jobs m)\<rparr>"
    and "map_of (port_jobs m) p = Some b \<Longrightarrow> \<exists>j. jobs m b = Some j \<and> \<not> active j"
  using assms by (auto simp: submit_def split: option.splits if_splits)

lemma submit_inv:
  assumes inv: "job_inv w" and new: "jobs (mgr w) i = None" and ok: "submit i k p (mgr w) = Inr m"
  shows "job_inv (w\<lparr>mgr := m, worker := (worker w)(i := Before_start)\<rparr>)"
proof -
  have free: "map_of (port_jobs (mgr w)) p = Some b \<Longrightarrow> jobs (mgr w) b = Some j \<Longrightarrow> \<not> active j" for b j
    using submit_Inr(2) [OF ok] by fastforce
  have m: "m = (mgr w)\<lparr>jobs := (jobs (mgr w))(i \<mapsto> new_job k p), subs := (subs (mgr w))(i := []),
      port_jobs := AList.update p i (port_jobs (mgr w))\<rparr>" by (rule submit_Inr [OF ok])
  show ?thesis
    unfolding job_inv_def
  proof (intro allI impI)
    fix n j assume "jobs (mgr (w\<lparr>mgr := m, worker := (worker w)(i := Before_start)\<rparr>)) n = Some j"
    then consider "n = i" "j = new_job k p" | "n \<noteq> i" "jobs (mgr w) n = Some j" by (auto simp: m split: if_splits)
    then show "j_state j \<in> states_at (worker (w\<lparr>mgr := m, worker := (worker w)(i := Before_start)\<rparr>) n) \<and>
        (active j \<longrightarrow> map_of (port_jobs (mgr (w\<lparr>mgr := m, worker := (worker w)(i := Before_start)\<rparr>))) (j_port j) = Some n) \<and>
        (j_state j = Cancelled_job \<longrightarrow> n \<in> cancel_events (mgr (w\<lparr>mgr := m, worker := (worker w)(i := Before_start)\<rparr>)))"
    proof cases
      case 1
      then show ?thesis by (simp add: m new_job_def active_def AList.update_conv')
    next
      case 2
      then show ?thesis using job_invD [OF inv 2(2)] free [of n j] by (auto simp: m AList.update_conv')
    qed
  qed
qed

text \<open>A step of the worker of job \<open>i\<close>, which leaves the other jobs alone.\<close>

lemma worker_inv:
  assumes inv: "job_inv w" and jobs: "jobs m = jobs (upd_job i f (mgr w))" and rest: "cancel_events m = cancel_events (mgr w)"
    and ports: "\<And>k j. k \<noteq> i \<Longrightarrow> jobs (mgr w) k = Some j \<Longrightarrow> active j \<Longrightarrow> map_of (port_jobs m) (j_port j) = Some k"
    and own: "\<And>j. jobs (mgr w) i = Some j \<Longrightarrow> j_state (f j) \<in> states_at at \<and>
      (active (f j) \<longrightarrow> map_of (port_jobs m) (j_port (f j)) = Some i) \<and> (j_state (f j) = Cancelled_job \<longrightarrow> i \<in> cancel_events (mgr w))"
  shows "job_inv (w\<lparr>mgr := m, worker := (worker w)(i := at)\<rparr>)"
  unfolding job_inv_def
proof (intro allI impI)
  fix k j assume k: "jobs (mgr (w\<lparr>mgr := m, worker := (worker w)(i := at)\<rparr>)) k = Some j"
  show "j_state j \<in> states_at (worker (w\<lparr>mgr := m, worker := (worker w)(i := at)\<rparr>) k) \<and>
      (active j \<longrightarrow> map_of (port_jobs (mgr (w\<lparr>mgr := m, worker := (worker w)(i := at)\<rparr>))) (j_port j) = Some k) \<and>
      (j_state j = Cancelled_job \<longrightarrow> k \<in> cancel_events (mgr (w\<lparr>mgr := m, worker := (worker w)(i := at)\<rparr>)))"
  proof (cases "k = i")
    case True
    with k obtain j0 where "jobs (mgr w) i = Some j0" "j = f j0" by (auto simp: jobs)
    with own [of j0] rest True show ?thesis by simp
  next
    case False
    with k have "jobs (mgr w) k = Some j" by (simp add: jobs)
    with job_invD [OF inv this] ports [OF False this] rest False show ?thesis by simp
  qed
qed

lemma step_job_inv: "job_step w w' \<Longrightarrow> job_inv w \<Longrightarrow> job_inv w'"
proof (induction rule: job_step.induct)
  case (submitted w i k p m)
  then show ?case by (intro submit_inv)
next
  case (started w i)
  then show ?case
    by (intro worker_inv [where f = "\<lambda>j. j\<lparr>j_state := Running\<rparr>"]) (auto simp: worker_start_def dest: job_invD job_inv_port)
next
  case (marked w i)
  then show ?case
    by (intro job_inv_quiet [where f = "\<lambda>j. j\<lparr>j_irreversible := True\<rparr>"]) (auto simp: job_mark_irreversible_def)
next
  case (progressed w i v msg)
  then show ?case unfolding job_progress_def
    by (intro job_inv_quiet [OF _ refl]) (auto simp: Let_def)
next
  case (found w i d)
  then show ?case unfolding device_found_def by (intro job_inv_quiet [OF _ refl]) auto
next
  case (emitted w i e)
  then show ?case
    by (intro job_inv_quiet [where f = "\<lambda>j. j\<lparr>j_events := retain e (j_events j)\<rparr>" and i = i]) (auto simp: emit_def)
next
  case (returned w i)
  then show ?case unfolding worker_returned_def
    by (intro worker_inv [OF _ refl]) (auto simp: active_def dest: job_invD)
next
  case (raised w i e)
  then show ?case unfolding worker_raised_def
    by (intro worker_inv [OF _ refl]) (auto simp: active_def dest: job_invD)
next
  case (released w i j)
  then show ?case
    by (intro worker_inv [OF _ upd_job_id [of _ i, THEN trans]])
      (auto simp: worker_release_def active_def AList.delete_conv' dest: job_invD split: if_splits)
next
  case (closed w i)
  then show ?case
    by (intro worker_inv [OF _ upd_job_id [of _ i, THEN trans]]) (auto simp: worker_close_def active_def dest: job_invD)
next
  case (asks i w)
  then show ?case by (simp add: job_inv_def)
next
  case (cancels i w)
  then show ?case by (auto simp: job_inv_def cancel_set_def)
next
  case (subscribed i s w m)
  then show ?case by (auto simp: job_inv_def subscribe_def Let_def split: option.splits)
next
  case (unsubscribed w i s)
  then show ?case by (auto simp: job_inv_def unsubscribe_def)
qed

lemma reachable_inv: "job_reachable w \<Longrightarrow> job_inv w"
proof (induction rule: job_reachable.induct)
  case job_start
  then show ?case by (simp add: job_inv_def job_world0_def new_manager_def)
next
  case (job_more w w')
  then show ?case using step_job_inv by blast
qed

lemma steps_reachable: "job_step\<^sup>*\<^sup>* w w' \<Longrightarrow> job_reachable w \<Longrightarrow> job_reachable w'"
  by (induction rule: rtranclp_induct) (auto intro: job_more)

section \<open>The streams\<close>

lemma length_retain [simp]: "length (retain e es) \<le> MAX_EVENTS_RETAIN"
  by (simp add: retain_def Let_def)

lemma fold_push_fits: "length q + length es \<le> SUBSCRIBER_QUEUE_MAX \<Longrightarrow> fold push es q = q @ es"
  by (induction es arbitrary: q) (simp_all add: push_def)

lemma length_push: "length q \<le> SUBSCRIBER_QUEUE_MAX \<Longrightarrow> length (push e q) \<le> SUBSCRIBER_QUEUE_MAX"
  by (cases q) (simp_all add: push_def SUBSCRIBER_QUEUE_MAX_def)

text \<open>Who subscribes to a finished job gets all the events kept and the end of the stream.\<close>

lemma late_subscriber:
  assumes "jobs m i = Some j" and "j_state j \<in> {Done, Cancelled_job, Failed}" and "length (j_events j) \<le> MAX_EVENTS_RETAIN"
  shows "\<exists>m'. subscribe i s m = Some m' \<and> queues m' s = map Some (j_events j) @ [None]"
proof -
  have "fold push (map Some (j_events j)) [] = map Some (j_events j)"
    using fold_push_fits [of "[]" "map Some (j_events j)"] assms(3) by (simp add: MAX_EVENTS_RETAIN_def SUBSCRIBER_QUEUE_MAX_def)
  then show ?thesis
    using assms by (auto simp: subscribe_def push_def MAX_EVENTS_RETAIN_def SUBSCRIBER_QUEUE_MAX_def)
qed

section \<open>The point of no return\<close>

definition past_cancel :: "job_id \<Rightarrow> job_world \<Rightarrow> bool" where
  "past_cancel i w \<longleftrightarrow> (case jobs (mgr w) i of None \<Rightarrow> False | Some j \<Rightarrow> j_irreversible j) \<and> i \<notin> asked w \<and> i \<notin> cancel_events (mgr w)"

lemma past_cancel_step: "job_step w w' \<Longrightarrow> past_cancel i w \<Longrightarrow> past_cancel i w'"
  by (induction rule: job_step.induct)
    (auto simp: past_cancel_def worker_start_def job_mark_irreversible_def job_progress_def device_found_def emit_def
      worker_returned_def worker_raised_def worker_release_def worker_close_def cancel_test_def cancel_set_def
      subscribe_def unsubscribe_def Let_def dest!: submit_Inr(1) split: option.splits if_splits)

text \<open>C8: In every interleaving of requests and workers no two active jobs share a port, and the question whether any
  job is active is answered truly.\<close>

theorem one_job_per_port:
  assumes "job_reachable w"
  shows "inj_on (\<lambda>i. map_option j_port (jobs (mgr w) i)) {i. \<exists>j. jobs (mgr w) i = Some j \<and> active j} \<and>
    any_active_job (mgr w) = (\<exists>i j. jobs (mgr w) i = Some j \<and> active j)"
proof
  note inv = job_invD(2) [OF reachable_inv [OF assms]]
  show "inj_on (\<lambda>i. map_option j_port (jobs (mgr w) i)) {i. \<exists>j. jobs (mgr w) i = Some j \<and> active j}"
    by (rule inj_onI) (fastforce dest: inv)
  show "any_active_job (mgr w) = (\<exists>i j. jobs (mgr w) i = Some j \<and> active j)"
  proof
    assume "any_active_job (mgr w)"
    then obtain p i where "case jobs (mgr w) i of None \<Rightarrow> False | Some j \<Rightarrow> active j"
      by (auto simp: any_active_job_def list_ex_iff)
    then show "\<exists>i j. jobs (mgr w) i = Some j \<and> active j" by (cases "jobs (mgr w) i") auto
  next
    assume "\<exists>i j. jobs (mgr w) i = Some j \<and> active j"
    then obtain i j where j: "jobs (mgr w) i = Some j" "active j" by blast
    have "(j_port j, i) \<in> set (port_jobs (mgr w))" by (rule map_of_SomeD [OF inv [OF j]])
    with j show "any_active_job (mgr w)" by (auto simp: any_active_job_def list_ex_iff intro!: bexI [of _ "(j_port j, i)"])
  qed
qed

text \<open>C9: Once a job is past the point of no return and no cancellation is under way, no later request ever
  cancels it, in whatever order the threads run, and it does not end as cancelled.\<close>

theorem point_of_no_return:
  assumes "job_reachable w" and "job_step\<^sup>*\<^sup>* w w'"
    and "jobs (mgr w) i = Some j" and "j_irreversible j" and "i \<notin> asked w" and "i \<notin> cancel_events (mgr w)"
  shows "i \<notin> cancel_events (mgr w') \<and> map_option j_state (jobs (mgr w') i) \<noteq> Some Cancelled_job"
proof -
  have "past_cancel i w" using assms(3-6) by (auto simp: past_cancel_def)
  with assms(2) have past: "past_cancel i w'"
  proof (induction rule: rtranclp_induct)
    case (step y z)
    then show ?case by (blast dest: past_cancel_step)
  qed
  have "job_inv w'" by (rule reachable_inv [OF steps_reachable [OF assms(2,1)]])
  then have "jobs (mgr w') i = Some k \<Longrightarrow> j_state k = Cancelled_job \<Longrightarrow> i \<in> cancel_events (mgr w')" for k
    by (rule job_invD(3))
  with past show ?thesis by (auto simp: past_cancel_def)
qed

section \<open>A flash job\<close>

text \<open>A job on one port that runs, and one on another port that waits for its thread.\<close>

definition flash_world :: job_world where
  "flash_world =
     (case submit 0 Flash ''RS485-0'' new_manager of Inl _ \<Rightarrow> job_world0 | Inr m \<Rightarrow>
      (case submit 1 Scan ''RS485-1'' (worker_start 0 m) of Inl _ \<Rightarrow> job_world0 | Inr m' \<Rightarrow>
        \<lparr>mgr = m', worker = (\<lambda>_. Gone)(0 := In_run, 1 := Before_start), asked = {}\<rparr>))"

lemma flash_world_reachable: "job_reachable flash_world"
proof -
  obtain m where m: "submit 0 Flash ''RS485-0'' new_manager = Inr m"
    by (simp add: submit_def new_manager_def)
  let ?w1 = "job_world0\<lparr>mgr := m, worker := (worker job_world0)(0 := Before_start)\<rparr>"
  have 1: "job_step job_world0 ?w1"
    using submitted [of job_world0 0 Flash "''RS485-0''" m] m by (simp add: job_world0_def new_manager_def)
  let ?w2 = "?w1\<lparr>mgr := worker_start 0 (mgr ?w1), worker := (worker ?w1)(0 := In_run)\<rparr>"
  have 2: "job_step ?w1 ?w2" by (rule started) simp
  have new: "jobs (mgr ?w2) 1 = None" using submit_Inr(1) [OF m] by (simp add: worker_start_def new_manager_def)
  obtain m' where m': "submit 1 Scan ''RS485-1'' (mgr ?w2) = Inr m'"
    using submit_Inr(1) [OF m] by (simp add: submit_def worker_start_def new_manager_def)
  have 3: "job_step ?w2 (?w2\<lparr>mgr := m', worker := (worker ?w2)(1 := Before_start)\<rparr>)"
    by (rule submitted [OF new m'])
  have "flash_world = ?w2\<lparr>mgr := m', worker := (worker ?w2)(1 := Before_start)\<rparr>"
    using m' by (simp add: flash_world_def m job_world0_def)
  then show ?thesis using job_more [OF job_more [OF job_more [OF job_start 1] 2] 3] by simp
qed

lemma flash_world_facts:
  "map_option active (jobs (mgr flash_world) 0) = Some True" "map_option j_irreversible (jobs (mgr flash_world) 0) = Some False"
  "map_option active (jobs (mgr flash_world) 1) = Some True"
  "worker flash_world 0 = In_run" "asked flash_world = {}" "cancel_events (mgr flash_world) = {}" "cancel_test 0 (mgr flash_world)"
  by code_simp+

theorem one_job_per_port_witness:
  "inj_on (\<lambda>i. map_option j_port (jobs (mgr flash_world) i)) {i. \<exists>j. jobs (mgr flash_world) i = Some j \<and> active j} \<and>
   {0, 1} \<subseteq> {i. \<exists>j. jobs (mgr flash_world) i = Some j \<and> active j} \<and> any_active_job (mgr flash_world)"
  using one_job_per_port [OF flash_world_reachable] flash_world_facts(1,3) by auto

text \<open>Marked, with a request that passed its test before, or without one.\<close>

lemma marked_world:
  assumes "job_reachable w" and "worker w 0 = In_run" and "map_option j_irreversible (jobs (mgr w) 0) = Some False"
  shows "\<exists>w' j. job_reachable w' \<and> jobs (mgr w') 0 = Some j \<and> j_irreversible j \<and> asked w' = asked w \<and>
    cancel_events (mgr w') = cancel_events (mgr w) \<and> worker w' 0 = In_run"
  using assms job_more [OF assms(1) marked [OF assms(2)]]
  by (intro exI [of _ "w\<lparr>mgr := snd (job_mark_irreversible 0 (mgr w))\<rparr>"]) (auto simp: job_mark_irreversible_def)

lemma cancel_race:
  "\<exists>w w' j. job_reachable w \<and> job_step w w' \<and> jobs (mgr w) 0 = Some j \<and> j_irreversible j \<and>
    0 \<notin> cancel_events (mgr w) \<and> 0 \<in> cancel_events (mgr w')"
proof -
  let ?w = "flash_world\<lparr>asked := insert 0 (asked flash_world)\<rparr>"
  have "job_reachable ?w" by (rule job_more [OF flash_world_reachable asks [OF flash_world_facts(7)]])
  then obtain w j where w: "job_reachable w" "jobs (mgr w) 0 = Some j" "j_irreversible j" "0 \<in> asked w" "0 \<notin> cancel_events (mgr w)"
    using marked_world [of ?w] flash_world_facts by auto
  moreover have "job_step w (w\<lparr>mgr := cancel_set 0 (mgr w), asked := asked w - {0}\<rparr>)" by (rule cancels) (rule w(4))
  ultimately show ?thesis by (fastforce simp: cancel_set_def)
qed

theorem point_of_no_return_witness:
  "\<exists>w w' j. job_reachable w \<and> jobs (mgr w) 0 = Some j \<and> j_irreversible j \<and> job_step w w' \<and> worker w' 0 = After_run \<and>
    0 \<notin> cancel_events (mgr w') \<and> map_option j_state (jobs (mgr w') 0) \<noteq> Some Cancelled_job"
proof -
  obtain w j where w: "job_reachable w" "jobs (mgr w) 0 = Some j" "j_irreversible j" "0 \<notin> asked w" "0 \<notin> cancel_events (mgr w)"
      "worker w 0 = In_run"
    using marked_world [OF flash_world_reachable flash_world_facts(4,2)] flash_world_facts by auto
  let ?w = "w\<lparr>mgr := worker_returned 0 (mgr w), worker := (worker w)(0 := After_run)\<rparr>"
  have step: "job_step w ?w" by (rule returned) (rule w(6))
  from point_of_no_return [OF w(1) r_into_rtranclp [of job_step, OF step] w(2-5)] step w(1-3) show ?thesis
    by (intro exI [of _ w] exI [of _ ?w] exI [of _ j]) simp
qed

end
