(* ===== verification/Firmware.thy ===== *)
theory Firmware
  imports Flash_Device
begin

text \<open>
  Loading firmware files (\<^verbatim>\<open>sa02m_flasher/firmware.py\<close>): from the bytes of a file to the image that is flashed.
  The version a loader finds for the log is left out.
\<close>

section \<open>Application images\<close>

definition MAX_FIRMWARE_SIZE :: int where "MAX_FIRMWARE_SIZE = FLASH_APP_END - FLASH_APP_START"
definition RAM_START :: int where "RAM_START = 0x20000000"
definition RAM_END :: int where "RAM_END = 0x20008000"
definition BL_VECTORS_SIZE :: nat where "BL_VECTORS_SIZE = 2048"
definition BL_CODE_ORIGIN :: int where "BL_CODE_ORIGIN = 0x08038000"
definition BL_CODE_SIZE :: nat where "BL_CODE_SIZE = 32768"
definition BL_CODE_OFFSET_IN_FULL_BIN :: nat where "BL_CODE_OFFSET_IN_FULL_BIN = 0x38000"
definition FW_INFO_SIZE :: nat where "FW_INFO_SIZE = 32"

text \<open>\<^verbatim>\<open>(used + 3) & ~3\<close>, where \<open>used\<close> is the length without the \<^verbatim>\<open>0xFF\<close> at the end.\<close>

definition effective_size :: "bytes \<Rightarrow> nat" where
  "effective_size img =
     (let used = length (dropWhile (\<lambda>b. b = 0xFF) (rev img)) in
      if img = [] then 0 else if used = 0 then length img else (used + 3) div 4 * 4)"

datatype load_error =
    Bin_too_big nat | Fw_too_short nat | Fw_bad_size int | Wbfw_too_short nat
  | Dump_too_short nat | Bl_too_short nat | Bl_code_blank | Bl_vectors string
  | Bl_fw_too_short nat | Bl_fw_bad_size int | Bl_fw_truncated nat | No_such_format

definition load_bin :: "bytes \<Rightarrow> load_error + bytes \<times> nat" where
  "load_bin data =
     (if int (length data) > MAX_FIRMWARE_SIZE then Inl (Bin_too_big (length data))
      else let size = (if effective_size data = 0 then length data else effective_size data) in
        if int size > MAX_FIRMWARE_SIZE then Inl (Bin_too_big size)
        else Inr (take size data, size))"

text \<open>The signature of the file: its first 12 bytes without the zeros at the end; a byte above 127 decodes to
  U+FFFD, here a question mark.\<close>

definition ascii_replace :: "bytes \<Rightarrow> string" where
  "ascii_replace bs = map (\<lambda>b. if b < 0x80 then char_of_byte b else CHR ''?'') bs"

definition load_fw :: "bytes \<Rightarrow> load_error + bytes \<times> int \<times> string" where
  "load_fw data =
     (if length data < FW_INFO_SIZE then Inl (Fw_too_short (length data))
      else let sig_raw = rev (dropWhile (\<lambda>b. b = 0) (rev (take 12 data)));
               signature = (if sig_raw = [] \<or> list_ex (\<lambda>b. b < 32) sig_raw then ''NONE'' else ascii_replace sig_raw);
               size = u32_at data 12 in
        if size \<le> 0 \<or> size > MAX_FIRMWARE_SIZE then Inl (Fw_bad_size size)
        else Inr (data, size, signature))"

section \<open>Wiren Board files\<close>

definition printable :: "byte \<Rightarrow> bool" where "printable b \<longleftrightarrow> 0x20 \<le> b \<and> b \<le> 0x7E"

definition strip_zeros :: "bytes \<Rightarrow> bytes" where
  "strip_zeros bs = rev (dropWhile (\<lambda>b. b = 0) (rev (dropWhile (\<lambda>b. b = 0) bs)))"

definition decode_signature_candidate :: "bytes \<Rightarrow> string option" where
  "decode_signature_candidate raw0 =
     (let raw = strip_zeros raw0; s = map char_of_byte (filter printable raw) in
      if raw = [] then None
      else if \<not> list_all (\<lambda>b. b < 0x80) raw then None
      else if length s \<ge> 2 then Some s else None)"

text \<open>The runs of printable bytes of at least two, from left to right; \<open>cur\<close> is the one being read.\<close>

fun printable_runs :: "bytes \<Rightarrow> bytes \<Rightarrow> bytes list" where
  "printable_runs cur [] = (if length cur \<ge> 2 then [cur] else [])"
| "printable_runs cur (b # bs) =
     (if printable b then printable_runs (cur @ [b]) bs
      else (if length cur \<ge> 2 then [cur] else []) @ printable_runs [] bs)"

definition find_longest_printable_run :: "bytes \<Rightarrow> nat \<Rightarrow> string option" where
  "find_longest_printable_run data max_len =
     (let best = foldl (\<lambda>best s. if length s > length best then s else best) [] (printable_runs [] (take max_len data)) in
      if length data < 2 then None else if best = [] then None else Some (map char_of_byte best))"

definition extract_wbfw_signature :: "bytes \<Rightarrow> string option" where
  "extract_wbfw_signature data =
     (if length data < 12 then None
      else let candidates = (if length data \<ge> 16 then [slice 4 16 data] else []) @
                 [take 12 data, evens (take 12 data), odds (take 13 data)] in
        case first_some decode_signature_candidate candidates of
          Some s \<Rightarrow> Some s
        | None \<Rightarrow> find_longest_printable_run data 24)"

text \<open>\<^verbatim>\<open>stem.split("__", 1)[0]\<close> and \<^verbatim>\<open>stem.split("_", 1)[0]\<close>.\<close>

fun before_double :: "string \<Rightarrow> string option" where
  "before_double (a # b # cs) =
     (if a = CHR ''_'' \<and> b = CHR ''_'' then Some [] else map_option ((#) a) (before_double (b # cs)))"
| "before_double cs = None"

definition signature_from_wb_filename :: "string \<Rightarrow> string" where
  "signature_from_wb_filename stem0 =
     (let stem = py_strip stem0;
          sig = (case before_double stem of
              Some p \<Rightarrow> py_strip p
            | None \<Rightarrow> if CHR ''_'' \<in> set stem then py_strip (takeWhile (\<lambda>c. c \<noteq> CHR ''_'') stem) else stem);
          sig' = take 12 (if sig = [] then ''NONE'' else sig) in
      if sig' = [] then ''NONE'' else sig')"

definition load_firmware_wbfw :: "string \<Rightarrow> bytes \<Rightarrow> load_error + bytes \<times> nat \<times> string" where
  "load_firmware_wbfw stem data =
     (if length data < 32 then Inl (Wbfw_too_short (length data))
      else let sig = signature_from_wb_filename stem;
               sig' = (if sig = ''NONE'' then (case extract_wbfw_signature (take 32 data) of None \<Rightarrow> ''NONE'' | Some s \<Rightarrow> s) else sig) in
        Inr (data, length data, sig'))"

text \<open>By the suffix of the file name, in lower case.\<close>

definition load_firmware :: "string \<Rightarrow> string \<Rightarrow> bytes \<Rightarrow> load_error + bytes \<times> string option" where
  "load_firmware stem suf data =
     (if suf = ''.bin'' then (case load_bin data of Inl e \<Rightarrow> Inl e | Inr (img, _) \<Rightarrow> Inr (img, None))
      else if suf = ''.fw'' then (case load_fw data of Inl e \<Rightarrow> Inl e | Inr (img, _, sig) \<Rightarrow> Inr (img, Some sig))
      else if suf = ''.wbfw'' then (case load_firmware_wbfw stem data of Inl e \<Rightarrow> Inl e | Inr (img, _, sig) \<Rightarrow> Inr (img, Some sig))
      else Inl No_such_format)"

section \<open>Bootloader images\<close>

definition check_bootloader_vector_table :: "bytes \<Rightarrow> string option" where
  "check_bootloader_vector_table img =
     (if length img < 8 then Some ''short''
      else let sp = u32_at img 0; res = u32_at img 4 in
        if sp < RAM_START \<or> sp > RAM_END then Some ''SP''
        else if res AND 0xFF000000 \<noteq> 0x08000000 then Some ''not in flash''
        else if res < BL_CODE_ORIGIN \<or> res \<ge> BL_CODE_ORIGIN + int BL_CODE_SIZE then Some ''not in the code''
        else if res AND 1 = 0 then Some ''thumb''
        else if sp = 0xFFFFFFFF \<or> res = 0xFFFFFFFF then Some ''blank''
        else None)"

definition checked_bootloader :: "bytes \<Rightarrow> load_error + bytes" where
  "checked_bootloader img =
     (case check_bootloader_vector_table img of Some e \<Rightarrow> Inl (Bl_vectors e) | None \<Rightarrow> Inr img)"

definition load_bootloader_bin :: "bytes \<Rightarrow> load_error + bytes" where
  "load_bootloader_bin data =
     (if length data \<ge> 0x40000 then
        if length data < BL_CODE_OFFSET_IN_FULL_BIN + BL_CODE_SIZE then Inl (Dump_too_short (length data))
        else checked_bootloader (take BL_VECTORS_SIZE data @
               slice BL_CODE_OFFSET_IN_FULL_BIN (BL_CODE_OFFSET_IN_FULL_BIN + BL_CODE_SIZE) data)
      else if length data < BL_IMAGE_TOTAL_BYTES then Inl (Bl_too_short (length data))
      else if list_all (\<lambda>b. b = 0xFF) (slice BL_VECTORS_SIZE BL_IMAGE_TOTAL_BYTES data) then Inl Bl_code_blank
      else checked_bootloader (take BL_IMAGE_TOTAL_BYTES data))"

text \<open>\<^verbatim>\<open>_load_bootloader_fw_container\<close>: the words of the file are turned round.\<close>

definition load_bootloader_fw_container :: "bytes \<Rightarrow> load_error + bytes" where
  "load_bootloader_fw_container data =
     (if length data < FW_INFO_SIZE then Inl (Bl_fw_too_short (length data))
      else let size = u32_at data 12 in
        if size \<le> 0 \<or> size > int BL_IMAGE_TOTAL_BYTES then Inl (Bl_fw_bad_size size)
        else let encoded = drop FW_INFO_SIZE data; needed = (nat size + 1) div 2 * 2 in
          if length encoded < needed then Inl (Bl_fw_truncated (length encoded))
          else Inr (ljust BL_IMAGE_TOTAL_BYTES 0xFF (take (nat size) (swap_pairs (take needed encoded)))))"

definition load_bootloader_fw :: "bytes \<Rightarrow> load_error + bytes" where
  "load_bootloader_fw data =
     (if length data \<ge> BL_IMAGE_TOTAL_BYTES \<and> check_bootloader_vector_table (take BL_IMAGE_TOTAL_BYTES data) = None
      then Inr (take BL_IMAGE_TOTAL_BYTES data)
      else (case load_bootloader_fw_container data of Inl e \<Rightarrow> Inl e | Inr img \<Rightarrow> checked_bootloader img))"

definition load_bootloader_image :: "string \<Rightarrow> bytes \<Rightarrow> load_error + bytes" where
  "load_bootloader_image suf data =
     (if suf = ''.bin'' then load_bootloader_bin data
      else if suf = ''.fw'' then load_bootloader_fw data
      else Inl No_such_format)"

section \<open>What a loader keeps\<close>

lemma all_equal: "takeWhile (\<lambda>b. b = x) ys = replicate (length (takeWhile (\<lambda>b. b = x) ys)) x"
  by (induction ys) simp_all

lemma dropWhile_end_replicate:
  "xs = rev (dropWhile (\<lambda>b. b = x) (rev xs)) @ replicate (length xs - length (dropWhile (\<lambda>b. b = x) (rev xs))) x"
proof -
  have "takeWhile (\<lambda>b. b = x) (rev xs) = replicate (length (takeWhile (\<lambda>b. b = x) (rev xs))) x"
    by (rule all_equal)
  then have "rev xs = replicate (length (takeWhile (\<lambda>b. b = x) (rev xs))) x @ dropWhile (\<lambda>b. b = x) (rev xs)"
    by (metis takeWhile_dropWhile_id)
  then show ?thesis
    by (metis diff_add_inverse2 length_append length_replicate length_rev rev_append rev_replicate rev_rev_ident)
qed

text \<open>Only \<^verbatim>\<open>0xFF\<close> is cut off.\<close>

lemma effective_rest: "effective_size img \<le> n \<Longrightarrow> drop n img = replicate (length img - n) 0xFF"
proof -
  assume n: "effective_size img \<le> n"
  let ?u = "dropWhile (\<lambda>b. b = 0xFF) (rev img)"
  show ?thesis
  proof (cases "length ?u = 0 \<or> img = []")
    case True
    with n have "length img \<le> n" by (auto simp: effective_size_def Let_def split: if_splits)
    then show ?thesis by simp
  next
    case False
    then have "length ?u \<le> (length ?u + 3) div 4 * 4" by linarith
    with n False have le: "length ?u \<le> n" by (auto simp: effective_size_def Let_def split: if_splits)
    have "drop n (rev ?u @ replicate (length img - length ?u) 0xFF) = replicate (length img - length ?u - (n - length ?u)) 0xFF"
      using le by simp
    then show ?thesis using dropWhile_end_replicate [of img "0xFF"] le by simp
  qed
qed

lemma load_bin_keeps:
  assumes "load_bin data = Inr (img, n)"
  shows "ljust (length data) 0xFF img = data \<and> int (length img) \<le> MAX_FIRMWARE_SIZE \<and> length img \<le> n"
proof -
  have *: "img = take n data" "effective_size data \<le> n" "int n \<le> MAX_FIRMWARE_SIZE"
    "effective_size data = 0 \<Longrightarrow> n = length data"
    using assms by (auto simp: load_bin_def Let_def split: if_splits)
  have "img @ drop n data = data" by (simp add: *(1))
  moreover have "drop n data = replicate (length data - length img) 0xFF"
    using effective_rest [OF *(2)] by (simp add: *(1))
  ultimately show ?thesis using *(3) by (simp add: ljust_def) (simp add: *(1) min_def)
qed

text \<open>A bootloader image is whole and starts where the chip expects it to, whatever the file was.\<close>

lemma checked_bootloader_Inr: "checked_bootloader img = Inr x \<longleftrightarrow> x = img \<and> check_bootloader_vector_table img = None"
  by (auto simp: checked_bootloader_def split: option.splits)

lemma load_bootloader_image_sound:
  assumes "load_bootloader_image suf data = Inr img"
  shows "length img = BL_IMAGE_TOTAL_BYTES \<and> check_bootloader_vector_table img = None"
  using assms
  by (auto simp: load_bootloader_image_def load_bootloader_bin_def load_bootloader_fw_def load_bootloader_fw_container_def
      checked_bootloader_Inr ljust_def Let_def BL_IMAGE_TOTAL_BYTES_def BL_CODE_OFFSET_IN_FULL_BIN_def BL_VECTORS_SIZE_def
      BL_CODE_SIZE_def slice_def split: if_splits sum.splits)

text \<open>What \<^verbatim>\<open>make_fw.py\<close> packs, an info block and the words turned round, is unpacked.\<close>

lemma swap_pairs_twice [simp]: "swap_pairs (swap_pairs bs) = bs"
  by (induction bs rule: swap_pairs.induct) simp_all

lemma length_swap_pairs [simp]: "length (swap_pairs bs) = length bs"
  by (induction bs rule: swap_pairs.induct) simp_all

lemma container_unpacked:
  assumes "length info = FW_INFO_SIZE" and "u32_at info 12 = int (length raw)" and "raw \<noteq> []" and "even (length raw)"
    and "length raw \<le> BL_IMAGE_TOTAL_BYTES"
  shows "load_bootloader_fw_container (info @ swap_pairs raw @ rest) = Inr (ljust BL_IMAGE_TOTAL_BYTES 0xFF raw)"
proof -
  have "u32_at (info @ xs) 12 = u32_at info 12" for xs
    using assms(1) by (simp add: u32_at_def slice_def FW_INFO_SIZE_def)
  moreover have "(length raw + 1) div 2 * 2 = length raw" using assms(4) by auto
  ultimately show ?thesis
    using assms by (simp add: load_bootloader_fw_container_def Let_def)
qed

section \<open>Files that are taken for something else\<close>

text \<open>A container without a signature and without the mark \<^verbatim>\<open>CRC2\<close> is loaded, but the sequences do not see its
  info block and take it for a raw image: by serial number the info block is flashed as code.\<close>

lemma nameless_container_is_raw:
  assumes "length data \<ge> FW_INFO_SIZE" and "take 12 data = replicate 12 0" and "1 \<le> u32_at data 12"
    and "u32_at data 12 \<le> MAX_FIRMWARE_SIZE" and "slice 16 20 data \<noteq> CRC2"
  shows "load_firmware stem ''.fw'' data = Inr (data, Some ''NONE'') \<and> \<not> image_has_embedded_fw_header data"
  using assms by (auto simp: load_firmware_def load_fw_def image_has_embedded_fw_header_def Let_def)

text \<open>A bootloader image whose end is not used is cut by the loader of applications, and then has the wrong length.\<close>

lemma bootloader_bin_cut:
  assumes "length data = BL_IMAGE_TOTAL_BYTES" and "data = used @ replicate 4 0xFF" and "b \<in> set used" and "b \<noteq> 0xFF"
  shows "\<exists>img. load_firmware stem ''.bin'' data = Inr (img, None) \<and> length img < BL_IMAGE_TOTAL_BYTES"
proof -
  let ?u = "dropWhile (\<lambda>b. b = 0xFF) (rev data)"
  have u: "length ?u \<le> length used" unfolding assms(2) by (simp add: numeral_eq_Suc length_dropWhile_le [THEN order_trans])
  have used: "length used = 34812" using assms by (simp add: BL_IMAGE_TOTAL_BYTES_def)
  then have le: "(length ?u + 3) div 4 * 4 \<le> 34812" using u by presburger
  have "?u \<noteq> []" using assms(2-4) by auto
  then have pos: "0 < length ?u" by blast
  then have "0 < (length ?u + 3) div 4 * 4" by linarith
  then have "effective_size data = (length ?u + 3) div 4 * 4" "effective_size data \<noteq> 0"
    using pos by (auto simp: effective_size_def Let_def)
  then show ?thesis
    using le assms(1) by (simp add: load_firmware_def load_bin_def Let_def BL_IMAGE_TOTAL_BYTES_def MAX_FIRMWARE_SIZE_def
        FLASH_APP_END_def FLASH_APP_START_def)
qed

end
