(* ===== verification/Rules_Values.thy ===== *)
theory Rules_Values
  imports Effect Complex_Main
begin

text \<open>
  The values the rules engine works with (\<^verbatim>\<open>sa02m_rules/engine.py\<close>, \<^verbatim>\<open>capability_binding.py\<close>,
  \<^verbatim>\<open>device_index.py\<close>): readings, the numbers they stand for, comparisons and windows of the day.
\<close>

section \<open>Readings\<close>

text \<open>A float is the rational it denotes, an infinity or NaN; an object or a list is only ever compared as a whole.\<close>

datatype flt = Fin rat | Pos_inf | Neg_inf | Not_a_number

datatype val = Null | Bool_v bool | Int_v int | Flt_v flt | Str_v string | Obj_v nat

text \<open>The conversions of the interpreter, \<^verbatim>\<open>float(n)\<close> (an infinity where it overflows) and \<^verbatim>\<open>float(s)\<close>, and whether
  the package of the converters is installed.\<close>

record numbers =
  float_of_int :: "int \<Rightarrow> flt"
  float_of_str :: "string \<Rightarrow> flt option"
  has_converters :: bool

text \<open>The words of \<^verbatim>\<open>BOOL_EVENT_VALUES\<close>.\<close>

definition event_words :: "string list \<times> string list" where
  "event_words = ([''not_detected'', ''closed'', ''dry'', ''normal'', ''off''],
     [''detected'', ''opened'', ''leak'', ''vibration'', ''alarm'', ''on''])"

definition event_number :: "numbers \<Rightarrow> string \<Rightarrow> flt option" where
  "event_number n s =
     (if \<not> has_converters n then None
      else if s \<in> set (fst event_words) then Some (Fin 0)
      else if s \<in> set (snd event_words) then Some (Fin 1) else None)"

definition raw_num :: "numbers \<Rightarrow> val \<Rightarrow> flt option" where
  "raw_num n v =
     (case v of
        Bool_v b \<Rightarrow> Some (Fin (if b then 1 else 0))
      | Int_v i \<Rightarrow> Some (float_of_int n i)
      | Flt_v f \<Rightarrow> Some f
      | Str_v t \<Rightarrow>
          let s = map lower_char (py_strip t) in
          (case event_number n s of
             Some f \<Rightarrow> Some f
           | None \<Rightarrow>
               if s \<in> {''1'', ''on'', ''true'', ''yes''} then Some (Fin 1)
               else if s \<in> {''0'', ''off'', ''false'', ''no''} then Some (Fin 0)
               else float_of_str n (map (\<lambda>c. if c = CHR '','' then CHR ''.'' else c) s))
      | Null \<Rightarrow> None
      | Obj_v _ \<Rightarrow> None)"

definition as_num :: "numbers \<Rightarrow> val \<Rightarrow> rat option" where
  "as_num n v = (case raw_num n v of Some (Fin r) \<Rightarrow> Some r | _ \<Rightarrow> None)"

definition non_finite :: "numbers \<Rightarrow> val \<Rightarrow> bool" where
  "non_finite n v \<longleftrightarrow> (case raw_num n v of None \<Rightarrow> False | Some (Fin r) \<Rightarrow> False | _ \<Rightarrow> True)"

definition truthy :: "numbers \<Rightarrow> val \<Rightarrow> bool" where
  "truthy n v \<longleftrightarrow> (case as_num n v of None \<Rightarrow> False | Some r \<Rightarrow> 1 / 2 \<le> r)"

text \<open>\<^verbatim>\<open>a == b\<close> of Python: numbers and truth values by what they denote.\<close>

fun exact :: "val \<Rightarrow> flt option" where
  "exact (Bool_v b) = Some (Fin (if b then 1 else 0))"
| "exact (Int_v i) = Some (Fin (of_int i))"
| "exact (Flt_v f) = Some f"
| "exact _ = None"

definition py_eq :: "val \<Rightarrow> val \<Rightarrow> bool" where
  "py_eq a b \<longleftrightarrow>
     (case (exact a, exact b) of
        (Some x, Some y) \<Rightarrow> x = y \<and> x \<noteq> Not_a_number
      | (None, None) \<Rightarrow> a = b
      | _ \<Rightarrow> False)"

section \<open>Operators\<close>

datatype op =
    Changed | Eq | Ne | Gt | Lt | Ge | Le | Rises_above | Drops_below | Enters_range | Leaves_range
  | Motion_detected | Motion_cleared | Opened | Closed

definition LEVEL_OPS :: "op list" where "LEVEL_OPS = [Eq, Ne, Gt, Lt, Ge, Le]"
definition EDGE_OPS :: "op list" where "EDGE_OPS = [Rises_above, Drops_below, Enters_range, Leaves_range]"
definition EVENT_OPS :: "op list" where "EVENT_OPS = [Motion_detected, Motion_cleared, Opened, Closed]"

text \<open>What a trigger or a condition compares with; \<open>Rng\<close> is the object with \<^verbatim>\<open>min\<close> and \<^verbatim>\<open>max\<close>.\<close>

datatype threshold = Thr val | Rng val val

definition cmp_op :: "numbers \<Rightarrow> val \<Rightarrow> op \<Rightarrow> threshold \<Rightarrow> bool" where
  "cmp_op n l q r =
     (let plain = (case r of Thr v \<Rightarrow> py_eq l v | Rng _ _ \<Rightarrow> False);
          number = (case r of Thr v \<Rightarrow> as_num n v | Rng _ _ \<Rightarrow> None) in
      if q = Changed then True
      else case (as_num n l, number) of
        (Some a, Some b) \<Rightarrow>
          (case q of Eq \<Rightarrow> a = b | Ne \<Rightarrow> a \<noteq> b | Gt \<Rightarrow> a > b | Lt \<Rightarrow> a < b | Ge \<Rightarrow> a \<ge> b | Le \<Rightarrow> a \<le> b | _ \<Rightarrow> False)
      | _ \<Rightarrow> (case q of Eq \<Rightarrow> plain | Ne \<Rightarrow> \<not> plain | _ \<Rightarrow> False))"

definition edge_pred :: "numbers \<Rightarrow> op \<Rightarrow> val \<Rightarrow> threshold \<Rightarrow> bool" where
  "edge_pred n q v t =
     (if q \<in> {Motion_detected, Opened} then truthy n v
      else if q \<in> {Motion_cleared, Closed} then \<not> truthy n v \<and> v \<noteq> Null
      else case as_num n v of
        None \<Rightarrow> False
      | Some x \<Rightarrow>
          (case t of
             Thr w \<Rightarrow> (case as_num n w of None \<Rightarrow> False | Some y \<Rightarrow>
               if q = Rises_above then x > y else if q = Drops_below then x < y else False)
           | Rng l h \<Rightarrow> (case (as_num n l, as_num n h) of
               (Some lo, Some hi) \<Rightarrow>
                 if q = Enters_range then lo \<le> x \<and> x \<le> hi else if q = Leaves_range then x < lo \<or> x > hi else False
             | _ \<Rightarrow> False)))"

definition level :: "numbers \<Rightarrow> op \<Rightarrow> val \<Rightarrow> threshold \<Rightarrow> bool" where
  "level n q v t = (if q \<in> set EDGE_OPS \<or> q \<in> set EVENT_OPS then edge_pred n q v t else cmp_op n v q t)"

section \<open>Names\<close>

text \<open>\<^verbatim>\<open>re.match("^[A-Za-z0-9_.:-]{1,n}$", s)\<close>: the dollar also stands before a final newline.\<close>

definition name_char :: "char \<Rightarrow> bool" where
  "name_char c \<longleftrightarrow> (let k = of_char c :: nat in
     (65 \<le> k \<and> k \<le> 90) \<or> (97 \<le> k \<and> k \<le> 122) \<or> (48 \<le> k \<and> k \<le> 57) \<or> c \<in> {CHR ''_'', CHR ''.'', CHR '':'', CHR ''-''})"

definition matches_name :: "nat \<Rightarrow> string \<Rightarrow> bool" where
  "matches_name n s \<longleftrightarrow>
     (let body = (if s \<noteq> [] \<and> last s = CHR 0x0A then butlast s else s) in
      body \<noteq> [] \<and> length body \<le> n \<and> list_all name_char body)"

definition ID_RE :: "string \<Rightarrow> bool" where "ID_RE = matches_name 64"
definition CAP_RE :: "string \<Rightarrow> bool" where "CAP_RE = matches_name 32"

text \<open>\<^verbatim>\<open>state_key\<close> and the short name of a capability type.\<close>

definition state_key :: "string \<Rightarrow> string \<Rightarrow> string" where
  "state_key cap inst = (if inst = [] then cap else cap @ ''|'' @ inst)"

definition capabilities_prefix :: string where "capabilities_prefix = ''devices.capabilities.''"

definition cap_short :: "string \<Rightarrow> string" where
  "cap_short raw =
     (let s = py_strip raw in
      if take (length capabilities_prefix) s = capabilities_prefix
      then rev (takeWhile (\<lambda>c. c \<noteq> CHR ''.'') (rev s))
      else if s = [] then ''on_off'' else s)"

section \<open>Windows of the day\<close>

text \<open>\<^verbatim>\<open>int(s)\<close> of at most two characters.\<close>

definition py_int2 :: "string \<Rightarrow> int result" where
  "py_int2 s0 =
     (let s = py_strip s0;
          neg = (s \<noteq> [] \<and> hd s = CHR ''-'');
          d = (if s \<noteq> [] \<and> hd s \<in> {CHR ''-'', CHR ''+''} then tl s else s);
          digit = (\<lambda>c. int (of_char c) - 48) in
      if d \<noteq> [] \<and> list_all (\<lambda>c. 0 \<le> digit c \<and> digit c \<le> 9) d
      then Inr ((if neg then -1 else 1) * foldl (\<lambda>a c. 10 * a + digit c) 0 d)
      else Inl (ValueError ''int''))"

definition minutes_of :: "string \<Rightarrow> int result" where
  "minutes_of s = bindE (py_int2 (take 2 s)) (\<lambda>h. bindE (py_int2 (slice 3 5 s)) (\<lambda>m. Inr (h * 60 + m)))"

text \<open>\<open>(h, m, wday)\<close> is the local time, Monday is 0.\<close>

definition in_window :: "nat \<times> nat \<times> nat \<Rightarrow> string \<Rightarrow> string \<Rightarrow> bool result" where
  "in_window hm fr to =
     (case hm of (h, m, _) \<Rightarrow> let cur = int h * 60 + int m in
      bindE (minutes_of fr) (\<lambda>a. bindE (minutes_of to) (\<lambda>b.
        Inr (if a \<le> b then a \<le> cur \<and> cur \<le> b else cur \<ge> a \<or> cur \<le> b))))"

section \<open>Facts\<close>

lemma py_eq_sym: "py_eq a b \<longleftrightarrow> py_eq b a"
  by (auto simp: py_eq_def split: option.splits)

text \<open>Every comparison is total: an unknown or non-finite reading makes no level but \<^verbatim>\<open>!=\<close> (and the plain \<^verbatim>\<open>==\<close>) true.\<close>

lemma unknown_fires_nothing:
  assumes "as_num n v = None" and "q \<notin> {Changed, Eq, Ne}"
  shows "\<not> cmp_op n v q t"
  using assms by (auto simp: cmp_op_def Let_def split: op.splits)

lemma null_fires_no_edge: "\<not> edge_pred n q Null t"
  by (auto simp: edge_pred_def truthy_def as_num_def raw_num_def)

text \<open>A name may end in a newline, although the pattern is there to keep white space out of a topic.\<close>

lemma newline_accepted: "matches_name n s \<Longrightarrow> last s \<noteq> CHR 0x0A \<Longrightarrow> matches_name n (s @ [CHR 0x0A])"
  by (auto simp: matches_name_def Let_def split: if_splits)

text \<open>A composite key is never a plain capability name.\<close>

lemma name_no_bar: "matches_name n s \<Longrightarrow> CHR ''|'' \<notin> set s"
proof
  assume m: "matches_name n s" and bar: "CHR ''|'' \<in> set s"
  have "list_all name_char (if s \<noteq> [] \<and> last s = CHR 0x0A then butlast s else s)"
    using m by (simp add: matches_name_def Let_def)
  moreover have "CHR ''|'' \<in> set (if s \<noteq> [] \<and> last s = CHR 0x0A then butlast s else s)"
    using bar by (cases s rule: rev_cases) auto
  ultimately have "name_char (CHR ''|'')" by (auto simp: list_all_iff split: if_splits)
  then show False by (simp add: name_char_def)
qed

lemma state_key_inj:
  assumes "matches_name n c" and "matches_name m d"
  shows "state_key c i = state_key d j \<longleftrightarrow> c = d \<and> i = j"
proof -
  note bars = name_no_bar [OF assms(1)] name_no_bar [OF assms(2)]
  have "c @ CHR ''|'' # i = d @ CHR ''|'' # j \<longleftrightarrow> c = d \<and> i = j"
    using bars by (auto simp: append_eq_append_conv2 append_eq_Cons_conv Cons_eq_append_conv)
  moreover have "c @ CHR ''|'' # i \<noteq> d" "c \<noteq> d @ CHR ''|'' # j" using bars by auto
  ultimately show ?thesis by (auto simp: state_key_def)
qed

end
