(* ===== verification/Rules_Core.thy ===== *)
theory Rules_Core
  imports Rules_Values
begin

text \<open>
  The state of the rules engine (\<^verbatim>\<open>sa02m_rules/engine.py\<close>): scenarios as the validator leaves them, the
  timers with their generations, the window of recent writes, and a write to a device.
\<close>

section \<open>Scenarios\<close>

datatype trigger =
    T_state string string op threshold
  | T_time string "nat list"
  | T_sun bool rat "rat option" "rat option" "nat list"
  | T_boot
  | T_every rat
  | T_button string string string
  | T_presence string

datatype condition =
    C_preset string
  | C_window string string
  | C_days "nat list"
  | C_weekday string
  | C_mode string
  | C_state string string op threshold rat

datatype action =
    Set_value string string string val rat
  | Toggle string string string
  | Ramp string string string rat rat
  | Delay rat
  | Scenario string
  | Scene string
  | Set_mode string
  | Notify string
  | Http string string "string option"

datatype scenario_kind = Block | Code | Logic | Scene_kind

text \<open>\<open>s_end\<close> is the time after which the run is undone and whether that restores what was before, \<open>s_text\<close> the code
  of a script, or the template of a rule with its parameters.\<close>

record scenario =
  s_id :: string
  s_name :: string
  s_enabled :: bool
  s_kind :: scenario_kind
  s_triggers :: "trigger list"
  s_any :: bool
  s_conditions :: "condition list"
  s_actions :: "action list"
  s_end :: "(rat \<times> bool) option"
  s_text :: string

section \<open>Runs and timers\<close>

type_synonym target = "string \<times> string \<times> string"

record run =
  r_sid :: string
  r_chain :: "string list"
  r_writes :: nat
  r_http :: nat
  r_actions :: nat
  r_spent :: rat
  r_snapshot :: "(target \<times> val) list option"
  r_turned_on :: "target list"
  r_source :: string
  r_error :: string
  r_root :: "scenario option"

definition new_run :: "string \<Rightarrow> string \<Rightarrow> scenario option \<Rightarrow> run" where
  "new_run sid source whole = \<lparr>r_sid = sid, r_chain = [sid], r_writes = 0, r_http = 0, r_actions = 0, r_spent = 0,
     r_snapshot = None, r_turned_on = [], r_source = source, r_error = [], r_root = whole\<rparr>"

type_synonym frame = "scenario \<times> action list"

record ramp =
  q_device :: string
  q_cap :: string
  q_instance :: string
  q_from :: rat
  q_to :: rat
  q_i :: nat
  q_n :: nat
  q_dt :: rat
  q_sid :: string

datatype payload =
    P_every string nat
  | P_cont run "frame list"
  | P_ramp ramp
  | P_end string bool "target list" "(target \<times> val) list option"
  | P_long string string
  | P_single string string
  | P_logic string string

record timer =
  t_due :: rat
  t_seq :: nat
  t_key :: string
  t_gen :: nat
  t_payload :: payload

section \<open>The engine and what it calls\<close>

text \<open>The platform: numbers, the clock, local time and the sun, the publisher of commands (it may answer why it refuses),
  the publisher of template states, the store, the journal (which writes at once, or when that is due), an outgoing request, the sandbox, and
  \<^verbatim>\<open>round(x, 2)\<close>.\<close>

record 'w platform =
  numbers +
  p_now :: "'w \<Rightarrow> rat \<times> 'w"
  p_local :: "rat \<Rightarrow> nat \<times> nat \<times> nat"
  p_sun :: "rat \<Rightarrow> rat \<Rightarrow> rat \<Rightarrow> rat \<times> rat"
  p_lat :: rat
  p_lon :: rat
  p_pub :: "string \<Rightarrow> string \<Rightarrow> string \<Rightarrow> val \<Rightarrow> 'w \<Rightarrow> string option result \<times> 'w"
  p_pub_state :: "string \<Rightarrow> string \<Rightarrow> val \<Rightarrow> 'w \<Rightarrow> unit result \<times> 'w"
  p_check :: "string \<Rightarrow> string \<Rightarrow> string \<Rightarrow> string option"
  p_save :: "'w \<Rightarrow> unit result \<times> 'w"
  p_flush :: "bool \<Rightarrow> 'w \<Rightarrow> 'w"
  p_fetch :: "string \<Rightarrow> string \<Rightarrow> string option \<Rightarrow> 'w \<Rightarrow> string option result \<times> 'w"
  p_round2 :: "rat \<Rightarrow> rat"
  p_code :: "string \<Rightarrow> 'w \<Rightarrow> string \<times> 'w"

record button =
  b_press :: "rat option"
  b_long :: bool
  b_single :: bool
  b_ts :: rat

record run_record =
  rec_ts :: rat
  rec_id :: string
  rec_error :: string
  rec_source :: string

text \<open>\<open>sent\<close> are the writes that were published, when and whether past the window; the code does not keep them.\<close>

record 'w engine =
  world :: 'w
  mirror :: "string \<times> string \<Rightarrow> val"
  doc :: "scenario list"
  home :: string
  heap :: "timer list"
  gen :: "string \<Rightarrow> nat"
  seq :: nat
  writes_win :: "rat list"
  trig_prev :: "string \<times> nat \<Rightarrow> val"
  observed :: "(string \<times> string) set"
  buttons :: "((string \<times> string) \<times> button) list"
  btn_counters :: "string \<times> string \<Rightarrow> rat option"
  for_s :: "string \<times> nat \<Rightarrow> rat option"
  last_tick :: "(string \<times> string \<times> string \<times> int) list"
  unarmed :: "string set"
  tpl_state :: "string \<times> string \<Rightarrow> val option"
  runs :: "run_record list"
  notices :: "string list"
  sent :: "(rat \<times> bool) list"

type_synonym ('w, 'a) eng = "('w engine, 'a) proc"

definition WRITE_WINDOW_S :: rat where "WRITE_WINDOW_S = 10"
definition WRITE_WINDOW_MAX :: nat where "WRITE_WINDOW_MAX = 8"
definition MAX_WRITES :: nat where "MAX_WRITES = 8"
definition MAX_ACTIONS :: nat where "MAX_ACTIONS = 20"
definition MAX_DEPTH :: nat where "MAX_DEPTH = 3"
definition RUN_S :: rat where "RUN_S = 30"
definition HEAP_MAX :: nat where "HEAP_MAX = 4096"
definition SNAPSHOT_MAX :: nat where "SNAPSHOT_MAX = 16"
definition HTTP_PER_RUN_MAX :: nat where "HTTP_PER_RUN_MAX = 8"
definition RUNS_MAX :: nat where "RUNS_MAX = 50"
definition NOTIFY_MAX :: nat where "NOTIFY_MAX = 20"
definition HOME_MODES :: "string list" where "HOME_MODES = [''home'', ''away'', ''night'', ''holiday'']"

text \<open>A call of the platform that may raise.\<close>

definition call :: "('w \<Rightarrow> 'a result \<times> 'w) \<Rightarrow> ('w, 'a) eng" where
  "call f = (\<lambda>e. case f (world e) of (r, w) \<Rightarrow> (r, e\<lparr>world := w\<rparr>))"

definition now :: "'w platform \<Rightarrow> ('w, rat) eng" where
  "now p = call (\<lambda>w. case p_now p w of (t, w') \<Rightarrow> (Inr t, w'))"

section \<open>Timers\<close>

definition before :: "timer \<Rightarrow> timer \<Rightarrow> bool" where
  "before a b \<longleftrightarrow> t_due a < t_due b \<or> (t_due a = t_due b \<and> t_seq a < t_seq b)"

fun heappush :: "timer \<Rightarrow> timer list \<Rightarrow> timer list" where
  "heappush t [] = [t]"
| "heappush t (u # us) = (if before t u then t # u # us else u # heappush t us)"

definition current :: "'w engine \<Rightarrow> timer \<Rightarrow> bool" where "current e t \<longleftrightarrow> t_gen t = gen e (t_key t)"

definition schedule_at :: "rat \<Rightarrow> string \<Rightarrow> payload \<Rightarrow> ('w, unit) eng" where
  "schedule_at due key pl =
     modM (\<lambda>e. let h = (if length (heap e) > HEAP_MAX then filter (current e) (heap e) else heap e); n = seq e + 1 in
       e\<lparr>seq := n, heap := heappush \<lparr>t_due = due, t_seq = n, t_key = key, t_gen = gen e key, t_payload = pl\<rparr> h\<rparr>)"

definition schedule :: "'w platform \<Rightarrow> rat \<Rightarrow> string \<Rightarrow> payload \<Rightarrow> ('w, unit) eng" where
  "schedule p delay key pl = bindM (now p) (\<lambda>t. schedule_at (t + max 0 delay) key pl)"

definition cancel :: "string \<Rightarrow> ('w, unit) eng" where
  "cancel key = modM (\<lambda>e. e\<lparr>gen := (gen e)(key := gen e key + 1)\<rparr>)"

definition timer_owner :: "payload \<Rightarrow> string option" where
  "timer_owner pl =
     (case pl of
        P_every sid _ \<Rightarrow> Some sid
      | P_logic sid _ \<Rightarrow> Some sid
      | P_cont r _ \<Rightarrow> Some (r_sid r)
      | P_end sid _ _ _ \<Rightarrow> Some sid
      | _ \<Rightarrow> None)"

definition cancel_scenario :: "string \<Rightarrow> ('w, unit) eng" where
  "cancel_scenario sid =
     modM (\<lambda>e. e\<lparr>gen := foldl (\<lambda>g t. if timer_owner (t_payload t) = Some sid then g(t_key t := g (t_key t) + 1) else g)
       (gen e) (heap e)\<rparr>)"

section \<open>Journal, status and home mode\<close>

definition publish_tpl_state :: "'w platform \<Rightarrow> string \<Rightarrow> string \<Rightarrow> val \<Rightarrow> ('w, unit) eng" where
  "publish_tpl_state p sid control v =
     bindM (getM (\<lambda>e. tpl_state e (sid, control))) (\<lambda>last.
       if (case last of None \<Rightarrow> v = Null | Some x \<Rightarrow> py_eq x v) then retM ()
       else bindM (modM (\<lambda>e. e\<lparr>tpl_state := (tpl_state e)((sid, control) := Some v)\<rparr>)) (\<lambda>_.
         call (p_pub_state p (''sa02m-rules-'' @ sid) control v)))"

definition keep_last :: "nat \<Rightarrow> 'a list \<Rightarrow> 'a list" where "keep_last n xs = drop (length xs - n) xs"

definition flush_if_due :: "'w platform \<Rightarrow> ('w, unit) eng" where
  "flush_if_due p = call (\<lambda>w. (Inr (), p_flush p False w))"

definition flush_runs :: "'w platform \<Rightarrow> ('w, unit) eng" where
  "flush_runs p = call (\<lambda>w. (Inr (), p_flush p True w))"

definition append_run :: "run_record \<Rightarrow> ('w, unit) eng" where
  "append_run r = modM (\<lambda>e. e\<lparr>runs := keep_last RUNS_MAX (runs e @ [r])\<rparr>)"

definition journal :: "'w platform \<Rightarrow> run_record \<Rightarrow> ('w, unit) eng" where
  "journal p r = bindM (append_run r) (\<lambda>_. flush_if_due p)"

definition notify :: "'w platform \<Rightarrow> string \<Rightarrow> ('w, unit) eng" where
  "notify p s = bindM (modM (\<lambda>e. e\<lparr>notices := keep_last NOTIFY_MAX (notices e @ [take 240 s])\<rparr>)) (\<lambda>_. flush_if_due p)"

definition home_mode :: "'w engine \<Rightarrow> string" where
  "home_mode e = (let m = (if home e = [] then ''home'' else home e) in if m \<in> set HOME_MODES then m else ''home'')"

section \<open>Writes\<close>

definition ramp_key :: "string \<Rightarrow> string \<Rightarrow> string" where "ramp_key dev skey = ''ramp:'' @ dev @ '':'' @ skey"

text \<open>The snapshot and the list of what was switched on.\<close>

definition note_write :: "numbers \<Rightarrow> target \<Rightarrow> val \<Rightarrow> val \<Rightarrow> run \<Rightarrow> run" where
  "note_write n key bef v r =
     (let r1 = (case r_snapshot r of
            Some sn \<Rightarrow> if map_of sn key = None \<and> length sn < SNAPSHOT_MAX then r\<lparr>r_snapshot := Some (sn @ [(key, bef)])\<rparr> else r
          | None \<Rightarrow> r) in
      if fst (snd key) = ''on_off'' \<and> truthy n v \<and> key \<notin> set (r_turned_on r1)
      then r1\<lparr>r_turned_on := r_turned_on r1 @ [key]\<rparr> else r1)"

definition set_error :: "string \<Rightarrow> run option \<Rightarrow> run option" where
  "set_error s = map_option (\<lambda>r. r\<lparr>r_error := s\<rparr>)"

text \<open>An empty answer is no refusal.\<close>

definition refusal :: "string option \<Rightarrow> string option" where
  "refusal a = (case a of Some why \<Rightarrow> if why = [] then None else Some why | None \<Rightarrow> None)"

definition publish :: "'w platform \<Rightarrow> rat \<Rightarrow> bool \<Rightarrow> target \<Rightarrow> val \<Rightarrow> run option \<Rightarrow> ('w, bool \<times> run option) eng" where
  "publish p t force key v r =
     (case key of (dev, cap, inst) \<Rightarrow>
      bindM (getM (\<lambda>e. mirror e (dev, state_key cap inst))) (\<lambda>bef.
      bindM (call (p_pub p dev cap inst v)) (\<lambda>answer.
        case refusal answer of
          Some why \<Rightarrow> retM (False, set_error why r)
        | None \<Rightarrow> bindM (modM (\<lambda>e. e\<lparr>writes_win := writes_win e @ [t], sent := sent e @ [(t, force)],
              mirror := (mirror e)((dev, state_key cap inst) := v)\<rparr>))
            (\<lambda>_. retM (True, map_option (note_write (numbers.truncate p) key bef v) r)))))"

definition open_window :: "rat \<Rightarrow> ('w, bool) eng" where
  "open_window t =
     bindM (modM (\<lambda>e. e\<lparr>writes_win := dropWhile (\<lambda>u. t - u > WRITE_WINDOW_S) (writes_win e)\<rparr>))
       (\<lambda>_. getM (\<lambda>e. length (writes_win e) < WRITE_WINDOW_MAX))"

text \<open>\<^verbatim>\<open>_write\<close>; the run that asked for the write is passed in and handed back.\<close>

definition put :: "'w platform \<Rightarrow> string \<Rightarrow> string \<Rightarrow> val \<Rightarrow> run option \<Rightarrow> bool \<Rightarrow> bool \<Rightarrow> string \<Rightarrow> ('w, bool \<times> run option) eng" where
  "put p dev cap v r from_ramp force inst =
     (if \<not> ID_RE dev \<or> \<not> CAP_RE cap \<or> (inst \<noteq> [] \<and> \<not> CAP_RE inst) then retM (False, r)
      else bindM (now p) (\<lambda>t. bindM (open_window t) (\<lambda>room.
        if \<not> room \<and> \<not> force then retM (False, set_error ''write cap'' r)
        else bindM (if from_ramp then retM () else cancel (ramp_key dev (state_key cap inst))) (\<lambda>_.
          publish p t force (dev, cap, inst) v r))))"

section \<open>Ramps\<close>

text \<open>A ramp is cut into at most thirty steps.\<close>

definition ramp_steps :: "rat \<Rightarrow> nat" where
  "ramp_steps seconds = nat (max 1 (min 30 \<lfloor>seconds / 2\<rfloor>))"

definition ramp_seconds :: "rat \<Rightarrow> rat" where "ramp_seconds s = max 1 (min 300 s)"

definition snap_ramp :: "target \<Rightarrow> val \<Rightarrow> run \<Rightarrow> run" where
  "snap_ramp key bef r =
     (case r_snapshot r of
        Some sn \<Rightarrow> if map_of sn key = None \<and> length sn < SNAPSHOT_MAX then r\<lparr>r_snapshot := Some (sn @ [(key, bef)])\<rparr> else r
      | None \<Rightarrow> r)"

definition start_ramp :: "'w platform \<Rightarrow> run \<Rightarrow> string \<Rightarrow> string \<Rightarrow> rat \<Rightarrow> rat \<Rightarrow> string \<Rightarrow> ('w, run) eng" where
  "start_ramp p r dev cap to s0 inst =
     (case refusal (p_check p dev cap inst) of
        Some why \<Rightarrow> retM (r\<lparr>r_error := why\<rparr>)
      | None \<Rightarrow>
        let seconds = ramp_seconds s0; skey = state_key cap inst; n = ramp_steps seconds; key = ramp_key dev skey in
        bindM (getM (\<lambda>e. mirror e (dev, skey))) (\<lambda>cur.
        bindM (cancel key) (\<lambda>_.
        bindM (schedule p (seconds / of_nat n) key (P_ramp \<lparr>q_device = dev, q_cap = cap, q_instance = inst,
            q_from = (case as_num (numbers.truncate p) cur of None \<Rightarrow> 0 | Some x \<Rightarrow> x), q_to = to, q_i = 0, q_n = n,
            q_dt = seconds / of_nat n, q_sid = r_sid r\<rparr>)) (\<lambda>_.
        retM (snap_ramp (dev, cap, inst) cur r)))))"

text \<open>The value of a step: whole where it is within a billionth of a whole number, else rounded to two places.\<close>

definition ramp_value :: "'w platform \<Rightarrow> ramp \<Rightarrow> val" where
  "ramp_value p q =
     (let i = q_i q + 1;
          x = (if i \<ge> q_n q then q_to q else q_from q + (q_to q - q_from q) * (of_nat i / of_nat (q_n q)));
          k = round x in
      if \<bar>x - of_int k\<bar> < 1 / 10 ^ 9 then Int_v k else Flt_v (Fin (p_round2 p x)))"

section \<open>A platform for examples\<close>

text \<open>The world is the time, every command is published, nothing is refused and nothing fails.\<close>

definition bench :: "rat platform" where
  "bench = \<lparr>float_of_int = (\<lambda>i. Fin (of_int i)), float_of_str = (\<lambda>_. None), has_converters = True,
     p_now = (\<lambda>w. (w, w)), p_local = (\<lambda>_. (12, 0, 0)), p_sun = (\<lambda>_ _ _. (0, 1)), p_lat = 0, p_lon = 0,
     p_pub = (\<lambda>_ _ _ _ w. (Inr None, w)), p_pub_state = (\<lambda>_ _ _ w. (Inr (), w)), p_check = (\<lambda>_ _ _. None),
     p_save = (\<lambda>w. (Inr (), w)), p_flush = (\<lambda>_ w. w), p_fetch = (\<lambda>_ _ _ w. (Inr None, w)), p_round2 = (\<lambda>x. x),
     p_code = (\<lambda>_ w. ([], w))\<rparr>"

definition bench_engine :: "scenario list \<Rightarrow> rat engine" where
  "bench_engine ss = \<lparr>world = 0, mirror = (\<lambda>_. Null), doc = ss, home = [], heap = [], gen = (\<lambda>_. 0), seq = 0, writes_win = [],
     trig_prev = (\<lambda>_. Null), observed = {}, buttons = [], btn_counters = (\<lambda>_. None), for_s = (\<lambda>_. None), last_tick = [],
     unarmed = {}, tpl_state = (\<lambda>_. None), runs = [], notices = [], sent = []\<rparr>"

end
