(* ===== verification/Rules_Run.thy ===== *)
theory Rules_Run
  imports Rules_Core
begin

text \<open>
  Running scenarios (\<^verbatim>\<open>sa02m_rules/engine.py\<close>): triggers, conditions, the stack of actions with its budgets,
  the home mode, which starts scenarios in turn, ramps and end events.
\<close>

section \<open>Triggers\<close>

datatype event =
    E_boot
  | E_state string string val val bool
  | E_button string string string
  | E_presence string

definition inactive :: "'w engine \<Rightarrow> scenario \<Rightarrow> bool" where
  "inactive e s \<longleftrightarrow> \<not> s_enabled s \<or> s_id s \<in> unarmed e"

definition find_scenario :: "'w engine \<Rightarrow> string \<Rightarrow> scenario option" where
  "find_scenario e sid = find (\<lambda>s. s_id s = sid) (doc e)"

text \<open>One trigger: whether it fires; an edge remembers the value it has seen.\<close>

definition trigger_fires :: "numbers \<Rightarrow> string \<times> nat \<Rightarrow> trigger \<Rightarrow> event \<Rightarrow> 'w engine \<Rightarrow> bool \<times> 'w engine" where
  "trigger_fires n key tr ev e =
     (case (tr, ev) of
        (T_boot, E_boot) \<Rightarrow> (True, e)
      | (T_state d k q thr, E_state dev cap v prv obs) \<Rightarrow>
          if dev \<noteq> d \<or> cap \<noteq> k then (False, e)
          else if q = Changed then (obs, e)
          else if q \<in> set LEVEL_OPS then (cmp_op n v q thr, e)
          else let last = trig_prev e key; e' = e\<lparr>trig_prev := (trig_prev e)(key := v)\<rparr> in
            (last \<noteq> Null \<and> edge_pred n q v thr \<and> \<not> edge_pred n q last thr, e')
      | (T_button d inp g, E_button dev inp' g') \<Rightarrow> (dev = d \<and> (inp = [] \<or> inp' = inp) \<and> g' = g, e)
      | (T_presence x, E_presence y) \<Rightarrow> (y = x, e)
      | _ \<Rightarrow> (False, e))"

fun triggered_from :: "numbers \<Rightarrow> string \<Rightarrow> nat \<Rightarrow> trigger list \<Rightarrow> event \<Rightarrow> 'w engine \<Rightarrow> bool \<times> 'w engine" where
  "triggered_from n sid i [] ev e = (False, e)"
| "triggered_from n sid i (tr # trs) ev e =
     (case trigger_fires n (sid, i) tr ev e of
        (True, e') \<Rightarrow> (True, e')
      | (False, e') \<Rightarrow> triggered_from n sid (Suc i) trs ev e')"

definition triggered :: "'w platform \<Rightarrow> scenario \<Rightarrow> event \<Rightarrow> ('w, bool) eng" where
  "triggered p s ev = (\<lambda>e. case triggered_from (numbers.truncate p) (s_id s) 0 (s_triggers s) ev e of (b, e') \<Rightarrow> (Inr b, e'))"

section \<open>Conditions\<close>

definition cond_item_ok :: "'w platform \<Rightarrow> string \<Rightarrow> nat \<Rightarrow> rat \<Rightarrow> condition \<Rightarrow> ('w, bool) eng" where
  "cond_item_ok p sid ci t c =
     (case c of
        C_preset x \<Rightarrow>
          if x = ''any'' then retM True
          else if x \<in> {''day'', ''night''} then
            (case p_sun p t (p_lat p) (p_lon p) of (rise, sett) \<Rightarrow>
              let day = (rise \<le> t \<and> t \<le> sett) in retM (if x = ''day'' then day else \<not> day))
          else liftM (in_window (p_local p t) ''None'' ''None'')
      | C_window fr to \<Rightarrow> liftM (in_window (p_local p t) fr to)
      | C_days days \<Rightarrow> retM (days = [] \<or> snd (snd (p_local p t)) \<in> set days)
      | C_weekday x \<Rightarrow>
          let wday = snd (snd (p_local p t)) in
          retM (if x = ''workday'' then wday < 5 else if x = ''weekend'' then wday \<ge> 5 else True)
      | C_mode m \<Rightarrow> getM (\<lambda>e. home_mode e = (if m = [] then ''home'' else m))
      | C_state dev key q thr hold \<Rightarrow>
          bindM (getM (\<lambda>e. level (numbers.truncate p) q (mirror e (dev, key)) thr)) (\<lambda>holds.
            if hold = 0 then retM holds
            else if \<not> holds then bindM (modM (\<lambda>e. e\<lparr>for_s := (for_s e)((sid, ci) := None)\<rparr>)) (\<lambda>_. retM False)
            else getM (\<lambda>e. case for_s e (sid, ci) of None \<Rightarrow> False | Some since \<Rightarrow> t - since \<ge> hold)))"

text \<open>Every item is looked at, also when the answer is already known.\<close>

fun cond_items :: "'w platform \<Rightarrow> string \<Rightarrow> nat \<Rightarrow> rat \<Rightarrow> condition list \<Rightarrow> ('w, bool list) eng" where
  "cond_items p sid ci t [] = retM []"
| "cond_items p sid ci t (c # cs) =
     bindM (cond_item_ok p sid ci t c) (\<lambda>b. bindM (cond_items p sid (Suc ci) t cs) (\<lambda>bs. retM (b # bs)))"

definition conditions_ok :: "'w platform \<Rightarrow> scenario \<Rightarrow> ('w, bool) eng" where
  "conditions_ok p s =
     (if s_conditions s = [] then retM True
      else bindM (now p) (\<lambda>t. bindM (cond_items p (s_id s) 0 t (s_conditions s)) (\<lambda>hits.
        retM (if s_any s then list_ex (\<lambda>b. b) hits else list_all (\<lambda>b. b) hits))))"

section \<open>Actions\<close>

datatype outcome = Go_on | Pushed frame | Abort

definition fail_run :: "string \<Rightarrow> run \<Rightarrow> outcome \<times> run" where
  "fail_run why r = (Abort, r\<lparr>r_error := why\<rparr>)"

text \<open>\<^verbatim>\<open>scenario\<close> and \<^verbatim>\<open>scene\<close>; \<open>depth\<close> is the number of frames under the one that asks.\<close>

definition call_child :: "bool \<Rightarrow> string \<Rightarrow> nat \<Rightarrow> run \<Rightarrow> 'w engine \<Rightarrow> outcome \<times> run" where
  "call_child scene cid depth r e =
     (if depth \<ge> MAX_DEPTH then fail_run ''depth'' r
      else case find_scenario e cid of
        None \<Rightarrow> fail_run ''child missing'' r
      | Some child \<Rightarrow>
          if s_id child \<in> set (r_chain r) then fail_run ''loop'' r
          else if scene \<and> s_kind child \<noteq> Scene_kind then fail_run ''not a scene'' r
          else if s_kind child \<in> {Logic, Code} then fail_run ''bad child'' r
          else if inactive e child then (Go_on, r)
          else (Pushed (child, s_actions child), r\<lparr>r_chain := r_chain r @ [s_id child]\<rparr>))"

text \<open>A direct write or a ramp, within the budget of the run.\<close>

definition charged :: "run \<Rightarrow> ('w, run) eng \<Rightarrow> ('w, outcome \<times> run) eng" where
  "charged r m =
     (if r_writes r \<ge> MAX_WRITES then retM (fail_run ''write cap'' r)
      else bindM m (\<lambda>r'. retM (Go_on, r'\<lparr>r_writes := r_writes r' + 1\<rparr>)))"

definition write_for :: "'w platform \<Rightarrow> string \<Rightarrow> string \<Rightarrow> val \<Rightarrow> string \<Rightarrow> run \<Rightarrow> ('w, run) eng" where
  "write_for p dev cap v inst r =
     bindM (put p dev cap v (Some r) False False inst) (\<lambda>(_, r'). retM (case r' of None \<Rightarrow> r | Some x \<Rightarrow> x))"

definition http_call :: "'w platform \<Rightarrow> string \<Rightarrow> string \<Rightarrow> string option \<Rightarrow> run \<Rightarrow> ('w, outcome \<times> run) eng" where
  "http_call p method url body r =
     (if take 4 url \<noteq> ''http'' then retM (Go_on, r)
      else if r_http r \<ge> HTTP_PER_RUN_MAX then retM (fail_run ''http err http cap'' r)
      else let r' = r\<lparr>r_http := r_http r + 1\<rparr> in
        bindM (call (p_fetch p method url body)) (\<lambda>refused.
          case refused of Some why \<Rightarrow> retM (fail_run (''http err '' @ why) r') | None \<Rightarrow> retM (Go_on, r')))"

definition do_action ::
    "'w platform \<Rightarrow> (string \<Rightarrow> ('w, unit) eng) \<Rightarrow> nat \<Rightarrow> run \<Rightarrow> action \<Rightarrow> ('w, outcome \<times> run) eng" where
  "do_action p set_home depth r act =
     (case act of
        Set_value dev cap inst v transition \<Rightarrow>
          charged r (case as_num (numbers.truncate p) v of
              Some x \<Rightarrow> if transition > 0 then start_ramp p r dev cap x transition inst else write_for p dev cap v inst r
            | None \<Rightarrow> write_for p dev cap v inst r)
      | Toggle dev cap inst \<Rightarrow>
          charged r (bindM (getM (\<lambda>e. truthy (numbers.truncate p) (mirror e (dev, state_key cap inst)))) (\<lambda>on.
            write_for p dev cap (if cap_short cap = ''toggle'' then Bool_v (\<not> on) else Int_v (if on then 0 else 1)) inst r))
      | Ramp dev cap inst to seconds \<Rightarrow> charged r (start_ramp p r dev cap to seconds inst)
      | Set_mode m \<Rightarrow> bindM (set_home m) (\<lambda>_. retM (Go_on, r))
      | Notify text \<Rightarrow> bindM (notify p text) (\<lambda>_. retM (Go_on, r))
      | Http method url body \<Rightarrow> http_call p method url body r
      | Scenario cid \<Rightarrow> getM (call_child False cid depth r)
      | Scene cid \<Rightarrow> getM (call_child True cid depth r)
      | Delay _ \<Rightarrow> retM (Go_on, r))"

section \<open>Runs\<close>

definition finish :: "'w platform \<Rightarrow> run \<Rightarrow> scenario \<Rightarrow> string \<Rightarrow> ('w, unit) eng" where
  "finish p r s err =
     bindM (now p) (\<lambda>t.
     bindM (journal p \<lparr>rec_ts = t, rec_id = r_sid r, rec_error = err, rec_source = r_source r\<rparr>) (\<lambda>_.
       case s_end s of
         None \<Rightarrow> retM ()
       | Some (after, restore) \<Rightarrow>
           bindM (schedule p after (r_sid r @ '':end'') (P_end (r_sid r) restore (r_turned_on r) (r_snapshot r))) (\<lambda>_.
             publish_tpl_state p (r_sid r) ''end_after_s'' (Int_v \<lfloor>after\<rfloor>))))"

text \<open>\<^verbatim>\<open>_exec\<close>: the stack of frames, its top first.  The first argument bounds the turns of the loop; \<open>exec_turns\<close>
  below shows that the bound given is enough.  A delay puts the rest of the stack on the timers.\<close>

fun exec_loop ::
    "nat \<Rightarrow> 'w platform \<Rightarrow> (string \<Rightarrow> ('w, unit) eng) \<Rightarrow> rat \<Rightarrow> run \<Rightarrow> frame list \<Rightarrow> ('w, run option) eng" where
  "exec_loop turns p set_home seg r [] = retM (Some r)"
| "exec_loop 0 p set_home seg r (f # fs) = raiseM (OutOfModel ''turns'')"
| "exec_loop (Suc turns) p set_home seg r ((s, []) # fs) = exec_loop turns p set_home seg r fs"
| "exec_loop (Suc turns) p set_home seg r ((s, a # as) # fs) =
     bindM (now p) (\<lambda>t.
       if r_spent r + (t - seg) > RUN_S then retM (Some (r\<lparr>r_error := ''timeout''\<rparr>))
       else if r_actions r \<ge> MAX_ACTIONS then retM (Some (r\<lparr>r_error := ''action cap''\<rparr>))
       else let r' = r\<lparr>r_actions := r_actions r + 1\<rparr> in
         case a of
           Delay seconds \<Rightarrow>
             bindM (now p) (\<lambda>t'. let r'' = r'\<lparr>r_spent := r_spent r' + (t' - seg)\<rparr> in
             bindM (schedule p seconds (r_sid r @ '':cont'') (P_cont r'' ((s, as) # fs))) (\<lambda>_. retM None))
         | _ \<Rightarrow>
             bindM (do_action p set_home (length fs) r' a) (\<lambda>(out, r'').
               case out of
                 Abort \<Rightarrow> retM (Some r'')
               | Pushed f \<Rightarrow> exec_loop turns p set_home seg r'' (f # (s, as) # fs)
               | Go_on \<Rightarrow> exec_loop turns p set_home seg r'' ((s, as) # fs)))"

definition EXEC_TURNS :: nat where "EXEC_TURNS = 64"

definition exec :: "'w platform \<Rightarrow> (string \<Rightarrow> ('w, unit) eng) \<Rightarrow> run \<Rightarrow> scenario \<Rightarrow> frame list \<Rightarrow> ('w, unit) eng" where
  "exec p set_home r s fs =
     bindM (now p) (\<lambda>seg. bindM (exec_loop EXEC_TURNS p set_home seg r fs) (\<lambda>out.
       case out of
         None \<Rightarrow> retM ()
       | Some r' \<Rightarrow> bindM (now p) (\<lambda>t.
           finish p (r'\<lparr>r_spent := r_spent r' + (t - seg)\<rparr>) (case r_root r' of None \<Rightarrow> s | Some x \<Rightarrow> x) (r_error r'))))"

definition run_scenario :: "'w platform \<Rightarrow> (string \<Rightarrow> ('w, unit) eng) \<Rightarrow> scenario \<Rightarrow> string \<Rightarrow> ('w, unit) eng" where
  "run_scenario p set_home s source =
     (let sid = s_id s; r0 = new_run sid source (Some s);
          r = (case s_end s of Some (_, True) \<Rightarrow> r0\<lparr>r_snapshot := Some []\<rparr> | _ \<Rightarrow> r0) in
      bindM (cancel (sid @ '':cont'')) (\<lambda>_.
      bindM (cancel (sid @ '':end'')) (\<lambda>_.
      bindM (if s_end s = None then retM () else publish_tpl_state p sid ''end_after_s'' (Int_v 0)) (\<lambda>_.
        case s_kind s of
          Code \<Rightarrow>
            bindM (now p) (\<lambda>started.
            bindM (now p) (\<lambda>_.
            bindM (call (\<lambda>w. case p_code p sid w of (err, w') \<Rightarrow> (Inr err, w'))) (\<lambda>err.
            bindM (now p) (\<lambda>t. finish p (r\<lparr>r_spent := r_spent r + (t - started)\<rparr>) s err))))
        | Logic \<Rightarrow>
            bindM (now p) (\<lambda>t. journal p \<lparr>rec_ts = t, rec_id = sid, rec_error = ''logic runs by itself'', rec_source = source\<rparr>)
        | _ \<Rightarrow> bindM (exec p set_home r s [(s, s_actions s)]) (\<lambda>_. bindM (now p) (\<lambda>_. retM ()))))))"

fun dispatch_to :: "'w platform \<Rightarrow> (string \<Rightarrow> ('w, unit) eng) \<Rightarrow> event \<Rightarrow> scenario list \<Rightarrow> ('w, unit) eng" where
  "dispatch_to p set_home ev [] = retM ()"
| "dispatch_to p set_home ev (s # ss) =
     bindM (getM (\<lambda>e. inactive e s)) (\<lambda>off.
       if off \<or> s_kind s = Logic then dispatch_to p set_home ev ss
       else bindM (triggered p s ev) (\<lambda>hit.
         if \<not> hit then dispatch_to p set_home ev ss
         else bindM (conditions_ok p s) (\<lambda>ok.
           if \<not> ok then dispatch_to p set_home ev ss
           else bindM (run_scenario p set_home s ''scenario'') (\<lambda>_. dispatch_to p set_home ev ss))))"

definition dispatch :: "'w platform \<Rightarrow> (string \<Rightarrow> ('w, unit) eng) \<Rightarrow> event \<Rightarrow> ('w, unit) eng" where
  "dispatch p set_home ev = bindM (getM doc) (dispatch_to p set_home ev)"

section \<open>Home mode\<close>

definition presence_event :: "string \<Rightarrow> string \<Rightarrow> string option" where
  "presence_event old mode =
     (if mode \<in> {''away'', ''holiday''} \<and> old \<notin> {''away'', ''holiday''} then Some ''leave''
      else if mode = ''home'' \<and> old \<in> {''away'', ''holiday''} then Some ''arrive'' else None)"

text \<open>The scenarios that wait for the event run before the change is over, and may change the mode again: \<open>depth\<close> is
  how many such changes fit on the stack of the interpreter.\<close>

primrec set_home_mode :: "nat \<Rightarrow> 'w platform \<Rightarrow> string \<Rightarrow> ('w, unit) eng" where
  "set_home_mode 0 p mode = raiseM RecursionError"
| "set_home_mode (Suc depth) p mode =
     (if mode \<notin> set HOME_MODES then retM ()
      else bindM (getM home_mode) (\<lambda>old.
        if mode = old then retM ()
        else bindM (modM (\<lambda>e. e\<lparr>home := mode\<rparr>)) (\<lambda>_.
          bindM (call (p_save p)) (\<lambda>_.
          case presence_event old mode of
            None \<Rightarrow> retM ()
          | Some ev \<Rightarrow> dispatch p (set_home_mode depth p) (E_presence ev)))))"

section \<open>Ramps and end events\<close>

definition ramp_refused :: "'w platform \<Rightarrow> string \<Rightarrow> string \<Rightarrow> ('w, unit) eng" where
  "ramp_refused p sid why =
     bindM (now p) (\<lambda>t. journal p \<lparr>rec_ts = t, rec_id = sid, rec_error = ''ramp refused: '' @ why, rec_source = ''ramp''\<rparr>)"

definition ramp_step :: "'w platform \<Rightarrow> string \<Rightarrow> ramp \<Rightarrow> rat \<Rightarrow> ('w, unit) eng" where
  "ramp_step p key q due =
     (let q' = q\<lparr>q_i := q_i q + 1\<rparr>; probe = new_run (q_sid q) ''ramp'' None in
      bindM (put p (q_device q) (q_cap q) (ramp_value p q) (Some probe) True False (q_instance q)) (\<lambda>(written, r).
        let err = (case r of None \<Rightarrow> [] | Some x \<Rightarrow> r_error x) in
        if \<not> written \<and> err \<noteq> [] \<and> err \<noteq> ''write cap'' then ramp_refused p (q_sid q) err
        else if q_i q' < q_n q then schedule_at (due + q_dt q) key (P_ramp q') else retM ()))"

fun end_writes :: "'w platform \<Rightarrow> (target \<times> val) list \<Rightarrow> ('w, bool) eng" where
  "end_writes p [] = retM False"
| "end_writes p (((dev, cap, inst), v) # ks) =
     bindM (put p dev cap v None False True inst) (\<lambda>(written, _).
     bindM (end_writes p ks) (\<lambda>refused. retM (\<not> written \<or> refused)))"

definition end_fire :: "'w platform \<Rightarrow> string \<Rightarrow> bool \<Rightarrow> target list \<Rightarrow> (target \<times> val) list option \<Rightarrow> ('w, unit) eng" where
  "end_fire p sid restore turned_on snapshot =
     bindM (publish_tpl_state p sid ''end_after_s'' (Int_v 0)) (\<lambda>_.
     bindM (end_writes p (if restore then filter (\<lambda>(k, v). v \<noteq> Null) (case snapshot of None \<Rightarrow> [] | Some sn \<Rightarrow> sn)
         else map (\<lambda>k. (k, Int_v 0)) turned_on)) (\<lambda>refused.
       if \<not> refused then retM ()
       else bindM (now p) (\<lambda>t. journal p \<lparr>rec_ts = t, rec_id = sid, rec_error = ''end write refused'', rec_source = ''end''\<rparr>)))"

end
