(* ===== verification/Rules_Inv.thy ===== *)
theory Rules_Inv
  imports Rules_Run
begin

text \<open>
  What the whole engine keeps if a write and the calls of the platform keep it, and the window of recent writes.
\<close>

section \<open>Invariants of the world and the writes\<close>

lemma set_heappush: "set (heappush t us) = insert t (set us)"
  by (induction us) auto

definition same_writes :: "'w engine \<Rightarrow> 'w engine \<Rightarrow> bool" where
  "same_writes e e' \<longleftrightarrow> world e' = world e \<and> writes_win e' = writes_win e \<and> sent e' = sent e"

text \<open>Neither the world, nor the writes, nor the timers changed.\<close>

definition same_core :: "'w engine \<Rightarrow> 'w engine \<Rightarrow> bool" where
  "same_core e e' \<longleftrightarrow> same_writes e e' \<and> heap e' = heap e \<and> gen e' = gen e \<and> seq e' = seq e"

locale engine_inv =
  fixes p :: "'w platform" and I :: "'w engine \<Rightarrow> bool"
  assumes quiet: "I e \<Longrightarrow> same_core e e' \<Longrightarrow> I e'"
    and popped: "I e \<Longrightarrow> heap e = u # us \<Longrightarrow> I (e\<lparr>heap := us\<rparr>)"
    and kept_schedule_at: "keeps I (schedule_at due key pl)"
    and kept_cancel: "keeps I (cancel key)"
    and kept_cancel_scenario: "keeps I (cancel_scenario sid)"
    and kept_now: "keeps I (now p)"
    and kept_pub_state: "keeps I (call (p_pub_state p d c v))"
    and kept_save: "keeps I (call (p_save p))"
    and kept_flush: "keeps I (flush_if_due p)" "keeps I (flush_runs p)"
    and kept_fetch: "keeps I (call (p_fetch p method url body))"
    and kept_code: "keeps I (call (\<lambda>w. case p_code p sid w of (a, w') \<Rightarrow> (Inr a, w')))"
    and kept_put: "keeps I (put p dev cap v r from_ramp force inst)"
begin

lemma kept_mod: "(\<And>e. same_core e (f e)) \<Longrightarrow> keeps I (modM f)"
  by (rule keeps_mod) (blast intro: quiet)

lemma kept_timers: "keeps I (schedule_at due key pl)" "keeps I (cancel key)" "keeps I (cancel_scenario sid)"
  "keeps I (schedule p d key pl)"
  unfolding schedule_def by (intro keeps_bind kept_now kept_schedule_at kept_cancel kept_cancel_scenario)+

lemma kept_status: "keeps I (publish_tpl_state p sid c v)"
  unfolding publish_tpl_state_def
  by (intro keeps_bind keeps_if keeps_basic kept_mod kept_pub_state) (simp add: same_core_def same_writes_def)

lemma kept_journal: "keeps I (journal p r)" "keeps I (notify p s)"
  unfolding journal_def notify_def append_run_def
  by (intro keeps_bind kept_flush kept_mod; simp add: same_core_def same_writes_def)+

lemmas kept_parts = kept_timers kept_status kept_journal kept_now kept_put keeps_basic

lemma kept_ramp: "keeps I (start_ramp p r dev cap to s inst)"
  unfolding start_ramp_def Let_def by (intro keeps_case_option keeps_bind kept_parts)

lemma kept_write_for: "keeps I (write_for p dev cap v inst r)"
  unfolding write_for_def by (intro keeps_bind keeps_case_prod kept_parts)

lemma kept_charged: "keeps I m \<Longrightarrow> keeps I (charged r m)"
  unfolding charged_def by (intro keeps_if keeps_bind kept_parts)

lemma kept_http: "keeps I (http_call p method url body r)"
  unfolding http_call_def Let_def by (intro keeps_if keeps_bind kept_fetch keeps_case_option kept_parts)

lemma kept_action: "(\<And>m. keeps I (h m)) \<Longrightarrow> keeps I (do_action p h depth r a)"
  unfolding do_action_def
  by (cases a) (auto intro!: keeps_rules kept_parts kept_ramp kept_write_for kept_charged kept_http split: option.split)

lemma kept_finish: "keeps I (finish p r s err)"
  unfolding finish_def by (intro keeps_bind keeps_case_option keeps_case_prod kept_parts)

lemma kept_loop:
  assumes h: "\<And>m. keeps I (h m)"
  shows "keeps I (exec_loop turns p h seg r fs)"
proof (induction turns arbitrary: r fs)
  case 0
  show ?case by (cases fs) (simp_all del: effect_run)
next
  case (Suc n)
  have act: "keeps I (bindM (do_action p h d r' a) (\<lambda>(out, r''). case out of Abort \<Rightarrow> retM (Some r'')
      | Pushed f \<Rightarrow> exec_loop n p h seg r'' (f # (s, as) # fs') | Go_on \<Rightarrow> exec_loop n p h seg r'' ((s, as) # fs')))"
    for d r' a s as fs'
    by (intro keeps_bind keeps_case_prod kept_action h) (auto split: outcome.split intro: Suc)
  show ?case
  proof (cases fs)
    case (Cons f fs')
    then show ?thesis
    proof (cases "snd f")
      case Nil
      with Cons show ?thesis by (cases f) (simp add: Suc)
    next
      case (Cons a as)
      have "keeps I (exec_loop (Suc n) p h seg r ((fst f, a # as) # fs'))"
        unfolding exec_loop.simps Let_def
        by (cases a; simp only: action.case;
            intro keeps_bind [OF kept_now] keeps_bind [OF kept_timers(4)] keeps_if keeps_basic act)
      with Cons \<open>fs = f # fs'\<close> show ?thesis by (cases f) simp
    qed
  qed (simp del: effect_run)
qed

lemma kept_exec: "(\<And>m. keeps I (h m)) \<Longrightarrow> keeps I (exec p h r s fs)"
  unfolding exec_def by (intro keeps_bind keeps_case_option kept_loop kept_finish kept_parts)

lemma kept_run: "(\<And>m. keeps I (h m)) \<Longrightarrow> keeps I (run_scenario p h s src)"
  unfolding run_scenario_def Let_def
  by (auto intro!: keeps_bind keeps_if kept_parts kept_exec kept_finish kept_code split: scenario_kind.split)

lemma same_core_trans: "same_core a b \<Longrightarrow> same_core b c \<Longrightarrow> same_core a c"
  by (simp add: same_core_def same_writes_def)

lemma triggered_quiet: "same_core e (snd (triggered_from n sid i trs ev e))"
proof (induction n sid i trs ev e rule: triggered_from.induct)
  case (2 n sid i tr trs ev e)
  have *: "same_core e (snd (trigger_fires n (sid, i) tr ev e))"
    by (auto simp: trigger_fires_def same_core_def same_writes_def Let_def split: trigger.split event.split)
  show ?case
  proof (cases "trigger_fires n (sid, i) tr ev e")
    case (Pair b e')
    then show ?thesis
      using * 2 [OF Pair [symmetric]] by (cases b) (auto intro: same_core_trans)
  qed
qed (simp add: same_core_def same_writes_def)

lemma kept_triggered: "keeps I (triggered p s ev)"
proof (rule keepsI)
  fix e r e' assume "I e" and "triggered p s ev e = (r, e')"
  then show "I e'"
    using quiet [OF _ triggered_quiet [of e "numbers.truncate p" "s_id s" 0 "s_triggers s" ev]]
    by (simp add: triggered_def split: prod.splits)
qed

lemma kept_condition: "keeps I (cond_item_ok p sid ci t c)"
  unfolding cond_item_ok_def
  by (cases c) (auto intro!: keeps_bind keeps_if keeps_case_prod keeps_basic kept_mod simp: same_core_def same_writes_def Let_def
      simp del: effect_run bindM_simps)

lemma kept_conditions: "keeps I (conditions_ok p s)"
proof -
  have "keeps I (cond_items p sid ci t cs)" for sid ci t cs
    by (induction cs arbitrary: ci) (auto intro!: keeps_bind kept_condition simp del: effect_run bindM_simps)
  then show ?thesis unfolding conditions_ok_def by (intro keeps_if keeps_bind kept_parts)
qed

lemma kept_dispatch: "(\<And>m. keeps I (h m)) \<Longrightarrow> keeps I (dispatch p h ev)"
proof -
  assume h: "\<And>m. keeps I (h m)"
  have "keeps I (dispatch_to p h ev ss)" for ss
    by (induction ss) (auto intro!: keeps_bind keeps_if kept_triggered kept_conditions kept_run h simp del: effect_run bindM_simps)
  then show ?thesis unfolding dispatch_def by (intro keeps_bind keeps_basic)
qed

lemma kept_home: "keeps I (set_home_mode d p m)"
proof (induction d arbitrary: m)
  case (Suc d)
  then show ?case
    by (auto intro!: keeps_bind keeps_if keeps_case_option kept_save kept_dispatch kept_mod simp: same_core_def same_writes_def
        simp del: effect_run bindM_simps)
qed (simp del: effect_run)

lemma kept_ramp_step: "keeps I (ramp_step p key q due)"
  unfolding ramp_step_def ramp_refused_def Let_def by (intro keeps_bind keeps_case_prod keeps_if kept_parts)

lemma kept_end_fire: "keeps I (end_fire p sid b ks sn)"
proof -
  have "keeps I (end_writes p ws)" for ws
  proof (induction ws)
    case (Cons w ws)
    then show ?case
      by (cases w) (auto intro!: keeps_bind keeps_case_prod kept_parts simp del: effect_run bindM_simps split: prod.split)
  qed (simp del: effect_run)
  then show ?thesis unfolding end_fire_def by (intro keeps_bind keeps_if kept_parts)
qed

end

section \<open>The window of recent writes\<close>

text \<open>Whatever happens, the window is the end of the list of all writes.\<close>

lemma put_window:
  "keeps (\<lambda>e. \<exists>old. map fst (sent e) = old @ writes_win e) (put p dev cap v r from_ramp force inst)"
proof (rule keepsI)
  fix e x e'
  assume old: "\<exists>old. map fst (sent e) = old @ writes_win e" and run: "put p dev cap v r from_ramp force inst e = (x, e')"
  obtain d where d: "map fst (sent e) = d @ writes_win e" using old by blast
  have "\<exists>old. map fst (sent e) = old @ dropWhile P (writes_win e)" for P
    using d by (metis append_assoc takeWhile_dropWhile_id)
  with d run show "\<exists>old. map fst (sent e') = old @ writes_win e'"
    by (auto simp: put_def now_def call_def bindM_def open_window_def cancel_def publish_def refusal_def modM_def getM_def
        retM_def Let_def split: if_splits prod.splits sum.splits option.splits)
qed

interpretation window: engine_inv p "\<lambda>e. \<exists>old. map fst (sent e) = old @ writes_win e" for p :: "'w platform"
  by unfold_locales (auto simp: same_core_def same_writes_def keeps_def now_def call_def flush_if_due_def flush_runs_def
      schedule_at_def cancel_def cancel_scenario_def Let_def split: prod.splits
      intro: put_window [unfolded keeps_def, rule_format])

section \<open>A clock that does not go back\<close>

text \<open>\<open>tm\<close> is the time in the world: a reading of the clock is between the times before and after it, and nothing the
  engine calls turns time back.\<close>

definition steady :: "'w platform \<Rightarrow> ('w \<Rightarrow> rat) \<Rightarrow> bool" where
  "steady p tm \<longleftrightarrow>
     (\<forall>w. tm w \<le> fst (p_now p w) \<and> fst (p_now p w) \<le> tm (snd (p_now p w))) \<and>
     (\<forall>d c i v w. tm w \<le> tm (snd (p_pub p d c i v w))) \<and> (\<forall>d c v w. tm w \<le> tm (snd (p_pub_state p d c v w))) \<and>
     (\<forall>w. tm w \<le> tm (snd (p_save p w))) \<and> (\<forall>b w. tm w \<le> tm (p_flush p b w)) \<and>
     (\<forall>m u b w. tm w \<le> tm (snd (p_fetch p m u b w))) \<and> (\<forall>s w. tm w \<le> tm (snd (p_code p s w)))"

text \<open>A write that may not go past the window had at most seven in the ten seconds before it.\<close>

fun limited_from :: "(rat \<times> bool) list \<Rightarrow> (rat \<times> bool) list \<Rightarrow> bool" where
  "limited_from ys [] \<longleftrightarrow> True"
| "limited_from ys ((t, f) # xs) \<longleftrightarrow>
     (\<not> f \<longrightarrow> length (filter (\<lambda>u. t - fst u \<le> WRITE_WINDOW_S) ys) < WRITE_WINDOW_MAX) \<and> limited_from (ys @ [(t, f)]) xs"

definition limited :: "(rat \<times> bool) list \<Rightarrow> bool" where "limited = limited_from []"

lemma limited_snoc:
  "limited (xs @ [(t, f)]) \<longleftrightarrow> limited xs \<and> (\<not> f \<longrightarrow> length (filter (\<lambda>u. t - fst u \<le> WRITE_WINDOW_S) xs) < WRITE_WINDOW_MAX)"
proof -
  have "limited_from ys (xs @ [(t, f)]) \<longleftrightarrow>
      limited_from ys xs \<and> (\<not> f \<longrightarrow> length (filter (\<lambda>u. t - fst u \<le> WRITE_WINDOW_S) (ys @ xs)) < WRITE_WINDOW_MAX)" for ys
  proof (induction xs arbitrary: ys)
    case (Cons x xs)
    obtain t' f' where "x = (t', f')" by force
    then show ?case by (simp only: append_Cons limited_from.simps Cons.IH append_assoc append_Nil conj_assoc)
  qed simp
  then show ?thesis by (simp only: limited_def append_Nil)
qed

lemma limited_Nil: "limited []" by (simp add: limited_def)

definition rate_ok :: "rat \<Rightarrow> (rat \<times> bool) list \<Rightarrow> rat list \<Rightarrow> bool" where
  "rate_ok t xs win \<longleftrightarrow> (\<forall>u\<in>set xs. fst u \<le> t) \<and> sorted (map fst xs) \<and> limited xs \<and>
     (\<exists>old. map fst xs = old @ win \<and> (\<forall>u\<in>set old. t - u > WRITE_WINDOW_S))"

definition rate_inv :: "('w \<Rightarrow> rat) \<Rightarrow> 'w engine \<Rightarrow> bool" where
  "rate_inv tm e \<longleftrightarrow> rate_ok (tm (world e)) (sent e) (writes_win e)"

lemma rate_inv_later:
  assumes "rate_inv tm e" and "tm (world e) \<le> tm w"
  shows "rate_inv tm (e\<lparr>world := w\<rparr>)"
proof -
  obtain old where old: "map fst (sent e) = old @ writes_win e" "\<And>t. t \<in> set old \<Longrightarrow> tm (world e) - t > WRITE_WINDOW_S"
    using assms(1) by (auto simp: rate_inv_def rate_ok_def)
  have "tm w - t > WRITE_WINDOW_S" if "t \<in> set old" for t using old(2) [OF that] assms(2) by linarith
  with old(1) assms show ?thesis by (fastforce simp: rate_inv_def rate_ok_def)
qed

lemma rate_call:
  assumes "\<And>w. tm w \<le> tm (snd (f w))"
  shows "keeps (rate_inv tm) (call f)"
proof (rule keepsI)
  fix e r e' assume inv: "rate_inv tm e" and "call f e = (r, e')"
  then have "e' = e\<lparr>world := snd (f (world e))\<rparr>" by (auto simp: call_def split: prod.splits)
  with rate_inv_later [OF inv assms] show "rate_inv tm e'" by simp
qed

text \<open>The writes still in the window are those of the last ten seconds.\<close>

lemma window_is_recent:
  assumes inv: "rate_inv tm e" and t: "tm (world e) \<le> t"
  shows "length (dropWhile (\<lambda>u. t - u > WRITE_WINDOW_S) (writes_win e)) = length (filter (\<lambda>u. t - fst u \<le> WRITE_WINDOW_S) (sent e))"
    and "\<exists>old. map fst (sent e) = old @ dropWhile (\<lambda>u. t - u > WRITE_WINDOW_S) (writes_win e) \<and> (\<forall>u\<in>set old. t - u > WRITE_WINDOW_S)"
proof -
  obtain old where old: "map fst (sent e) = old @ writes_win e" "\<And>u. u \<in> set old \<Longrightarrow> tm (world e) - u > WRITE_WINDOW_S"
    using inv by (auto simp: rate_inv_def rate_ok_def)
  let ?P = "\<lambda>u. t - u > WRITE_WINDOW_S"
  let ?gone = "takeWhile ?P (writes_win e)" and ?rest = "dropWhile ?P (writes_win e)"
  have eq: "map fst (sent e) = (old @ ?gone) @ ?rest" using old(1) by simp
  have gone: "\<forall>u\<in>set (old @ ?gone). ?P u"
    using old(2) t by (auto dest: set_takeWhileD) (meson diff_right_mono less_le_trans)
  have "sorted (map fst (sent e))" using inv by (simp add: rate_inv_def rate_ok_def)
  then have sorted: "sorted ?rest" unfolding eq by (simp add: sorted_append)
  have rest: "\<forall>u\<in>set ?rest. \<not> ?P u"
  proof (cases ?rest)
    case (Cons u us)
    then have "\<not> ?P u" using hd_dropWhile [of ?P "writes_win e"] by auto
    with sorted Cons show ?thesis by auto
  next
    case Nil
    show ?thesis unfolding Nil by simp
  qed
  have "length (filter (\<lambda>u. t - fst u \<le> WRITE_WINDOW_S) (sent e)) = length (filter (\<lambda>u. \<not> ?P u) (map fst (sent e)))"
    by (simp add: filter_map o_def not_less)
  also have "filter (\<lambda>u. \<not> ?P u) (map fst (sent e)) = filter (\<lambda>u. \<not> ?P u) (old @ ?gone) @ filter (\<lambda>u. \<not> ?P u) ?rest"
    by (simp only: eq filter_append)
  also have "filter (\<lambda>u. \<not> ?P u) (old @ ?gone) = []"
    by (rule filter_False) (use gone in blast)
  also have "filter (\<lambda>u. \<not> ?P u) ?rest = ?rest"
    by (rule filter_True) (rule rest)
  finally show "length ?rest = length (filter (\<lambda>u. t - fst u \<le> WRITE_WINDOW_S) (sent e))" by simp
  show "\<exists>old. map fst (sent e) = old @ ?rest \<and> (\<forall>u\<in>set old. ?P u)"
    by (intro exI [of _ "old @ ?gone"]) (use eq gone in simp)
qed

text \<open>Between the reading of the clock and the write.\<close>

definition rate_at :: "('w \<Rightarrow> rat) \<Rightarrow> rat \<Rightarrow> 'w engine \<Rightarrow> bool" where
  "rate_at tm t e \<longleftrightarrow> (\<forall>u\<in>set (sent e). fst u \<le> t) \<and> sorted (map fst (sent e)) \<and> limited (sent e) \<and> t \<le> tm (world e) \<and>
     (\<exists>old. map fst (sent e) = old @ writes_win e \<and> (\<forall>u\<in>set old. t - u > WRITE_WINDOW_S)) \<and>
     length (writes_win e) = length (filter (\<lambda>u. t - fst u \<le> WRITE_WINDOW_S) (sent e))"

lemma rate_at_inv:
  assumes "rate_at tm t e"
  shows "rate_inv tm e"
proof -
  obtain old where old: "map fst (sent e) = old @ writes_win e" "\<forall>u\<in>set old. t - u > WRITE_WINDOW_S" and le: "t \<le> tm (world e)"
    using assms by (auto simp: rate_at_def)
  have "tm (world e) - u > WRITE_WINDOW_S" if "u \<in> set old" for u using bspec [OF old(2) that] le by linarith
  moreover have "fst u \<le> tm (world e)" if "u \<in> set (sent e)" for u
    using assms le that by (auto simp: rate_at_def intro: order_trans)
  ultimately show ?thesis using assms old(1) by (auto simp: rate_at_def rate_inv_def rate_ok_def)
qed

lemma rate_at_push:
  assumes "rate_at tm t e" and "f \<or> length (writes_win e) < WRITE_WINDOW_MAX"
  shows "rate_inv tm (e\<lparr>writes_win := writes_win e @ [t], sent := sent e @ [(t, f)], mirror := m\<rparr>)"
proof -
  obtain old where old: "map fst (sent e) = old @ writes_win e" "\<forall>u\<in>set old. t - u > WRITE_WINDOW_S"
    using assms(1) by (auto simp: rate_at_def)
  have "tm (world e) - u > WRITE_WINDOW_S" if "u \<in> set old" for u
    using bspec [OF old(2) that] assms(1) by (auto simp: rate_at_def)
  moreover have "limited (sent e @ [(t, f)])"
    using assms by (auto simp: limited_snoc rate_at_def)
  moreover have "map fst (sent e @ [(t, f)]) = old @ (writes_win e @ [t])" using old(1) by simp
  moreover have "sorted (map fst (sent e @ [(t, f)]))" "\<forall>u\<in>set (sent e @ [(t, f)]). fst u \<le> tm (world e)"
    using assms(1) by (auto simp: rate_at_def sorted_append intro: order_trans)
  ultimately have "rate_ok (tm (world e)) (sent e @ [(t, f)]) (writes_win e @ [t])" unfolding rate_ok_def by blast
  then show ?thesis by (simp add: rate_inv_def)
qed

lemma put_run:
  fixes e :: "'w engine"
  assumes names: "ID_RE dev" "CAP_RE cap" "inst \<noteq> [] \<Longrightarrow> CAP_RE inst" and t: "p_now p (world e) = (t, w)"
    and win: "win = dropWhile (\<lambda>u. t - u > WRITE_WINDOW_S) (writes_win e)" and e1: "e1 = e\<lparr>world := w, writes_win := win\<rparr>"
    and g: "g = (if from_ramp then gen e else (gen e)(ramp_key dev (state_key cap inst) := gen e (ramp_key dev (state_key cap inst)) + 1))"
  shows "put p dev cap v r from_ramp force inst e =
    (if \<not> length win < WRITE_WINDOW_MAX \<and> \<not> force then (Inr (False, set_error ''write cap'' r), e1)
     else case p_pub p dev cap inst v w of
       (Inl x, w') \<Rightarrow> (Inl x, e1\<lparr>gen := g, world := w'\<rparr>)
     | (Inr ans, w') \<Rightarrow> (case refusal ans of
         Some why \<Rightarrow> (Inr (False, set_error why r), e1\<lparr>gen := g, world := w'\<rparr>)
       | None \<Rightarrow> (Inr (True, map_option (note_write (numbers.truncate p) (dev, cap, inst) (mirror e (dev, state_key cap inst)) v) r),
           e1\<lparr>gen := g, world := w', writes_win := win @ [t], sent := sent e @ [(t, force)],
             mirror := (mirror e)((dev, state_key cap inst) := v)\<rparr>)))"
proof -
  have fields: "world e1 = w" "writes_win e1 = win" "gen e1 = gen e" "mirror e1 = mirror e" "sent e1 = sent e" by (simp_all add: e1)
  have "e1\<lparr>gen := gen e\<rparr> = e1" by (simp add: fields(3) [symmetric])
  then have cancel: "(if from_ramp then retM () else cancel (ramp_key dev (state_key cap inst))) e1 = (Inr (), e1\<lparr>gen := g\<rparr>)"
    by (simp add: g cancel_def fields)
  have "put p dev cap v r from_ramp force inst e =
      bindM (open_window t) (\<lambda>room. if \<not> room \<and> \<not> force then retM (False, set_error ''write cap'' r)
        else bindM (if from_ramp then retM () else cancel (ramp_key dev (state_key cap inst))) (\<lambda>_.
          publish p t force (dev, cap, inst) v r)) (e\<lparr>world := w\<rparr>)"
  proof -
    have "\<not> (\<not> ID_RE dev \<or> \<not> CAP_RE cap \<or> inst \<noteq> [] \<and> \<not> CAP_RE inst)" using names by blast
    moreover have "now p e = (Inr t, e\<lparr>world := w\<rparr>)" by (simp add: now_def call_def t)
    ultimately show ?thesis unfolding put_def by (simp only: if_False bindM_run)
  qed
  also have "\<dots> = (if \<not> length win < WRITE_WINDOW_MAX \<and> \<not> force then (Inr (False, set_error ''write cap'' r), e1)
      else publish p t force (dev, cap, inst) v r (e1\<lparr>gen := g\<rparr>))"
  proof -
    have "open_window t (e\<lparr>world := w\<rparr>) = (Inr (length win < WRITE_WINDOW_MAX), e1)"
      by (simp add: open_window_def win e1)
    then have "bindM (open_window t) f (e\<lparr>world := w\<rparr>) = f (length win < WRITE_WINDOW_MAX) e1" for f :: "bool \<Rightarrow> ('w, bool \<times> run option) eng"
      by (rule bindM_run)
    moreover have "bindM (if from_ramp then retM () else cancel (ramp_key dev (state_key cap inst))) f e1 = f () (e1\<lparr>gen := g\<rparr>)"
      for f :: "unit \<Rightarrow> ('w, bool \<times> run option) eng"
      by (rule bindM_run [where m = "if from_ramp then retM () else cancel (ramp_key dev (state_key cap inst))", OF cancel])
    ultimately show ?thesis by (simp only: if_distrib [of "\<lambda>m. m e1"] effect_run)
  qed
  finally show ?thesis
    by (simp add: publish_def call_def bindM_def fields split: prod.split sum.split option.split)
qed

definition writes_of :: "'w engine \<Rightarrow> 'w \<times> rat list \<times> (rat \<times> bool) list" where
  "writes_of e = (world e, writes_win e, sent e)"

lemma put_outcomes:
  assumes run: "put p dev cap v r from_ramp force inst e = (x, e')" and t: "p_now p (world e) = (t, w)"
    and win: "win = dropWhile (\<lambda>u. t - u > WRITE_WINDOW_S) (writes_win e)" and w': "w' = snd (p_pub p dev cap inst v w)"
  shows "writes_of e' \<in> {writes_of e, (w, win, sent e), (w', win, sent e)} \<or>
    (force \<or> length win < WRITE_WINDOW_MAX) \<and> writes_of e' = (w', win @ [t], sent e @ [(t, force)])"
proof (cases "ID_RE dev \<and> CAP_RE cap \<and> (inst \<noteq> [] \<longrightarrow> CAP_RE inst)")
  case True
  obtain ans where "p_pub p dev cap inst v w = (ans, w')" using w' by (cases "p_pub p dev cap inst v w") simp
  note eq = put_run [where v = v and r = r and force = force, OF _ _ _ t win refl refl, of dev cap inst from_ramp]
  have "e' = snd (put p dev cap v r from_ramp force inst e)" using run by simp
  then show ?thesis
    using True by (cases ans; cases "refusal (projr ans)") (simp_all add: eq writes_of_def \<open>p_pub p dev cap inst v w = (ans, w')\<close>)
next
  case False
  with run show ?thesis by (auto simp: put_def)
qed

lemma put_rate:
  assumes st: "steady p tm"
  shows "keeps (rate_inv tm) (put p dev cap v r from_ramp force inst)"
proof (rule keepsI)
  fix e x e' assume inv: "rate_inv tm e" and run: "put p dev cap v r from_ramp force inst e = (x, e')"
  obtain t w where t: "p_now p (world e) = (t, w)" by force
  then have tt: "tm (world e) \<le> t" "t \<le> tm w" using st by (auto simp: steady_def dest: spec [of _ "world e"])
  define win where "win = dropWhile (\<lambda>u. t - u > WRITE_WINDOW_S) (writes_win e)"
  define w' where "w' = snd (p_pub p dev cap inst v w)"
  have w': "tm w \<le> tm w'" using st by (simp add: steady_def w'_def)
  have le: "fst u \<le> t" if "u \<in> set (sent e)" for u
    using inv tt(1) that by (auto simp: rate_inv_def rate_ok_def intro: order_trans)
  have at: "rate_at tm t (e\<lparr>world := w, writes_win := win\<rparr>)"
    using window_is_recent [OF inv tt(1)] inv tt(2) le by (simp add: rate_at_def rate_inv_def rate_ok_def win_def)
  have at': "rate_at tm t (e\<lparr>world := w', writes_win := win\<rparr>)"
    using at w' by (auto simp: rate_at_def)
  have writes: "rate_inv tm a = rate_inv tm b" if "writes_of a = writes_of b" for a b :: "'a engine"
    using that by (simp add: rate_inv_def writes_of_def)
  from put_outcomes [OF run t win_def w'_def]
  consider "writes_of e' = writes_of e" | "writes_of e' = writes_of (e\<lparr>world := w, writes_win := win\<rparr>)"
    | "writes_of e' = writes_of (e\<lparr>world := w', writes_win := win\<rparr>)"
    | "force \<or> length win < WRITE_WINDOW_MAX"
      "writes_of e' = writes_of (e\<lparr>world := w', writes_win := win @ [t], sent := sent e @ [(t, force)], mirror := mirror e\<rparr>)"
    by (auto simp: writes_of_def)
  then show "rate_inv tm e'"
  proof cases
    case 1
    show ?thesis unfolding writes [OF 1] by (rule inv)
  next
    case 2
    show ?thesis unfolding writes [OF 2] by (rule rate_at_inv [OF at])
  next
    case 3
    show ?thesis unfolding writes [OF 3] by (rule rate_at_inv [OF at'])
  next
    case 4
    show ?thesis unfolding writes [OF 4(2)] using rate_at_push [OF at', of force "mirror e"] 4(1) by simp
  qed
qed

lemma steady_rate: "steady p tm \<Longrightarrow> engine_inv p (rate_inv tm)"
proof
  assume st: "steady p tm"
  show same: "rate_inv tm e \<Longrightarrow> same_core e e' \<Longrightarrow> rate_inv tm e'" for e e'
    by (simp add: rate_inv_def rate_ok_def same_core_def same_writes_def)
  show "rate_inv tm e \<Longrightarrow> heap e = u # us \<Longrightarrow> rate_inv tm (e\<lparr>heap := us\<rparr>)" for e u us by (simp add: rate_inv_def)
  show "keeps (rate_inv tm) (schedule_at due key pl)" "keeps (rate_inv tm) (cancel key)" "keeps (rate_inv tm) (cancel_scenario sid)"
    for due key pl sid
    unfolding schedule_at_def cancel_def cancel_scenario_def Let_def by (intro keeps_mod; simp add: rate_inv_def)+
  show "keeps (rate_inv tm) (now p)"
    unfolding now_def
  proof (rule rate_call)
    fix w show "tm w \<le> tm (snd (case p_now p w of (t, w') \<Rightarrow> (Inr t, w')))"
      using st by (cases "p_now p w") (auto simp: steady_def intro: order_trans dest: spec [of _ w])
  qed
  show "keeps (rate_inv tm) (call (p_pub_state p d c v))" "keeps (rate_inv tm) (call (p_save p))"
    "keeps (rate_inv tm) (flush_if_due p)" "keeps (rate_inv tm) (flush_runs p)" for d c v
    unfolding flush_if_due_def flush_runs_def using st by (intro rate_call; simp add: steady_def)+
  show "keeps (rate_inv tm) (call (p_fetch p m u b))"
    "keeps (rate_inv tm) (call (\<lambda>w. case p_code p sid w of (a, w') \<Rightarrow> (Inr a, w')))" for m u b sid
    using st by (intro rate_call; simp add: steady_def split: prod.split; metis snd_conv)+
  show "keeps (rate_inv tm) (put p dev cap v r from_ramp force inst)" for dev cap v r from_ramp force inst
    by (rule put_rate [OF st])
qed

text \<open>At most eight writes in any ten seconds, those that go past the window apart.\<close>

lemma filter_le: "(\<And>x. x \<in> set xs \<Longrightarrow> P x \<Longrightarrow> Q x) \<Longrightarrow> length (filter P xs) \<le> length (filter Q xs)"
  by (induction xs) auto

lemma limited_window:
  assumes "limited xs" and "sorted (map fst xs)"
  shows "length (filter (\<lambda>(t, f). \<not> f \<and> a \<le> t \<and> t \<le> a + WRITE_WINDOW_S) xs) \<le> WRITE_WINDOW_MAX"
  using assms
proof (induction xs rule: rev_induct)
  case (snoc x xs)
  obtain t f where x: "x = (t, f)" by force
  let ?in = "\<lambda>(t, f). \<not> f \<and> a \<le> t \<and> t \<le> a + WRITE_WINDOW_S"
  show ?case
  proof (cases "?in x")
    case True
    have "length (filter ?in xs) \<le> length (filter (\<lambda>u. t - fst u \<le> WRITE_WINDOW_S) xs)"
      using True x by (intro filter_le) (auto simp: WRITE_WINDOW_S_def)
    also have "\<dots> < WRITE_WINDOW_MAX" using snoc.prems(1) True x by (simp add: limited_snoc)
    finally show ?thesis using True by simp
  next
    case False
    with snoc x show ?thesis by (auto simp: limited_snoc sorted_append)
  qed
qed simp

end
