(* ===== verification/Rules_Budget.thy ===== *)
theory Rules_Budget
  imports Rules_Inv
begin

text \<open>
  The budgets of a run: enough turns for the loop over the actions, at most twenty actions and eight writes,
  and what depends on the depth of nested changes of the home mode.
\<close>

section \<open>Enough turns\<close>

text \<open>An action never changes the count of actions.\<close>

lemma charged_run:
  "charged r m e = (if r_writes r \<ge> MAX_WRITES then (Inr (fail_run ''write cap'' r), e)
     else case m e of (Inl x, e') \<Rightarrow> (Inl x, e') | (Inr r', e') \<Rightarrow> (Inr (Go_on, r'\<lparr>r_writes := r_writes r' + 1\<rparr>), e'))"
  by (simp add: charged_def bindM_def split: prod.split sum.split)

lemma note_write_rest [simp]:
  "r_actions (note_write n k b v r) = r_actions r" "r_writes (note_write n k b v r) = r_writes r" "r_http (note_write n k b v r) = r_http r"
  "r_chain (note_write n k b v r) = r_chain r" "r_sid (note_write n k b v r) = r_sid r"
  by (simp_all add: note_write_def Let_def split: option.split)

lemma snap_ramp_rest [simp]:
  "r_actions (snap_ramp k b r) = r_actions r" "r_writes (snap_ramp k b r) = r_writes r" "r_http (snap_ramp k b r) = r_http r"
  "r_chain (snap_ramp k b r) = r_chain r" "r_sid (snap_ramp k b r) = r_sid r"
  by (simp_all add: snap_ramp_def split: option.split)

text \<open>What a write or a ramp leaves alone in the run that asked for it.\<close>

definition same_counts :: "run \<Rightarrow> run \<Rightarrow> bool" where
  "same_counts r r' \<longleftrightarrow> r_actions r' = r_actions r \<and> r_writes r' = r_writes r \<and> r_http r' = r_http r \<and> r_chain r' = r_chain r \<and> r_sid r' = r_sid r"

lemma put_counts: "hoare (\<lambda>_. True) (put p dev cap v (Some r) from_ramp force inst) (\<lambda>(_, x) _. \<exists>r'. x = Some r' \<and> same_counts r r') (\<lambda>_ _. True)"
  unfolding put_def publish_def prod.case
  by (auto simp: hoare_def bindM_def call_def now_def open_window_def cancel_def set_error_def same_counts_def split: prod.splits sum.splits option.splits if_splits)

lemma write_for_counts: "write_for p dev cap v inst r e = (Inr r', e') \<Longrightarrow> same_counts r r'"
  using hoareD_ok [OF put_counts [of p dev cap v r False False inst] TrueI]
  by (fastforce simp: write_for_def bindM_Inr retM_def)

lemma start_ramp_counts: "start_ramp p r dev cap to s inst e = (Inr r', e') \<Longrightarrow> same_counts r r'"
  by (auto simp: start_ramp_def Let_def bindM_Inr retM_def same_counts_def split: option.splits)

lemma call_child_counts:
  "call_child b c d r e = (out, r') \<Longrightarrow> r_actions r' = r_actions r \<and> r_writes r' = r_writes r \<and> r_http r' = r_http r \<and> r_sid r' = r_sid r"
  by (auto simp: call_child_def fail_run_def split: if_splits option.splits)

lemma do_action_actions: "do_action p h d r a e = (Inr (out, r'), e') \<Longrightarrow> r_actions r' = r_actions r"
  by (cases a) (auto simp: do_action_def charged_run fail_run_def bindM_Inr retM_def getM_def http_call_def Let_def
      dest!: write_for_counts start_ramp_counts call_child_counts simp: same_counts_def
      split: if_splits option.splits sum.splits prod.splits)

lemma do_action_pushed: "do_action p h d r a e = (Inr (Pushed f, r'), e') \<Longrightarrow> d < MAX_DEPTH"
  by (cases a) (auto simp: do_action_def charged_run fail_run_def bindM_Inr retM_def getM_def http_call_def Let_def call_child_def
      split: if_splits option.splits sum.splits prod.splits)

lemma bindM_cong: "(\<And>x s'. m s = (Inr x, s') \<Longrightarrow> f x s' = g x s') \<Longrightarrow> bindM m f s = bindM m g s"
  by (simp add: bindM_def split: prod.split sum.split)

lemma exec_more_turns:
  "2 * (MAX_ACTIONS - r_actions r) + length fs \<le> turns \<Longrightarrow> exec_loop (Suc turns) p h seg r fs e = exec_loop turns p h seg r fs e"
proof (induction turns arbitrary: r fs e)
  case (Suc n)
  show ?case
  proof (cases fs)
    case fs: (Cons f fs')
    obtain s acts where f: "f = (s, acts)" by force
    show ?thesis
    proof (cases acts)
      case Nil
      have "exec_loop (Suc n) p h seg r fs' e = exec_loop n p h seg r fs' e"
        using Suc.prems fs by (intro Suc.IH) simp
      with fs f Nil show ?thesis by simp
    next
      case (Cons a as)
      have next_turn: "bindM (do_action p h d (r\<lparr>r_actions := Suc (r_actions r)\<rparr>) b) (\<lambda>(out, r'').
          case out of Go_on \<Rightarrow> exec_loop (Suc n) p h seg r'' ((s, as) # fs')
          | Pushed f \<Rightarrow> exec_loop (Suc n) p h seg r'' (f # (s, as) # fs') | Abort \<Rightarrow> retM (Some r'')) x =
        bindM (do_action p h d (r\<lparr>r_actions := Suc (r_actions r)\<rparr>) b) (\<lambda>(out, r'').
          case out of Go_on \<Rightarrow> exec_loop n p h seg r'' ((s, as) # fs')
          | Pushed f \<Rightarrow> exec_loop n p h seg r'' (f # (s, as) # fs') | Abort \<Rightarrow> retM (Some r'')) x"
        if "r_actions r < MAX_ACTIONS" for d x b
      proof (rule bindM_cong, clarsimp split: outcome.split, intro conjI impI allI)
        fix out r'' x' assume run: "do_action p h d (r\<lparr>r_actions := Suc (r_actions r)\<rparr>) b x = (Inr (out, r''), x')"
        have "r_actions r'' = Suc (r_actions r)" using do_action_actions [OF run] by simp
        then have "2 * (MAX_ACTIONS - r_actions r'') + length ((s, as) # fs') \<le> n" "2 * (MAX_ACTIONS - r_actions r'') + length (f # (s, as) # fs') \<le> n" for f
          using Suc.prems fs that by (simp_all del: One_nat_def)
        then show "exec_loop (Suc n) p h seg r'' ((s, as) # fs') x' = exec_loop n p h seg r'' ((s, as) # fs') x'"
          "exec_loop (Suc n) p h seg r'' (f # (s, as) # fs') x' = exec_loop n p h seg r'' (f # (s, as) # fs') x'" for f
          by (blast intro: Suc.IH)+
      qed
      show ?thesis
        unfolding fs f Cons exec_loop.simps(4) Let_def
        by (rule bindM_cong) (simp add: next_turn not_le del: bindM_simps effect_run split: action.split)
    qed
  qed simp
qed simp

lemma exec_turns:
  assumes "length fs \<le> MAX_DEPTH + 1" and "EXEC_TURNS \<le> turns"
  shows "exec_loop turns p h seg r fs e = exec_loop EXEC_TURNS p h seg r fs e"
proof -
  have "2 * (MAX_ACTIONS - r_actions r) + length fs \<le> EXEC_TURNS"
    using assms(1) by (simp add: EXEC_TURNS_def MAX_ACTIONS_def MAX_DEPTH_def)
  then have "exec_loop (EXEC_TURNS + k) p h seg r fs e = exec_loop EXEC_TURNS p h seg r fs e" for k
    by (induction k) (simp_all add: exec_more_turns)
  from this [of "turns - EXEC_TURNS"] assms(2) show ?thesis by simp
qed

section \<open>Writes of a run\<close>

definition in_budget :: "run \<Rightarrow> bool" where
  "in_budget r \<longleftrightarrow> r_writes r \<le> MAX_WRITES \<and> r_http r \<le> HTTP_PER_RUN_MAX \<and> r_actions r \<le> MAX_ACTIONS"

definition left :: "run \<Rightarrow> nat" where "left r = MAX_WRITES - r_writes r"

text \<open>The change of the home mode writes nothing itself.\<close>

definition silent :: "(string \<Rightarrow> ('w, unit) eng) \<Rightarrow> bool" where
  "silent h \<longleftrightarrow> (\<forall>m e. sent (snd (h m e)) = sent e)"

lemma call_sent: "call f e = (x, e') \<Longrightarrow> sent e' = sent e"
  by (auto simp: call_def split: prod.splits)

lemma quiet_sent:
  "publish_tpl_state p sid c v e = (x, e') \<Longrightarrow> sent e' = sent e" "schedule p d k pl e = (x, e') \<Longrightarrow> sent e' = sent e"
  "now p e = (x2, e') \<Longrightarrow> sent e' = sent e" "journal p rc e = (x3, e') \<Longrightarrow> sent e' = sent e" "notify p s e = (x3, e') \<Longrightarrow> sent e' = sent e"
  "start_ramp p r dev cap to s0 inst e = (x4, e') \<Longrightarrow> sent e' = sent e"
  by (auto simp: publish_tpl_state_def schedule_def schedule_at_def journal_def append_run_def flush_if_due_def notify_def
      start_ramp_def cancel_def now_def bindM_def retM_def getM_def modM_def Let_def
      dest!: call_sent split: prod.splits sum.splits if_splits option.splits)

lemma put_sent: "put p dev cap v r fr fo inst e = (x, e') \<Longrightarrow> length (sent e') \<le> Suc (length (sent e))"
  using put_outcomes [of p dev cap v r fr fo inst e x e' _ _ _ _] by (cases "p_now p (world e)") (fastforce simp: writes_of_def)

lemma action_budget:
  assumes run: "do_action p h d r a e = (Inr (out, r'), e')" and h: "silent h" and r: "in_budget r"
  shows "in_budget r' \<and> length (sent e') + left r' \<le> length (sent e) + left r"
proof -
  have charge: "in_budget r' \<and> length (sent e') + left r' \<le> length (sent e) + left r"
    if "charged r m e = (Inr (out, r'), e')" and m: "\<And>x x'. m e = (Inr x, x') \<Longrightarrow> same_counts r x \<and> length (sent x') \<le> Suc (length (sent e))" for m
    using that r by (auto simp: charged_run fail_run_def in_budget_def left_def same_counts_def split: if_splits prod.splits sum.splits dest!: m)
  have written: "same_counts r x \<and> length (sent x') \<le> Suc (length (sent e))" if "write_for p dev cap v inst r e = (Inr x, x')" for dev cap v inst x x'
    using write_for_counts [OF that] that put_sent by (fastforce simp: write_for_def bindM_Inr retM_def split: option.splits)
  have ramp: "same_counts r x \<and> length (sent x') \<le> Suc (length (sent e))" if "start_ramp p r dev cap to s inst e = (Inr x, x')" for dev cap to s inst x x'
    using start_ramp_counts [OF that] quiet_sent(6) [OF that] by simp
  have home: "sent x' = sent e" if "h m e = (x, x')" for m x x' using h that unfolding silent_def by (metis snd_conv)
  show ?thesis
  proof (cases a)
    case (Set_value dev cap inst v transition)
    then show ?thesis using run by (intro charge) (auto simp: do_action_def split: option.splits if_splits dest: written ramp)
  next
    case (Toggle dev cap inst)
    then show ?thesis using run
      by (intro charge [where m = "bindM (getM (\<lambda>e. truthy (numbers.truncate p) (mirror e (dev, state_key cap inst)))) (\<lambda>on.
            write_for p dev cap (if cap_short cap = ''toggle'' then Bool_v (\<not> on) else Int_v (if on then 0 else 1)) inst r)"])
        (auto simp: do_action_def dest: written)
  next
    case (Ramp dev cap inst to seconds)
    then show ?thesis using run by (intro charge) (auto simp: do_action_def dest: ramp)
  next
    case (Http m u b)
    then show ?thesis using run r
      by (auto simp: do_action_def http_call_def bindM_Inr retM_def fail_run_def in_budget_def left_def Let_def
          dest!: call_sent split: if_splits option.splits)
  qed (use run r in \<open>auto simp: do_action_def bindM_Inr retM_def getM_def in_budget_def left_def
      dest!: home quiet_sent(5) call_child_counts\<close>)
qed

text \<open>The timer a schedule puts on the heap.\<close>

lemma schedule_timer: "schedule p d key pl e = (Inr x, e') \<Longrightarrow> \<exists>t\<in>set (heap e'). t_payload t = pl \<and> t_key t = key"
  by (auto simp: schedule_def schedule_at_def bindM_Inr modM_def set_heappush Let_def)

text \<open>Where a run stands after a turn of the loop: over, or on the timers with what is left of its budget.\<close>

definition budget_kept :: "nat \<Rightarrow> run option \<Rightarrow> 'w engine \<Rightarrow> bool" where
  "budget_kept n out e \<longleftrightarrow>
     (case out of
        Some r \<Rightarrow> in_budget r \<and> length (sent e) + left r \<le> n
      | None \<Rightarrow> \<exists>t\<in>set (heap e). \<exists>r fs. t_payload t = P_cont r fs \<and> in_budget r \<and> length fs \<le> MAX_DEPTH + 1 \<and> length (sent e) + left r \<le> n)"

lemma loop_budget:
  assumes "silent h" and "length fs \<le> MAX_DEPTH + 1" and "in_budget r" and "length (sent e) + left r \<le> n"
    and "exec_loop turns p h seg r fs e = (Inr out, e')"
  shows "budget_kept n out e'"
  using assms
proof (induction turns arbitrary: r fs e)
  case 0
  then show ?case by (cases fs) (auto simp: budget_kept_def)
next
  case (Suc k)
  show ?case
  proof (cases fs)
    case Nil
    with Suc.prems show ?thesis by (auto simp: budget_kept_def)
  next
    case fs: (Cons f fs')
    obtain s acts where f: "f = (s, acts)" by force
    show ?thesis
    proof (cases acts)
      case Nil
      with Suc.prems fs f show ?thesis by (intro Suc.IH [of fs' r e]) auto
    next
      case acts: (Cons a as)
      obtain t e1 where t: "now p e = (Inr t, e1)" using Suc.prems(5) fs f acts by (auto simp: bindM_Inr)
      note sent = quiet_sent(3) [OF t]
      let ?r = "r\<lparr>r_actions := r_actions r + 1\<rparr>"
      note run = Suc.prems(5) [unfolded fs f acts exec_loop.simps(4) Let_def bindM_run [where m = "now p", OF t]]
      show ?thesis
      proof (cases "RUN_S < r_spent r + (t - seg) \<or> MAX_ACTIONS \<le> r_actions r")
        case True
        with run Suc.prems(3,4) sent show ?thesis
          by (auto simp: budget_kept_def in_budget_def left_def split: if_splits)
      next
        case False
        have r: "in_budget ?r" "left ?r = left r" using False Suc.prems(3) by (simp_all add: in_budget_def left_def)
        show ?thesis
        proof (cases "\<exists>d. a = Delay d")
          case True
          then obtain d t' e2 where "now p e1 = (Inr t', e2)" "out = None" and
            sch: "schedule p d (r_sid ?r @ '':cont'') (P_cont (?r\<lparr>r_spent := r_spent ?r + (t' - seg)\<rparr>) ((s, as) # fs')) e2 = (Inr (), e')"
            using run False by (auto simp: bindM_Inr retM_def)
          with quiet_sent(2) [OF sch] quiet_sent(3) [of p e1] sent schedule_timer [OF sch] r Suc.prems(2,4) fs show ?thesis
            by (fastforce simp: budget_kept_def in_budget_def left_def)
        next
          case other: False
          obtain out1 r1 e2 where act: "do_action p h (length fs') ?r a e1 = (Inr (out1, r1), e2)"
            and more: "(case out1 of Abort \<Rightarrow> retM (Some r1) | Pushed g \<Rightarrow> exec_loop k p h seg r1 (g # (s, as) # fs')
              | Go_on \<Rightarrow> exec_loop k p h seg r1 ((s, as) # fs')) e2 = (Inr out, e')"
            using run False other by (cases a) (auto simp: bindM_Inr)
          have b: "in_budget r1" "length (sent e2) + left r1 \<le> n"
            using action_budget [OF act Suc.prems(1) r(1)] r(2) Suc.prems(4) sent by simp_all
          show ?thesis
          proof (cases out1)
            case Go_on
            with more b Suc.prems(1,2) fs show ?thesis by (intro Suc.IH [of "(s, as) # fs'" r1 e2]) simp_all
          next
            case (Pushed g)
            with more b Suc.prems(1,2) fs do_action_pushed [of p h "length fs'" ?r a e1 g r1 e2] act show ?thesis
              by (intro Suc.IH [of "g # (s, as) # fs'" r1 e2]) simp_all
          next
            case Abort
            with more b show ?thesis by (auto simp: budget_kept_def retM_def)
          qed
        qed
      qed
    qed
  qed
qed

text \<open>Two scenarios that undo each other's home mode.\<close>

definition ping_pong :: "scenario list" where
  "ping_pong =
     [\<lparr>s_id = ''a'', s_name = ''a'', s_enabled = True, s_kind = Block, s_triggers = [T_presence ''leave''], s_any = False,
       s_conditions = [], s_actions = [Set_mode ''home''], s_end = None, s_text = []\<rparr>,
      \<lparr>s_id = ''b'', s_name = ''b'', s_enabled = True, s_kind = Block, s_triggers = [T_presence ''arrive''], s_any = False,
       s_conditions = [], s_actions = [Set_mode ''away''], s_end = None, s_text = []\<rparr>]"



section \<open>The home mode and what waits for it\<close>

text \<open>Actions that neither change the home mode nor start another scenario.\<close>

fun stays_home :: "action \<Rightarrow> bool" where
  "stays_home (Set_mode _) = False" | "stays_home (Scenario _) = False" | "stays_home (Scene _) = False" | "stays_home _ = True"

definition calm :: "scenario \<Rightarrow> bool" where
  "calm s \<longleftrightarrow> (\<exists>x. T_presence x \<in> set (s_triggers s)) \<longrightarrow> list_all stays_home (s_actions s)"

lemma home_action:
  assumes "stays_home a"
  shows "do_action p h d r a = do_action p h' d r a" and "do_action p h d r a e \<noteq> (Inr (Pushed f, r'), e')"
  using assms
  by (cases a; auto simp: do_action_def charged_run fail_run_def bindM_Inr retM_def http_call_def Let_def
      split: if_splits option.splits sum.splits prod.splits)+

lemma home_loop:
  "\<forall>f\<in>set fs. list_all stays_home (snd f) \<Longrightarrow> exec_loop turns p h seg r fs e = exec_loop turns p h' seg r fs e"
proof (induction turns arbitrary: r fs e)
  case 0
  show ?case by (cases fs) simp_all
next
  case (Suc n)
  show ?case
  proof (cases fs)
    case fs: (Cons f fs')
    obtain s acts where f: "f = (s, acts)" by force
    show ?thesis
    proof (cases acts)
      case Nil
      with Suc.prems fs f Suc.IH [of fs' r e] show ?thesis by simp
    next
      case acts: (Cons a as)
      have a: "stays_home a" and as: "\<forall>f\<in>set ((s, as) # fs'). list_all stays_home (snd f)" using Suc.prems fs f acts by auto
      have turn: "bindM (do_action p h d r' a) (\<lambda>(out, r''). case out of Go_on \<Rightarrow> exec_loop n p h seg r'' ((s, as) # fs')
            | Pushed f \<Rightarrow> exec_loop n p h seg r'' (f # (s, as) # fs') | Abort \<Rightarrow> retM (Some r'')) x =
          bindM (do_action p h' d r' a) (\<lambda>(out, r''). case out of Go_on \<Rightarrow> exec_loop n p h' seg r'' ((s, as) # fs')
            | Pushed f \<Rightarrow> exec_loop n p h' seg r'' (f # (s, as) # fs') | Abort \<Rightarrow> retM (Some r'')) x" for d r' x
        unfolding home_action(1) [OF a, of p h d r' h']
        by (rule bindM_cong) (auto simp: home_action(2) [OF a] Suc.IH [OF as] split: outcome.split)
      show ?thesis
        unfolding fs f acts exec_loop.simps(4) Let_def
        by (rule bindM_cong) (use turn in \<open>auto simp del: bindM_simps effect_run split: action.split\<close>)
    qed
  qed simp
qed

lemma home_run: "list_all stays_home (s_actions s) \<Longrightarrow> run_scenario p h s src = run_scenario p h' s src"
proof -
  assume s: "list_all stays_home (s_actions s)"
  have "exec_loop EXEC_TURNS p h seg r [(s, s_actions s)] = exec_loop EXEC_TURNS p h' seg r [(s, s_actions s)]" for seg r
    by (rule ext) (rule home_loop, simp add: s)
  then have "exec p h r s [(s, s_actions s)] = exec p h' r s [(s, s_actions s)]" for r by (simp add: exec_def)
  then show ?thesis by (simp only: run_scenario_def)
qed

lemma presence_triggered:
  "triggered_from n sid i trs (E_presence x) e = (True, e') \<Longrightarrow> T_presence x \<in> set trs"
  by (induction trs arbitrary: i e) (auto simp: trigger_fires_def split: trigger.splits prod.splits bool.splits if_splits)

lemma home_dispatch:
  "\<forall>s\<in>set ss. calm s \<Longrightarrow> dispatch_to p h (E_presence x) ss e = dispatch_to p h' (E_presence x) ss e"
proof (induction ss arbitrary: e)
  case (Cons s ss)
  then have IH: "dispatch_to p h (E_presence x) ss = dispatch_to p h' (E_presence x) ss" by (intro ext) simp
  have run: "run_scenario p h s ''scenario'' = run_scenario p h' s ''scenario''" if "triggered p s (E_presence x) e1 = (Inr True, e2)" for e1 e2
    using presence_triggered [of "numbers.truncate p" "s_id s" 0 "s_triggers s" x e1 e2] Cons.prems that
    by (intro home_run) (auto simp: triggered_def calm_def split: prod.splits)
  show ?case
    unfolding dispatch_to.simps IH
  proof (rule bindM_cong)
    fix off e0
    show "(if off \<or> s_kind s = Logic then m else bindM (triggered p s (E_presence x)) (\<lambda>hit. if \<not> hit then m
          else bindM (conditions_ok p s) (\<lambda>ok. if \<not> ok then m
            else bindM (run_scenario p h s ''scenario'') (\<lambda>_. m)))) e0 =
      (if off \<or> s_kind s = Logic then m else bindM (triggered p s (E_presence x)) (\<lambda>hit. if \<not> hit then m
          else bindM (conditions_ok p s) (\<lambda>ok. if \<not> ok then m
            else bindM (run_scenario p h' s ''scenario'') (\<lambda>_. m)))) e0" for m
    proof (cases "off \<or> s_kind s = Logic")
      case False
      have "bindM (triggered p s (E_presence x)) (\<lambda>hit. if \<not> hit then m
          else bindM (conditions_ok p s) (\<lambda>ok. if \<not> ok then m
            else bindM (run_scenario p h s ''scenario'') (\<lambda>_. m))) e0 =
        bindM (triggered p s (E_presence x)) (\<lambda>hit. if \<not> hit then m
          else bindM (conditions_ok p s) (\<lambda>ok. if \<not> ok then m
            else bindM (run_scenario p h' s ''scenario'') (\<lambda>_. m))) e0"
      proof (rule bindM_cong)
        fix hit e2
        assume "triggered p s (E_presence x) e0 = (Inr hit, e2)"
        then show "(if \<not> hit then m else bindM (conditions_ok p s) (\<lambda>ok. if \<not> ok then m
              else bindM (run_scenario p h s ''scenario'') (\<lambda>_. m))) e2 =
          (if \<not> hit then m else bindM (conditions_ok p s) (\<lambda>ok. if \<not> ok then m
              else bindM (run_scenario p h' s ''scenario'') (\<lambda>_. m))) e2"
          by (cases hit) (simp_all only: run if_True if_False not_True_eq_False not_False_eq_True)
      qed
      with False show ?thesis by (simp only: if_False)
    qed (simp only: if_True)
  qed
qed simp

text \<open>One level of the stack is enough where no scenario that waits for the home mode changes it.\<close>

lemma calm_home_mode:
  assumes "\<forall>s\<in>set (doc e). calm s"
  shows "set_home_mode (Suc d) p m e = set_home_mode 1 p m e"
proof -
  have "dispatch p (set_home_mode d p) (E_presence x) e' = dispatch p (set_home_mode 0 p) (E_presence x) e'" if "doc e' = doc e" for x e'
    using home_dispatch assms that by (simp add: dispatch_def)
  then show ?thesis
    by (auto simp: bindM_def call_def split: option.split prod.split sum.split)
qed

section \<open>Scenarios that answer each other\<close>

text \<open>Each waits for what the other does.\<close>

definition in_turn :: "string \<Rightarrow> 'w engine \<Rightarrow> bool" where
  "in_turn m e \<longleftrightarrow> doc e = ping_pong \<and> unarmed e = {} \<and> (m = ''home'' \<and> home e = ''away'' \<or> m = ''away'' \<and> home e \<in> {[], ''home''})"

lemma ping_run:
  assumes still: "\<And>w. snd (p_now p w) = w" and h: "\<And>e'. doc e' = doc e \<Longrightarrow> unarmed e' = unarmed e \<Longrightarrow> home e' = home e \<Longrightarrow> fst (h m e') = Inl RecursionError"
    and s: "s_kind s = Block" "s_end s = None" "s_actions s = [Set_mode m]"
  shows "fst (run_scenario p h s src e) = Inl RecursionError"
proof -
  have now: "now p e' = (Inr (fst (p_now p (world e'))), e')" for e'
    using still [of "world e'"] by (cases "p_now p (world e')") (simp add: now_def call_def)
  have turns: "EXEC_TURNS = Suc 63" by (simp add: EXEC_TURNS_def)
  have fails: "fst (bindM m' f e') = Inl RecursionError" if "fst (m' e') = Inl RecursionError" for m' f e'
    using that by (auto simp: bindM_def split: prod.splits sum.splits)
  have "fst (exec p h r s [(s, [Set_mode m])] e') = Inl RecursionError"
    if "r_spent r = 0" "r_actions r = 0" "doc e' = doc e" "unarmed e' = unarmed e" "home e' = home e" for r e'
    unfolding exec_def turns exec_loop.simps bindM_run [where m = "now p", OF now] Let_def do_action_def
    using that by (auto simp: RUN_S_def MAX_ACTIONS_def intro!: fails h)
  then show ?thesis
    by (auto simp: run_scenario_def s cancel_def new_run_def Let_def intro!: fails)
qed

text \<open>C15: Two scenarios of which each undoes the home mode the other sets never come to an end: however deep the
  stack of the interpreter, setting the mode ends with its overflow.\<close>

theorem home_mode_ping_pong:
  assumes still: "\<And>w. snd (p_now p w) = w" and save: "\<And>w. p_save p w = (Inr (), w)" and turn: "in_turn m e"
  shows "fst (set_home_mode depth p m e) = Inl RecursionError"
  using turn
proof (induction depth arbitrary: m e)
  case (Suc d)
  let ?e = "e\<lparr>home := m\<rparr>"
  have same: "call (p_save p) ?e = (Inr (), ?e)" by (simp add: call_def save)
  have run: "fst (run_scenario p (set_home_mode d p) s src e') = Inl RecursionError"
    if "s_kind s = Block" "s_end s = None" "s_actions s = [Set_mode m']" "in_turn m' e'" for s src m' e'
    using that by (intro ping_run [OF still]) (auto simp: in_turn_def intro!: Suc.IH)
  obtain s1 s2 where two: "ping_pong = [s1, s2]" by (simp add: ping_pong_def)
  have away: "fst (run_scenario p (set_home_mode d p) (s1) src (e\<lparr>home := ''away''\<rparr>)) = Inl RecursionError"
    and home: "fst (run_scenario p (set_home_mode d p) (s2) src (e\<lparr>home := ''home''\<rparr>)) = Inl RecursionError" for src
    using Suc.prems two by (auto intro!: run simp: ping_pong_def in_turn_def)
  have fails: "fst (bindM m' f e') = Inl RecursionError" if "fst (m' e') = Inl RecursionError"
    for m' :: "('a, unit) eng" and f :: "unit \<Rightarrow> ('a, unit) eng" and e'
    using that by (auto simp: bindM_def split: prod.splits sum.splits)
  have cond: "s_conditions (s1) = []" "s_conditions (s2) = []"
    and on: "s_enabled (s1)" "s_enabled (s2)" "s_kind (s1) = Block" "s_kind (s2) = Block"
    using two by (auto simp: ping_pong_def)
  have trig: "triggered p (s1) (E_presence x) e' = (Inr (x = ''leave''), e')"
    "triggered p (s2) (E_presence x) e' = (Inr (x = ''arrive''), e')" for x and e' :: "'a engine"
    using two by (auto simp: ping_pong_def triggered_def trigger_fires_def split: bool.split)
  have armed: "\<not> inactive (e\<lparr>home := m\<rparr>) (s1)" "\<not> inactive (e\<lparr>home := m\<rparr>) (s2)" for m
    using Suc.prems on by (simp_all add: in_turn_def inactive_def)
  have first: "fst (dispatch_to p (set_home_mode d p) (E_presence ''leave'') ping_pong (e\<lparr>home := ''away''\<rparr>)) = Inl RecursionError"
    by (subst two) (simp add: armed on conditions_ok_def cond bindM_run [where m = "triggered p q ev" for q ev, OF trig(1)] fails away)
  have second: "fst (dispatch_to p (set_home_mode d p) (E_presence ''arrive'') ping_pong (e\<lparr>home := ''home''\<rparr>)) = Inl RecursionError"
    by (subst two) (simp add: armed on conditions_ok_def cond bindM_run [where m = "triggered p q ev" for q ev, OF trig(1)]
        bindM_run [where m = "triggered p q ev" for q ev, OF trig(2)] fails home)
  show ?case
    using Suc.prems same first second
    by (auto simp: in_turn_def home_mode_def HOME_MODES_def presence_event_def dispatch_def bindM_run [where m = "call (p_save p)"])
qed simp

lemma home_mode_ping_pong_witness: "fst (set_home_mode 100 bench ''away'' (bench_engine ping_pong)) = Inl RecursionError"
  by (rule home_mode_ping_pong) (simp_all add: bench_def bench_engine_def in_turn_def)

end
