(* ===== verification/Rules_Engine.thy ===== *)
theory Rules_Engine
  imports Rules_Inv Text
begin

text \<open>
  The events the engine is given (\<^verbatim>\<open>sa02m_rules/engine.py\<close>): readings, gestures of buttons, requests for a
  run, a new document, and the tick that fires the timers and the triggers of the clock.
\<close>

section \<open>What the templates are told\<close>

text \<open>The instances of the templates are a parameter: what they do when they are told of one of these, saving their
  state included.\<close>

datatype told =
    L_observe string string val
  | L_state string string val val
  | L_button string string string
  | L_timer string string
  | L_arm scenario
  | L_drop string
  | L_saved
  | L_adopted
  | L_flush

type_synonym 'w templates = "told \<Rightarrow> ('w, unit) eng"
type_synonym 'w homes = "string \<Rightarrow> ('w, unit) eng"

section \<open>Hold clocks\<close>

text \<open>\<^verbatim>\<open>_for_s_index\<close>: the conditions on a reading that have to hold for a while.\<close>

definition hold_items :: "scenario list \<Rightarrow> ((string \<times> nat) \<times> (string \<times> string) \<times> op \<times> threshold) list" where
  "hold_items ss =
     concat (map (\<lambda>s. concat (map (\<lambda>(ci, c).
       case c of C_state dev key q thr hold \<Rightarrow> if hold = 0 then [] else [((s_id s, ci), (dev, key), q, thr)] | _ \<Rightarrow> [])
       (enumerate 0 (s_conditions s)))) ss)"

definition touch_one :: "'w platform \<Rightarrow> val \<Rightarrow> (string \<times> nat) \<times> (string \<times> string) \<times> op \<times> threshold \<Rightarrow> ('w, unit) eng" where
  "touch_one p v i =
     (case i of (k, _, q, thr) \<Rightarrow>
       if level (numbers.truncate p) q v thr
       then bindM (getM (\<lambda>e. for_s e k)) (\<lambda>since.
         if since = None then bindM (now p) (\<lambda>t. modM (\<lambda>e. e\<lparr>for_s := (for_s e)(k := Some t)\<rparr>)) else retM ())
       else modM (\<lambda>e. e\<lparr>for_s := (for_s e)(k := None)\<rparr>))"

primrec each :: "('a \<Rightarrow> ('w, unit) eng) \<Rightarrow> 'a list \<Rightarrow> ('w, unit) eng" where
  "each f [] = retM ()"
| "each f (x # xs) = bindM (f x) (\<lambda>_. each f xs)"

definition for_s_touch :: "'w platform \<Rightarrow> string \<Rightarrow> string \<Rightarrow> val \<Rightarrow> ('w, unit) eng" where
  "for_s_touch p dev key v =
     bindM (getM (\<lambda>e. filter (\<lambda>i. fst (snd i) = (dev, key)) (hold_items (doc e)))) (each (touch_one p v))"

text \<open>\<^verbatim>\<open>_rebuild_for_s_index\<close>: every clock starts again, from the mirror.\<close>

definition rebuild_for_s :: "'w platform \<Rightarrow> ('w, unit) eng" where
  "rebuild_for_s p =
     bindM (modM (\<lambda>e. e\<lparr>for_s := (\<lambda>_. None)\<rparr>)) (\<lambda>_.
     bindM (getM (\<lambda>e. filter (\<lambda>(_, k, q, thr). level (numbers.truncate p) q (mirror e k) thr) (hold_items (doc e))))
       (each (\<lambda>i. bindM (now p) (\<lambda>t. modM (\<lambda>e. e\<lparr>for_s := (for_s e)(fst i := Some t)\<rparr>)))))"

section \<open>Buttons\<close>

definition BUTTON_LONG_S :: rat where "BUTTON_LONG_S = 1 / 2"
definition BUTTON_DOUBLE_S :: rat where "BUTTON_DOUBLE_S = 4 / 10"
definition BUTTON_COUNTER_HOLD_S :: rat where "BUTTON_COUNTER_HOLD_S = 10"
definition BUTTON_COUNTER_MAX :: rat where "BUTTON_COUNTER_MAX = 65535"
definition BUTTON_COUNTER_WRAP_SLACK :: rat where "BUTTON_COUNTER_WRAP_SLACK = 8"

text \<open>\<^verbatim>\<open>^di_\d{1,2}$\<close>, and the counters of the gestures of an input.\<close>

definition chomp :: "string \<Rightarrow> string" where
  "chomp s = (if s \<noteq> [] \<and> last s = CHR 0x0A then butlast s else s)"

definition di_name :: "string \<Rightarrow> bool" where
  "di_name s \<longleftrightarrow> take 3 s = ''di_'' \<and> length s \<in> {4, 5} \<and> list_all is_digit (drop 3 s)"

definition counter_suffixes :: "(string \<times> string) list" where
  "counter_suffixes = [(''_short'', ''single''), (''_long'', ''long''), (''_double'', ''double'')]"

definition di_counter :: "string \<Rightarrow> (string \<times> string) option" where
  "di_counter cap =
     (let c = chomp cap; cut = (\<lambda>x. take (length c - length x) c) in
      case find (\<lambda>(x, _). c = cut x @ x \<and> di_name (cut x)) counter_suffixes of
        None \<Rightarrow> None
      | Some (x, gesture) \<Rightarrow> Some (cut x, gesture))"

definition btn_emit :: "'w platform \<Rightarrow> 'w templates \<Rightarrow> 'w homes \<Rightarrow> string \<Rightarrow> string \<Rightarrow> string \<Rightarrow> ('w, unit) eng" where
  "btn_emit p lg h dev inp gesture =
     bindM (getM (\<lambda>e. btn_counters e (dev, inp))) (\<lambda>seen.
     bindM (if gesture = ''long_release'' then retM False
         else case seen of None \<Rightarrow> retM False | Some t0 \<Rightarrow> bindM (now p) (\<lambda>t. retM (t - t0 < BUTTON_COUNTER_HOLD_S))) (\<lambda>muted.
       if muted then retM ()
       else bindM (dispatch p h (E_button dev inp gesture)) (\<lambda>_. bindM (lg (L_button dev inp gesture)) (\<lambda>_. lg L_saved))))"

definition counter_press :: "'w platform \<Rightarrow> 'w homes \<Rightarrow> string \<Rightarrow> string \<Rightarrow> string \<Rightarrow> val \<Rightarrow> val \<Rightarrow> ('w, unit) eng" where
  "counter_press p h dev inp gesture v prv =
     (case (as_num (numbers.truncate p) prv, as_num (numbers.truncate p) v) of
        (Some pn, Some vn) \<Rightarrow>
          if vn > pn \<or> (pn \<ge> BUTTON_COUNTER_MAX - BUTTON_COUNTER_WRAP_SLACK \<and> vn \<le> BUTTON_COUNTER_WRAP_SLACK)
          then bindM (now p) (\<lambda>t. bindM (modM (\<lambda>e. e\<lparr>btn_counters := (btn_counters e)((dev, inp) := Some t)\<rparr>)) (\<lambda>_.
            dispatch p h (E_button dev inp gesture)))
          else retM ()
      | _ \<Rightarrow> retM ())"

text \<open>A table of at most 64 inputs; the one not seen longest makes room.\<close>

fun idlest :: "'k \<times> button \<Rightarrow> ('k \<times> button) list \<Rightarrow> 'k \<times> button" where
  "idlest x [] = x"
| "idlest x (y # ys) = idlest (if b_ts (snd y) < b_ts (snd x) then y else x) ys"

definition upd_button :: "'k \<Rightarrow> (button \<Rightarrow> button) \<Rightarrow> ('k \<times> button) list \<Rightarrow> ('k \<times> button) list" where
  "upd_button key f bs = map (\<lambda>(k, b). (k, if k = key then f b else b)) bs"

definition seen_button :: "'k \<Rightarrow> rat \<Rightarrow> ('k \<times> button) list \<Rightarrow> ('k \<times> button) list" where
  "seen_button key t bs =
     (case map_of bs key of
        Some _ \<Rightarrow> upd_button key (\<lambda>b. b\<lparr>b_ts := t\<rparr>) bs
      | None \<Rightarrow> (if length bs \<ge> 64 then filter (\<lambda>(k, _). k \<noteq> fst (idlest (hd bs) (tl bs))) bs else bs)
          @ [(key, \<lparr>b_press = None, b_long = False, b_single = False, b_ts = t\<rparr>)])"

definition set_button :: "string \<times> string \<Rightarrow> (button \<Rightarrow> button) \<Rightarrow> ('w, unit) eng" where
  "set_button key f = modM (\<lambda>e. e\<lparr>buttons := upd_button key f (buttons e)\<rparr>)"

definition long_key :: "string \<times> string \<Rightarrow> string" where "long_key k = ''btnl:'' @ fst k @ '':'' @ snd k"
definition single_key :: "string \<times> string \<Rightarrow> string" where "single_key k = ''btns:'' @ fst k @ '':'' @ snd k"

definition released :: "'w platform \<Rightarrow> 'w templates \<Rightarrow> 'w homes \<Rightarrow> string \<times> string \<Rightarrow> rat \<Rightarrow> ('w, unit) eng" where
  "released p lg h key t =
     bindM (getM (\<lambda>e. map_of (buttons e) key)) (\<lambda>b0. case b0 of None \<Rightarrow> retM () | Some b \<Rightarrow>
     bindM (set_button key (\<lambda>b. b\<lparr>b_press := None\<rparr>)) (\<lambda>_.
     bindM (cancel (long_key key)) (\<lambda>_.
       case b_press b of
         None \<Rightarrow> retM ()
       | Some t0 \<Rightarrow>
           if b_long b then
             bindM (set_button key (\<lambda>b. b\<lparr>b_long := False\<rparr>)) (\<lambda>_. btn_emit p lg h (fst key) (snd key) ''long_release'')
           else if t - t0 < BUTTON_LONG_S then
             (if b_single b then
                bindM (set_button key (\<lambda>b. b\<lparr>b_single := False\<rparr>)) (\<lambda>_.
                bindM (cancel (single_key key)) (\<lambda>_. btn_emit p lg h (fst key) (snd key) ''double''))
              else bindM (set_button key (\<lambda>b. b\<lparr>b_single := True\<rparr>)) (\<lambda>_.
                schedule p BUTTON_DOUBLE_S (single_key key) (P_single (fst key) (snd key))))
           else retM ())))"

definition button_state :: "'w platform \<Rightarrow> 'w templates \<Rightarrow> 'w homes \<Rightarrow> string \<Rightarrow> string \<Rightarrow> val \<Rightarrow> val \<Rightarrow> ('w, unit) eng" where
  "button_state p lg h dev cap v prv =
     (case di_counter cap of
        Some (inp, gesture) \<Rightarrow> if prv = Null then retM () else counter_press p h dev inp gesture v prv
      | None \<Rightarrow>
          if \<not> di_name (chomp cap) then retM ()
          else bindM (now p) (\<lambda>t.
            bindM (modM (\<lambda>e. e\<lparr>buttons := seen_button (dev, cap) t (buttons e)\<rparr>)) (\<lambda>_.
            let was = truthy (numbers.truncate p) prv; is_now = truthy (numbers.truncate p) v in
              if prv = Null then retM ()
              else if is_now \<and> \<not> was then
                bindM (set_button (dev, cap) (\<lambda>b. b\<lparr>b_press := Some t, b_long := False\<rparr>)) (\<lambda>_.
                  schedule p BUTTON_LONG_S (long_key (dev, cap)) (P_long dev cap))
              else if was \<and> \<not> is_now then released p lg h (dev, cap) t
              else retM ())))"

section \<open>Readings\<close>

definition on_state :: "'w platform \<Rightarrow> 'w templates \<Rightarrow> 'w homes \<Rightarrow> string \<Rightarrow> string \<Rightarrow> val \<Rightarrow> ('w, unit) eng" where
  "on_state p lg h dev cap v =
     bindM (getM (\<lambda>e. (mirror e (dev, cap), (dev, cap) \<in> observed e))) (\<lambda>(prv, obs).
     bindM (modM (\<lambda>e. e\<lparr>mirror := (mirror e)((dev, cap) := v), observed := insert (dev, cap) (observed e)\<rparr>)) (\<lambda>_.
     bindM (lg (L_observe dev cap v)) (\<lambda>_.
       if py_eq prv v then retM ()
       else bindM (for_s_touch p dev cap v) (\<lambda>_.
         bindM (button_state p lg h dev cap v prv) (\<lambda>_.
         bindM (lg (L_state dev cap v prv)) (\<lambda>_.
         bindM (lg L_saved) (\<lambda>_.
           dispatch p h (E_state dev cap v prv obs))))))))"

definition alias_state :: "string \<Rightarrow> string \<Rightarrow> val \<Rightarrow> ('w, unit) eng" where
  "alias_state dev cap v = modM (\<lambda>e. e\<lparr>mirror := (mirror e)((dev, cap) := v)\<rparr>)"

definition on_boot :: "'w platform \<Rightarrow> 'w homes \<Rightarrow> ('w, unit) eng" where
  "on_boot p h = dispatch p h E_boot"

text \<open>The trackers of the triggers that read a key.\<close>

definition tracks :: "scenario list \<Rightarrow> string \<times> string \<Rightarrow> string \<times> nat \<Rightarrow> bool" where
  "tracks ss key k \<longleftrightarrow> list_ex (\<lambda>s. fst k = s_id s \<and> snd k < length (s_triggers s) \<and>
     (case s_triggers s ! snd k of T_state d c _ _ \<Rightarrow> (d, c) = key | _ \<Rightarrow> False)) ss"

definition forget_state :: "string \<Rightarrow> string \<Rightarrow> ('w, unit) eng" where
  "forget_state dev cap =
     modM (\<lambda>e. e\<lparr>mirror := (mirror e)((dev, cap) := Null), observed := observed e - {(dev, cap)},
       for_s := (\<lambda>k. if k \<in> fst ` set (filter (\<lambda>i. fst (snd i) = (dev, cap)) (hold_items (doc e))) then None else for_s e k),
       trig_prev := (\<lambda>k. if tracks (doc e) (dev, cap) k then Null else trig_prev e k)\<rparr>)"

section \<open>Requests for a run\<close>

definition run_now :: "'w platform \<Rightarrow> 'w homes \<Rightarrow> string \<Rightarrow> ('w, bool) eng" where
  "run_now p h sid =
     bindM (getM (\<lambda>e. case find_scenario e sid of None \<Rightarrow> None | Some s \<Rightarrow> if inactive e s then None else Some s)) (\<lambda>s0.
       case s0 of
         None \<Rightarrow> retM False
       | Some s \<Rightarrow> bindM (run_scenario p h s ''external'') (\<lambda>_. bindM (flush_runs p) (\<lambda>_. retM True)))"

definition live_scene :: "'w engine \<Rightarrow> string \<Rightarrow> scenario option" where
  "live_scene e sid =
     (case find_scenario e sid of
        None \<Rightarrow> None
      | Some s \<Rightarrow> if s_kind s \<noteq> Scene_kind \<or> inactive e s then None else Some s)"

definition run_scene :: "'w platform \<Rightarrow> 'w homes \<Rightarrow> string \<Rightarrow> ('w, bool) eng" where
  "run_scene p h sid =
     bindM (getM (\<lambda>e. live_scene e sid)) (\<lambda>s. if s = None then retM False else run_now p h sid)"

text \<open>Switching a scene off: what it switches on is written to zero, the instance of the capability left out.\<close>

fun off_writes :: "'w platform \<Rightarrow> run \<Rightarrow> action list \<Rightarrow> ('w, run) eng" where
  "off_writes p r [] = retM r"
| "off_writes p r (Set_value dev cap inst v _ # as) =
     (if cap \<noteq> ''on_off'' \<or> \<not> truthy (numbers.truncate p) v then off_writes p r as
      else if r_writes r \<ge> MAX_WRITES then retM (r\<lparr>r_error := ''write cap''\<rparr>)
      else bindM (put p dev ''on_off'' (Int_v 0) (Some r) False False []) (\<lambda>(_, r').
        let r'' = (case r' of None \<Rightarrow> r | Some x \<Rightarrow> x) in off_writes p (r''\<lparr>r_writes := r_writes r'' + 1\<rparr>) as))"
| "off_writes p r (_ # as) = off_writes p r as"

definition run_off :: "'w platform \<Rightarrow> string \<Rightarrow> ('w, bool) eng" where
  "run_off p sid =
     bindM (getM (\<lambda>e. live_scene e sid)) (\<lambda>s0. case s0 of None \<Rightarrow> retM False | Some s \<Rightarrow>
       let r = (new_run (s_id s) ''external'' (Some s))\<lparr>r_chain := [sid]\<rparr> in
       bindM (cancel (s_id s @ '':cont'')) (\<lambda>_.
       bindM (cancel (s_id s @ '':end'')) (\<lambda>_.
       bindM (if s_end s = None then retM () else publish_tpl_state p (s_id s) ''end_after_s'' (Int_v 0)) (\<lambda>_.
       bindM (off_writes p r (s_actions s)) (\<lambda>r'.
       bindM (now p) (\<lambda>t.
       bindM (journal p \<lparr>rec_ts = t, rec_id = s_id s, rec_error = r_error r', rec_source = ''external''\<rparr>) (\<lambda>_. retM True)))))))"

section \<open>Timers and the clock\<close>

definition every_of :: "'w engine \<Rightarrow> string \<Rightarrow> nat \<Rightarrow> (scenario \<times> rat) option" where
  "every_of e sid i =
     (case find_scenario e sid of
        None \<Rightarrow> None
      | Some s \<Rightarrow>
          if inactive e s \<or> i \<ge> length (s_triggers s) then None
          else case s_triggers s ! i of T_every m \<Rightarrow> Some (s, m) | _ \<Rightarrow> None)"

definition fire_timer :: "'w platform \<Rightarrow> 'w templates \<Rightarrow> 'w homes \<Rightarrow> timer \<Rightarrow> ('w, unit) eng" where
  "fire_timer p lg h u =
     (case t_payload u of
        P_every sid i \<Rightarrow>
          bindM (getM (\<lambda>e. every_of e sid i)) (\<lambda>x. case x of None \<Rightarrow> retM () | Some (s, m) \<Rightarrow>
            bindM (schedule p (m * 60) (t_key u) (t_payload u)) (\<lambda>_.
            bindM (conditions_ok p s) (\<lambda>ok. if ok then run_scenario p h s ''scenario'' else retM ())))
      | P_cont r fs \<Rightarrow> (case fs of [] \<Rightarrow> retM () | f # _ \<Rightarrow> exec p h r (fst f) fs)
      | P_ramp q \<Rightarrow> ramp_step p (t_key u) q (t_due u)
      | P_end sid restore on sn \<Rightarrow> end_fire p sid restore on sn
      | P_long dev cap \<Rightarrow>
          bindM (getM (\<lambda>e. map_of (buttons e) (dev, cap))) (\<lambda>b.
            if (case b of None \<Rightarrow> False | Some x \<Rightarrow> b_press x \<noteq> None)
            then bindM (set_button (dev, cap) (\<lambda>b. b\<lparr>b_long := True\<rparr>)) (\<lambda>_. btn_emit p lg h dev cap ''long'')
            else retM ())
      | P_single dev cap \<Rightarrow>
          bindM (getM (\<lambda>e. map_of (buttons e) (dev, cap))) (\<lambda>b.
            if (case b of None \<Rightarrow> False | Some x \<Rightarrow> b_single x)
            then bindM (set_button (dev, cap) (\<lambda>b. b\<lparr>b_single := False\<rparr>)) (\<lambda>_. btn_emit p lg h dev cap ''single'')
            else retM ())
      | P_logic sid k \<Rightarrow> lg (L_timer sid k))"

text \<open>The timers that are due, in their order; \<open>turns\<close> bounds how many are taken.\<close>

primrec tick_timers :: "nat \<Rightarrow> 'w platform \<Rightarrow> 'w templates \<Rightarrow> 'w homes \<Rightarrow> rat \<Rightarrow> ('w, unit) eng" where
  "tick_timers 0 p lg h t = raiseM (OutOfModel ''timers'')"
| "tick_timers (Suc turns) p lg h t =
     bindM (getM heap) (\<lambda>ts. case ts of
       [] \<Rightarrow> retM ()
     | u # us \<Rightarrow>
         if t_due u > t then retM ()
         else bindM (modM (\<lambda>e. e\<lparr>heap := us\<rparr>)) (\<lambda>_.
           bindM (getM (\<lambda>e. current e u)) (\<lambda>live.
           bindM (if live then fire_timer p lg h u else retM ()) (\<lambda>_. tick_timers turns p lg h t))))"

definition two_digits :: "nat \<Rightarrow> string" where
  "two_digits n = [char_of (48 + n div 10), char_of (48 + n mod 10)]"

text \<open>The minute a trigger of the clock is due in, if it is due.\<close>

definition clock_due :: "'w platform \<Rightarrow> rat \<Rightarrow> string \<Rightarrow> trigger \<Rightarrow> (string \<times> string \<times> string \<times> int) option" where
  "clock_due p t sid tr =
     (case p_local p t of (hour, minute, wday) \<Rightarrow>
      case tr of
        T_time time days \<Rightarrow>
          if two_digits hour @ '':'' @ two_digits minute \<noteq> time \<or> (days \<noteq> [] \<and> wday \<notin> set days) then None
          else Some (''time'', sid, time, \<lfloor>t / 60\<rfloor>)
      | T_sun sunset off lat lon days \<Rightarrow>
          if days \<noteq> [] \<and> wday \<notin> set days then None
          else (case p_sun p t (case lat of None \<Rightarrow> p_lat p | Some x \<Rightarrow> x) (case lon of None \<Rightarrow> p_lon p | Some x \<Rightarrow> x) of (rise, sett) \<Rightarrow>
            let target = (if sunset then sett else rise) + off * 60 in
            if \<bar>t - target\<bar> > 30 then None
            else Some (''sun'', sid, (if sunset then ''sunset'' else ''sunrise''), \<lfloor>target / 60\<rfloor>))
      | _ \<Rightarrow> None)"

primrec clock_triggers :: "'w platform \<Rightarrow> 'w homes \<Rightarrow> rat \<Rightarrow> scenario \<Rightarrow> trigger list \<Rightarrow> ('w, unit) eng" where
  "clock_triggers p h t s [] = retM ()"
| "clock_triggers p h t s (tr # trs) =
     (case clock_due p t (s_id s) tr of
        None \<Rightarrow> clock_triggers p h t s trs
      | Some key \<Rightarrow>
          bindM (getM (\<lambda>e. key \<in> set (last_tick e))) (\<lambda>fired.
            if fired then clock_triggers p h t s trs
            else bindM (modM (\<lambda>e. e\<lparr>last_tick := last_tick e @ [key]\<rparr>)) (\<lambda>_.
              bindM (conditions_ok p s) (\<lambda>ok. if ok then run_scenario p h s ''scenario'' else retM ()))))"

definition scan_clock_triggers :: "'w platform \<Rightarrow> 'w homes \<Rightarrow> rat \<Rightarrow> ('w, unit) eng" where
  "scan_clock_triggers p h t =
     bindM (getM doc) (\<lambda>ss.
     bindM (each (\<lambda>s. bindM (getM (\<lambda>e. inactive e s \<or> s_kind s = Logic)) (\<lambda>off.
         if off then retM () else clock_triggers p h t s (s_triggers s))) ss) (\<lambda>_.
       modM (\<lambda>e. if length (last_tick e) > 256 then e\<lparr>last_tick := keep_last 128 (last_tick e)\<rparr> else e)))"

definition tick :: "nat \<Rightarrow> 'w platform \<Rightarrow> 'w templates \<Rightarrow> 'w homes \<Rightarrow> ('w, unit) eng" where
  "tick turns p lg h =
     bindM (now p) (\<lambda>t.
     bindM (tick_timers turns p lg h t) (\<lambda>_.
     bindM (scan_clock_triggers p h t) (\<lambda>_.
     bindM (flush_if_due p) (\<lambda>_. lg L_flush))))"

section \<open>A new document\<close>

text \<open>\<^verbatim>\<open>_same_runtime\<close>: the name may differ.\<close>

definition same_runtime :: "scenario \<Rightarrow> scenario \<Rightarrow> bool" where
  "same_runtime a b \<longleftrightarrow> a\<lparr>s_id := s_id b, s_name := s_name b\<rparr> = b"

definition arm_scenario :: "'w platform \<Rightarrow> 'w templates \<Rightarrow> scenario \<Rightarrow> ('w, unit) eng" where
  "arm_scenario p lg s =
     (if \<not> s_enabled s then lg (L_drop (s_id s))
      else bindM (each (\<lambda>(i, tr). case tr of
            T_every m \<Rightarrow> schedule p (m * 60) (s_id s @ '':every:'' @ dec_digits i) (P_every (s_id s) i) | _ \<Rightarrow> retM ())
          (enumerate 0 (s_triggers s))) (\<lambda>_.
        if s_kind s = Logic then lg (L_arm s) else retM ()))"

definition forget_trackers :: "string \<Rightarrow> ('w, unit) eng" where
  "forget_trackers sid = modM (\<lambda>e. e\<lparr>trig_prev := (\<lambda>k. if fst k = sid then Null else trig_prev e k)\<rparr>)"

definition adopt_row :: "'w platform \<Rightarrow> 'w templates \<Rightarrow> scenario list \<Rightarrow> scenario \<Rightarrow> ('w, unit) eng" where
  "adopt_row p lg old s =
     (if (case find (\<lambda>x. s_id x = s_id s) (rev old) of None \<Rightarrow> False | Some x \<Rightarrow> same_runtime x s) then retM ()
      else bindM (cancel_scenario (s_id s)) (\<lambda>_. bindM (forget_trackers (s_id s)) (\<lambda>_.
        catchM
          (bindM (arm_scenario p lg s) (\<lambda>_.
           bindM (publish_tpl_state p (s_id s) ''rule_enabled'' (Int_v (if s_enabled s then 1 else 0))) (\<lambda>_.
             modM (\<lambda>e. e\<lparr>unarmed := unarmed e - {s_id s}\<rparr>))))
          (\<lambda>_. bindM (cancel_scenario (s_id s)) (\<lambda>_. bindM (lg (L_drop (s_id s))) (\<lambda>_.
             modM (\<lambda>e. e\<lparr>unarmed := insert (s_id s) (unarmed e)\<rparr>)))))))"

definition remove_row :: "'w templates \<Rightarrow> string \<Rightarrow> ('w, unit) eng" where
  "remove_row lg sid =
     bindM (cancel_scenario sid) (\<lambda>_.
     bindM (modM (\<lambda>e. e\<lparr>unarmed := unarmed e - {sid}\<rparr>)) (\<lambda>_.
     bindM (lg (L_drop sid)) (\<lambda>_.
     bindM (modM (\<lambda>e. e\<lparr>tpl_state := (\<lambda>k. if fst k = sid then None else tpl_state e k)\<rparr>)) (\<lambda>_.
       forget_trackers sid))))"

text \<open>\<^verbatim>\<open>_adopt\<close>; \<open>mode\<close> is the home mode of the document.\<close>

definition adopt :: "'w platform \<Rightarrow> 'w templates \<Rightarrow> scenario list \<Rightarrow> string \<Rightarrow> ('w, unit) eng" where
  "adopt p lg ss mode =
     bindM (getM doc) (\<lambda>old.
     bindM (modM (\<lambda>e. e\<lparr>doc := ss, home := mode\<rparr>)) (\<lambda>_.
     bindM (each (adopt_row p lg old) ss) (\<lambda>_.
     bindM (each (remove_row lg) (filter (\<lambda>sid. sid \<notin> s_id ` set ss) (remdups (map s_id old)))) (\<lambda>_.
     bindM (rebuild_for_s p) (\<lambda>_. lg L_adopted)))))"

section \<open>What every event keeps\<close>

lemmas core_defs = same_core_def same_writes_def

context engine_inv
begin

lemma kept_each: "(\<And>x. keeps I (f x)) \<Longrightarrow> keeps I (each f xs)"
  by (induction xs) (auto intro: keeps_bind simp del: effect_run)

lemma kept_holds: "keeps I (for_s_touch p dev key v)" "keeps I (rebuild_for_s p)"
  unfolding for_s_touch_def rebuild_for_s_def touch_one_def
  by (intro keeps_bind keeps_basic kept_each keeps_if keeps_case_prod kept_now kept_mod; simp add: core_defs)+

lemma kept_set_button: "keeps I (set_button key f)"
  unfolding set_button_def by (rule kept_mod) (simp add: core_defs)

lemma kept_told:
  assumes lg: "\<And>x. keeps I (lg x)" and h: "\<And>m. keeps I (h m)"
  shows "keeps I (btn_emit p lg h dev inp g)" "keeps I (released p lg h key t)" "keeps I (button_state p lg h dev cap v prv)"
    "keeps I (on_state p lg h dev cap v)"
proof -
  show emit: "keeps I (btn_emit p lg h dev inp g)" for dev inp g
    unfolding btn_emit_def by (intro keeps_bind keeps_basic keeps_if keeps_case_option kept_now kept_dispatch lg h)
  show rel: "keeps I (released p lg h key t)" for key t
    unfolding released_def
    by (intro keeps_bind keeps_basic keeps_if keeps_case_option kept_set_button kept_timers emit)
  have press: "keeps I (counter_press p h dev inp gesture v prv)" for dev inp gesture v prv
    unfolding counter_press_def
    by (auto intro!: keeps_bind kept_now kept_mod kept_dispatch h simp: core_defs simp del: effect_run split: option.split)
  show button: "keeps I (button_state p lg h dev cap v prv)" for dev cap v prv
    unfolding button_state_def Let_def
    by (intro keeps_bind keeps_basic keeps_if keeps_case_option keeps_case_prod kept_set_button kept_timers kept_now rel press kept_mod;
        simp add: core_defs)
  show "keeps I (on_state p lg h dev cap v)"
    unfolding on_state_def
    by (intro keeps_bind keeps_basic keeps_if keeps_case_prod kept_holds button kept_dispatch lg h kept_mod; simp add: core_defs)
qed

lemma kept_forget: "keeps I (forget_state dev cap)" "keeps I (alias_state dev cap v)"
  unfolding forget_state_def alias_state_def by (rule kept_mod, simp add: core_defs)+

lemma kept_requests:
  assumes h: "\<And>m. keeps I (h m)"
  shows "keeps I (run_now p h sid)" "keeps I (run_scene p h sid)" "keeps I (run_off p sid)"
proof -
  show run: "keeps I (run_now p h sid)" for sid
    unfolding run_now_def by (intro keeps_bind keeps_basic keeps_case_option kept_run kept_flush h)
  show "keeps I (run_scene p h sid)" for sid
    unfolding run_scene_def by (intro keeps_bind keeps_basic keeps_if run)
  have off: "keeps I (off_writes p r as)" for r as
  proof (induction as arbitrary: r)
    case (Cons a as)
    then show ?case
      by (cases a) (auto intro!: keeps_bind keeps_if keeps_case_prod kept_put simp: Let_def simp del: effect_run)
  qed (simp del: effect_run)
  show "keeps I (run_off p sid)"
    unfolding run_off_def Let_def
    by (intro keeps_bind keeps_basic keeps_if keeps_case_option off kept_timers kept_status kept_journal kept_now)
qed

lemma kept_fire:
  assumes lg: "\<And>x. keeps I (lg x)" and h: "\<And>m. keeps I (h m)"
  shows "keeps I (fire_timer p lg h u)"
proof (cases "t_payload u")
  case (P_cont r fs)
  then show ?thesis by (cases fs) (simp_all add: fire_timer_def kept_exec h del: effect_run)
qed (auto simp: fire_timer_def simp del: effect_run bindM_simps
    intro!: keeps_bind keeps_if keeps_case_option keeps_case_prod kept_timers kept_conditions kept_run kept_ramp_step kept_end_fire
      kept_set_button kept_told lg h)

lemma kept_tick_timers:
  assumes lg: "\<And>x. keeps I (lg x)" and h: "\<And>m. keeps I (h m)"
  shows "keeps I (tick_timers turns p lg h t)"
proof (induction turns)
  case (Suc n)
  have fire: "keeps I (bindM (getM (\<lambda>e. current e u)) (\<lambda>live.
      bindM (if live then fire_timer p lg h u else retM ()) (\<lambda>_. tick_timers n p lg h t)))" for u
    by (intro keeps_bind keeps_basic keeps_if kept_fire lg h Suc)
  show ?case
  proof (rule keepsI)
    fix e r e' assume e: "I e" and run: "tick_timers (Suc n) p lg h t e = (r, e')"
    show "I e'"
    proof (cases "heap e")
      case (Cons u us)
      with run e keepsD [OF fire _ popped [OF e Cons], of u r e'] show ?thesis
        by (simp only: tick_timers.simps bindM_simps list.case) (auto simp del: bindM_simps split: if_splits simp: bindM_def)
    qed (use e run in simp)
  qed
qed (simp del: effect_run)

lemma kept_clock:
  assumes h: "\<And>m. keeps I (h m)"
  shows "keeps I (scan_clock_triggers p h t)"
proof -
  have "keeps I (clock_triggers p h t s trs)" for s trs
  proof (induction trs)
    case (Cons tr trs)
    show ?case
      unfolding clock_triggers.simps
      by (intro keeps_bind keeps_basic keeps_if keeps_case_option Cons kept_conditions kept_run h kept_mod) (simp add: core_defs)
  qed (simp del: effect_run)
  then show ?thesis
    unfolding scan_clock_triggers_def by (intro keeps_bind keeps_basic keeps_if kept_each kept_mod) (auto simp: core_defs)
qed

lemma kept_tick: "(\<And>x. keeps I (lg x)) \<Longrightarrow> (\<And>m. keeps I (h m)) \<Longrightarrow> keeps I (tick turns p lg h)"
  unfolding tick_def by (intro keeps_bind kept_now kept_tick_timers kept_clock kept_flush)

lemma kept_adopt:
  assumes lg: "\<And>x. keeps I (lg x)"
  shows "keeps I (adopt p lg ss mode)"
proof -
  have arm: "keeps I (arm_scenario p lg s)" for s
    unfolding arm_scenario_def
    by (auto intro!: keeps_bind keeps_if kept_each lg kept_timers simp del: effect_run split: trigger.split)
  have row: "keeps I (adopt_row p lg old s)" for old s
    unfolding adopt_row_def forget_trackers_def
    by (intro keeps_bind keeps_basic keeps_if keeps_catch arm lg kept_timers kept_status kept_mod; simp add: core_defs)
  have remove: "keeps I (remove_row lg sid)" for sid
    unfolding remove_row_def forget_trackers_def by (intro keeps_bind lg kept_timers kept_mod; simp add: core_defs)
  show ?thesis
    unfolding adopt_def by (intro keeps_bind keeps_basic kept_each row remove kept_holds lg kept_mod) (simp add: core_defs)
qed

end

section \<open>A release between two thresholds\<close>

lemma map_of_upd_button: "map_of (upd_button key f bs) k = (if k = key then map_option f (map_of bs k) else map_of bs k)"
  by (induction bs) (auto simp: upd_button_def)

text \<open>A press that lasts longer than the threshold of a long one, of which the timer has not fired when the release is
  read: neither the release nor any timer left tells anything of it.\<close>

lemma late_release_lost:
  assumes b: "map_of (buttons e) (dev, cap) = Some b" "b_press b = Some t0" "\<not> b_long b"
    and t: "p_now p (world e) = (t, w)" "BUTTON_LONG_S \<le> t - t0"
    and cap: "di_counter cap = None" "di_name (chomp cap)"
    and v: "truthy (numbers.truncate p) prv" "\<not> truthy (numbers.truncate p) v" "prv \<noteq> Null"
  shows "button_state p lg h dev cap v prv e =
    (Inr (), e\<lparr>world := w, gen := (gen e)(long_key (dev, cap) := gen e (long_key (dev, cap)) + 1),
       buttons := upd_button (dev, cap) (\<lambda>b. b\<lparr>b_press := None\<rparr>) (seen_button (dev, cap) t (buttons e))\<rparr>)"
proof -
  have "now p e = (Inr t, e\<lparr>world := w\<rparr>)" by (simp add: now_def call_def t)
  moreover have "map_of (seen_button (dev, cap) t (buttons e)) (dev, cap) = Some (b\<lparr>b_ts := t\<rparr>)"
    using b by (simp add: seen_button_def map_of_upd_button)
  ultimately show ?thesis
    using b t cap v
    by (simp add: button_state_def Let_def released_def set_button_def cancel_def bindM_run [where m = "now p"])
qed

text \<open>A new document starts every hold clock again.\<close>

lemma reload_restarts_holds:
  assumes "rebuild_for_s p e = (Inr (), e')" and "\<And>w. t \<le> fst (p_now p w)" and "for_s e' k = Some since"
  shows "t \<le> since"
proof -
  let ?touch = "\<lambda>i. bindM (now p) (\<lambda>t. modM (\<lambda>e. e\<lparr>for_s := (for_s e)(fst i := Some t)\<rparr>))"
  have "keeps (\<lambda>e. \<forall>k since. for_s e k = Some since \<longrightarrow> t \<le> since) (?touch i)" for i :: "(string \<times> nat) \<times> (string \<times> string) \<times> op \<times> threshold"
    using assms(2) by (auto simp: keeps_def bindM_def now_def call_def modM_def split: prod.split) (metis fst_conv)
  then have "keeps (\<lambda>e. \<forall>k since. for_s e k = Some since \<longrightarrow> t \<le> since) (each ?touch is)" for "is"
    by (induction "is") (auto intro: keeps_bind simp del: effect_run)
  from keepsD [OF this, of "filter (\<lambda>(_, k, q, thr). level (numbers.truncate p) q (mirror e k) thr) (hold_items (doc e))"
      "e\<lparr>for_s := (\<lambda>_. None)\<rparr>" "Inr ()" e'] assms
  show ?thesis by (cases k) (simp add: rebuild_for_s_def)
qed

text \<open>Switching a scene off forgets which of several switches of a device it had switched on.\<close>

lemma run_off_drops_instance:
  "off_writes p r (Set_value dev ''on_off'' i v x # as) = off_writes p r (Set_value dev ''on_off'' j v x # as)"
  by simp

end
