(* ===== verification/Rules_Events.thy ===== *)
theory Rules_Events
  imports Rules_Engine
begin

text \<open>
  The narrow facade the templates act through (\<^verbatim>\<open>LogicRuntime\<close> of \<^verbatim>\<open>sa02m_rules/engine.py\<close>),
  histories of the engine, and what holds in all of them: the bound on the rate of writes, and timers that stay
  cancelled.
\<close>

section \<open>What a template can do\<close>

text \<open>A template is any program over the methods of its runtime; where a method may raise, the program goes on with what
  it returned or raised.\<close>

datatype prog =
    Done
  | Raised exn
  | Rt_now "rat \<Rightarrow> prog"
  | Rt_get string string "val \<Rightarrow> prog"
  | Rt_caps_of string "string list \<Rightarrow> prog"
  | Rt_set string string val "bool result \<Rightarrow> prog"
  | Rt_schedule rat string prog
  | Rt_cancel string prog
  | Rt_sun "rat \<times> rat \<Rightarrow> prog"
  | Rt_in_window string string "bool result \<Rightarrow> prog"
  | Rt_home_mode "string \<Rightarrow> prog"
  | Rt_set_home_mode string "unit result \<Rightarrow> prog"
  | Rt_notify string prog
  | Rt_publish_status string val "unit result \<Rightarrow> prog"

text \<open>The names of capabilities and their list come from the index of devices.\<close>

record index =
  cap_alias :: "string \<Rightarrow> string \<Rightarrow> string \<times> string"
  caps_of :: "string \<Rightarrow> string list"

definition attempt :: "('s, 'a) proc \<Rightarrow> ('a result \<Rightarrow> ('s, 'b) proc) \<Rightarrow> ('s, 'b) proc" where
  "attempt m f = (\<lambda>s. case m s of (r, s') \<Rightarrow> f r s')"

definition logic_key :: "string \<Rightarrow> string \<Rightarrow> string" where "logic_key sid key = sid @ '':logic:'' @ key"

primrec run_prog :: "'w platform \<Rightarrow> index \<Rightarrow> 'w homes \<Rightarrow> string \<Rightarrow> prog \<Rightarrow> ('w, unit) eng" where
  "run_prog p ix h sid Done = retM ()"
| "run_prog p ix h sid (Raised x) = raiseM x"
| "run_prog p ix h sid (Rt_now k) = bindM (now p) (\<lambda>t. run_prog p ix h sid (k t))"
| "run_prog p ix h sid (Rt_get dev cap k) =
     (case cap_alias ix dev cap of (c, inst) \<Rightarrow> bindM (getM (\<lambda>e. mirror e (dev, state_key c inst))) (\<lambda>v. run_prog p ix h sid (k v)))"
| "run_prog p ix h sid (Rt_caps_of dev k) = run_prog p ix h sid (k (caps_of ix dev))"
| "run_prog p ix h sid (Rt_set dev cap v k) =
     (case cap_alias ix dev cap of (c, inst) \<Rightarrow>
       attempt (bindM (put p dev c v None False False inst) (\<lambda>(ok, _). retM ok)) (\<lambda>r. run_prog p ix h sid (k r)))"
| "run_prog p ix h sid (Rt_schedule d key k) =
     bindM (schedule p d (logic_key sid key) (P_logic sid key)) (\<lambda>_. run_prog p ix h sid k)"
| "run_prog p ix h sid (Rt_cancel key k) = bindM (cancel (logic_key sid key)) (\<lambda>_. run_prog p ix h sid k)"
| "run_prog p ix h sid (Rt_sun k) = bindM (now p) (\<lambda>t. run_prog p ix h sid (k (p_sun p t (p_lat p) (p_lon p))))"
| "run_prog p ix h sid (Rt_in_window fr to k) = bindM (now p) (\<lambda>t. run_prog p ix h sid (k (in_window (p_local p t) fr to)))"
| "run_prog p ix h sid (Rt_home_mode k) = bindM (getM home_mode) (\<lambda>m. run_prog p ix h sid (k m))"
| "run_prog p ix h sid (Rt_set_home_mode m k) = attempt (h m) (\<lambda>r. run_prog p ix h sid (k r))"
| "run_prog p ix h sid (Rt_notify s k) = bindM (notify p s) (\<lambda>_. run_prog p ix h sid k)"
| "run_prog p ix h sid (Rt_publish_status c v k) = attempt (publish_tpl_state p sid c v) (\<lambda>r. run_prog p ix h sid (k r))"

text \<open>The instances keep their state in the world; each has its program for what it is told.\<close>

type_synonym 'w reaction = "told \<Rightarrow> 'w \<Rightarrow> (string \<times> prog) list \<times> 'w"

definition templates_of :: "'w platform \<Rightarrow> index \<Rightarrow> 'w homes \<Rightarrow> 'w reaction \<Rightarrow> 'w templates" where
  "templates_of p ix h react x =
     (\<lambda>e. case react x (world e) of (ps, w) \<Rightarrow> each (\<lambda>(sid, pr). run_prog p ix h sid pr) ps (e\<lparr>world := w\<rparr>))"

section \<open>Histories\<close>

datatype happening =
    Boot
  | Reading string string val
  | Raw_reading string string val
  | No_reading string string
  | Run_request string
  | Scene_request string
  | Scene_off string
  | Home_request string
  | Clock_tick nat
  | Reload "scenario list" string

definition happens :: "'w platform \<Rightarrow> index \<Rightarrow> 'w reaction \<Rightarrow> nat \<Rightarrow> happening \<Rightarrow> ('w, unit) eng" where
  "happens p ix react depth x =
     (let h = set_home_mode depth p; lg = templates_of p ix h react in
      case x of
        Boot \<Rightarrow> on_boot p h
      | Reading dev cap v \<Rightarrow> on_state p lg h dev cap v
      | Raw_reading dev cap v \<Rightarrow> alias_state dev cap v
      | No_reading dev cap \<Rightarrow> forget_state dev cap
      | Run_request sid \<Rightarrow> bindM (run_now p h sid) (\<lambda>_. retM ())
      | Scene_request sid \<Rightarrow> bindM (run_scene p h sid) (\<lambda>_. retM ())
      | Scene_off sid \<Rightarrow> bindM (run_off p sid) (\<lambda>_. retM ())
      | Home_request m \<Rightarrow> h m
      | Clock_tick turns \<Rightarrow> tick turns p lg h
      | Reload ss mode \<Rightarrow> adopt p lg ss mode)"

text \<open>Between two events, which also may raise, time passes.\<close>

inductive reaches :: "'w platform \<Rightarrow> index \<Rightarrow> 'w reaction \<Rightarrow> ('w \<Rightarrow> rat) \<Rightarrow> 'w engine \<Rightarrow> 'w engine \<Rightarrow> bool"
  for p ix react tm e0 where
  start: "reaches p ix react tm e0 e0"
| event: "reaches p ix react tm e0 e \<Longrightarrow> happens p ix react depth x e = (r, e') \<Longrightarrow> reaches p ix react tm e0 e'"
| wait: "reaches p ix react tm e0 e \<Longrightarrow> tm (world e) \<le> tm w \<Longrightarrow> reaches p ix react tm e0 (e\<lparr>world := w\<rparr>)"

text \<open>A template turns no clock back.\<close>

definition patient :: "('w \<Rightarrow> rat) \<Rightarrow> 'w reaction \<Rightarrow> bool" where
  "patient tm react \<longleftrightarrow> (\<forall>x w. tm w \<le> tm (snd (react x w)))"

lemma keeps_attempt: "keeps I m \<Longrightarrow> (\<And>r. keeps I (f r)) \<Longrightarrow> keeps I (attempt m f)"
  by (auto simp: keeps_def attempt_def split: prod.split)

context engine_inv
begin

lemma kept_prog: "(\<And>m. keeps I (h m)) \<Longrightarrow> keeps I (run_prog p ix h sid pr)"
proof (induction pr)
  case (Rt_set dev cap v k)
  then show ?case
    by (auto intro!: keeps_attempt keeps_bind keeps_case_prod kept_put split: prod.split simp del: effect_run)
qed (auto intro!: keeps_attempt keeps_bind kept_now kept_timers kept_journal kept_status split: prod.split
    simp del: effect_run bindM_simps)

lemma kept_templates:
  assumes h: "\<And>m. keeps I (h m)" and w: "\<And>x e. I e \<Longrightarrow> I (e\<lparr>world := snd (react x (world e))\<rparr>)"
  shows "keeps I (templates_of p ix h react x)"
proof (rule keepsI)
  fix e r e' assume e: "I e" and run: "templates_of p ix h react x e = (r, e')"
  obtain ps w' where r: "react x (world e) = (ps, w')" by force
  have "keeps I (each (\<lambda>(sid, pr). run_prog p ix h sid pr) ps)"
    by (intro kept_each keeps_case_prod kept_prog h)
  moreover have "each (\<lambda>(sid, pr). run_prog p ix h sid pr) ps (e\<lparr>world := w'\<rparr>) = (r, e')" using run r by (simp add: templates_of_def)
  moreover have "I (e\<lparr>world := w'\<rparr>)" using w [OF e, of x] r by simp
  ultimately show "I e'" by (rule keepsD)
qed

lemma kept_happens:
  assumes w: "\<And>x e. I e \<Longrightarrow> I (e\<lparr>world := snd (react x (world e))\<rparr>)"
  shows "keeps I (happens p ix react depth x)"
proof -
  note lg = kept_templates [OF kept_home w]
  show ?thesis
    unfolding happens_def Let_def on_boot_def
    by (cases x) (auto intro!: keeps_bind kept_dispatch kept_told(4) kept_forget kept_requests kept_home kept_tick kept_adopt lg
        simp del: effect_run)
qed

lemma run_cancels_first:
  assumes h: "\<And>m. keeps I (h m)"
  shows "\<exists>m. keeps I m \<and> run_scenario p h s src = bindM (cancel (s_id s @ '':cont'')) (\<lambda>_. bindM (cancel (s_id s @ '':end'')) (\<lambda>_. m))"
  unfolding run_scenario_def Let_def
  by (rule exI, rule conjI [OF _ refl])
    (auto intro!: keeps_bind keeps_if kept_parts kept_exec kept_finish kept_code h split: scenario_kind.split)

lemma kept_reaches:
  assumes "reaches p ix react tm e0 e" and w: "\<And>e w. I e \<Longrightarrow> tm (world e) \<le> tm w \<Longrightarrow> I (e\<lparr>world := w\<rparr>)"
    and patient: "patient tm react" and "I e0"
  shows "I e"
  using assms(1,4)
proof (induction rule: reaches.induct)
  case (event e depth x r e')
  have "keeps I (happens p ix react depth x)"
    using w patient by (intro kept_happens) (auto simp: patient_def)
  with event show ?case by (blast intro: keepsD)
qed (auto intro: w)

end

section \<open>The rate of writes\<close>


text \<open>A scene that switches one lamp on, run at a request.\<close>

definition lamp_scene :: scenario where
  "lamp_scene = \<lparr>s_id = ''s'', s_name = ''s'', s_enabled = True, s_kind = Scene_kind, s_triggers = [], s_any = False,
     s_conditions = [], s_actions = [Set_value ''lamp'' ''on_off'' [] (Int_v 1) 0], s_end = None, s_text = []\<rparr>"

definition no_index :: index where "no_index = \<lparr>cap_alias = (\<lambda>_ c. (c, [])), caps_of = (\<lambda>_. [])\<rparr>"

lemma bench_steady: "steady bench (\<lambda>w. w)"
  by (simp add: steady_def bench_def)


section \<open>Timers\<close>

text \<open>Generations only grow, a timer has at most the generation of its key, and the timers stand in the order they fire.\<close>

definition timers_inv :: "(string \<Rightarrow> nat) \<Rightarrow> 'w engine \<Rightarrow> bool" where
  "timers_inv g e \<longleftrightarrow> (\<forall>k. g k \<le> gen e k) \<and> (\<forall>t\<in>set (heap e). t_gen t \<le> gen e (t_key t)) \<and>
     sorted_wrt (\<lambda>a b. \<not> before b a) (heap e)"

lemma sorted_heappush: "sorted_wrt (\<lambda>a b. \<not> before b a) us \<Longrightarrow> sorted_wrt (\<lambda>a b. \<not> before b a) (heappush t us)"
proof (induction us)
  case (Cons u us)
  then show ?case
    by (auto simp: set_heappush before_def)
qed simp

lemma timers_schedule: "keeps (timers_inv g) (schedule_at due key pl)"
  unfolding schedule_at_def Let_def
  by (rule keeps_mod) (auto simp: timers_inv_def set_heappush intro!: sorted_heappush sorted_wrt_filter)

lemma timers_cancel: "keeps (timers_inv g) (cancel key)"
  unfolding cancel_def by (rule keeps_mod) (auto simp: timers_inv_def intro: le_SucI)

lemma bump_grows:
  "(g :: string \<Rightarrow> nat) k \<le> foldl (\<lambda>g t. if P t then g(t_key t := g (t_key t) + 1) else g) g ts k"
proof (induction ts arbitrary: g)
  case (Cons t ts)
  have "g k \<le> (if P t then g(t_key t := g (t_key t) + 1) else g) k" by simp
  also note Cons
  finally show ?case by simp
qed simp

lemma timers_cancel_scenario: "keeps (timers_inv g) (cancel_scenario sid)"
  unfolding cancel_scenario_def
  by (rule keeps_mod) (auto simp: timers_inv_def intro: order_trans [OF _ bump_grows])

lemma timers_call: "keeps (timers_inv g) (call f)"
  by (auto simp: keeps_def call_def timers_inv_def split: prod.split)

lemma timers_put: "keeps (timers_inv g) (put p dev cap v r from_ramp force inst)"
  unfolding put_def publish_def now_def open_window_def
  by (intro keeps_bind keeps_if keeps_case_prod keeps_case_option keeps_basic timers_call timers_cancel keeps_mod;
      simp add: timers_inv_def)

interpretation timers: engine_inv p "timers_inv g" for p :: "'w platform" and g
proof
  show "timers_inv g e \<Longrightarrow> same_core e e' \<Longrightarrow> timers_inv g e'" for e e' by (simp add: timers_inv_def same_core_def)
  show "timers_inv g e \<Longrightarrow> heap e = u # us \<Longrightarrow> timers_inv g (e\<lparr>heap := us\<rparr>)" for e u us by (simp add: timers_inv_def)
qed (simp_all add: timers_schedule timers_cancel timers_cancel_scenario timers_put now_def flush_if_due_def flush_runs_def timers_call)

lemma stays_stale:
  assumes "reaches p ix react tm e e'" and "patient tm react" and "timers_inv g e" and "t_gen t < g (t_key t)"
  shows "\<not> current e' t"
proof -
  have "timers_inv g e'"
    by (rule timers.kept_reaches [OF assms(1) _ assms(2,3)]) (simp add: timers_inv_def)
  with assms(4) show ?thesis by (auto simp: timers_inv_def current_def dest: spec [of _ "t_key t"])
qed


definition late_lamp :: scenario where
  "late_lamp = lamp_scene\<lparr>s_kind := Block, s_actions := [Delay 5, Toggle ''lamp'' ''on_off'' []]\<rparr>"


end
