(* ===== verification/Http_Guard.thy ===== *)
theory Http_Guard
  imports Ip_Access Effect
begin

text \<open>
  What scenarios may send requests to (\<^verbatim>\<open>sa02m_rules/http_guard.py\<close>): the addresses refused, hosts written as
  numbers, the check of a URL and the loop that follows redirects.  \<^verbatim>\<open>urlsplit\<close> and \<^verbatim>\<open>ipaddress\<close> are those of
  Python 3.11 for URLs of ASCII characters; the resolver, the opener and \<^verbatim>\<open>urljoin\<close> are parameters.
\<close>

section \<open>Addresses\<close>

definition MAX_REDIRECTS :: nat where "MAX_REDIRECTS = 3"
definition URL_MAX :: nat where "URL_MAX = 500"
definition BODY_MAX :: nat where "BODY_MAX = 2000"

text \<open>The IPv4 address that an IPv6 address carries, if it is mapped, 6to4 or Teredo.\<close>

definition carried :: "ip \<Rightarrow> ip" where
  "carried x =
     (case x of
        V4 a \<Rightarrow> V4 a
      | V6 a \<Rightarrow>
          if a div 2 ^ 32 = 0xFFFF then V4 (a mod 2 ^ 32)
          else if a div 2 ^ 112 = 0x2002 then V4 (a div 2 ^ 80 mod 2 ^ 32)
          else if a div 2 ^ 96 = 0x20010000 then V4 (2 ^ 32 - 1 - a mod 2 ^ 32)
          else V6 a)"

fun is_loopback :: "ip \<Rightarrow> bool" where
  "is_loopback (V4 a) \<longleftrightarrow> in_net (V4 a) (Net4 (127 * 2 ^ 24) 24)"
| "is_loopback (V6 a) \<longleftrightarrow> a = 1"

fun is_link_local :: "ip \<Rightarrow> bool" where
  "is_link_local (V4 a) \<longleftrightarrow> in_net (V4 a) (Net4 (0xA9FE * 2 ^ 16) 16)"
| "is_link_local (V6 a) \<longleftrightarrow> in_net (V6 a) (Net6 (0x3FA * 2 ^ 118) 118)"

fun is_multicast :: "ip \<Rightarrow> bool" where
  "is_multicast (V4 a) \<longleftrightarrow> in_net (V4 a) (Net4 (14 * 2 ^ 28) 28)"
| "is_multicast (V6 a) \<longleftrightarrow> in_net (V6 a) (Net6 (0xFF * 2 ^ 120) 120)"

text \<open>Prefix and number of host bits of the reserved IPv6 networks.\<close>

definition reserved6 :: "(nat \<times> nat) list" where
  "reserved6 = [(0, 120), (1, 120), (1, 121), (1, 122), (1, 123), (1, 124), (2, 125), (3, 125), (4, 125), (5, 125), (6, 125),
     (0xE, 124), (0x1E, 123), (0x3E, 122), (0x1FC, 119)]"

fun is_reserved :: "ip \<Rightarrow> bool" where
  "is_reserved (V4 a) \<longleftrightarrow> in_net (V4 a) (Net4 (15 * 2 ^ 28) 28)"
| "is_reserved (V6 a) \<longleftrightarrow> list_ex (\<lambda>(n, h). in_net (V6 a) (Net6 (n * 2 ^ h) h)) reserved6"

fun is_unspecified :: "ip \<Rightarrow> bool" where
  "is_unspecified (V4 a) \<longleftrightarrow> a = 0"
| "is_unspecified (V6 a) \<longleftrightarrow> a = 0"

definition address_refusal :: "ip \<Rightarrow> string" where
  "address_refusal x =
     (let y = carried x in
      if is_loopback y then ''refused: loopback address''
      else if is_link_local y then ''refused: link-local address''
      else if is_multicast y \<or> is_reserved y \<or> is_unspecified y then ''refused: reserved address''
      else if (case y of V4 a \<Rightarrow> in_net y (Net4 0 24) | V6 _ \<Rightarrow> False) then ''refused: reserved address''
      else [])"

section \<open>Hosts written as numbers\<close>

definition is_alnum :: "char \<Rightarrow> bool" where
  "is_alnum c \<longleftrightarrow> (let n = of_char c :: nat in (48 \<le> n \<and> n \<le> 57) \<or> (65 \<le> n \<and> n \<le> 90) \<or> (97 \<le> n \<and> n \<le> 122))"

text \<open>\<^verbatim>\<open>int(digits, base)\<close> of letters and digits: the prefix of the base may stand before them.\<close>

definition int_base :: "nat \<Rightarrow> string \<Rightarrow> nat option" where
  "int_base base s =
     (let p = map lower_char (take 2 s);
          d = (if base = 16 \<and> p = ''0x'' \<or> base = 8 \<and> p = ''0o'' then drop 2 s else s) in
      if d \<noteq> [] \<and> list_all (\<lambda>c. case digit_value c of None \<Rightarrow> False | Some v \<Rightarrow> v < base) d then Some (number_in base d) else None)"

definition number_part :: "string \<Rightarrow> nat option" where
  "number_part part =
     (let hex = (map lower_char (take 2 part) = ''0x''); oct = (length part > 1 \<and> part ! 0 = CHR ''0'');
          base = (if hex then 16 else if oct then 8 else 10);
          ds = (if hex then drop 2 part else if oct then drop 1 part else part) in
      if ds = [] \<or> \<not> list_all is_alnum ds then None else int_base base ds)"

definition pack_numbers :: "nat list \<Rightarrow> nat" where
  "pack_numbers vs =
     (let bits = 8 * (5 - length vs) in
      last vs + foldr (\<lambda>(shift, v) acc. v * 2 ^ (bits + 8 * shift) + acc) (zip [0 ..< length vs - 1] (rev (butlast vs))) 0)"

definition literal_address :: "string \<Rightarrow> ip option" where
  "literal_address host =
     (case ip_address host of
        Some x \<Rightarrow> Some x
      | None \<Rightarrow>
          let parts = split_on CHR ''.'' host in
          if length parts > 4 then None
          else (case all_some (map number_part parts) of
            None \<Rightarrow> None
          | Some vs \<Rightarrow>
              if list_ex (\<lambda>v. v > 0xFF) (butlast vs) \<or> last vs \<ge> 2 ^ (8 * (5 - length parts)) then None
              else Some (V4 (pack_numbers vs))))"

section \<open>URLs\<close>

text \<open>The parts of a URL that the check reads: \<^verbatim>\<open>scheme\<close> and \<^verbatim>\<open>netloc\<close>.\<close>

definition is_alpha :: "char \<Rightarrow> bool" where "is_alpha c \<longleftrightarrow> is_alnum c \<and> \<not> is_digit c"

definition scheme_char :: "char \<Rightarrow> bool" where
  "scheme_char c \<longleftrightarrow> is_alnum c \<or> c \<in> {CHR ''+'', CHR ''-'', CHR ''.''}"

definition before_char :: "char \<Rightarrow> string \<Rightarrow> string" where "before_char c = takeWhile (\<lambda>x. x \<noteq> c)"
definition after_char :: "char \<Rightarrow> string \<Rightarrow> string" where "after_char c s = drop 1 (dropWhile (\<lambda>x. x \<noteq> c) s)"
definition after_last :: "char \<Rightarrow> string \<Rightarrow> string" where "after_last c s = rev (takeWhile (\<lambda>x. x \<noteq> c) (rev s))"

definition split_scheme :: "string \<Rightarrow> string \<times> string" where
  "split_scheme url =
     (let s = before_char CHR '':'' url in
      if s \<noteq> [] \<and> length s < length url \<and> is_alpha (hd s) \<and> list_all scheme_char s
      then (map lower_char s, drop (length s + 1) url) else ([], url))"

definition bracketed_ok :: "string \<Rightarrow> bool" where
  "bracketed_ok h =
     (if h \<noteq> [] \<and> hd h = CHR ''v''
      then (let x = before_char CHR ''.'' (tl h) in
        x \<noteq> [] \<and> list_all (\<lambda>c. digit_value c \<noteq> None) x \<and> length x + 2 < length h)
      else (case ip_address h of Some (V6 _) \<Rightarrow> True | _ \<Rightarrow> False))"

definition urlsplit :: "string \<Rightarrow> (string \<times> string) result" where
  "urlsplit url0 =
     (let url = filter (\<lambda>c. c \<notin> {CHR 0x09, CHR 0x0A, CHR 0x0D}) (dropWhile (\<lambda>c. (of_char c :: nat) \<le> 32) url0) in
      case split_scheme url of (scheme, rest) \<Rightarrow>
        if take 2 rest \<noteq> ''//'' then Inr (scheme, [])
        else let netloc = takeWhile (\<lambda>c. c \<notin> {CHR ''/'', CHR ''?'', CHR ''#''}) (drop 2 rest);
                 op = (CHR ''['' \<in> set netloc); cl = (CHR '']'' \<in> set netloc) in
          if op \<noteq> cl \<or> (op \<and> \<not> bracketed_ok (before_char CHR '']'' (after_char CHR ''['' netloc))) then Inl (ValueError ''url'')
          else Inr (scheme, netloc))"

definition hostinfo :: "string \<Rightarrow> string \<times> string" where
  "hostinfo netloc =
     (let h = after_last CHR ''@'' netloc in
      if CHR ''['' \<in> set h
      then (let b = after_char CHR ''['' h in (before_char CHR '']'' b, after_char CHR '':'' (after_char CHR '']'' b)))
      else (before_char CHR '':'' h, after_char CHR '':'' h))"

definition url_port :: "string \<Rightarrow> nat option result" where
  "url_port netloc =
     (let t = snd (hostinfo netloc) in
      if t = [] then Inr None
      else if list_all is_digit t \<and> number_in 10 t \<le> 65535 then Inr (Some (number_in 10 t))
      else Inl (ValueError ''port''))"

section \<open>The check\<close>

datatype reply = Status nat nat | Http_error nat "string option" | Failed string

text \<open>What the guard calls; the opener does not follow redirects.\<close>

record 'w web =
  resolve :: "string \<Rightarrow> nat \<Rightarrow> 'w \<Rightarrow> ip list option \<times> 'w"
  open_url :: "string \<Rightarrow> string \<Rightarrow> string option \<Rightarrow> 'w \<Rightarrow> reply \<times> 'w"
  urljoin :: "string \<Rightarrow> string \<Rightarrow> string result"

datatype net_event = Answer string "ip list" | Opened string string "string option"

record 'w guard =
  outside :: 'w
  events :: "net_event list"

type_synonym ('w, 'a) gd = "('w guard, 'a) proc"

definition ask :: "'w web \<Rightarrow> string \<Rightarrow> nat \<Rightarrow> ('w, ip list option) gd" where
  "ask n host port = (\<lambda>g. case resolve n host port (outside g) of (a, w) \<Rightarrow>
     (Inr a, g\<lparr>outside := w, events := events g @ [Answer host (case a of None \<Rightarrow> [] | Some xs \<Rightarrow> xs)]\<rparr>))"

definition send_request :: "'w web \<Rightarrow> string \<Rightarrow> string \<Rightarrow> string option \<Rightarrow> ('w, reply) gd" where
  "send_request n verb url data = (\<lambda>g. case open_url n verb url data (outside g) of (r, w) \<Rightarrow>
     (Inr r, g\<lparr>outside := w, events := events g @ [Opened verb url data]\<rparr>))"

definition loopback_name :: "string \<Rightarrow> bool" where
  "loopback_name host \<longleftrightarrow> host = ''localhost'' \<or> drop (length host - 10) host = ''.localhost''"

text \<open>A host that is not on the list of the operator.\<close>

definition check_host :: "'w web \<Rightarrow> bool \<Rightarrow> string \<Rightarrow> nat \<Rightarrow> ('w, string) gd" where
  "check_host n do_resolve host port =
     (if loopback_name host then retM ''refused: loopback name''
      else case literal_address host of
        Some x \<Rightarrow> retM (address_refusal x)
      | None \<Rightarrow>
          if \<not> do_resolve then retM []
          else bindM (ask n host port) (\<lambda>a.
            case a of
              None \<Rightarrow> retM ''refused: unresolvable host''
            | Some xs \<Rightarrow>
                if xs = [] then retM ''refused: unresolvable host''
                else retM (case find (\<lambda>x. address_refusal x \<noteq> []) xs of None \<Rightarrow> [] | Some x \<Rightarrow> address_refusal x)))"

definition host_of :: "string \<Rightarrow> string" where "host_of netloc = map lower_char (fst (hostinfo netloc))"

definition port_or_default :: "string \<Rightarrow> nat option \<Rightarrow> nat" where
  "port_or_default scheme port = (case port of Some (Suc k) \<Rightarrow> Suc k | _ \<Rightarrow> if scheme = ''https'' then 443 else 80)"

text \<open>The answer is empty where the URL may be fetched.\<close>

definition check_url :: "'w web \<Rightarrow> string list \<Rightarrow> bool \<Rightarrow> string \<Rightarrow> ('w, string) gd" where
  "check_url n allow do_resolve url =
     (if length url > URL_MAX then retM ''url too long''
      else case urlsplit url of
        Inl _ \<Rightarrow> retM ''bad url''
      | Inr (scheme, netloc) \<Rightarrow>
          if scheme \<notin> {''http'', ''https''} then retM ''bad url''
          else (case url_port netloc of
            Inl _ \<Rightarrow> retM ''bad url''
          | Inr port \<Rightarrow>
              if host_of netloc = [] then retM ''bad url''
              else if CHR ''@'' \<in> set netloc then retM ''refused: credentials in url''
              else if host_of netloc \<in> set allow then retM []
              else check_host n do_resolve (host_of netloc) (port_or_default scheme port)))"

definition redirect_codes :: "nat list" where "redirect_codes = [301, 302, 303, 307, 308]"

text \<open>One turn of the loop, with what a redirect does; \<^verbatim>\<open>HttpRefused\<close> is the \<^verbatim>\<open>RuntimeError\<close> here.\<close>

definition answered :: "(nat \<Rightarrow> string \<Rightarrow> ('w, nat \<times> nat) gd) \<Rightarrow> reply \<Rightarrow> ('w, nat \<times> nat) gd" where
  "answered redirected r =
     (case r of
        Status code k \<Rightarrow> retM (code, k)
      | Failed s \<Rightarrow> raiseM (RuntimeError (''err '' @ take 120 s))
      | Http_error code loc \<Rightarrow>
          (case loc of
            None \<Rightarrow> retM (code, 0)
          | Some l \<Rightarrow> if code \<in> set redirect_codes \<and> l \<noteq> [] then redirected code l else retM (code, 0)))"

definition hop ::
    "'w web \<Rightarrow> string list \<Rightarrow> string \<Rightarrow> string \<Rightarrow> string option \<Rightarrow> (nat \<Rightarrow> string \<Rightarrow> ('w, nat \<times> nat) gd) \<Rightarrow> ('w, nat \<times> nat) gd" where
  "hop n allow verb url data redirected =
     bindM (check_url n allow True url) (\<lambda>why.
       if why \<noteq> [] then raiseM (RuntimeError why)
       else bindM (send_request n verb url data) (answered redirected))"

text \<open>\<open>hops_left\<close> redirects may still be followed.\<close>

primrec fetch_hops :: "nat \<Rightarrow> 'w web \<Rightarrow> string list \<Rightarrow> string \<Rightarrow> string \<Rightarrow> string option \<Rightarrow> ('w, nat \<times> nat) gd" where
  "fetch_hops 0 n allow verb url data =
     hop n allow verb url data (\<lambda>_ _. raiseM (RuntimeError ''refused: too many redirects''))"
| "fetch_hops (Suc hops_left) n allow verb url data =
     hop n allow verb url data (\<lambda>code loc. bindM (liftM (urljoin n url loc)) (\<lambda>url'.
       if code = 303 \<or> (code \<in> {301, 302} \<and> verb = ''POST'')
       then fetch_hops hops_left n allow ''GET'' url' None
       else fetch_hops hops_left n allow verb url' data))"

definition fetch :: "'w web \<Rightarrow> string list \<Rightarrow> string \<Rightarrow> string \<Rightarrow> string option \<Rightarrow> ('w, nat \<times> nat) gd" where
  "fetch n allow verb0 url body =
     (let verb = (if map upper_char verb0 = ''POST'' then ''POST'' else ''GET'') in
      fetch_hops MAX_REDIRECTS n allow verb url
        (if verb = ''POST'' then map_option (take BODY_MAX) body else None))"

section \<open>Which addresses may be reached\<close>

text \<open>Everything but the networks 0, 127, 169.254 and from 224 on; of IPv6, beside what carries such an address, the global
  unicast addresses, the unique local and the old site-local ones.\<close>

definition reachable4 :: "nat \<Rightarrow> bool" where
  "reachable4 a \<longleftrightarrow> a div 2 ^ 24 \<noteq> 0 \<and> a div 2 ^ 24 \<noteq> 127 \<and> a div 2 ^ 16 \<noteq> 169 * 256 + 254 \<and> a < 224 * 2 ^ 24"

definition reachable6 :: "nat \<Rightarrow> bool" where
  "reachable6 a \<longleftrightarrow> (let top = a div 2 ^ 112 in
     (0x2000 \<le> top \<and> top < 0x4000) \<or> (0xFC00 \<le> top \<and> top < 0xFE00) \<or> (0xFEC0 \<le> top \<and> top < 0xFF00))"

lemma in_net_div: "in_net (V4 a) (Net4 (n * 2 ^ h) h) \<longleftrightarrow> a div 2 ^ h = n" "in_net (V6 a) (Net6 (n * 2 ^ h) h) \<longleftrightarrow> a div 2 ^ h = n"
  by (auto simp: clear_host_def)

lemma div_range: "(a :: nat) div 2 ^ h = n \<longleftrightarrow> n * 2 ^ h \<le> a \<and> a < (n + 1) * 2 ^ h"
proof -
  have "n \<le> a div 2 ^ h \<longleftrightarrow> n * 2 ^ h \<le> a" "a div 2 ^ h < n + 1 \<longleftrightarrow> a < (n + 1) * 2 ^ h"
    by (simp_all add: less_eq_div_iff_mult_less_eq div_less_iff_less_mult del: One_nat_def)
  then show ?thesis by linarith
qed

lemma refusal4: "a < 2 ^ 32 \<Longrightarrow> address_refusal (V4 a) = [] \<longleftrightarrow> reachable4 a"
proof -
  assume a: "a < 2 ^ 32"
  have "in_net (V4 a) (Net4 0 24) \<longleftrightarrow> a div 2 ^ 24 = 0" using in_net_div(1) [of a 0 24] by simp
  then have "address_refusal (V4 a) = [] \<longleftrightarrow>
      \<not> (a div 2 ^ 24 = 127 \<or> a div 2 ^ 16 = 43518 \<or> a div 2 ^ 28 = 14 \<or> a div 2 ^ 28 = 15 \<or> a = 0 \<or> a div 2 ^ 24 = 0)"
    unfolding address_refusal_def carried_def is_loopback.simps is_link_local.simps is_multicast.simps is_reserved.simps
      is_unspecified.simps in_net_div Let_def ip.case by simp
  then show ?thesis unfolding reachable4_def div_range using a by auto
qed

text \<open>The classes of IPv6 addresses are told by the ten bits on top.\<close>

definition refused_top :: "nat \<Rightarrow> bool" where
  "refused_top p \<longleftrightarrow> p = 0x3FA \<or> p div 4 = 0xFF \<or> list_ex (\<lambda>(n, h). p div 2 ^ (h - 118) = n) reserved6"

definition reachable_top :: "nat \<Rightarrow> bool" where
  "reachable_top p \<longleftrightarrow> (128 \<le> p \<and> p < 256) \<or> (1008 \<le> p \<and> p < 1016) \<or> p = 1019"

lemma tops:
  assumes "p < 1024"
  shows "refused_top p \<longleftrightarrow> \<not> reachable_top p"
proof -
  have iv: "p div c = n \<longleftrightarrow> n * c \<le> p \<and> p < n * c + c" if "0 < c" for n c :: nat
    using less_eq_div_iff_mult_less_eq [OF that, of n p] div_less_iff_less_mult [OF that, of p "n + 1"] by auto
  have low: "p div 4 = 0 \<or> p div 4 = 1 \<or> p div 8 = 1 \<or> p div 16 = 1 \<or> p div 32 = 1 \<or> p div 64 = 1 \<longleftrightarrow> p < 128"
    by (simp only: iv zero_less_numeral) arith
  have mid: "p div 128 = 2 \<or> p div 128 = 3 \<or> p div 128 = 4 \<or> p div 128 = 5 \<or> p div 128 = 6 \<longleftrightarrow> 256 \<le> p \<and> p < 896"
    by (simp only: iv zero_less_numeral) arith
  have high: "p div 64 = 14 \<or> p div 32 = 30 \<or> p div 16 = 62 \<or> p div 2 = 508 \<longleftrightarrow> 896 \<le> p \<and> p < 1008 \<or> 1016 \<le> p \<and> p < 1018"
    by (simp only: iv zero_less_numeral) arith
  have "refused_top p \<longleftrightarrow> p = 1018 \<or> p div 4 = 255 \<or>
      (p div 4 = 0 \<or> p div 4 = 1 \<or> p div 8 = 1 \<or> p div 16 = 1 \<or> p div 32 = 1 \<or> p div 64 = 1) \<or>
      (p div 128 = 2 \<or> p div 128 = 3 \<or> p div 128 = 4 \<or> p div 128 = 5 \<or> p div 128 = 6) \<or>
      (p div 64 = 14 \<or> p div 32 = 30 \<or> p div 16 = 62 \<or> p div 2 = 508)"
    unfolding refused_top_def reserved6_def list.pred_inject list_ex_iff by (simp del: div_eq_0_iff)
  also have "\<dots> \<longleftrightarrow> p = 1018 \<or> 1020 \<le> p \<or> p < 128 \<or> (256 \<le> p \<and> p < 896) \<or> (896 \<le> p \<and> p < 1008) \<or> (1016 \<le> p \<and> p < 1018)"
    unfolding low mid high using assms iv [of 4 255] by auto
  also have "\<dots> \<longleftrightarrow> \<not> reachable_top p" unfolding reachable_top_def using assms by arith
  finally show ?thesis .
qed

lemma div_split: "(a :: nat) div 2 ^ (h + k) = a div 2 ^ h div 2 ^ k"
  by (simp add: power_add div_mult2_eq)

lemma reachable6_top: "reachable6 a \<longleftrightarrow> reachable_top (a div 2 ^ 118)"
proof -
  define t where "t = a div 2 ^ 112"
  have "a div 2 ^ 118 = t div 64" using div_split [of a 112 6] by (simp add: t_def)
  moreover have "reachable6 a \<longleftrightarrow> (0x2000 \<le> t \<and> t < 0x4000) \<or> (0xFC00 \<le> t \<and> t < 0xFE00) \<or> (0xFEC0 \<le> t \<and> t < 0xFF00)"
    by (simp add: reachable6_def t_def Let_def)
  moreover have "n \<le> t div 64 \<longleftrightarrow> n * 64 \<le> t" "t div 64 < n \<longleftrightarrow> t < n * 64" for n
    by (simp_all add: less_eq_div_iff_mult_less_eq div_less_iff_less_mult)
  moreover have "t div 64 = 1019 \<longleftrightarrow> 65216 \<le> t \<and> t < 65280" by auto
  ultimately show ?thesis by (simp add: reachable_top_def)
qed

lemma refusal6:
  assumes "a < 2 ^ 128" and "carried (V6 a) = V6 a"
  shows "address_refusal (V6 a) = [] \<longleftrightarrow> reachable6 a"
proof -
  let ?p = "a div 2 ^ 118"
  have div: "a div 2 ^ h = ?p div 2 ^ (h - 118)" if "118 \<le> h" for h
    using that div_split [of a 118 "h - 118"] by simp
  have "list_all (\<lambda>(n, h). 118 \<le> h) reserved6" by (simp add: reserved6_def)
  then have "(a div 2 ^ h = n) = (?p div 2 ^ (h - 118) = n)" if "(n, h) \<in> set reserved6" for n h
    using div [of h] that by (auto simp: list_all_iff)
  then have res: "list_ex (\<lambda>(n, h). a div 2 ^ h = n) reserved6 \<longleftrightarrow> list_ex (\<lambda>(n, h). ?p div 2 ^ (h - 118) = n) reserved6"
    unfolding list_ex_iff by blast
  have zero: "a = 0 \<or> a = 1 \<Longrightarrow> refused_top ?p" by (auto simp: refused_top_def reserved6_def)
  have "address_refusal (V6 a) = [] \<longleftrightarrow> \<not> (a = 1 \<or> ?p = 0x3FA \<or> a div 2 ^ 120 = 0xFF \<or> a = 0 \<or> list_ex (\<lambda>(n, h). a div 2 ^ h = n) reserved6)"
    unfolding address_refusal_def assms(2) is_loopback.simps is_link_local.simps is_multicast.simps is_reserved.simps
      is_unspecified.simps in_net_div Let_def ip.case by (auto simp: list_ex_iff)
  also have "\<dots> \<longleftrightarrow> \<not> refused_top ?p" using zero div [of 120] unfolding res by (cases "a = 0") (auto simp: refused_top_def)
  also have "?p < 1024" using assms(1) by (simp add: div_less_iff_less_mult)
  then have "(\<not> refused_top ?p) = reachable6 a" unfolding reachable6_top by (simp add: tops)
  finally show ?thesis .
qed

text \<open>Where nothing is carried an address is refused exactly outside the reachable networks; else the carried one counts.\<close>

lemma carried_V6: "carried x = V6 a \<Longrightarrow> x = V6 a"
  by (cases x) (simp_all add: carried_def split: if_split_asm)

lemma carried_idem: "carried (carried x) = carried x"
proof (cases "carried x")
  case (V6 a)
  then show ?thesis using carried_V6 [OF V6] by simp
qed (simp add: carried_def)

lemma carried_bound: "x = V6 a \<Longrightarrow> carried x = V4 b \<Longrightarrow> b < 2 ^ 32"
  by (simp add: carried_def split: if_split_asm)

lemma refusal_carried: "address_refusal x = address_refusal (carried x)"
  by (simp only: address_refusal_def carried_idem)

text \<open>The three forms of an IPv6 address with an IPv4 address inside: mapped, 6to4, and the client of a Teredo tunnel.\<close>

definition embeds :: "nat \<Rightarrow> nat \<Rightarrow> bool" where
  "embeds a b \<longleftrightarrow> a = 0xFFFF * 2 ^ 32 + b \<or> (\<exists>low<2 ^ 80. a = (0x2002 * 2 ^ 32 + b) * 2 ^ 80 + low) \<or>
     (\<exists>mid<2 ^ 64. a = (0x20010000 * 2 ^ 64 + mid) * 2 ^ 32 + (2 ^ 32 - 1 - b))"

definition reachable :: "ip \<Rightarrow> bool" where
  "reachable x \<longleftrightarrow>
     (case x of
        V4 a \<Rightarrow> reachable4 a
      | V6 a \<Rightarrow> if \<exists>b<2 ^ 32. embeds a b then \<forall>b<2 ^ 32. embeds a b \<longrightarrow> reachable4 b else reachable6 a)"

lemma quot: "(r :: nat) < d \<Longrightarrow> (q * d + r) div d = q" by simp
lemma recompose: "(x :: nat) div d = q \<Longrightarrow> x = q * d + x mod d" using div_mult_mod_eq [of x d] by simp
lemma rest: "(r :: nat) < d \<Longrightarrow> (q * d + r) mod d = r" by simp

lemma embeds_carried:
  assumes b: "b < 2 ^ 32" and e: "embeds a b"
  shows "carried (V6 a) = V4 b"
proof -
  from e consider "a = 0xFFFF * 2 ^ 32 + b" | low where "low < 2 ^ 80" "a = (0x2002 * 2 ^ 32 + b) * 2 ^ 80 + low"
    | mid where "mid < 2 ^ 64" "a = (0x20010000 * 2 ^ 64 + mid) * 2 ^ 32 + (2 ^ 32 - 1 - b)"
    unfolding embeds_def by blast
  then show ?thesis
  proof cases
    case 1
    then show ?thesis using quot [OF b, where q = "0xFFFF"] rest [OF b, where q = "0xFFFF"] unfolding carried_def by (simp only: ip.case if_True refl)
  next
    case 2
    have q: "a div 2 ^ 80 = 0x2002 * 2 ^ 32 + b" unfolding 2(2) by (rule quot [OF 2(1)])
    then have t: "a div 2 ^ 112 = 0x2002" using div_split [of a 80 32] q quot [OF b, where q = "0x2002"] by simp
    moreover have "a div 2 ^ 32 \<noteq> 0xFFFF" using t div_split [of a 32 80] by auto
    moreover have "a div 2 ^ 80 mod 2 ^ 32 = b" unfolding q by (rule rest [OF b])
    ultimately show ?thesis unfolding carried_def by (simp only: ip.case if_True if_False refl)
  next
    case 3
    have r: "2 ^ 32 - 1 - b < (2 :: nat) ^ 32" by simp
    have q: "a div 2 ^ 32 = 0x20010000 * 2 ^ 64 + mid" and m: "a mod 2 ^ 32 = 2 ^ 32 - 1 - b" unfolding 3(2) by (rule quot [OF r], rule rest [OF r])
    have t: "a div 2 ^ 96 = 0x20010000" using div_split [of a 32 64] quot [OF 3(1), where q = "0x20010000"] q by simp
    moreover have "a div 2 ^ 32 \<noteq> 0xFFFF" unfolding q by simp
    moreover have "a div 2 ^ 112 \<noteq> 0x2002" using t div_split [of a 96 16] by simp
    moreover have "2 ^ 32 - 1 - a mod 2 ^ 32 = b" unfolding m using b by simp
    ultimately show ?thesis unfolding carried_def by (simp only: ip.case if_True if_False refl)
  qed
qed

lemma carried_embeds:
  assumes "carried (V6 a) = V4 b"
  shows "b < 2 ^ 32 \<and> embeds a b"
proof -
  have m: "a mod 2 ^ 32 < 2 ^ 32" "a mod 2 ^ 80 < 2 ^ 80" "a div 2 ^ 32 mod 2 ^ 64 < 2 ^ 64" "a div 2 ^ 80 mod 2 ^ 32 < (2 :: nat) ^ 32" by simp_all
  note c = assms [unfolded carried_def ip.case]
  consider "a div 2 ^ 32 = 0xFFFF" "b = a mod 2 ^ 32" | "a div 2 ^ 112 = 0x2002" "b = a div 2 ^ 80 mod 2 ^ 32"
    | "a div 2 ^ 96 = 0x20010000" "b = 2 ^ 32 - 1 - a mod 2 ^ 32"
    using c by (simp only: split: if_split_asm) (simp_all only: ip.inject ip.distinct)
  then show ?thesis
  proof cases
    case 1
    then have "a = 0xFFFF * 2 ^ 32 + b" using div_mult_mod_eq [of a "2 ^ 32"] by simp
    with m(1) 1(2) show ?thesis unfolding embeds_def by blast
  next
    case 2
    have "a div 2 ^ 80 = 0x2002 * 2 ^ 32 + b"
      unfolding 2(2) by (rule recompose) (use div_split [of a 80 32] 2(1) in simp)
    then have "a = (0x2002 * 2 ^ 32 + b) * 2 ^ 80 + a mod 2 ^ 80" by (rule recompose)
    with m(2,4) 2(2) show ?thesis unfolding embeds_def by blast
  next
    case 3
    have "a div 2 ^ 32 = 0x20010000 * 2 ^ 64 + a div 2 ^ 32 mod 2 ^ 64"
      by (rule recompose) (use div_split [of a 32 64] 3(1) in simp)
    then have "a = (0x20010000 * 2 ^ 64 + a div 2 ^ 32 mod 2 ^ 64) * 2 ^ 32 + a mod 2 ^ 32" by (rule recompose)
    moreover have "a mod 2 ^ 32 = 2 ^ 32 - 1 - b" using m(1) 3(2) by simp
    ultimately have "a = (0x20010000 * 2 ^ 64 + a div 2 ^ 32 mod 2 ^ 64) * 2 ^ 32 + (2 ^ 32 - 1 - b)" by (simp only:)
    moreover have "b < 2 ^ 32" using 3(2) by simp
    ultimately show ?thesis using m(3) unfolding embeds_def by blast
  qed
qed

definition address :: "ip \<Rightarrow> bool" where
  "address x \<longleftrightarrow> (case x of V4 a \<Rightarrow> a < 2 ^ 32 | V6 a \<Rightarrow> a < 2 ^ 128)"

text \<open>C17: An address is refused exactly outside the reachable networks: loopback, link-local, multicast, reserved and
  unspecified addresses and the network 0, also where an IPv6 address carries one of them as a mapped, 6to4 or Teredo
  address.\<close>

theorem refused_networks: "address x \<Longrightarrow> address_refusal x = [] \<longleftrightarrow> reachable x"
proof (cases x)
  case (V4 a)
  assume "address x"
  with V4 show ?thesis by (simp add: refusal4 reachable_def address_def)
next
  case (V6 a)
  assume x: "address x"
  show ?thesis
  proof (cases "\<exists>b<2 ^ 32. embeds a b")
    case True
    then obtain b where b: "b < 2 ^ 32" "embeds a b" by blast
    have "b' = b" if "b' < 2 ^ 32" "embeds a b'" for b'
      using embeds_carried [OF b] embeds_carried [OF that] by simp
    with b True have "(if \<exists>b<2 ^ 32. embeds a b then \<forall>b<2 ^ 32. embeds a b \<longrightarrow> reachable4 b else reachable6 a) \<longleftrightarrow> reachable4 b" by metis
    then have "reachable x \<longleftrightarrow> reachable4 b" unfolding V6 reachable_def ip.case .
    then show ?thesis unfolding refusal_carried [of x] unfolding V6 embeds_carried [OF b] using refusal4 [OF b(1)] by (simp only:)
  next
    case False
    then have "carried (V6 a) = V6 a"
      using carried_embeds [of a] carried_V6 [of "V6 a"] by (cases "carried (V6 a)") blast+
    moreover have "a < 2 ^ 128" using x V6 by (simp add: address_def)
    ultimately show ?thesis using refusal6 [of a] False unfolding V6 reachable_def ip.case by (simp only: if_False)
  qed
qed

text \<open>127.0.0.1 behind 6to4 is refused, a router of the local network is not.\<close>

lemma refused_networks_witness:
  "address_refusal (V6 (0x20027F000001 * 2 ^ 80)) \<noteq> [] \<and> address_refusal (V4 (192 * 2 ^ 24 + 168 * 2 ^ 16 + 1)) = []"
proof -
  let ?a = "(0x2002 * 2 ^ 32 + 0x7F000001) * 2 ^ 80 + 0 :: nat"
  have e: "0x7F000001 < (2 :: nat) ^ 32" "embeds ?a 0x7F000001" unfolding embeds_def by auto
  have "\<not> reachable4 0x7F000001" by (simp add: reachable4_def)
  with e have "\<not> reachable (V6 ?a)" unfolding reachable_def ip.case by (meson)
  moreover have "address (V6 ?a)" by (simp add: address_def)
  ultimately have "address_refusal (V6 ?a) \<noteq> []" using refused_networks [of "V6 ?a"] by blast
  moreover have "?a = 0x20027F000001 * 2 ^ 80" by simp
  moreover have "address_refusal (V4 (192 * 2 ^ 24 + 168 * 2 ^ 16 + 1)) = []"
    using refused_networks [of "V4 (192 * 2 ^ 24 + 168 * 2 ^ 16 + 1)"] by (simp add: address_def reachable_def reachable4_def)
  ultimately show ?thesis by simp
qed

section \<open>What is fetched was checked\<close>

text \<open>The check as the request sees it: on the list of the operator, a reachable number, or a name of which the resolver
  has just answered nothing but reachable addresses.\<close>

definition vetted :: "string list \<Rightarrow> net_event option \<Rightarrow> string \<Rightarrow> bool" where
  "vetted allow before url \<longleftrightarrow> length url \<le> URL_MAX \<and>
     (\<exists>scheme netloc. urlsplit url = Inr (scheme, netloc) \<and> scheme \<in> {''http'', ''https''} \<and> CHR ''@'' \<notin> set netloc \<and>
       (host_of netloc \<in> set allow \<or>
        \<not> loopback_name (host_of netloc) \<and>
        (case literal_address (host_of netloc) of
           Some x \<Rightarrow> address_refusal x = []
         | None \<Rightarrow> \<exists>xs. before = Some (Answer (host_of netloc) xs) \<and> xs \<noteq> [] \<and> (\<forall>x\<in>set xs. address_refusal x = []))))"

definition last_event :: "net_event list \<Rightarrow> net_event option" where
  "last_event es = (if es = [] then None else Some (last es))"

fun opened :: "net_event \<Rightarrow> bool" where
  "opened (Opened _ _ _) = True"
| "opened _ = False"

text \<open>Every request in the log stands behind its check.\<close>

definition guarded :: "string list \<Rightarrow> net_event list \<Rightarrow> bool" where
  "guarded allow es \<longleftrightarrow> (\<forall>i<length es. case es ! i of Opened _ url _ \<Rightarrow> vetted allow (last_event (take i es)) url | _ \<Rightarrow> True)"

lemma guarded_snoc:
  "guarded allow (es @ [x]) \<longleftrightarrow> guarded allow es \<and> (case x of Opened _ url _ \<Rightarrow> vetted allow (last_event es) url | _ \<Rightarrow> True)"
  by (fastforce simp: guarded_def nth_append less_Suc_eq split: net_event.split)

lemma find_refused: "(case find (\<lambda>x. f x \<noteq> []) xs of None \<Rightarrow> [] | Some x \<Rightarrow> f x) = [] \<longleftrightarrow> (\<forall>x\<in>set xs. f x = [])"
  by (induction xs) auto

lemma check_host_log:
  assumes "check_host n r host port g = (res, g')"
  obtains why as where "res = Inr why" and "events g' = events g @ as" and "\<not> list_ex opened as"
    and "r \<Longrightarrow> why = [] \<Longrightarrow> \<not> loopback_name host \<and> (case literal_address host of
      Some x \<Rightarrow> address_refusal x = []
    | None \<Rightarrow> \<exists>xs. last_event (events g') = Some (Answer host xs) \<and> xs \<noteq> [] \<and> (\<forall>x\<in>set xs. address_refusal x = []))"
proof (cases "loopback_name host \<or> literal_address host \<noteq> None \<or> \<not> r")
  case True
  with assms that show ?thesis
    by (cases "literal_address host") (auto simp: check_host_def split: if_splits)
next
  case False
  then have l: "literal_address host = None" "\<not> loopback_name host" r by simp_all
  obtain a w where a: "resolve n host port (outside g) = (a, w)" by force
  let ?xs = "case a of None \<Rightarrow> [] | Some xs \<Rightarrow> xs"
  have ev: "events g' = events g @ [Answer host ?xs]"
    and res: "res = Inr (if ?xs = [] then ''refused: unresolvable host''
        else case find (\<lambda>x. address_refusal x \<noteq> []) ?xs of None \<Rightarrow> [] | Some x \<Rightarrow> address_refusal x)"
    using assms l a by (auto simp: check_host_def bindM_def ask_def split: option.splits if_splits)
  show ?thesis
    by (rule that [OF res ev]) (use ev l in \<open>auto simp: last_event_def find_refused split: if_splits\<close>)
qed

lemma check_log:
  assumes run: "check_url n allow True url g = (res, g')"
  obtains why as where "res = Inr why" and "events g' = events g @ as" and "\<not> list_ex opened as"
    and "why = [] \<Longrightarrow> vetted allow (last_event (events g')) url"
proof (cases "length url \<le> URL_MAX \<and> (\<exists>scheme netloc port. urlsplit url = Inr (scheme, netloc) \<and> scheme \<in> {''http'', ''https''} \<and>
    url_port netloc = Inr port \<and> host_of netloc \<noteq> [] \<and> CHR ''@'' \<notin> set netloc)")
  case False
  then have "\<exists>why. why \<noteq> [] \<and> check_url n allow True url g = (Inr why, g)"
    by (auto simp: check_url_def split: sum.splits)
  with run that show ?thesis by fastforce
next
  case True
  then obtain scheme netloc port where u: "length url \<le> URL_MAX" "urlsplit url = Inr (scheme, netloc)" "scheme \<in> {''http'', ''https''}"
    "url_port netloc = Inr port" "host_of netloc \<noteq> []" "CHR ''@'' \<notin> set netloc" by blast
  then have eq: "check_url n allow True url =
      (if host_of netloc \<in> set allow then retM [] else check_host n True (host_of netloc) (port_or_default scheme port))"
    by (auto simp: check_url_def)
  show ?thesis
  proof (cases "host_of netloc \<in> set allow")
    case True
    with run u show ?thesis unfolding eq by (intro that [of "[]" "[]"]) (auto simp: vetted_def)
  next
    case False
    with run have "check_host n True (host_of netloc) (port_or_default scheme port) g = (res, g')" unfolding eq by simp
    then obtain why as where h: "res = Inr why" "events g' = events g @ as" "\<not> list_ex opened as"
      "why = [] \<Longrightarrow> \<not> loopback_name (host_of netloc) \<and> (case literal_address (host_of netloc) of
        Some x \<Rightarrow> address_refusal x = []
      | None \<Rightarrow> \<exists>xs. last_event (events g') = Some (Answer (host_of netloc) xs) \<and> xs \<noteq> [] \<and> (\<forall>x\<in>set xs. address_refusal x = []))"
      by (rule check_host_log) blast
    show ?thesis by (rule that [OF h(1-3)]) (use h(4) u in \<open>auto simp: vetted_def\<close>)
  qed
qed

lemma guarded_append: "\<not> list_ex opened as \<Longrightarrow> guarded allow (es @ as) \<longleftrightarrow> guarded allow es"
proof (induction as rule: rev_induct)
  case (snoc x as)
  then show ?case by (cases x) (simp_all add: append_assoc [symmetric] guarded_snoc del: append_assoc)
qed simp

text \<open>One hop: at most one request, behind its check.\<close>

definition requests :: "'w guard \<Rightarrow> nat" where "requests g = length (filter opened (events g))"

lemma answered_log:
  assumes "answered f r g = (res, g')" and "guarded allow (events g)"
    and f: "\<And>code l g0 res' g1. f code l g0 = (res', g1) \<Longrightarrow> guarded allow (events g0) \<Longrightarrow>
      guarded allow (events g1) \<and> requests g1 \<le> requests g0 + k"
  shows "guarded allow (events g') \<and> requests g' \<le> requests g + k"
proof (cases "\<exists>code l. r = Http_error code (Some l) \<and> code \<in> set redirect_codes \<and> l \<noteq> []")
  case True
  with assms(1) obtain code l where "f code l g = (res, g')" by (auto simp: answered_def)
  then show ?thesis using assms(2) by (rule f)
next
  case False
  then have "\<exists>res. answered f r g = (res, g)" by (auto simp: answered_def split: reply.split option.split)
  with assms(1,2) show ?thesis by auto
qed

lemma hop_log:
  assumes run: "hop n allow verb url data f g = (res, g')" and g: "guarded allow (events g)"
    and f: "\<And>code l g0 res' g1. f code l g0 = (res', g1) \<Longrightarrow> guarded allow (events g0) \<Longrightarrow>
      guarded allow (events g1) \<and> requests g1 \<le> requests g0 + k"
  shows "guarded allow (events g') \<and> requests g' \<le> requests g + Suc k"
proof -
  obtain res1 g1 where c: "check_url n allow True url g = (res1, g1)" by force
  obtain why as where w: "res1 = Inr why" "events g1 = events g @ as" "\<not> list_ex opened as"
    "why = [] \<Longrightarrow> vetted allow (last_event (events g1)) url" using check_log [OF c] by blast
  have g1: "guarded allow (events g1)" "requests g1 = requests g"
    using g w(2,3) by (auto simp: guarded_append requests_def list_ex_iff filter_empty_conv)
  show ?thesis
  proof (cases "why = []")
    case False
    with run c w(1) g1 show ?thesis by (simp add: hop_def bindM_def)
  next
    case True
    obtain r w' where o: "open_url n verb url data (outside g1) = (r, w')" by force
    let ?g2 = "g1\<lparr>outside := w', events := events g1 @ [Opened verb url data]\<rparr>"
    have g2: "guarded allow (events ?g2)" "requests ?g2 = Suc (requests g)"
      using g1 w(4) [OF True] by (simp_all add: guarded_snoc requests_def)
    have "hop n allow verb url data f g = answered f r ?g2"
      using c w(1) True o by (simp add: hop_def bindM_run [where m = "check_url n allow True url"] bindM_def send_request_def)
    then have "answered f r ?g2 = (res, g')" using run by simp
    from answered_log [OF this g2(1) f] g2(2) show ?thesis by simp
  qed
qed

lemma fetch_hops_log:
  assumes "fetch_hops k n allow verb url data g = (res, g')" and "guarded allow (events g)"
  shows "guarded allow (events g') \<and> requests g' \<le> requests g + Suc k"
  using assms
proof (induction k arbitrary: verb url data g res g')
  case 0
  then show ?case
    using hop_log [of n allow verb url data "\<lambda>_ _. raiseM (RuntimeError ''refused: too many redirects'')" g res g' 0] by simp
next
  case (Suc k)
  from Suc.prems show ?case
  proof (intro hop_log [of n allow verb url data _ g res g' "Suc k"])
    fix code l g0 res' g1
    assume "bindM (liftM (urljoin n url l)) (\<lambda>url'. if code = 303 \<or> (code \<in> {301, 302} \<and> verb = ''POST'')
        then fetch_hops k n allow ''GET'' url' None else fetch_hops k n allow verb url' data) g0 = (res', g1)"
      and "guarded allow (events g0)"
    then show "guarded allow (events g1) \<and> requests g1 \<le> requests g0 + Suc k"
      using Suc.IH by (cases "urljoin n url l") (auto split: if_splits)
  qed simp_all
qed

text \<open>C16: Whatever the resolver answers and the servers redirect to, each request that is sent has a URL that was checked
  immediately before it, and there are at most four.\<close>

theorem fetch_is_guarded:
  assumes "fetch n allow verb url body g = (res, g')" and "events g = []"
  shows "guarded allow (events g') \<and> length (filter opened (events g')) \<le> 4"
  using fetch_hops_log [OF assms(1) [unfolded fetch_def Let_def]] assms(2)
  by (simp add: guarded_def requests_def MAX_REDIRECTS_def)

text \<open>A printer of the local network that sends the request on to another path.\<close>

definition lan :: "nat web" where
  "lan = \<lparr>resolve = (\<lambda>_ _ w. (Some [V4 (192 * 2 ^ 24 + 168 * 2 ^ 16 + 7)], w)),
     open_url = (\<lambda>_ _ _ w. (if w = 0 then Http_error 302 (Some ''/status'') else Status 200 5, Suc w)),
     urljoin = (\<lambda>_ l. Inr (''http://nas'' @ l))\<rparr>"

lemma fetch_is_guarded_witness:
  "\<exists>g. fetch lan [] ''post'' ''http://NAS/print'' (Some ''x'') \<lparr>outside = 0, events = []\<rparr> = (Inr (200, 5), g) \<and>
     length (filter opened (events g)) = 2 \<and> guarded [] (events g)"
proof -
  let ?run = "fetch lan [] ''post'' ''http://NAS/print'' (Some ''x'') \<lparr>outside = 0, events = []\<rparr>"
  have urls: "urlsplit ''http://NAS/print'' = Inr (''http'', ''NAS'')" "urlsplit ''http://nas/status'' = Inr (''http'', ''nas'')"
    "url_port ''NAS'' = Inr None" "url_port ''nas'' = Inr None" "host_of ''NAS'' = ''nas''" "host_of ''nas'' = ''nas''" by code_simp+
  have host: "\<not> loopback_name ''nas''" "literal_address ''nas'' = None" by code_simp+
  have addr: "address_refusal (V4 3232235527) = []" by (simp add: address_refusal_def carried_def clear_host_def)
  have "check_host lan True ''nas'' port g = (Inr [], g\<lparr>events := events g @ [Answer ''nas'' [V4 3232235527]]\<rparr>)" for port and g :: "nat guard"
    by (simp add: check_host_def host bindM_def ask_def lan_def addr)
  then have c: "check_url lan [] True u g = (Inr [], g\<lparr>events := events g @ [Answer ''nas'' [V4 3232235527]]\<rparr>)"
    if "u \<in> {''http://NAS/print'', ''http://nas/status''}" for u and g :: "nat guard"
    using that by (auto simp: check_url_def URL_MAX_def urls)
  have "?run = (Inr (200, 5), \<lparr>outside = 2, events = [Answer ''nas'' [V4 3232235527], Opened ''POST'' ''http://NAS/print'' (Some ''x''),
      Answer ''nas'' [V4 3232235527], Opened ''GET'' ''http://nas/status'' None]\<rparr>)"
  proof -
    have send: "send_request lan m u d g = (Inr (if outside g = 0 then Http_error 302 (Some ''/status'') else Status 200 5),
        g\<lparr>outside := Suc (outside g), events := events g @ [Opened m u d]\<rparr>)" for m u d g
      by (simp add: send_request_def lan_def)
    have join: "urljoin lan u ''/status'' = Inr ''http://nas/status''" for u by (simp add: lan_def)
    have "map upper_char ''post'' = ''POST''" by code_simp
    moreover have "map_option (take BODY_MAX) (Some ''x'') = Some ''x''" by (simp add: BODY_MAX_def)
    moreover have "MAX_REDIRECTS = Suc (Suc 1)" by (simp add: MAX_REDIRECTS_def)
    ultimately have "fetch lan [] ''post'' ''http://NAS/print'' (Some ''x'') =
        fetch_hops (Suc (Suc 1)) lan [] ''POST'' ''http://NAS/print'' (Some ''x'')"
      by (simp only: fetch_def Let_def if_True refl)
    then show ?thesis
      by (simp add: hop_def answered_def redirect_codes_def c bindM_def send join)
  qed
  then have res: "fst ?run = Inr (200, 5)" and two: "length (filter opened (events (snd ?run))) = 2" by simp_all
  have "?run = (fst ?run, snd ?run)" by simp
  from fetch_is_guarded [OF this] two res show ?thesis by (intro exI [of _ "snd ?run"]) (auto simp: prod_eq_iff)
qed

text \<open>A redirect that \<^verbatim>\<open>urljoin\<close> cannot read leaves as its \<^verbatim>\<open>ValueError\<close>, which the caller does not expect.\<close>

lemma bad_redirect_escapes:
  assumes "check_url n allow True url g = (Inr [], g1)" and "open_url n verb url data (outside g1) = (Http_error code (Some l), w)"
    and "code \<in> set redirect_codes" and "l \<noteq> []" and "urljoin n url l = Inl (ValueError e)"
  shows "fst (fetch_hops (Suc k) n allow verb url data g) = Inl (ValueError e)"
  using assms by (simp add: hop_def bindM_run [where m = "check_url n allow True url"] bindM_def send_request_def answered_def)

end
