(* ===== verification/Spec2Isabelle.thy ===== *)
theory Spec2Isabelle
  imports Mercury Profiles Link Modbus_Tcp Module_Rules Mstp Gateway Gateway_Port Broker Package Flash_Wb Flash_Time Flash_Cancel
    Jobs Firmware Rules_Budget Rules_Events Http_Guard
begin

text \<open>
  A verification library of the software of the SA-02m controller (the Python packages under \<^verbatim>\<open>opt/\<close>).

  \<^bold>\<open>The program.\<close>  The controller is a gateway in a cabinet: field buses on its UARTs, services that read
  meters, flash modules and lend the buses to network clients, an engine that runs the rules of the house, and an
  updater.  Six parts of it carry logic of their own and are modelled here; each is a client of the wire formats below
  it, and all services that want a UART go through the port broker.

  \<^item> The meter client \<^verbatim>\<open>opt/sa02m-spodes\<close>: a DLMS/COSEM session over HDLC or the TCP wrapper.
    \<open>Hdlc\<close> (frames, \<^verbatim>\<open>hdlc.py\<close>), \<open>Wrapper\<close> (\<^verbatim>\<open>wrapper.py\<close>), \<open>Axdr\<close> (values, \<^verbatim>\<open>axdr.py\<close>), \<open>Acse\<close> (association,
    \<^verbatim>\<open>acse.py\<close>), \<open>Xdlms\<close> (services, \<^verbatim>\<open>xdlms.py\<close>), \<open>Security\<close> (protection of APDUs, \<^verbatim>\<open>security.py\<close>), \<open>Session\<close>
    (class \<^verbatim>\<open>ClientSession\<close> of \<^verbatim>\<open>session.py\<close>: its record is the object, its methods are the \<open>session_\<close> procedures),
    \<open>Link\<close> (the three transports, \<^verbatim>\<open>link.py\<close>), \<open>Obis\<close>, \<open>Profiles\<close>, \<open>Mercury\<close> (catalogue, load profiles, roles).
  \<^item> The flasher \<^verbatim>\<open>opt/sa02m-flasher\<close>: \<open>Modbus_Rtu\<close>, \<open>Modbus_Tcp\<close>, \<open>Mstp\<close> (\<^verbatim>\<open>modbus_rtu.py\<close>, \<^verbatim>\<open>modbus_tcp.py\<close>,
    \<^verbatim>\<open>bacnet_mstp.py\<close>), \<open>Module_Rules\<close> and \<open>Signatures\<close> (which firmware a module takes), \<open>Firmware\<close> and \<open>Flash_Image\<close>
    (files and images), \<open>Flash_Protocol\<close> and \<open>Flash_Run\<close> (class \<^verbatim>\<open>FlasherProtocol\<close> of \<^verbatim>\<open>flash_protocol.py\<close>: its
    exchanges and its five sequences), \<open>Flash_Cancel\<close> (the exchange of \<^verbatim>\<open>runner.py\<close>), \<open>Jobs\<close> (\<^verbatim>\<open>jobs.py\<close>).
  \<^item> The serial gateway \<^verbatim>\<open>opt/sa02m-serial-gateway/serial_gateway.py\<close>: \<open>Gateway_Frames\<close> (the RS-485 side), \<open>Gateway\<close>
    (its TCP clients), \<open>Ip_Access\<close> (who may connect), \<open>Gateway_Port\<close> (lease, device and server of a port).
  \<^item> The port broker \<^verbatim>\<open>opt/sa02m-port-coordinator/sa02m_ports/broker.py\<close>: \<open>Broker\<close>, leases and the journal of
    the units it stopped, with crashes between any two steps.
  \<^item> The updater \<^verbatim>\<open>opt/sa02m-update/lib\<close>: \<open>Semver\<close>, \<open>Manifest\<close> and \<open>Package\<close> (\<^verbatim>\<open>semver.py\<close>,
    \<^verbatim>\<open>validate_package.py\<close>).
  \<^item> The rules engine \<^verbatim>\<open>opt/sa02m-rules/sa02m_rules\<close>: \<open>Rules_Values\<close> (readings and comparisons), \<open>Rules_Core\<close>
    (the record \<open>engine\<close> is class \<^verbatim>\<open>Engine\<close> of \<^verbatim>\<open>engine.py\<close>; timers, writes, ramps), \<open>Rules_Run\<close> (\<^verbatim>\<open>_dispatch\<close>,
    \<^verbatim>\<open>_run\<close>, \<^verbatim>\<open>_exec\<close>, \<^verbatim>\<open>set_home_mode\<close>), \<open>Rules_Engine\<close> (readings, buttons, requests, \<^verbatim>\<open>tick\<close>, \<^verbatim>\<open>_adopt\<close>),
    \<open>Rules_Events\<close> (histories, and class \<^verbatim>\<open>LogicRuntime\<close>, through which the logic templates act), \<open>Http_Guard\<close>
    (\<^verbatim>\<open>http_guard.py\<close>).
\<close>

text \<open>
  \<^bold>\<open>How the code is written here.\<close>  \<open>Prelude\<close> has bytes, results and exceptions (one constructor of \<open>exn\<close> a class),
  \<open>Text\<close> has splitting and numbers, \<open>Crc\<close> the check sums, \<open>Codec\<close> the interfaces of parsers and codecs.  \<open>Effect\<close> has
  the state-and-exception procedures: a method is a function from the object to a result and the object left behind, also
  when it raises.  Operating system, line, clock, network and operator are a world \<open>'w\<close> behind the functions that ask
  it, so a theorem holds for every behaviour of theirs that its hypotheses allow.  Floats are rationals, or the pair of an
  integer and a power of ten where only that is printed.

  \<^bold>\<open>Interfaces.\<close>  \<open>stream_parser\<close>, \<open>prefix_parser\<close> and \<open>codec\<close> are instantiated by the frames and the value
  encodings; \<open>check_step\<close> and \<open>check_burst\<close> by the four check sums; \<open>length_prefix\<close> by the framings of the gateway;
  \<open>framed_transport\<close> with its two extensions by the transports; \<open>session_inv\<close> by the gate of the flasher;
  \<open>engine_inv\<close> by the window of writes, the rate of writes and the generations of the timers of the rules engine.  The
  lemmas proved inside them are what the properties rest on.

  \<^bold>\<open>What the groups of lemmas show.\<close>
  \<^item> Meter client: frames, values and blocks are read back as they were sent; a damaged frame is rejected; every session
    reachable over any transport is well-formed, associated only by an accepting answer, and takes only answers its
    security context accepts; a reading gives the value the meter sent.
  \<^item> Flasher: a reported success leaves the padded image in the device (\<open>Flash_Device\<close>), a cancelled sequence has erased
    nothing (\<open>Flash_Safety\<close>), every sequence ends (\<open>Flash_Time\<close>); what the tolerant Wiren Board loop may lose
    (\<open>Flash_Wb\<close>); one active job a port in every interleaving (\<open>Jobs\<close>).
  \<^item> Gateway and broker: each request reaches the line once and its answer the client; a UART is leased, opened,
    served, closed and released in this order, whatever fails; no UART is leased twice, and whatever was stopped is in
    the journal at every instant and comes back.
  \<^item> Updater: an accepted package is signed, hashes to its manifest, deploys inside the allow-list, and its archives
    stay inside their limits.
  \<^item> Rules: \<open>Rules_Budget\<close> shows what one run may do, with its nested scenarios and its delays; \<open>Rules_Inv\<close> and
    \<open>Rules_Events\<close> show, for every history of readings, requests, ticks and new documents and every logic template that
    keeps to its runtime, the bound on the rate of commands, and that superseded timers never fire; \<open>Http_Guard\<close> shows
    which addresses a scenario can reach.
\<close>

text \<open>
  \<^bold>\<open>Bounds.\<close>  Loops over data are structural recursion.  Two loops of the flasher wait by the clock: they get
  \<open>ms div 120 + 3\<close> and 85 passes, and \<open>Flash_Time\<close> shows that with a running clock these are never used up.  The loop over
  the actions of a run gets \<open>EXEC_TURNS = 64\<close> turns; \<open>Rules_Budget.exec_turns\<close> shows that more change nothing.  The
  decoder of values and the change of the home mode call themselves: both get the number of frames the interpreter
  allows, and both can use it up, which is shown for every number.  A tick takes at most the given number of timers;
  what is shown of it holds for every number, and that a tick ends is not claimed.  The loop over the blocks of a reading
  has no bound in the code, and \<open>Session.get_without_bound\<close> shows the meter that makes use of it.

  \<^bold>\<open>Parameters.\<close>  AES-GCM and Ed25519 (package \<^verbatim>\<open>cryptography\<close>), \<^verbatim>\<open>json\<close>, \<^verbatim>\<open>tarfile\<close>, \<^verbatim>\<open>hashlib\<close>, the
  resolver, the HTTP opener and \<^verbatim>\<open>urljoin\<close>, the position of the sun, and the sandbox of scripts.  Hypotheses on them
  state documented behaviour and are met by a concrete instance in the witness of the theorem.

  \<^bold>\<open>Not modelled.\<close>  Device tables (generated data); the polling bridge to MQTT, the voice, home and cloud
  services, the LED, CAREL, OPC UA and SNMP bridges (web services and glue around third-party packages); of the flasher
  its HTTP service, the bus scanner and the configuration pages; of the gateway its transparent mode and its
  configuration watcher; of the updater unpacking, backup and rollback; of the rules the MQTT service, the
  validation of documents (the model starts from the rows it leaves), the journal files, the decisions of the logic
  templates (any program over their runtime stands for them) and the sandbox; log texts, reports and scripts everywhere.
  Strings are ASCII.
\<close>

end
